(* ===== verification/FISim_Prelude.thy ===== *)
theory FISim_Prelude
  imports Main "HOL-Library.Word" "HOL-Library.Monad_Syntax"
begin

text \<open>
  Shared vocabulary of the development: the machine integers of the C++ sources, the
  collections the component proofs draw on, and the generic facts about bytes, options,
  lists and maps.

  A run of the simulator can stop abnormally: \<^verbatim>\<open>NS_ASSERT\<close> and
  \<^verbatim>\<open>NS_FATAL_ERROR\<close> terminate the process, standard containers throw, and a
  null pointer, an access outside a buffer or a shift by the width of a word is undefined.
  Byte-level code returns an
  \<open>option\<close> (\<open>None\<close> is such a stop); the handlers of the components return a
  sum whose left side names the kind of stop (\<open>Unfinished\<close> is a loop over random draws that
  has not ended within the draws supplied).
\<close>

unbundle bit_operations_syntax

named_theorems wire_simps \<open>byte images of the primitive writers and readers\<close>
named_theorems inv_intros \<open>introduction rules for component invariants\<close>

section \<open>Machine integers\<close>

type_synonym u8 = "8 word"
type_synonym u16 = "16 word"
type_synonym u32 = "32 word"
type_synonym u64 = "64 word"

text \<open>Identifiers of \<^verbatim>\<open>cybertwin-common.h\<close>.\<close>

type_synonym CYBERTWINID_t = u64
type_synonym MP_CONN_ID_t = u64
type_synonym MP_CONN_KEY_t = u32
type_synonym MP_PATH_ID_t = u32
type_synonym QUERY_ID_t = u32

section \<open>Abnormal stops\<close>

datatype fault =
    AssertFailed
  | FatalError
  | OutOfRange
  | RuntimeError
  | InvalidArgument
  | Undefined
  | NullPointer
  | BadBuffer
  | Unfinished

type_synonym 'a outcome = "fault + 'a"

definition require :: "bool \<Rightarrow> fault \<Rightarrow> 'a outcome \<Rightarrow> 'a outcome" where
  "require b e k = (if b then k else Inl e)"

definition from_option :: "fault \<Rightarrow> 'a option \<Rightarrow> ('a \<Rightarrow> 'b outcome) \<Rightarrow> 'b outcome" where
  "from_option e m k = (case m of None \<Rightarrow> Inl e | Some x \<Rightarrow> k x)"

definition then_do :: "'a outcome \<Rightarrow> ('a \<Rightarrow> 'b outcome) \<Rightarrow> 'b outcome" where
  "then_do m k = (case m of Inl e \<Rightarrow> Inl e | Inr x \<Rightarrow> k x)"

lemma require_simps [simp]:
  "require True e k = k"
  "require False e k = Inl e"
  by (simp_all add: require_def)

lemma require_Inr [simp]: "require b e k = Inr x \<longleftrightarrow> b \<and> k = Inr x"
  by (simp add: require_def)

lemma from_option_simps [simp]:
  "from_option e (Some x) k = k x"
  "from_option e None k = Inl e"
  by (simp_all add: from_option_def)

lemma from_option_Inr [simp]:
  "from_option e m k = Inr y \<longleftrightarrow> (\<exists>x. m = Some x \<and> k x = Inr y)"
  by (cases m) auto

lemma then_do_simps [simp]:
  "then_do (Inr x) k = k x"
  "then_do (Inl e) k = Inl e"
  by (simp_all add: then_do_def)

lemma then_do_Inr [simp]:
  "then_do m k = Inr y \<longleftrightarrow> (\<exists>x. m = Inr x \<and> k x = Inr y)"
  by (cases m) auto

section \<open>IPv4 addresses\<close>

text \<open>
  \<^verbatim>\<open>ns3::Ipv4Address\<close> carries an initialisation flag besides the 32-bit value; the
  default constructor stores the marker \<open>0x66666666\<close>, not zero, and comparison ignores
  the flag.
\<close>

datatype Ipv4Address = MkIpv4 (m_address: u32) (m_initialized: bool)

definition UNINITIALIZED :: u32 where
  "UNINITIALIZED = 0x66666666"

definition Ipv4Address_default :: Ipv4Address where
  "Ipv4Address_default = MkIpv4 UNINITIALIZED False"

definition Ipv4Address_of :: "u32 \<Rightarrow> Ipv4Address" where
  "Ipv4Address_of a = MkIpv4 a True"

definition Ipv4Address_GetZero :: Ipv4Address where
  "Ipv4Address_GetZero = Ipv4Address_of 0"

definition ipv4_eq :: "Ipv4Address \<Rightarrow> Ipv4Address \<Rightarrow> bool" where
  "ipv4_eq a b = (m_address a = m_address b)"

type_synonym CYBERTWIN_INTERFACE_t = "Ipv4Address \<times> u16"
type_synonym CYBERTWIN_INTERFACE_LIST_t = "CYBERTWIN_INTERFACE_t list"

text \<open>Equality of interface lists is the element-wise \<^verbatim>\<open>operator==\<close> of the pairs.\<close>

definition interfaces_eq ::
  "CYBERTWIN_INTERFACE_LIST_t \<Rightarrow> CYBERTWIN_INTERFACE_LIST_t \<Rightarrow> bool" where
  "interfaces_eq xs ys = list_all2 (\<lambda>a b. ipv4_eq (fst a) (fst b) \<and> snd a = snd b) xs ys"

lemma default_not_zero [simp]: "\<not> ipv4_eq Ipv4Address_default Ipv4Address_GetZero"
  by (simp add: ipv4_eq_def Ipv4Address_default_def Ipv4Address_GetZero_def
      Ipv4Address_of_def UNINITIALIZED_def)

lemma ipv4_eq_refl [simp]: "ipv4_eq a a"
  by (simp add: ipv4_eq_def)

lemma interfaces_eq_refl [simp]: "interfaces_eq xs xs"
  by (simp add: interfaces_eq_def list_all2_refl)

section \<open>Bytes of words\<close>

text \<open>
  \<open>byte_at k x\<close> is \<^verbatim>\<open>(x >> k) & 0xff\<close> stored in a \<^verbatim>\<open>uint8_t\<close>;
  \<open>shl8_or r b\<close> is \<^verbatim>\<open>r <<= 8; r |= b\<close>.
\<close>

definition byte_at :: "nat \<Rightarrow> 'a::len word \<Rightarrow> u8" where
  "byte_at k x = ucast (drop_bit k x AND 0xff)"

definition shl8_or :: "'a::len word \<Rightarrow> u8 \<Rightarrow> 'a word" where
  "shl8_or r b = push_bit 8 r OR ucast b"

lemma bit_byte_at: "bit (byte_at k x) n \<longleftrightarrow> n < 8 \<and> bit x (k + n)"
proof -
  have "(0xff::'a::len word) = mask 8"
    by (simp add: mask_eq_exp_minus_1)
  then have "byte_at k x = ucast (take_bit 8 (drop_bit k x))"
    by (simp only: byte_at_def flip: take_bit_eq_mask)
  then show ?thesis
    by (auto simp: bit_simps dest: bit_imp_le_length)
qed

lemma bit_shl8_or:
  "bit (shl8_or r b :: 'a::len word) n \<longleftrightarrow>
     n < LENGTH('a) \<and> (if n < 8 then bit b n else bit r (n - 8))"
  by (auto simp: shl8_or_def bit_simps dest: bit_imp_le_length)

lemmas byte_bits = bit_shl8_or bit_byte_at

lemma bytes16 [wire_simps]:
  "shl8_or (shl8_or 0 (byte_at 8 (x::u16))) (byte_at 0 x) = x"
  by (rule bit_word_eqI) (auto simp: byte_bits)

lemma bytes32 [wire_simps]:
  "shl8_or (shl8_or (shl8_or (shl8_or 0 (byte_at 24 (x::u32))) (byte_at 16 x)) (byte_at 8 x))
     (byte_at 0 x) = x"
  by (rule bit_word_eqI) (auto simp: byte_bits)

lemma bytes64 [wire_simps]:
  "shl8_or (shl8_or (shl8_or (shl8_or (shl8_or (shl8_or (shl8_or (shl8_or 0
     (byte_at 56 (x::u64))) (byte_at 48 x)) (byte_at 40 x)) (byte_at 32 x))
     (byte_at 24 x)) (byte_at 16 x)) (byte_at 8 x)) (byte_at 0 x) = x"
  by (rule bit_word_eqI) (auto simp: byte_bits)

lemma shl8_or_zero: "shl8_or 0 (b :: u8) = (ucast b :: 'a::len word)"
  by (simp add: shl8_or_def)

section \<open>Lists and maps\<close>

lemma length_take_drop [simp]: "length (take n xs) + length (drop n xs) = length xs"
  by simp

lemma list_all2_eq_length: "list_all2 P xs ys \<Longrightarrow> length xs = length ys"
  by (rule list_all2_lengthD)

lemma unat_of_nat_u16: "n < 65536 \<Longrightarrow> unat (of_nat n :: u16) = n"
  by (simp add: unat_of_nat)

lemma unat_of_nat_u8: "n < 256 \<Longrightarrow> unat (of_nat n :: u8) = n"
  by (simp add: unat_of_nat)

lemma unat_of_nat_u32: "n < 4294967296 \<Longrightarrow> unat (of_nat n :: u32) = n"
  by (simp add: unat_of_nat)

lemmas unat_small = unat_of_nat_u8 unat_of_nat_u16 unat_of_nat_u32

text \<open>\<^verbatim>\<open>operator[]\<close> of an associative container inserts a default value.\<close>

definition map_get_or :: "'v \<Rightarrow> ('k \<rightharpoonup> 'v) \<Rightarrow> 'k \<Rightarrow> 'v \<times> ('k \<rightharpoonup> 'v)" where
  "map_get_or d m k = (case m k of Some v \<Rightarrow> (v, m) | None \<Rightarrow> (d, m(k \<mapsto> d)))"

lemma map_get_or_Some [simp]: "m k = Some v \<Longrightarrow> map_get_or d m k = (v, m)"
  by (simp add: map_get_or_def)

lemma map_get_or_None [simp]: "m k = None \<Longrightarrow> map_get_or d m k = (d, m(k \<mapsto> d))"
  by (simp add: map_get_or_def)

lemma dom_map_get_or: "dom (snd (map_get_or d m k)) = insert k (dom m)"
  by (auto simp: map_get_or_def split: option.splits)

section \<open>Tables addressed by name\<close>

text \<open>
  What the name resolution cache, the content prefix table and the node tables promise their
  clients: an entry that was inserted is found again, up to the value comparison
  \<open>agree\<close> the table uses, and the other entries stay.
\<close>

locale name_store =
  fixes lookup :: "'s \<Rightarrow> 'k \<Rightarrow> 'v option"
    and insert :: "'k \<Rightarrow> 'v \<Rightarrow> 's \<Rightarrow> 's"
    and agree :: "'v \<Rightarrow> 'v \<Rightarrow> bool"
  assumes agree_refl: "agree v v"
    and agree_trans: "agree u v \<Longrightarrow> agree v w \<Longrightarrow> agree u w"
    and agree_sym: "agree u v \<Longrightarrow> agree v u"
    and lookup_insert: "\<exists>w. lookup (insert k v s) k = Some w \<and> agree w v"
    and lookup_other: "j \<noteq> k \<Longrightarrow> lookup (insert k v s) j = lookup s j"
begin

lemma lookup_insert_iff:
  "rel_option agree (lookup (insert k v s) j) (if j = k then Some v else lookup s j)"
  using lookup_insert [of k v s] lookup_other [of j k v s] agree_refl
  by (auto intro: option.rel_refl)

lemma lookup_insert_twice:
  "rel_option agree (lookup (insert k v (insert k u s)) j) (if j = k then Some v else lookup s j)"
  using lookup_insert_iff [of k v "insert k u s" j] lookup_other [of j k u s]
  by (cases "j = k") simp_all

lemma lookup_fold_other:
  assumes "k \<notin> fst ` set l"
  shows "lookup (fold (\<lambda>(k, v). insert k v) l s) k = lookup s k"
  using assms by (induction l arbitrary: s) (auto simp: lookup_other)

lemma lookup_fold:
  assumes "distinct (map fst l)" and "(k, v) \<in> set l"
  shows "\<exists>w. lookup (fold (\<lambda>(k, v). insert k v) l s) k = Some w \<and> agree w v"
  using assms
proof (induction l arbitrary: s)
  case Nil
  then show ?case by simp
next
  case (Cons a l)
  show ?case
  proof (cases "a = (k, v)")
    case True
    with Cons(2) have "k \<notin> fst ` set l"
      by auto
    with True show ?thesis
      using lookup_insert by (simp add: lookup_fold_other)
  next
    case False
    with Cons show ?thesis by simp
  qed
qed

end

section \<open>Reachable states\<close>

text \<open>
  The states a component can get into, and the contract of an invariant: it holds at the start
  and every step keeps it.
\<close>

inductive reaches :: "('s \<Rightarrow> bool) \<Rightarrow> ('s \<Rightarrow> 's \<Rightarrow> bool) \<Rightarrow> 's \<Rightarrow> bool" for initial step where
  reaches_initial: "initial s \<Longrightarrow> reaches initial step s"
| reaches_step: "reaches initial step s \<Longrightarrow> step s s' \<Longrightarrow> reaches initial step s'"

locale invariant_system =
  fixes initial :: "'s \<Rightarrow> bool"
    and step :: "'s \<Rightarrow> 's \<Rightarrow> bool"
    and inv :: "'s \<Rightarrow> bool"
  assumes inv_initial: "initial s \<Longrightarrow> inv s"
    and inv_step: "inv s \<Longrightarrow> step s s' \<Longrightarrow> inv s'"
begin

lemma reaches_inv: "reaches initial step s \<Longrightarrow> inv s"
  by (induction rule: reaches.induct) (auto intro: inv_initial inv_step)

lemma steps_inv: "step\<^sup>*\<^sup>* s s' \<Longrightarrow> inv s \<Longrightarrow> inv s'"
  by (induction rule: rtranclp_induct) (auto intro: inv_step)

end

section \<open>Sequences of fallible steps\<close>

fun each :: "('a \<Rightarrow> 's \<Rightarrow> 's outcome) \<Rightarrow> 'a list \<Rightarrow> 's \<Rightarrow> 's outcome" where
  "each f [] st = Inr st"
| "each f (x # xs) st = then_do (f x st) (each f xs)"

lemma each_append [simp]: "each f (xs @ ys) st = then_do (each f xs st) (each f ys)"
  by (induction xs arbitrary: st) (auto simp: then_do_def split: sum.splits)

lemma each_inv:
  assumes "each f xs st = Inr st'" and "P st"
    and "\<And>x st st'. x \<in> set xs \<Longrightarrow> P st \<Longrightarrow> f x st = Inr st' \<Longrightarrow> P st'"
  shows "P st'"
  using assms by (induction xs arbitrary: st) auto

text \<open>
  An allocator of unique resources: what is reserved was free and is taken from then on.
\<close>

locale unique_allocator =
  fixes ok :: "'s \<Rightarrow> bool"
    and taken :: "'s \<Rightarrow> 'a set"
    and reserve :: "'a \<Rightarrow> 's \<Rightarrow> 's outcome"
  assumes reserve_ok: "ok s \<Longrightarrow> reserve a s = Inr s' \<Longrightarrow> ok s'"
    and reserve_free: "ok s \<Longrightarrow> reserve a s = Inr s' \<Longrightarrow> a \<notin> taken s"
    and reserve_taken: "ok s \<Longrightarrow> reserve a s = Inr s' \<Longrightarrow> taken s' = insert a (taken s)"
begin

lemma reserve_all:
  assumes "ok s" and "each reserve as s = Inr s'"
  shows "ok s' \<and> distinct as \<and> set as \<inter> taken s = {} \<and> taken s' = set as \<union> taken s"
  using assms
proof (induction as arbitrary: s)
  case Nil
  then show ?case by simp
next
  case (Cons a as)
  then obtain s1 where s1: "reserve a s = Inr s1" "each reserve as s1 = Inr s'"
    by auto
  with Cons.IH [of s1] Cons.prems(1) reserve_ok reserve_free reserve_taken show ?case
    by fastforce
qed

end

end
