(* ===== verification/Wire.thy ===== *)
theory Wire
  imports FISim_Prelude
begin

text \<open>
  The byte layer the protocol headers and packet tags are written through:
  \<^verbatim>\<open>Buffer::Iterator\<close> (network order), \<^verbatim>\<open>TagBuffer\<close> (little endian)
  and the header operations of \<^verbatim>\<open>Packet\<close>.

  A writing cursor is the pair of the bytes behind it and the cells ahead of it that may be
  written; a reading cursor is the list of the bytes ahead.  \<open>None\<close> means that the cursor
  leaves the data, where the iterator asserts or the access is undefined.  The two locales
  state what a field and a header promise; the round-trip facts are proved once in them.
\<close>

type_synonym writer = "u8 list \<times> u8 list"
type_synonym reader = "u8 list"

section \<open>Buffer iterator\<close>

fun WriteU8 :: "u8 \<Rightarrow> writer \<Rightarrow> writer option" where
  "WriteU8 v (behind, []) = None"
| "WriteU8 v (behind, c # cs) = Some (behind @ [v], cs)"

definition WriteHtonU16 :: "u16 \<Rightarrow> writer \<Rightarrow> writer option" where
  "WriteHtonU16 data w = do {
     w \<leftarrow> WriteU8 (byte_at 8 data) w;
     WriteU8 (byte_at 0 data) w }"

definition WriteHtonU32 :: "u32 \<Rightarrow> writer \<Rightarrow> writer option" where
  "WriteHtonU32 data w = do {
     w \<leftarrow> WriteU8 (byte_at 24 data) w;
     w \<leftarrow> WriteU8 (byte_at 16 data) w;
     w \<leftarrow> WriteU8 (byte_at 8 data) w;
     WriteU8 (byte_at 0 data) w }"

definition WriteHtonU64 :: "u64 \<Rightarrow> writer \<Rightarrow> writer option" where
  "WriteHtonU64 data w = do {
     w \<leftarrow> WriteU8 (byte_at 56 data) w;
     w \<leftarrow> WriteU8 (byte_at 48 data) w;
     w \<leftarrow> WriteU8 (byte_at 40 data) w;
     w \<leftarrow> WriteU8 (byte_at 32 data) w;
     w \<leftarrow> WriteU8 (byte_at 24 data) w;
     w \<leftarrow> WriteU8 (byte_at 16 data) w;
     w \<leftarrow> WriteU8 (byte_at 8 data) w;
     WriteU8 (byte_at 0 data) w }"

fun Buffer_Write :: "u8 list \<Rightarrow> writer \<Rightarrow> writer option" where
  "Buffer_Write [] w = Some w"
| "Buffer_Write (b # bs) w = do { w \<leftarrow> WriteU8 b w; Buffer_Write bs w }"

fun ReadU8 :: "reader \<Rightarrow> (u8 \<times> reader) option" where
  "ReadU8 [] = None"
| "ReadU8 (b # r) = Some (b, r)"

definition ReadNtohU16 :: "reader \<Rightarrow> (u16 \<times> reader) option" where
  "ReadNtohU16 r = do {
     (b0, r) \<leftarrow> ReadU8 r;
     (b1, r) \<leftarrow> ReadU8 r;
     Some (shl8_or (shl8_or 0 b0) b1, r) }"

definition ReadNtohU32 :: "reader \<Rightarrow> (u32 \<times> reader) option" where
  "ReadNtohU32 r = do {
     (b0, r) \<leftarrow> ReadU8 r;
     (b1, r) \<leftarrow> ReadU8 r;
     (b2, r) \<leftarrow> ReadU8 r;
     (b3, r) \<leftarrow> ReadU8 r;
     Some (shl8_or (shl8_or (shl8_or (shl8_or 0 b0) b1) b2) b3, r) }"

definition ReadNtohU64 :: "reader \<Rightarrow> (u64 \<times> reader) option" where
  "ReadNtohU64 r = do {
     (b0, r) \<leftarrow> ReadU8 r;
     (b1, r) \<leftarrow> ReadU8 r;
     (b2, r) \<leftarrow> ReadU8 r;
     (b3, r) \<leftarrow> ReadU8 r;
     (b4, r) \<leftarrow> ReadU8 r;
     (b5, r) \<leftarrow> ReadU8 r;
     (b6, r) \<leftarrow> ReadU8 r;
     (b7, r) \<leftarrow> ReadU8 r;
     Some (shl8_or (shl8_or (shl8_or (shl8_or (shl8_or (shl8_or (shl8_or (shl8_or 0
       b0) b1) b2) b3) b4) b5) b6) b7, r) }"

fun Buffer_Read :: "nat \<Rightarrow> reader \<Rightarrow> (u8 list \<times> reader) option" where
  "Buffer_Read 0 r = Some ([], r)"
| "Buffer_Read (Suc n) r = do {
     (b, r) \<leftarrow> ReadU8 r;
     (bs, r) \<leftarrow> Buffer_Read n r;
     Some (b # bs, r) }"

section \<open>Tag buffer\<close>

definition TagBuffer_WriteU16 :: "u16 \<Rightarrow> writer \<Rightarrow> writer option" where
  "TagBuffer_WriteU16 data w = do {
     w \<leftarrow> WriteU8 (byte_at 0 data) w;
     WriteU8 (byte_at 8 data) w }"

definition TagBuffer_WriteU32 :: "u32 \<Rightarrow> writer \<Rightarrow> writer option" where
  "TagBuffer_WriteU32 data w = do {
     w \<leftarrow> WriteU8 (byte_at 0 data) w;
     w \<leftarrow> WriteU8 (byte_at 8 data) w;
     w \<leftarrow> WriteU8 (byte_at 16 data) w;
     WriteU8 (byte_at 24 data) w }"

definition TagBuffer_WriteU64 :: "u64 \<Rightarrow> writer \<Rightarrow> writer option" where
  "TagBuffer_WriteU64 data w = do {
     w \<leftarrow> WriteU8 (byte_at 0 data) w;
     w \<leftarrow> WriteU8 (byte_at 8 data) w;
     w \<leftarrow> WriteU8 (byte_at 16 data) w;
     w \<leftarrow> WriteU8 (byte_at 24 data) w;
     w \<leftarrow> WriteU8 (byte_at 32 data) w;
     w \<leftarrow> WriteU8 (byte_at 40 data) w;
     w \<leftarrow> WriteU8 (byte_at 48 data) w;
     WriteU8 (byte_at 56 data) w }"

definition TagBuffer_ReadU16 :: "reader \<Rightarrow> (u16 \<times> reader) option" where
  "TagBuffer_ReadU16 r = do {
     (b0, r) \<leftarrow> ReadU8 r;
     (b1, r) \<leftarrow> ReadU8 r;
     Some (shl8_or (ucast b1) b0, r) }"

definition TagBuffer_ReadU32 :: "reader \<Rightarrow> (u32 \<times> reader) option" where
  "TagBuffer_ReadU32 r = do {
     (b0, r) \<leftarrow> ReadU8 r;
     (b1, r) \<leftarrow> ReadU8 r;
     (b2, r) \<leftarrow> ReadU8 r;
     (b3, r) \<leftarrow> ReadU8 r;
     Some (shl8_or (shl8_or (shl8_or (ucast b3) b2) b1) b0, r) }"

definition TagBuffer_ReadU64 :: "reader \<Rightarrow> (u64 \<times> reader) option" where
  "TagBuffer_ReadU64 r = do {
     (b0, r) \<leftarrow> ReadU8 r;
     (b1, r) \<leftarrow> ReadU8 r;
     (b2, r) \<leftarrow> ReadU8 r;
     (b3, r) \<leftarrow> ReadU8 r;
     (b4, r) \<leftarrow> ReadU8 r;
     (b5, r) \<leftarrow> ReadU8 r;
     (b6, r) \<leftarrow> ReadU8 r;
     (b7, r) \<leftarrow> ReadU8 r;
     Some (shl8_or (shl8_or (shl8_or (shl8_or (shl8_or (shl8_or (shl8_or (ucast b7)
       b6) b5) b4) b3) b2) b1) b0, r) }"

section \<open>Packets\<close>

text \<open>
  A packet holds real bytes followed by a zero area of virtual payload
  (\<^verbatim>\<open>Create<Packet>(n)\<close>), which the iterator refuses to overwrite.
\<close>

datatype packet = Packet (pk_real: "u8 list") (pk_zero: nat)

definition Create_Packet :: "nat \<Rightarrow> packet" where
  "Create_Packet n = Packet [] n"

definition Create_Packet_data :: "u8 list \<Rightarrow> packet" where
  "Create_Packet_data bs = Packet bs 0"

definition pk_bytes :: "packet \<Rightarrow> u8 list" where
  "pk_bytes p = pk_real p @ replicate (pk_zero p) 0"

definition GetSize :: "packet \<Rightarrow> nat" where
  "GetSize p = length (pk_real p) + pk_zero p"

text \<open>
  \<^verbatim>\<open>AddHeader\<close> reserves the header's size in front (\<open>fill\<close> is what the reserved
  memory held) and lets the header serialise itself there.
\<close>

definition AddHeader ::
  "u8 list \<Rightarrow> (writer \<Rightarrow> writer option) \<Rightarrow> packet \<Rightarrow> packet option" where
  "AddHeader fill ser p =
     (case ser ([], fill @ pk_real p) of
        None \<Rightarrow> None
      | Some (behind, ahead) \<Rightarrow> Some (Packet (behind @ ahead) (pk_zero p)))"

definition PeekHeader ::
  "(reader \<Rightarrow> ('h \<times> nat) option) \<Rightarrow> packet \<Rightarrow> ('h \<times> nat) option" where
  "PeekHeader des p = des (pk_bytes p)"

definition RemoveAtStart :: "nat \<Rightarrow> packet \<Rightarrow> packet" where
  "RemoveAtStart n p = Packet (drop n (pk_real p)) (pk_zero p - (n - length (pk_real p)))"

definition RemoveHeader ::
  "(reader \<Rightarrow> ('h \<times> nat) option) \<Rightarrow> packet \<Rightarrow> ('h \<times> packet) option" where
  "RemoveHeader des p = do {
     (h, n) \<leftarrow> des (pk_bytes p);
     Some (h, RemoveAtStart n p) }"

section \<open>Field codecs\<close>

lemma Buffer_Write_eq:
  "Buffer_Write bs (behind, ahead) =
     (if length bs \<le> length ahead then Some (behind @ bs, drop (length bs) ahead) else None)"
proof (induction bs arbitrary: behind ahead)
  case Nil
  then show ?case by simp
next
  case (Cons b bs)
  then show ?case by (cases ahead) auto
qed

lemma Buffer_Write_append:
  "Buffer_Write (xs @ ys) w = do { w \<leftarrow> Buffer_Write xs w; Buffer_Write ys w }"
  by (induction xs arbitrary: w) (auto split: option.splits simp: bind_eq_Some_conv
      Option.bind_eq_None_conv split: Option.bind_splits)

lemma Buffer_Write_two:
  "Option.bind (Buffer_Write xs w) (Buffer_Write ys) = Buffer_Write (xs @ ys) w"
  by (simp add: Buffer_Write_append)

lemma WriteU8_eq: "WriteU8 b = Buffer_Write [b]"
  by (rule ext) (auto split: Option.bind_splits)

lemmas writes_combine = WriteU8_eq Buffer_Write_two append.simps

lemma Buffer_Read_append [simp]: "Buffer_Read (length bs) (bs @ rest) = Some (bs, rest)"
  by (induction bs) auto

text \<open>
  A field codec writes the byte image of a value wherever there is room and reads it back
  from any continuation.
\<close>

locale field_codec =
  fixes wr :: "'a \<Rightarrow> writer \<Rightarrow> writer option"
    and rd :: "reader \<Rightarrow> ('a \<times> reader) option"
    and img :: "'a \<Rightarrow> u8 list"
  assumes wr_img: "wr x w = Buffer_Write (img x) w"
    and rd_img: "rd (img x @ rest) = Some (x, rest)"
begin

lemma img_inj: "img x = img y \<Longrightarrow> x = y"
  using rd_img [of x "[]"] rd_img [of y "[]"] by simp

lemma write_read:
  assumes "wr x ([], ahead) = Some (behind, ahead')"
  shows "rd (behind @ ahead') = Some (x, ahead')"
proof -
  from assms have "behind = img x"
    by (auto simp: wr_img Buffer_Write_eq split: if_splits)
  then show ?thesis
    using rd_img by simp
qed

lemma write_fails_iff: "wr x (behind, ahead) = None \<longleftrightarrow> length ahead < length (img x)"
  by (auto simp: wr_img Buffer_Write_eq)

end

abbreviation img8 :: "u8 \<Rightarrow> u8 list" where "img8 x \<equiv> [x]"

definition be16 :: "u16 \<Rightarrow> u8 list" where
  "be16 x = [byte_at 8 x, byte_at 0 x]"

definition be32 :: "u32 \<Rightarrow> u8 list" where
  "be32 x = [byte_at 24 x, byte_at 16 x, byte_at 8 x, byte_at 0 x]"

definition be64 :: "u64 \<Rightarrow> u8 list" where
  "be64 x = [byte_at 56 x, byte_at 48 x, byte_at 40 x, byte_at 32 x,
             byte_at 24 x, byte_at 16 x, byte_at 8 x, byte_at 0 x]"

lemma length_be [simp]:
  "length (be16 x) = 2" "length (be32 y) = 4" "length (be64 z) = 8"
  by (simp_all add: be16_def be32_def be64_def)

interpretation c8: field_codec WriteU8 ReadU8 img8
  by unfold_locales (auto simp: Option.bind_eq_None_conv split: Option.bind_splits)

interpretation c16: field_codec WriteHtonU16 ReadNtohU16 be16
proof
  show "WriteHtonU16 x w = Buffer_Write (be16 x) w" for x w
    by (simp only: WriteHtonU16_def be16_def writes_combine)
qed (simp add: ReadNtohU16_def be16_def wire_simps)

interpretation c32: field_codec WriteHtonU32 ReadNtohU32 be32
proof
  show "WriteHtonU32 x w = Buffer_Write (be32 x) w" for x w
    by (simp only: WriteHtonU32_def be32_def writes_combine)
qed (simp add: ReadNtohU32_def be32_def wire_simps)

interpretation c64: field_codec WriteHtonU64 ReadNtohU64 be64
proof
  show "WriteHtonU64 x w = Buffer_Write (be64 x) w" for x w
    by (simp only: WriteHtonU64_def be64_def writes_combine)
qed (simp add: ReadNtohU64_def be64_def wire_simps)

interpretation t16: field_codec TagBuffer_WriteU16 TagBuffer_ReadU16 "\<lambda>x. rev (be16 x)"
proof
  show "TagBuffer_WriteU16 x w = Buffer_Write (rev (be16 x)) w" for x w
    by (simp only: TagBuffer_WriteU16_def be16_def writes_combine rev.simps append_assoc)
qed (simp add: TagBuffer_ReadU16_def be16_def bytes16 [unfolded shl8_or_zero])

interpretation t32: field_codec TagBuffer_WriteU32 TagBuffer_ReadU32 "\<lambda>x. rev (be32 x)"
proof
  show "TagBuffer_WriteU32 x w = Buffer_Write (rev (be32 x)) w" for x w
    by (simp only: TagBuffer_WriteU32_def be32_def writes_combine rev.simps append_assoc)
qed (simp add: TagBuffer_ReadU32_def be32_def bytes32 [unfolded shl8_or_zero])

interpretation t64: field_codec TagBuffer_WriteU64 TagBuffer_ReadU64 "\<lambda>x. rev (be64 x)"
proof
  show "TagBuffer_WriteU64 x w = Buffer_Write (rev (be64 x)) w" for x w
    by (simp only: TagBuffer_WriteU64_def be64_def writes_combine rev.simps append_assoc)
qed (simp add: TagBuffer_ReadU64_def be64_def bytes64 [unfolded shl8_or_zero])

lemmas wr_imgs = c8.wr_img c16.wr_img c32.wr_img c64.wr_img t16.wr_img t32.wr_img t64.wr_img
lemmas rd_imgs = c8.rd_img c16.rd_img c32.rd_img c64.rd_img t16.rd_img t32.rd_img t64.rd_img

section \<open>Header codecs\<close>

text \<open>
  The contract of a header class, for the headers that satisfy \<open>ok\<close> (their variable
  parts fit their length fields): serialising writes exactly the image, whose length is the
  announced size, and a fresh header that deserialises any packet starting with the image
  becomes \<open>canon h\<close> and announces the same size.
\<close>

locale header_codec =
  fixes ok :: "'h \<Rightarrow> bool"
    and size :: "'h \<Rightarrow> nat"
    and ser :: "'h \<Rightarrow> writer \<Rightarrow> writer option"
    and des :: "reader \<Rightarrow> ('h \<times> nat) option"
    and img :: "'h \<Rightarrow> u8 list"
    and canon :: "'h \<Rightarrow> 'h"
  assumes ser_img: "ok h \<Longrightarrow> ser h w = Buffer_Write (img h) w"
    and len_img: "ok h \<Longrightarrow> length (img h) = size h"
    and des_img: "ok h \<Longrightarrow> des (img h @ rest) = Some (canon h, size h)"
begin

lemma AddHeader_img:
  assumes "ok h" and "length fill = size h"
  shows "AddHeader fill (ser h) p = Some (Packet (img h @ pk_real p) (pk_zero p))"
  using assms by (simp add: AddHeader_def ser_img len_img Buffer_Write_eq)

lemma pk_bytes_added: "pk_bytes (Packet (img h @ pk_real p) (pk_zero p)) = img h @ pk_bytes p"
  by (simp add: pk_bytes_def)

lemma RemoveAtStart_added:
  assumes "ok h"
  shows "RemoveAtStart (size h) (Packet (img h @ pk_real p) (pk_zero p)) = p"
  using assms by (simp add: RemoveAtStart_def len_img [symmetric])

lemma header_round_trip:
  assumes "ok h" and "length fill = size h"
  obtains q where "AddHeader fill (ser h) p = Some q"
    and "GetSize q = size h + GetSize p"
    and "PeekHeader des q = Some (canon h, size h)"
    and "RemoveHeader des q = Some (canon h, p)"
proof
  let ?q = "Packet (img h @ pk_real p) (pk_zero p)"
  show "AddHeader fill (ser h) p = Some ?q"
    using assms by (rule AddHeader_img)
  show "GetSize ?q = size h + GetSize p"
    using assms by (simp add: GetSize_def len_img)
  show "PeekHeader des ?q = Some (canon h, size h)"
    using assms by (simp add: PeekHeader_def pk_bytes_added des_img)
  show "RemoveHeader des ?q = Some (canon h, p)"
    using assms by (simp add: RemoveHeader_def pk_bytes_added des_img RemoveAtStart_added)
qed

lemma AddHeader_fill_irrelevant:
  assumes "ok h" and "length fill = size h" and "length fill' = size h"
  shows "AddHeader fill (ser h) p = AddHeader fill' (ser h) p"
  using assms by (simp add: AddHeader_img)

end

end
