(* ===== verification/Tags.thy ===== *)
theory Tags
  imports Wire
begin

text \<open>
  The packet tags of \<^verbatim>\<open>cybertwin-tag.{h,cc}\<close> and
  \<^verbatim>\<open>cybertwin-packet-tags.{h,cc}\<close>, and the two operations of
  \<^verbatim>\<open>PacketTagList\<close> they are stored and read with.  A tag list is the list of
  (type id, bytes) from the most recently added tag on.  The tag classes whose serialised
  form fits the announced size interpret \<open>tag_codec\<close>; the two multipath tags do not.
\<close>

section \<open>Tag lists\<close>

type_synonym tag_list = "(string \<times> u8 list) list"

text \<open>
  \<^verbatim>\<open>Add\<close> asserts that the type is new, allocates the announced number of bytes
  (\<open>fill\<close> is their content) and lets the tag serialise itself into them.
\<close>

definition PacketTagList_Add ::
  "string \<Rightarrow> u8 list \<Rightarrow> (writer \<Rightarrow> writer option) \<Rightarrow> tag_list \<Rightarrow> tag_list option" where
  "PacketTagList_Add tid fill ser l =
     (if tid \<in> fst ` set l then None
      else case ser ([], fill) of
             None \<Rightarrow> None
           | Some (behind, ahead) \<Rightarrow> Some ((tid, behind @ ahead) # l))"

fun PacketTagList_Peek ::
  "string \<Rightarrow> (reader \<Rightarrow> 't option) \<Rightarrow> tag_list \<Rightarrow> 't option option" where
  "PacketTagList_Peek tid des [] = Some None"
| "PacketTagList_Peek tid des ((t, bs) # l) =
     (if t = tid then (case des bs of None \<Rightarrow> None | Some x \<Rightarrow> Some (Some x))
      else PacketTagList_Peek tid des l)"

section \<open>Cybertwin tags\<close>

record CybertwinTag =
  tag_cuid :: CYBERTWINID_t

definition CybertwinTag_new :: CybertwinTag where
  "CybertwinTag_new = \<lparr>tag_cuid = 0\<rparr>"

definition CybertwinTag_GetSerializedSize :: "CybertwinTag \<Rightarrow> nat" where
  "CybertwinTag_GetSerializedSize t = 8"

definition CybertwinTag_Serialize :: "CybertwinTag \<Rightarrow> writer \<Rightarrow> writer option" where
  "CybertwinTag_Serialize t i = TagBuffer_WriteU64 (tag_cuid t) i"

definition CybertwinTag_Deserialize :: "CybertwinTag \<Rightarrow> reader \<Rightarrow> CybertwinTag option" where
  "CybertwinTag_Deserialize t i = do {
     (cuid, i) \<leftarrow> TagBuffer_ReadU64 i;
     Some (t\<lparr>tag_cuid := cuid\<rparr>) }"

record CybertwinCreditTag = CybertwinTag +
  credit_credit :: u16
  credit_peer :: CYBERTWINID_t

definition CybertwinCreditTag_new :: CybertwinCreditTag where
  "CybertwinCreditTag_new = \<lparr>tag_cuid = 0, credit_credit = 0, credit_peer = 0\<rparr>"

definition CybertwinCreditTag_GetSerializedSize :: "CybertwinCreditTag \<Rightarrow> nat" where
  "CybertwinCreditTag_GetSerializedSize t = 8 + 2 + 8"

definition CybertwinCreditTag_Serialize :: "CybertwinCreditTag \<Rightarrow> writer \<Rightarrow> writer option" where
  "CybertwinCreditTag_Serialize t i = do {
     i \<leftarrow> TagBuffer_WriteU64 (tag_cuid t) i;
     i \<leftarrow> TagBuffer_WriteU16 (credit_credit t) i;
     TagBuffer_WriteU64 (credit_peer t) i }"

definition CybertwinCreditTag_Deserialize ::
  "CybertwinCreditTag \<Rightarrow> reader \<Rightarrow> CybertwinCreditTag option" where
  "CybertwinCreditTag_Deserialize t i = do {
     (cuid, i) \<leftarrow> TagBuffer_ReadU64 i;
     (credit, i) \<leftarrow> TagBuffer_ReadU16 i;
     (peer, i) \<leftarrow> TagBuffer_ReadU64 i;
     Some (t\<lparr>tag_cuid := cuid, credit_credit := credit, credit_peer := peer\<rparr>) }"

record CybertwinCertTag = CybertwinTag +
  cert_initialCredit :: u16
  cert_ingressCredit :: u16
  cert_isUserRequired :: bool
  cert_isCertValid :: bool
  cert_usr :: CYBERTWINID_t
  cert_usrInitialCredit :: u16

definition CybertwinCertTag_new :: CybertwinCertTag where
  "CybertwinCertTag_new = \<lparr>tag_cuid = 0, cert_initialCredit = 0, cert_ingressCredit = 0,
     cert_isUserRequired = False, cert_isCertValid = False, cert_usr = 0,
     cert_usrInitialCredit = 0\<rparr>"

definition CybertwinCertTag_GetSerializedSize :: "CybertwinCertTag \<Rightarrow> nat" where
  "CybertwinCertTag_GetSerializedSize t =
     8 + 2 + 2 + 1 + 1 + (if cert_isUserRequired t then 8 + 2 else 0)"

definition CybertwinCertTag_Serialize :: "CybertwinCertTag \<Rightarrow> writer \<Rightarrow> writer option" where
  "CybertwinCertTag_Serialize t i = do {
     i \<leftarrow> TagBuffer_WriteU64 (tag_cuid t) i;
     i \<leftarrow> TagBuffer_WriteU16 (cert_initialCredit t) i;
     i \<leftarrow> TagBuffer_WriteU16 (cert_ingressCredit t) i;
     i \<leftarrow> WriteU8 (of_bool (cert_isUserRequired t)) i;
     i \<leftarrow> WriteU8 (of_bool (cert_isCertValid t)) i;
     (if cert_isUserRequired t then do {
        i \<leftarrow> TagBuffer_WriteU64 (cert_usr t) i;
        TagBuffer_WriteU16 (cert_usrInitialCredit t) i }
      else Some i) }"

definition CybertwinCertTag_Deserialize ::
  "CybertwinCertTag \<Rightarrow> reader \<Rightarrow> CybertwinCertTag option" where
  "CybertwinCertTag_Deserialize t i = do {
     (cuid, i) \<leftarrow> TagBuffer_ReadU64 i;
     (initial, i) \<leftarrow> TagBuffer_ReadU16 i;
     (ingress, i) \<leftarrow> TagBuffer_ReadU16 i;
     (required, i) \<leftarrow> ReadU8 i;
     (valid, i) \<leftarrow> ReadU8 i;
     let t = t\<lparr>tag_cuid := cuid, cert_initialCredit := initial, cert_ingressCredit := ingress,
       cert_isUserRequired := (required \<noteq> 0), cert_isCertValid := (valid \<noteq> 0)\<rparr>;
     (if cert_isUserRequired t then do {
        (usr, i) \<leftarrow> TagBuffer_ReadU64 i;
        (usrInitial, i) \<leftarrow> TagBuffer_ReadU16 i;
        Some (t\<lparr>cert_usr := usr, cert_usrInitialCredit := usrInitial\<rparr>) }
      else Some t) }"

definition SetIngressCredit :: "u16 \<Rightarrow> CybertwinCertTag \<Rightarrow> CybertwinCertTag" where
  "SetIngressCredit val t = t\<lparr>cert_ingressCredit := max (cert_ingressCredit t) val\<rparr>"

section \<open>Connection tag\<close>

record MultipathTagConn =
  mtc_pathId :: u32
  mtc_cuid :: u64
  mtc_senderKey :: u32
  mtc_recverKey :: u32
  mtc_connId :: u64

definition MultipathTagConn_GetSerializedSize :: "MultipathTagConn \<Rightarrow> nat" where
  "MultipathTagConn_GetSerializedSize t = 4 + 8 + 4 + 4 + 8"

definition MultipathTagConn_Serialize :: "MultipathTagConn \<Rightarrow> writer \<Rightarrow> writer option" where
  "MultipathTagConn_Serialize t i = do {
     i \<leftarrow> TagBuffer_WriteU32 (mtc_pathId t) i;
     i \<leftarrow> TagBuffer_WriteU64 (mtc_cuid t) i;
     i \<leftarrow> TagBuffer_WriteU32 (mtc_senderKey t) i;
     i \<leftarrow> TagBuffer_WriteU32 (mtc_recverKey t) i;
     TagBuffer_WriteU64 (mtc_connId t) i }"

definition MultipathTagConn_Deserialize ::
  "MultipathTagConn \<Rightarrow> reader \<Rightarrow> MultipathTagConn option" where
  "MultipathTagConn_Deserialize t i = do {
     (pathId, i) \<leftarrow> TagBuffer_ReadU32 i;
     (cuid, i) \<leftarrow> TagBuffer_ReadU64 i;
     (senderKey, i) \<leftarrow> TagBuffer_ReadU32 i;
     (recverKey, i) \<leftarrow> TagBuffer_ReadU32 i;
     (connId, i) \<leftarrow> TagBuffer_ReadU64 i;
     Some (t\<lparr>mtc_pathId := pathId, mtc_cuid := cuid, mtc_senderKey := senderKey,
       mtc_recverKey := recverKey, mtc_connId := connId\<rparr>) }"

section \<open>Multipath packet tags\<close>

definition CONN_INIT :: u8 where "CONN_INIT = 0"
definition CONN_JOIN :: u8 where "CONN_JOIN = 1"
definition CONN_DATA :: u8 where "CONN_DATA = 2"

text \<open>
  The base class; its \<open>kind\<close> field is neither set nor written, and the byte counted for it
  is left as it is.
\<close>

record CybertwinMpTag =
  mpt_cyberID :: CYBERTWINID_t

definition CybertwinMpTag_GetSerializedSize :: "CybertwinMpTag \<Rightarrow> nat" where
  "CybertwinMpTag_GetSerializedSize t = 8 + 1"

definition CybertwinMpTag_Serialize :: "CybertwinMpTag \<Rightarrow> writer \<Rightarrow> writer option" where
  "CybertwinMpTag_Serialize t i = TagBuffer_WriteU64 (mpt_cyberID t) i"

definition CybertwinMpTag_Deserialize :: "CybertwinMpTag \<Rightarrow> reader \<Rightarrow> CybertwinMpTag option" where
  "CybertwinMpTag_Deserialize t i = do {
     (cyberID, i) \<leftarrow> TagBuffer_ReadU64 i;
     Some (t\<lparr>mpt_cyberID := cyberID\<rparr>) }"

record CybertwinMpTagJoin =
  mpj_cyberID :: CYBERTWINID_t
  mpj_kind :: u8
  mpj_senderKey :: MP_CONN_KEY_t
  mpj_recverKey :: MP_CONN_KEY_t
  mpj_connectionID :: MP_CONN_ID_t

definition CybertwinMpTagJoin_new :: CybertwinMpTagJoin where
  "CybertwinMpTagJoin_new = \<lparr>mpj_cyberID = 0, mpj_kind = CONN_JOIN, mpj_senderKey = 0,
     mpj_recverKey = 0, mpj_connectionID = 0\<rparr>"

definition CybertwinMpTagJoin_GetSerializedSize :: "CybertwinMpTagJoin \<Rightarrow> nat" where
  "CybertwinMpTagJoin_GetSerializedSize t = 8 + 1 + 4 + 4 + 8"

text \<open>The receiver's 32-bit key is written with the 64-bit primitive.\<close>

definition CybertwinMpTagJoin_Serialize :: "CybertwinMpTagJoin \<Rightarrow> writer \<Rightarrow> writer option" where
  "CybertwinMpTagJoin_Serialize t i = do {
     i \<leftarrow> TagBuffer_WriteU64 (mpj_cyberID t) i;
     i \<leftarrow> WriteU8 (mpj_kind t) i;
     i \<leftarrow> TagBuffer_WriteU32 (mpj_senderKey t) i;
     i \<leftarrow> TagBuffer_WriteU64 (ucast (mpj_recverKey t)) i;
     TagBuffer_WriteU64 (mpj_connectionID t) i }"

definition CybertwinMpTagJoin_Deserialize ::
  "CybertwinMpTagJoin \<Rightarrow> reader \<Rightarrow> CybertwinMpTagJoin option" where
  "CybertwinMpTagJoin_Deserialize t i = do {
     (cyberID, i) \<leftarrow> TagBuffer_ReadU64 i;
     (kind, i) \<leftarrow> ReadU8 i;
     (senderKey, i) \<leftarrow> TagBuffer_ReadU32 i;
     (recverKey, i) \<leftarrow> TagBuffer_ReadU32 i;
     (connectionID, i) \<leftarrow> TagBuffer_ReadU64 i;
     Some (t\<lparr>mpj_cyberID := cyberID, mpj_kind := kind, mpj_senderKey := senderKey,
       mpj_recverKey := recverKey, mpj_connectionID := connectionID\<rparr>) }"

definition CybertwinMpTagJoin_GetConnectionID :: "CybertwinMpTagJoin \<Rightarrow> MP_CONN_KEY_t" where
  "CybertwinMpTagJoin_GetConnectionID t = ucast (mpj_connectionID t)"

record CybertwinMpTagData =
  mpd_cyberID :: CYBERTWINID_t
  mpd_senderKey :: MP_CONN_KEY_t
  mpd_recverKey :: MP_CONN_KEY_t
  mpd_connectionID :: MP_CONN_ID_t

definition CybertwinMpTagData_GetSerializedSize :: "CybertwinMpTagData \<Rightarrow> nat" where
  "CybertwinMpTagData_GetSerializedSize t = 8 + 4 + 4 + 8"

definition CybertwinMpTagData_Serialize :: "CybertwinMpTagData \<Rightarrow> writer \<Rightarrow> writer option" where
  "CybertwinMpTagData_Serialize t i = do {
     i \<leftarrow> TagBuffer_WriteU64 (mpd_cyberID t) i;
     i \<leftarrow> TagBuffer_WriteU32 (mpd_senderKey t) i;
     i \<leftarrow> TagBuffer_WriteU64 (ucast (mpd_recverKey t)) i;
     TagBuffer_WriteU64 (mpd_connectionID t) i }"

definition CybertwinMpTagData_Deserialize ::
  "CybertwinMpTagData \<Rightarrow> reader \<Rightarrow> CybertwinMpTagData option" where
  "CybertwinMpTagData_Deserialize t i = do {
     (cyberID, i) \<leftarrow> TagBuffer_ReadU64 i;
     (senderKey, i) \<leftarrow> TagBuffer_ReadU32 i;
     (recverKey, i) \<leftarrow> TagBuffer_ReadU32 i;
     (connectionID, i) \<leftarrow> TagBuffer_ReadU64 i;
     Some (t\<lparr>mpd_cyberID := cyberID, mpd_senderKey := senderKey,
       mpd_recverKey := recverKey, mpd_connectionID := connectionID\<rparr>) }"

definition CybertwinMpTagData_GetKind :: "CybertwinMpTagData \<Rightarrow> u8" where
  "CybertwinMpTagData_GetKind t = CONN_JOIN"

section \<open>Tags that keep their contract\<close>

text \<open>
  A tag written into its announced bytes reads back as \<open>canon t\<close>, whatever the
  allocated bytes held and whatever the reading object held in the fields it reads.
\<close>

locale tag_codec =
  fixes size :: "'t \<Rightarrow> nat"
    and ser :: "'t \<Rightarrow> writer \<Rightarrow> writer option"
    and des :: "reader \<Rightarrow> 't option"
    and img :: "'t \<Rightarrow> u8 list"
    and canon :: "'t \<Rightarrow> 't"
  assumes ser_img: "ser t w = Buffer_Write (img t) w"
    and len_img: "length (img t) \<le> size t"
    and des_img: "des (img t @ rest) = Some (canon t)"
begin

lemma Add_img:
  assumes "length fill = size t" and "tid \<notin> fst ` set l"
  shows "PacketTagList_Add tid fill (ser t) l =
    Some ((tid, img t @ drop (length (img t)) fill) # l)"
  using assms len_img [of t]
  by (simp add: PacketTagList_Add_def ser_img Buffer_Write_eq)

lemma Add_Peek:
  assumes "length fill = size t" and "tid \<notin> fst ` set l"
  shows "\<exists>l'. PacketTagList_Add tid fill (ser t) l = Some l' \<and>
    PacketTagList_Peek tid des l' = Some (Some (canon t))"
  using assms by (simp add: Add_img des_img)

end

definition le16 :: "u16 \<Rightarrow> u8 list" where "le16 x = rev (be16 x)"
definition le32 :: "u32 \<Rightarrow> u8 list" where "le32 x = rev (be32 x)"
definition le64 :: "u64 \<Rightarrow> u8 list" where "le64 x = rev (be64 x)"

lemmas le_defs = le16_def le32_def le64_def

lemma length_le [simp]: "length (le16 x) = 2" "length (le32 y) = 4" "length (le64 z) = 8"
  by (simp_all add: le_defs)

lemma le_read [simp]:
  "TagBuffer_ReadU16 (le16 x @ rest) = Some (x, rest)"
  "TagBuffer_ReadU32 (le32 y @ rest) = Some (y, rest)"
  "TagBuffer_ReadU64 (le64 z @ rest) = Some (z, rest)"
  by (simp_all only: le_defs rd_imgs)

lemma le_write:
  "TagBuffer_WriteU16 x w = Buffer_Write (le16 x) w"
  "TagBuffer_WriteU32 y w = Buffer_Write (le32 y) w"
  "TagBuffer_WriteU64 z w = Buffer_Write (le64 z) w"
  by (simp_all only: le_defs wr_imgs)

lemmas tag_ser = le_write WriteU8_eq Buffer_Write_two append_assoc append.simps

interpretation cyt: tag_codec CybertwinTag_GetSerializedSize CybertwinTag_Serialize
  "CybertwinTag_Deserialize CybertwinTag_new" "\<lambda>t. le64 (tag_cuid t)" "\<lambda>t. t"
  by unfold_locales (simp_all add: CybertwinTag_Serialize_def le_write CybertwinTag_new_def
      CybertwinTag_GetSerializedSize_def CybertwinTag_Deserialize_def)

interpretation crt: tag_codec CybertwinCreditTag_GetSerializedSize CybertwinCreditTag_Serialize
  "CybertwinCreditTag_Deserialize CybertwinCreditTag_new"
  "\<lambda>t. le64 (tag_cuid t) @ le16 (credit_credit t) @ le64 (credit_peer t)" "\<lambda>t. t"
proof
  fix t :: CybertwinCreditTag and w
  show "CybertwinCreditTag_Serialize t w =
      Buffer_Write (le64 (tag_cuid t) @ le16 (credit_credit t) @ le64 (credit_peer t)) w"
    by (simp only: CybertwinCreditTag_Serialize_def tag_ser)
qed (simp_all add: CybertwinCreditTag_GetSerializedSize_def CybertwinCreditTag_new_def
    CybertwinCreditTag_Deserialize_def)

definition CybertwinCertTag_img :: "CybertwinCertTag \<Rightarrow> u8 list" where
  "CybertwinCertTag_img t = le64 (tag_cuid t) @ le16 (cert_initialCredit t) @
     le16 (cert_ingressCredit t) @ [of_bool (cert_isUserRequired t)] @
     [of_bool (cert_isCertValid t)] @
     (if cert_isUserRequired t then le64 (cert_usr t) @ le16 (cert_usrInitialCredit t) else [])"

text \<open>The user's identity and credit travel only when a user is required.\<close>

definition CybertwinCertTag_received :: "CybertwinCertTag \<Rightarrow> CybertwinCertTag" where
  "CybertwinCertTag_received t = (if cert_isUserRequired t then t
     else t\<lparr>cert_usr := 0, cert_usrInitialCredit := 0\<rparr>)"

interpretation cert: tag_codec CybertwinCertTag_GetSerializedSize CybertwinCertTag_Serialize
  "CybertwinCertTag_Deserialize CybertwinCertTag_new" CybertwinCertTag_img
  CybertwinCertTag_received
proof
  fix t :: CybertwinCertTag and w rest
  show "CybertwinCertTag_Serialize t w = Buffer_Write (CybertwinCertTag_img t) w"
  proof (cases "cert_isUserRequired t")
    case True
    then show ?thesis
      by (simp only: CybertwinCertTag_Serialize_def CybertwinCertTag_img_def if_True tag_ser)
  next
    case False
    then show ?thesis
      by (simp only: CybertwinCertTag_Serialize_def CybertwinCertTag_img_def if_False tag_ser
          append_Nil2 Option.bind_runit)
  qed
  show "length (CybertwinCertTag_img t) \<le> CybertwinCertTag_GetSerializedSize t"
    by (simp add: CybertwinCertTag_img_def CybertwinCertTag_GetSerializedSize_def)
  show "CybertwinCertTag_Deserialize CybertwinCertTag_new (CybertwinCertTag_img t @ rest) =
      Some (CybertwinCertTag_received t)"
    by (simp add: CybertwinCertTag_Deserialize_def CybertwinCertTag_img_def
        CybertwinCertTag_new_def CybertwinCertTag_received_def)
qed

interpretation mtc: tag_codec MultipathTagConn_GetSerializedSize MultipathTagConn_Serialize
  "MultipathTagConn_Deserialize t0"
  "\<lambda>t. le32 (mtc_pathId t) @ le64 (mtc_cuid t) @ le32 (mtc_senderKey t) @
     le32 (mtc_recverKey t) @ le64 (mtc_connId t)" "\<lambda>t. t" for t0
proof
  fix t :: MultipathTagConn and w
  show "MultipathTagConn_Serialize t w = Buffer_Write (le32 (mtc_pathId t) @
     le64 (mtc_cuid t) @ le32 (mtc_senderKey t) @ le32 (mtc_recverKey t) @
     le64 (mtc_connId t)) w"
    by (simp only: MultipathTagConn_Serialize_def tag_ser)
qed (simp_all add: MultipathTagConn_GetSerializedSize_def MultipathTagConn_Deserialize_def)

interpretation mpt: tag_codec CybertwinMpTag_GetSerializedSize CybertwinMpTag_Serialize
  "CybertwinMpTag_Deserialize t0" "\<lambda>t. le64 (mpt_cyberID t)" "\<lambda>t. t" for t0
  by unfold_locales (simp_all add: CybertwinMpTag_Serialize_def le_write
      CybertwinMpTag_GetSerializedSize_def CybertwinMpTag_Deserialize_def)

section \<open>Properties\<close>

text \<open>
  A certificate tag can be added to every tag list that has none yet, and peeking it with
  a fresh tag gives the same certificate, without the user's fields when no user is required.
\<close>

theorem CybertwinCertTag_Add_Peek:
  assumes "length fill = CybertwinCertTag_GetSerializedSize t" and "tid \<notin> fst ` set l"
  shows "\<exists>l'. PacketTagList_Add tid fill (CybertwinCertTag_Serialize t) l = Some l' \<and>
    PacketTagList_Peek tid (CybertwinCertTag_Deserialize CybertwinCertTag_new) l' =
      Some (Some (CybertwinCertTag_received t))"
  using assms by (rule cert.Add_Peek)

theorem CybertwinCertTag_Add_Peek_witness:
  "\<exists>l'. PacketTagList_Add ''cert'' (replicate 24 0) (CybertwinCertTag_Serialize
       (CybertwinCertTag_new\<lparr>cert_isUserRequired := True, cert_usr := 9\<rparr>)) [(''other'', [1])]
     = Some l'"
  using CybertwinCertTag_Add_Peek [of "replicate 24 0"
      "CybertwinCertTag_new\<lparr>cert_isUserRequired := True, cert_usr := 9\<rparr>"
      "''cert''" "[(''other'', [1])]"]
  by (auto simp: CybertwinCertTag_GetSerializedSize_def CybertwinCertTag_new_def)

lemma length_fill_short:
  assumes "length fill < length bs"
  shows "PacketTagList_Add tid fill (Buffer_Write bs) l = None"
  using assms by (simp add: PacketTagList_Add_def Buffer_Write_eq)

text \<open>
  Neither multipath packet tag can be added to a packet: both announce four bytes less
  than they write, so that the write past the allocated bytes trips the tag buffer's
  assertion for every content of the tag.
\<close>

theorem CybertwinMpTag_Add_fails:
  "(length fill = CybertwinMpTagJoin_GetSerializedSize j \<longrightarrow>
      PacketTagList_Add tid fill (CybertwinMpTagJoin_Serialize j) l = None) \<and>
   (length fill = CybertwinMpTagData_GetSerializedSize d \<longrightarrow>
      PacketTagList_Add tid fill (CybertwinMpTagData_Serialize d) l = None)"
proof -
  have "CybertwinMpTagJoin_Serialize j = Buffer_Write (le64 (mpj_cyberID j) @ [mpj_kind j] @
      le32 (mpj_senderKey j) @ le64 (ucast (mpj_recverKey j)) @ le64 (mpj_connectionID j))"
    by (rule ext) (simp only: CybertwinMpTagJoin_Serialize_def tag_ser)
  moreover have "CybertwinMpTagData_Serialize d = Buffer_Write (le64 (mpd_cyberID d) @
      le32 (mpd_senderKey d) @ le64 (ucast (mpd_recverKey d)) @ le64 (mpd_connectionID d))"
    by (rule ext) (simp only: CybertwinMpTagData_Serialize_def tag_ser)
  ultimately show ?thesis
    by (simp add: length_fill_short CybertwinMpTagJoin_GetSerializedSize_def
        CybertwinMpTagData_GetSerializedSize_def)
qed

theorem CybertwinMpTag_Add_fails_witness:
  "length (replicate 25 (0::u8)) = CybertwinMpTagJoin_GetSerializedSize CybertwinMpTagJoin_new \<and>
   PacketTagList_Add ''join'' (replicate 25 0)
     (CybertwinMpTagJoin_Serialize CybertwinMpTagJoin_new) [] = None"
  using CybertwinMpTag_Add_fails [of "replicate 25 0" CybertwinMpTagJoin_new "''join''" "[]"]
  by (simp add: CybertwinMpTagJoin_GetSerializedSize_def)

end
