(* ===== verification/Headers.thy ===== *)
theory Headers
  imports Wire
begin

text \<open>
  The protocol headers of \<^verbatim>\<open>src/cybertwin/model/cybertwin-header.{h,cc}\<close> and
  \<^verbatim>\<open>src/internet/model/ccn-header.{h,cc}\<close>: their fields as records, their
  constructors, and \<^verbatim>\<open>GetSerializedSize\<close>, \<^verbatim>\<open>Serialize\<close> and
  \<^verbatim>\<open>Deserialize\<close> translated statement by statement over the byte layer.  Every
  header is an interpretation of \<open>header_codec\<close>, which yields its packet round trip.
  Getters and plain setters are the record's selectors and updates.
\<close>

section \<open>Characters as bytes\<close>

definition char_byte :: "char \<Rightarrow> u8" where
  "char_byte c = of_nat (of_char c)"

definition byte_char :: "u8 \<Rightarrow> char" where
  "byte_char b = char_of (unat b)"

lemma byte_char_char_byte [simp]: "byte_char (char_byte c) = c"
  by (simp add: byte_char_def char_byte_def unat_of_nat_u8 del: of_nat_of_char)

lemma map_byte_char [simp]: "map byte_char (map char_byte s) = s"
  by (simp add: comp_def)

section \<open>Cybertwin header\<close>

text \<open>\<^verbatim>\<open>enum CybertwinCommand_t\<close>.\<close>

definition HOST_CONNECT :: u8 where "HOST_CONNECT = 0"
definition HOST_DISCONNECT :: u8 where "HOST_DISCONNECT = 1"
definition CYBERTWIN_CONNECT_SUCCESS :: u8 where "CYBERTWIN_CONNECT_SUCCESS = 2"
definition CYBERTWIN_CONNECT_ERROR :: u8 where "CYBERTWIN_CONNECT_ERROR = 3"
definition CYBERTWIN_HEADER_DATA :: u8 where "CYBERTWIN_HEADER_DATA = 4"
definition CREATE_STREAM :: u8 where "CREATE_STREAM = 5"
definition ENDHOST_STOP_STREAM :: u8 where "ENDHOST_STOP_STREAM = 6"
definition ENDHOST_START_STREAM :: u8 where "ENDHOST_START_STREAM = 7"
definition ENDHOST_REQUEST_DOWNLOAD :: u8 where "ENDHOST_REQUEST_DOWNLOAD = 8"

lemmas CybertwinCommand_defs =
  HOST_CONNECT_def HOST_DISCONNECT_def CYBERTWIN_CONNECT_SUCCESS_def
  CYBERTWIN_CONNECT_ERROR_def CYBERTWIN_HEADER_DATA_def CREATE_STREAM_def
  ENDHOST_STOP_STREAM_def ENDHOST_START_STREAM_def ENDHOST_REQUEST_DOWNLOAD_def

record CybertwinHeader =
  ch_command :: u8
  ch_cybertwin :: CYBERTWINID_t
  ch_peer :: CYBERTWINID_t
  ch_size :: u32
  ch_cybertwinPort :: u16
  ch_recvRate :: u8

definition CybertwinHeader_new :: CybertwinHeader where
  "CybertwinHeader_new = \<lparr>ch_command = 0, ch_cybertwin = 0, ch_peer = 0, ch_size = 0,
     ch_cybertwinPort = 0, ch_recvRate = 0\<rparr>"

definition CybertwinHeader_GetSerializedSize :: "CybertwinHeader \<Rightarrow> nat" where
  "CybertwinHeader_GetSerializedSize h = 1 + 8 + 8 + 4 + 2 + 1"

definition CybertwinHeader_Serialize :: "CybertwinHeader \<Rightarrow> writer \<Rightarrow> writer option" where
  "CybertwinHeader_Serialize h i = do {
     i \<leftarrow> WriteU8 (ch_command h) i;
     i \<leftarrow> WriteHtonU64 (ch_cybertwin h) i;
     i \<leftarrow> WriteHtonU64 (ch_peer h) i;
     i \<leftarrow> WriteHtonU32 (ch_size h) i;
     i \<leftarrow> WriteHtonU16 (ch_cybertwinPort h) i;
     WriteU8 (ch_recvRate h) i }"

definition CybertwinHeader_Deserialize ::
  "CybertwinHeader \<Rightarrow> reader \<Rightarrow> (CybertwinHeader \<times> nat) option" where
  "CybertwinHeader_Deserialize h i = do {
     (command, i) \<leftarrow> ReadU8 i;
     (cybertwin, i) \<leftarrow> ReadNtohU64 i;
     (peer, i) \<leftarrow> ReadNtohU64 i;
     (sz, i) \<leftarrow> ReadNtohU32 i;
     (port, i) \<leftarrow> ReadNtohU16 i;
     (rate, i) \<leftarrow> ReadU8 i;
     let h = h\<lparr>ch_command := command, ch_cybertwin := cybertwin, ch_peer := peer,
       ch_size := sz, ch_cybertwinPort := port, ch_recvRate := rate\<rparr>;
     Some (h, CybertwinHeader_GetSerializedSize h) }"

definition isDataPacket :: "CybertwinHeader \<Rightarrow> bool" where
  "isDataPacket h = (ch_command h = CYBERTWIN_HEADER_DATA)"

section \<open>End host header\<close>

definition ENDHOST_HEARTBEAT :: u8 where "ENDHOST_HEARTBEAT = 0"
definition DOWNLOAD_REQUEST :: u8 where "DOWNLOAD_REQUEST = 1"

lemmas EndHostCommand_defs = ENDHOST_HEARTBEAT_def DOWNLOAD_REQUEST_def

record EndHostHeader =
  eh_command :: u8
  eh_targetID :: CYBERTWINID_t

definition EndHostHeader_new :: EndHostHeader where
  "EndHostHeader_new = \<lparr>eh_command = ENDHOST_HEARTBEAT, eh_targetID = 0\<rparr>"

definition EndHostHeader_GetSerializedSize :: "EndHostHeader \<Rightarrow> nat" where
  "EndHostHeader_GetSerializedSize h = 1 + 8"

definition EndHostHeader_Serialize :: "EndHostHeader \<Rightarrow> writer \<Rightarrow> writer option" where
  "EndHostHeader_Serialize h start = do {
     start \<leftarrow> WriteU8 (eh_command h) start;
     WriteHtonU64 (eh_targetID h) start }"

definition EndHostHeader_Deserialize ::
  "EndHostHeader \<Rightarrow> reader \<Rightarrow> (EndHostHeader \<times> nat) option" where
  "EndHostHeader_Deserialize h start = do {
     (command, start) \<leftarrow> ReadU8 start;
     (target, start) \<leftarrow> ReadNtohU64 start;
     let h = h\<lparr>eh_command := command, eh_targetID := target\<rparr>;
     Some (h, EndHostHeader_GetSerializedSize h) }"

section \<open>Cybertwin manager header\<close>

text \<open>\<^verbatim>\<open>enum CybertwinProxyCommand\<close>.\<close>

definition CYBERTWIN_REGISTRATION :: u8 where "CYBERTWIN_REGISTRATION = 100"
definition CYBERTWIN_REGISTRATION_ACK :: u8 where "CYBERTWIN_REGISTRATION_ACK = 101"
definition CYBERTWIN_REGISTRATION_ERROR :: u8 where "CYBERTWIN_REGISTRATION_ERROR = 102"
definition CYBERTWIN_DESTRUCTION :: u8 where "CYBERTWIN_DESTRUCTION = 103"
definition CYBERTWIN_DESTRUCTION_ACK :: u8 where "CYBERTWIN_DESTRUCTION_ACK = 104"
definition CYBERTWIN_DESTRUCTION_ERROR :: u8 where "CYBERTWIN_DESTRUCTION_ERROR = 105"
definition CYBERTWIN_RECONNECT :: u8 where "CYBERTWIN_RECONNECT = 106"
definition CYBERTWIN_RECONNECT_ACK :: u8 where "CYBERTWIN_RECONNECT_ACK = 107"
definition CYBERTWIN_RECONNECT_ERROR :: u8 where "CYBERTWIN_RECONNECT_ERROR = 108"

lemmas CybertwinProxyCommand_defs =
  CYBERTWIN_REGISTRATION_def CYBERTWIN_REGISTRATION_ACK_def CYBERTWIN_REGISTRATION_ERROR_def
  CYBERTWIN_DESTRUCTION_def CYBERTWIN_DESTRUCTION_ACK_def CYBERTWIN_DESTRUCTION_ERROR_def
  CYBERTWIN_RECONNECT_def CYBERTWIN_RECONNECT_ACK_def CYBERTWIN_RECONNECT_ERROR_def

record CybertwinManagerHeader =
  mh_command :: u8
  mh_cname :: string
  mh_cuid :: u64
  mh_port :: u16

definition CybertwinManagerHeader_new :: CybertwinManagerHeader where
  "CybertwinManagerHeader_new = \<lparr>mh_command = 0, mh_cname = '''', mh_cuid = 0, mh_port = 0\<rparr>"

definition CybertwinManagerHeader_GetSerializedSize :: "CybertwinManagerHeader \<Rightarrow> nat" where
  "CybertwinManagerHeader_GetSerializedSize h =
     (1 + 2 + length (mh_cname h) + 8 + 2) mod 2 ^ 32"

definition CybertwinManagerHeader_Serialize ::
  "CybertwinManagerHeader \<Rightarrow> writer \<Rightarrow> writer option" where
  "CybertwinManagerHeader_Serialize h it = do {
     it \<leftarrow> WriteU8 (mh_command h) it;
     it \<leftarrow> WriteHtonU16 (of_nat (length (mh_cname h))) it;
     it \<leftarrow> Buffer_Write (map char_byte (mh_cname h)) it;
     it \<leftarrow> WriteHtonU64 (mh_cuid h) it;
     WriteHtonU16 (mh_port h) it }"

definition CybertwinManagerHeader_Deserialize ::
  "CybertwinManagerHeader \<Rightarrow> reader \<Rightarrow> (CybertwinManagerHeader \<times> nat) option" where
  "CybertwinManagerHeader_Deserialize h it = do {
     (command, it) \<leftarrow> ReadU8 it;
     (cnameLength, it) \<leftarrow> ReadNtohU16 it;
     (cnameBuffer, it) \<leftarrow> Buffer_Read (unat cnameLength) it;
     (cuid, it) \<leftarrow> ReadNtohU64 it;
     (port, it) \<leftarrow> ReadNtohU16 it;
     let h = h\<lparr>mh_command := command, mh_cname := map byte_char cnameBuffer,
       mh_cuid := cuid, mh_port := port\<rparr>;
     Some (h, CybertwinManagerHeader_GetSerializedSize h) }"

section \<open>Multipath header\<close>

record MultipathHeader =
  mp_pathId :: MP_PATH_ID_t
  mp_cuid :: CYBERTWINID_t
  mp_senderKey :: MP_CONN_KEY_t
  mp_recverKey :: MP_CONN_KEY_t
  mp_connId :: MP_CONN_ID_t

definition MultipathHeader_new :: MultipathHeader where
  "MultipathHeader_new = \<lparr>mp_pathId = 0, mp_cuid = 0, mp_senderKey = 0, mp_recverKey = 0,
     mp_connId = 0\<rparr>"

definition MultipathHeader_GetSerializedSize :: "MultipathHeader \<Rightarrow> nat" where
  "MultipathHeader_GetSerializedSize h = 4 + 8 + 4 + 4 + 8"

definition MultipathHeader_Serialize :: "MultipathHeader \<Rightarrow> writer \<Rightarrow> writer option" where
  "MultipathHeader_Serialize h start = do {
     start \<leftarrow> WriteHtonU32 (mp_pathId h) start;
     start \<leftarrow> WriteHtonU64 (mp_cuid h) start;
     start \<leftarrow> WriteHtonU32 (mp_senderKey h) start;
     start \<leftarrow> WriteHtonU32 (mp_recverKey h) start;
     WriteHtonU64 (mp_connId h) start }"

definition MultipathHeader_Deserialize ::
  "MultipathHeader \<Rightarrow> reader \<Rightarrow> (MultipathHeader \<times> nat) option" where
  "MultipathHeader_Deserialize h start = do {
     (pathId, start) \<leftarrow> ReadNtohU32 start;
     (cuid, start) \<leftarrow> ReadNtohU64 start;
     (senderKey, start) \<leftarrow> ReadNtohU32 start;
     (recverKey, start) \<leftarrow> ReadNtohU32 start;
     (connId, start) \<leftarrow> ReadNtohU64 start;
     let h = h\<lparr>mp_pathId := pathId, mp_cuid := cuid, mp_senderKey := senderKey,
       mp_recverKey := recverKey, mp_connId := connId\<rparr>;
     Some (h, MultipathHeader_GetSerializedSize h) }"

section \<open>Multipath data sequence header\<close>

record MultipathHeaderDSN =
  dsn_cuid :: CYBERTWINID_t
  dsn_dataSeqNum :: u64
  dsn_dataLen :: u32

definition MultipathHeaderDSN_new :: MultipathHeaderDSN where
  "MultipathHeaderDSN_new = \<lparr>dsn_cuid = 0, dsn_dataSeqNum = 0, dsn_dataLen = 0\<rparr>"

definition MultipathHeaderDSN_GetSerializedSize :: "MultipathHeaderDSN \<Rightarrow> nat" where
  "MultipathHeaderDSN_GetSerializedSize h = 8 + 8 + 4"

definition MultipathHeaderDSN_Serialize ::
  "MultipathHeaderDSN \<Rightarrow> writer \<Rightarrow> writer option" where
  "MultipathHeaderDSN_Serialize h start = do {
     start \<leftarrow> WriteHtonU64 (dsn_cuid h) start;
     start \<leftarrow> WriteHtonU64 (dsn_dataSeqNum h) start;
     WriteHtonU32 (dsn_dataLen h) start }"

definition MultipathHeaderDSN_Deserialize ::
  "MultipathHeaderDSN \<Rightarrow> reader \<Rightarrow> (MultipathHeaderDSN \<times> nat) option" where
  "MultipathHeaderDSN_Deserialize h start = do {
     (cuid, start) \<leftarrow> ReadNtohU64 start;
     (seqnum, start) \<leftarrow> ReadNtohU64 start;
     (len, start) \<leftarrow> ReadNtohU32 start;
     let h = h\<lparr>dsn_cuid := cuid, dsn_dataSeqNum := seqnum, dsn_dataLen := len\<rparr>;
     Some (h, MultipathHeaderDSN_GetSerializedSize h) }"

section \<open>Name resolution header\<close>

text \<open>\<^verbatim>\<open>enum CNRS_METHOD\<close> of \<^verbatim>\<open>cybertwin-common.h\<close>.\<close>

definition CNRS_QUERY :: u8 where "CNRS_QUERY = 0"
definition CNRS_INSERT :: u8 where "CNRS_INSERT = 1"
definition CNRS_QUERY_OK :: u8 where "CNRS_QUERY_OK = 2"
definition CNRS_QUERY_FAIL :: u8 where "CNRS_QUERY_FAIL = 3"
definition CNRS_INSERT_OK :: u8 where "CNRS_INSERT_OK = 4"
definition CNRS_INSERT_FAIL :: u8 where "CNRS_INSERT_FAIL = 5"

lemmas CNRS_METHOD_defs = CNRS_QUERY_def CNRS_INSERT_def CNRS_QUERY_OK_def
  CNRS_QUERY_FAIL_def CNRS_INSERT_OK_def CNRS_INSERT_FAIL_def

record CNRSHeader =
  cnrs_method :: u8
  cnrs_queryId :: QUERY_ID_t
  cnrs_cuid :: CYBERTWINID_t
  cnrs_interfaceNum :: u8
  cnrs_interfaceList :: CYBERTWIN_INTERFACE_LIST_t

definition CNRSHeader_new :: CNRSHeader where
  "CNRSHeader_new = \<lparr>cnrs_method = 0, cnrs_queryId = 0, cnrs_cuid = 0,
     cnrs_interfaceNum = 0, cnrs_interfaceList = []\<rparr>"

definition CNRSHeader_GetSerializedSize :: "CNRSHeader \<Rightarrow> nat" where
  "CNRSHeader_GetSerializedSize h = 1 + 4 + 8 + 1 + unat (cnrs_interfaceNum h) * (4 + 2)"

fun CNRSHeader_write_interfaces ::
  "CYBERTWIN_INTERFACE_LIST_t \<Rightarrow> writer \<Rightarrow> writer option" where
  "CNRSHeader_write_interfaces [] start = Some start"
| "CNRSHeader_write_interfaces ((a, port) # ifs) start = do {
     start \<leftarrow> WriteHtonU32 (m_address a) start;
     start \<leftarrow> WriteHtonU16 port start;
     CNRSHeader_write_interfaces ifs start }"

definition CNRSHeader_Serialize :: "CNRSHeader \<Rightarrow> writer \<Rightarrow> writer option" where
  "CNRSHeader_Serialize h start = do {
     start \<leftarrow> WriteU8 (cnrs_method h) start;
     start \<leftarrow> WriteHtonU32 (cnrs_queryId h) start;
     start \<leftarrow> WriteHtonU64 (cnrs_cuid h) start;
     start \<leftarrow> WriteU8 (cnrs_interfaceNum h) start;
     (if cnrs_method h = CNRS_INSERT \<or> cnrs_method h = CNRS_QUERY_OK
      then CNRSHeader_write_interfaces (cnrs_interfaceList h) start
      else Some start) }"

fun CNRSHeader_read_interfaces ::
  "nat \<Rightarrow> reader \<Rightarrow> (CYBERTWIN_INTERFACE_LIST_t \<times> reader) option" where
  "CNRSHeader_read_interfaces 0 start = Some ([], start)"
| "CNRSHeader_read_interfaces (Suc n) start = do {
     (a, start) \<leftarrow> ReadNtohU32 start;
     (port, start) \<leftarrow> ReadNtohU16 start;
     (ifs, start) \<leftarrow> CNRSHeader_read_interfaces n start;
     Some ((Ipv4Address_of a, port) # ifs, start) }"

definition CNRSHeader_Deserialize ::
  "CNRSHeader \<Rightarrow> reader \<Rightarrow> (CNRSHeader \<times> nat) option" where
  "CNRSHeader_Deserialize h start = do {
     (method, start) \<leftarrow> ReadU8 start;
     (queryId, start) \<leftarrow> ReadNtohU32 start;
     (cuid, start) \<leftarrow> ReadNtohU64 start;
     (num, start) \<leftarrow> ReadU8 start;
     (ifs, start) \<leftarrow>
       (if method = CNRS_INSERT \<or> method = CNRS_QUERY_OK
        then CNRSHeader_read_interfaces (unat num) start else Some ([], start));
     let h = h\<lparr>cnrs_method := method, cnrs_queryId := queryId, cnrs_cuid := cuid,
       cnrs_interfaceNum := num, cnrs_interfaceList := cnrs_interfaceList h @ ifs\<rparr>;
     Some (h, CNRSHeader_GetSerializedSize h) }"

definition CNRSHeader_SetInterfaceList ::
  "CYBERTWIN_INTERFACE_LIST_t \<Rightarrow> CNRSHeader \<Rightarrow> CNRSHeader" where
  "CNRSHeader_SetInterfaceList ifs h =
     h\<lparr>cnrs_interfaceList := ifs, cnrs_interfaceNum := of_nat (length ifs)\<rparr>"

section \<open>CCN header\<close>

definition CCN_INTEREST :: u8 where "CCN_INTEREST = 0"
definition CCN_DATA :: u8 where "CCN_DATA = 1"

lemmas CCN_MessageType_defs = CCN_INTEREST_def CCN_DATA_def

definition ccn_name_length :: nat where "ccn_name_length = 20"
definition ccn_type_length :: nat where "ccn_type_length = 1"

text \<open>The constructor leaves \<^verbatim>\<open>m_type\<close> uninitialised; its value is a parameter.\<close>

record CCNHeader =
  ccn_content_name :: string
  ccn_type :: u8
  ccn_selector :: u16
  ccn_nonce :: u16

definition CCNHeader_new :: "u8 \<Rightarrow> CCNHeader" where
  "CCNHeader_new garbage =
     \<lparr>ccn_content_name = '''', ccn_type = garbage, ccn_selector = 0, ccn_nonce = 0\<rparr>"

definition CCNHeader_GetSerializedSize :: "CCNHeader \<Rightarrow> nat" where
  "CCNHeader_GetSerializedSize h = ccn_name_length + ccn_type_length"

text \<open>
  The name is written first; the assertion that it fits is checked after that, before the
  padding.
\<close>

definition CCNHeader_Serialize :: "CCNHeader \<Rightarrow> writer \<Rightarrow> writer option" where
  "CCNHeader_Serialize h start = do {
     start \<leftarrow> Buffer_Write (map char_byte (ccn_content_name h)) start;
     let padding = int ccn_name_length - int (length (ccn_content_name h));
     (if padding \<ge> 0 then do {
        start \<leftarrow> Buffer_Write (replicate (nat padding) 0) start;
        WriteU8 (ccn_type h) start }
      else None) }"

definition CCNHeader_Deserialize :: "CCNHeader \<Rightarrow> reader \<Rightarrow> (CCNHeader \<times> nat) option" where
  "CCNHeader_Deserialize h start = do {
     (bs, start) \<leftarrow> Buffer_Read ccn_name_length start;
     (type, start) \<leftarrow> ReadU8 start;
     Some (h\<lparr>ccn_content_name := ccn_content_name h @ map byte_char bs, ccn_type := type\<rparr>,
           ccn_name_length + ccn_type_length) }"

section \<open>Byte images\<close>

definition CybertwinHeader_img :: "CybertwinHeader \<Rightarrow> u8 list" where
  "CybertwinHeader_img h = img8 (ch_command h) @ be64 (ch_cybertwin h) @ be64 (ch_peer h) @
     be32 (ch_size h) @ be16 (ch_cybertwinPort h) @ img8 (ch_recvRate h)"

definition EndHostHeader_img :: "EndHostHeader \<Rightarrow> u8 list" where
  "EndHostHeader_img h = img8 (eh_command h) @ be64 (eh_targetID h)"

definition CybertwinManagerHeader_img :: "CybertwinManagerHeader \<Rightarrow> u8 list" where
  "CybertwinManagerHeader_img h = img8 (mh_command h) @ be16 (of_nat (length (mh_cname h))) @
     map char_byte (mh_cname h) @ be64 (mh_cuid h) @ be16 (mh_port h)"

definition MultipathHeader_img :: "MultipathHeader \<Rightarrow> u8 list" where
  "MultipathHeader_img h = be32 (mp_pathId h) @ be64 (mp_cuid h) @ be32 (mp_senderKey h) @
     be32 (mp_recverKey h) @ be64 (mp_connId h)"

definition MultipathHeaderDSN_img :: "MultipathHeaderDSN \<Rightarrow> u8 list" where
  "MultipathHeaderDSN_img h = be64 (dsn_cuid h) @ be64 (dsn_dataSeqNum h) @ be32 (dsn_dataLen h)"

fun interfaces_img :: "CYBERTWIN_INTERFACE_LIST_t \<Rightarrow> u8 list" where
  "interfaces_img [] = []"
| "interfaces_img ((a, port) # ifs) = be32 (m_address a) @ be16 port @ interfaces_img ifs"

definition CNRSHeader_img :: "CNRSHeader \<Rightarrow> u8 list" where
  "CNRSHeader_img h = img8 (cnrs_method h) @ be32 (cnrs_queryId h) @ be64 (cnrs_cuid h) @
     img8 (cnrs_interfaceNum h) @
     (if cnrs_method h = CNRS_INSERT \<or> cnrs_method h = CNRS_QUERY_OK
      then interfaces_img (cnrs_interfaceList h) else [])"

definition CCNHeader_img :: "CCNHeader \<Rightarrow> u8 list" where
  "CCNHeader_img h = map char_byte (ccn_content_name h) @
     replicate (ccn_name_length - length (ccn_content_name h)) 0 @ img8 (ccn_type h)"

lemmas ser_simps = wr_imgs Buffer_Write_two append.simps append_assoc
lemmas des_simps = rd_imgs append_assoc

section \<open>Well-formed headers and what arrives\<close>

definition CybertwinManagerHeader_ok :: "CybertwinManagerHeader \<Rightarrow> bool" where
  "CybertwinManagerHeader_ok h = (length (mh_cname h) < 2 ^ 16)"

definition CNRSHeader_ok :: "CNRSHeader \<Rightarrow> bool" where
  "CNRSHeader_ok h = (length (cnrs_interfaceList h) < 2 ^ 8 \<and>
     cnrs_interfaceNum h = of_nat (length (cnrs_interfaceList h)) \<and>
     (cnrs_method h = CNRS_INSERT \<or> cnrs_method h = CNRS_QUERY_OK \<or>
      cnrs_interfaceList h = []))"

definition CNRSHeader_received :: "CNRSHeader \<Rightarrow> CNRSHeader" where
  "CNRSHeader_received h = h\<lparr>cnrs_interfaceList :=
     map (\<lambda>(a, port). (Ipv4Address_of (m_address a), port)) (cnrs_interfaceList h)\<rparr>"

definition CCNHeader_ok :: "CCNHeader \<Rightarrow> bool" where
  "CCNHeader_ok h = (length (ccn_content_name h) \<le> ccn_name_length)"

definition CCNHeader_received :: "CCNHeader \<Rightarrow> CCNHeader" where
  "CCNHeader_received h = \<lparr>ccn_content_name = ccn_content_name h @
       replicate (ccn_name_length - length (ccn_content_name h)) (CHR 0x00),
     ccn_type = ccn_type h, ccn_selector = 0, ccn_nonce = 0\<rparr>"

section \<open>Every header meets the codec contract\<close>

interpretation cyb: header_codec "\<lambda>_. True" CybertwinHeader_GetSerializedSize
  CybertwinHeader_Serialize "CybertwinHeader_Deserialize CybertwinHeader_new"
  CybertwinHeader_img "\<lambda>h. h"
proof
  fix h :: CybertwinHeader and w rest
  show "CybertwinHeader_Serialize h w = Buffer_Write (CybertwinHeader_img h) w"
    by (simp only: CybertwinHeader_Serialize_def CybertwinHeader_img_def ser_simps)
  show "length (CybertwinHeader_img h) = CybertwinHeader_GetSerializedSize h"
    by (simp add: CybertwinHeader_img_def CybertwinHeader_GetSerializedSize_def)
  show "CybertwinHeader_Deserialize CybertwinHeader_new (CybertwinHeader_img h @ rest) =
    Some (h, CybertwinHeader_GetSerializedSize h)"
    by (simp add: CybertwinHeader_Deserialize_def CybertwinHeader_img_def des_simps
        CybertwinHeader_new_def CybertwinHeader_GetSerializedSize_def)
qed

interpretation endh: header_codec "\<lambda>_. True" EndHostHeader_GetSerializedSize
  EndHostHeader_Serialize "EndHostHeader_Deserialize EndHostHeader_new"
  EndHostHeader_img "\<lambda>h. h"
proof
  fix h :: EndHostHeader and w rest
  show "EndHostHeader_Serialize h w = Buffer_Write (EndHostHeader_img h) w"
    by (simp only: EndHostHeader_Serialize_def EndHostHeader_img_def ser_simps)
  show "length (EndHostHeader_img h) = EndHostHeader_GetSerializedSize h"
    by (simp add: EndHostHeader_img_def EndHostHeader_GetSerializedSize_def)
  show "EndHostHeader_Deserialize EndHostHeader_new (EndHostHeader_img h @ rest) =
    Some (h, EndHostHeader_GetSerializedSize h)"
    by (simp add: EndHostHeader_Deserialize_def EndHostHeader_img_def des_simps
        EndHostHeader_new_def EndHostHeader_GetSerializedSize_def)
qed

interpretation mgr: header_codec CybertwinManagerHeader_ok
  CybertwinManagerHeader_GetSerializedSize CybertwinManagerHeader_Serialize
  "CybertwinManagerHeader_Deserialize CybertwinManagerHeader_new"
  CybertwinManagerHeader_img "\<lambda>h. h"
proof
  fix h :: CybertwinManagerHeader and w rest
  assume ok: "CybertwinManagerHeader_ok h"
  have read: "Buffer_Read (length (mh_cname h)) (map char_byte (mh_cname h) @ r) =
      Some (map char_byte (mh_cname h), r)" for r
    using Buffer_Read_append [of "map char_byte (mh_cname h)" r] by simp
  show "CybertwinManagerHeader_Serialize h w = Buffer_Write (CybertwinManagerHeader_img h) w"
    by (simp only: CybertwinManagerHeader_Serialize_def CybertwinManagerHeader_img_def ser_simps)
  show "length (CybertwinManagerHeader_img h) = CybertwinManagerHeader_GetSerializedSize h"
    using ok by (simp add: CybertwinManagerHeader_img_def CybertwinManagerHeader_ok_def
        CybertwinManagerHeader_GetSerializedSize_def)
  show "CybertwinManagerHeader_Deserialize CybertwinManagerHeader_new
      (CybertwinManagerHeader_img h @ rest) = Some (h, CybertwinManagerHeader_GetSerializedSize h)"
    using ok by (simp add: CybertwinManagerHeader_Deserialize_def CybertwinManagerHeader_img_def
        des_simps read CybertwinManagerHeader_ok_def CybertwinManagerHeader_new_def
        CybertwinManagerHeader_GetSerializedSize_def unat_of_nat_u16 comp_def)
qed

interpretation mph: header_codec "\<lambda>_. True" MultipathHeader_GetSerializedSize
  MultipathHeader_Serialize "MultipathHeader_Deserialize MultipathHeader_new"
  MultipathHeader_img "\<lambda>h. h"
proof
  fix h :: MultipathHeader and w rest
  show "MultipathHeader_Serialize h w = Buffer_Write (MultipathHeader_img h) w"
    by (simp only: MultipathHeader_Serialize_def MultipathHeader_img_def ser_simps)
  show "length (MultipathHeader_img h) = MultipathHeader_GetSerializedSize h"
    by (simp add: MultipathHeader_img_def MultipathHeader_GetSerializedSize_def)
  show "MultipathHeader_Deserialize MultipathHeader_new (MultipathHeader_img h @ rest) =
    Some (h, MultipathHeader_GetSerializedSize h)"
    by (simp add: MultipathHeader_Deserialize_def MultipathHeader_img_def des_simps
        MultipathHeader_new_def MultipathHeader_GetSerializedSize_def)
qed

interpretation dsn: header_codec "\<lambda>_. True" MultipathHeaderDSN_GetSerializedSize
  MultipathHeaderDSN_Serialize "MultipathHeaderDSN_Deserialize MultipathHeaderDSN_new"
  MultipathHeaderDSN_img "\<lambda>h. h"
proof
  fix h :: MultipathHeaderDSN and w rest
  show "MultipathHeaderDSN_Serialize h w = Buffer_Write (MultipathHeaderDSN_img h) w"
    by (simp only: MultipathHeaderDSN_Serialize_def MultipathHeaderDSN_img_def ser_simps)
  show "length (MultipathHeaderDSN_img h) = MultipathHeaderDSN_GetSerializedSize h"
    by (simp add: MultipathHeaderDSN_img_def MultipathHeaderDSN_GetSerializedSize_def)
  show "MultipathHeaderDSN_Deserialize MultipathHeaderDSN_new (MultipathHeaderDSN_img h @ rest) =
    Some (h, MultipathHeaderDSN_GetSerializedSize h)"
    by (simp add: MultipathHeaderDSN_Deserialize_def MultipathHeaderDSN_img_def des_simps
        MultipathHeaderDSN_new_def MultipathHeaderDSN_GetSerializedSize_def)
qed

lemma write_interfaces_img: "CNRSHeader_write_interfaces ifs = Buffer_Write (interfaces_img ifs)"
proof (induction ifs rule: interfaces_img.induct)
  case (2 a port ifs)
  show ?case
    by (rule ext)
      (simp only: CNRSHeader_write_interfaces.simps interfaces_img.simps 2 ser_simps)
qed (rule ext, simp)

lemma length_interfaces_img: "length (interfaces_img ifs) = length ifs * 6"
  by (induction ifs rule: interfaces_img.induct) auto

lemma read_interfaces_img:
  "CNRSHeader_read_interfaces (length ifs) (interfaces_img ifs @ rest) =
     Some (map (\<lambda>(a, port). (Ipv4Address_of (m_address a), port)) ifs, rest)"
  by (induction ifs rule: interfaces_img.induct) (auto simp: c32.rd_img c16.rd_img)

interpretation cnrs: header_codec CNRSHeader_ok CNRSHeader_GetSerializedSize
  CNRSHeader_Serialize "CNRSHeader_Deserialize CNRSHeader_new" CNRSHeader_img
  CNRSHeader_received
proof
  fix h :: CNRSHeader and w rest
  assume ok: "CNRSHeader_ok h"
  then have num: "unat (cnrs_interfaceNum h) = length (cnrs_interfaceList h)"
    by (simp add: CNRSHeader_ok_def unat_of_nat_u8)
  show "CNRSHeader_Serialize h w = Buffer_Write (CNRSHeader_img h) w"
  proof (cases "cnrs_method h = CNRS_INSERT \<or> cnrs_method h = CNRS_QUERY_OK")
    case True
    then show ?thesis
      by (simp only: CNRSHeader_Serialize_def CNRSHeader_img_def write_interfaces_img if_True
          ser_simps)
  next
    case False
    have "Option.bind m Some = m" for m :: "writer option"
      by (cases m) auto
    with False show ?thesis
      by (simp only: CNRSHeader_Serialize_def CNRSHeader_img_def if_False ser_simps
          append_Nil2)
  qed
  show "length (CNRSHeader_img h) = CNRSHeader_GetSerializedSize h"
    using ok num by (auto simp: CNRSHeader_img_def CNRSHeader_GetSerializedSize_def
        length_interfaces_img CNRSHeader_ok_def)
  show "CNRSHeader_Deserialize CNRSHeader_new (CNRSHeader_img h @ rest) =
    Some (CNRSHeader_received h, CNRSHeader_GetSerializedSize h)"
    using ok by (cases h) (auto simp: CNRSHeader_Deserialize_def CNRSHeader_img_def des_simps
        unat_of_nat_u8 read_interfaces_img CNRSHeader_new_def CNRSHeader_GetSerializedSize_def
        CNRSHeader_received_def CNRSHeader_ok_def)
qed

interpretation ccnh: header_codec CCNHeader_ok CCNHeader_GetSerializedSize
  CCNHeader_Serialize "CCNHeader_Deserialize (CCNHeader_new garbage)" CCNHeader_img
  CCNHeader_received for garbage
proof
  fix h :: CCNHeader and w rest
  assume ok: "CCNHeader_ok h"
  let ?pad = "ccn_name_length - length (ccn_content_name h)"
  let ?field = "map char_byte (ccn_content_name h) @ replicate ?pad (0::u8)"
  from ok have len: "length ?field = ccn_name_length"
    by (simp add: CCNHeader_ok_def)
  have read: "Buffer_Read ccn_name_length (?field @ r) = Some (?field, r)" for r
    using Buffer_Read_append [of ?field r] len by simp
  have chars: "map byte_char ?field = ccn_content_name h @ replicate ?pad (CHR 0x00)"
    by (simp add: byte_char_def comp_def char_of_def flip: map_map)
  show "CCNHeader_Serialize h w = Buffer_Write (CCNHeader_img h) w"
  proof -
    have "0 \<le> int ccn_name_length - int (length (ccn_content_name h))"
      and "nat (int ccn_name_length - int (length (ccn_content_name h))) = ?pad"
      using ok by (auto simp: CCNHeader_ok_def)
    then show ?thesis
      by (simp only: CCNHeader_Serialize_def CCNHeader_img_def Let_def if_True ser_simps)
  qed
  show "length (CCNHeader_img h) = CCNHeader_GetSerializedSize h"
    using ok by (simp add: CCNHeader_img_def CCNHeader_GetSerializedSize_def CCNHeader_ok_def
        ccn_type_length_def)
  show "CCNHeader_Deserialize (CCNHeader_new garbage) (CCNHeader_img h @ rest) =
    Some (CCNHeader_received h, CCNHeader_GetSerializedSize h)"
    using read [of "ccn_type h # rest"] chars
    by (simp add: CCNHeader_Deserialize_def CCNHeader_img_def CCNHeader_new_def
        CCNHeader_received_def CCNHeader_GetSerializedSize_def)
qed

section \<open>Properties\<close>

text \<open>
  C38: A name resolution header whose interface list has fewer than 256 entries, whose counter
  is that length and which carries interfaces only in an insert or a positive answer can be
  added to any packet; the packet grows by exactly the announced size, and removing the header
  gives the untouched payload back together with the same header, every address marked
  initialised.
\<close>

theorem CNRSHeader_round_trip:
  assumes "CNRSHeader_ok h" and "length fill = CNRSHeader_GetSerializedSize h"
  shows "\<exists>q. AddHeader fill (CNRSHeader_Serialize h) p = Some q \<and>
    GetSize q = CNRSHeader_GetSerializedSize h + GetSize p \<and>
    RemoveHeader (CNRSHeader_Deserialize CNRSHeader_new) q = Some (CNRSHeader_received h, p)"
  using cnrs.header_round_trip [OF assms, of p] by metis

definition example_CNRSHeader :: CNRSHeader where
  "example_CNRSHeader = CNRSHeader_SetInterfaceList
     [(Ipv4Address_of 0x0A000001, 1000), (Ipv4Address_of 0x0A000002, 1001)]
     (CNRSHeader_new\<lparr>cnrs_method := CNRS_QUERY_OK, cnrs_queryId := 7, cnrs_cuid := 42\<rparr>)"

lemma example_CNRSHeader_ok: "CNRSHeader_ok example_CNRSHeader"
  by (simp add: example_CNRSHeader_def CNRSHeader_ok_def CNRSHeader_SetInterfaceList_def
      CNRSHeader_new_def)

lemma example_CNRSHeader_size: "CNRSHeader_GetSerializedSize example_CNRSHeader = 26"
  by (simp add: example_CNRSHeader_def CNRSHeader_GetSerializedSize_def
      CNRSHeader_SetInterfaceList_def CNRSHeader_new_def)

theorem CNRSHeader_round_trip_witness:
  "\<exists>q. AddHeader (replicate 26 0) (CNRSHeader_Serialize example_CNRSHeader)
         (Create_Packet 5) = Some q \<and>
    GetSize q = 26 + GetSize (Create_Packet 5) \<and>
    RemoveHeader (CNRSHeader_Deserialize CNRSHeader_new) q =
      Some (CNRSHeader_received example_CNRSHeader, Create_Packet 5)"
  using CNRSHeader_round_trip [of example_CNRSHeader "replicate 26 0" "Create_Packet 5"]
  by (simp add: example_CNRSHeader_ok example_CNRSHeader_size)

text \<open>
  A manager header whose name is shorter than 65536 characters survives the trip through
  a packet: the length-prefixed name, the identifier and the port read back unchanged, the
  payload is untouched, and the header occupies its announced size.
\<close>

theorem CybertwinManagerHeader_round_trip:
  assumes "CybertwinManagerHeader_ok h"
    and "length fill = CybertwinManagerHeader_GetSerializedSize h"
  shows "\<exists>q. AddHeader fill (CybertwinManagerHeader_Serialize h) p = Some q \<and>
    GetSize q = CybertwinManagerHeader_GetSerializedSize h + GetSize p \<and>
    RemoveHeader (CybertwinManagerHeader_Deserialize CybertwinManagerHeader_new) q = Some (h, p)"
  using mgr.header_round_trip [OF assms, of p] by metis

definition example_ManagerHeader :: CybertwinManagerHeader where
  "example_ManagerHeader = CybertwinManagerHeader_new
     \<lparr>mh_command := CYBERTWIN_REGISTRATION, mh_cname := ''host1'', mh_cuid := 77, mh_port := 1000\<rparr>"

theorem CybertwinManagerHeader_round_trip_witness:
  "\<exists>q. AddHeader (replicate 18 0) (CybertwinManagerHeader_Serialize example_ManagerHeader)
         (Create_Packet 3) = Some q \<and>
    GetSize q = 18 + GetSize (Create_Packet 3) \<and>
    RemoveHeader (CybertwinManagerHeader_Deserialize CybertwinManagerHeader_new) q =
      Some (example_ManagerHeader, Create_Packet 3)"
  using CybertwinManagerHeader_round_trip [of example_ManagerHeader "replicate 18 0"
      "Create_Packet 3"]
  by (simp add: example_ManagerHeader_def CybertwinManagerHeader_ok_def
      CybertwinManagerHeader_GetSerializedSize_def CybertwinManagerHeader_new_def)

text \<open>
  A CCN header can be added to a packet exactly when its content name has at most twenty
  characters (the assertion in \<^verbatim>\<open>Serialize\<close> stops the program otherwise), and
  then the receiver's fresh header reads the name padded with zero bytes to twenty characters
  and the same message type, whatever its uninitialised type field held.
\<close>

theorem CCNHeader_round_trip:
  assumes "length fill = CCNHeader_GetSerializedSize h"
  shows "(AddHeader fill (CCNHeader_Serialize h) p = None \<longleftrightarrow> length (ccn_content_name h) > 20) \<and>
    (\<forall>q. AddHeader fill (CCNHeader_Serialize h) p = Some q \<longrightarrow>
      RemoveHeader (CCNHeader_Deserialize (CCNHeader_new garbage)) q =
        Some (CCNHeader_received h, p))"
proof (cases "CCNHeader_ok h")
  case True
  from True assms obtain q where "AddHeader fill (CCNHeader_Serialize h) p = Some q"
    and "RemoveHeader (CCNHeader_Deserialize (CCNHeader_new garbage)) q =
      Some (CCNHeader_received h, p)"
    by (rule ccnh.header_round_trip [where garbage = garbage])
  with True show ?thesis
    by (simp add: CCNHeader_ok_def ccn_name_length_def)
next
  case False
  then have "CCNHeader_Serialize h w = None" for w
    by (simp add: CCNHeader_Serialize_def CCNHeader_ok_def Option.bind_eq_None_conv)
  with False show ?thesis
    by (simp add: AddHeader_def CCNHeader_ok_def ccn_name_length_def)
qed

definition example_CCNHeader :: CCNHeader where
  "example_CCNHeader = (CCNHeader_new 9)\<lparr>ccn_content_name := ''prod/file'', ccn_type := CCN_DATA\<rparr>"

theorem CCNHeader_round_trip_witness:
  "length (replicate 21 (0::u8)) = CCNHeader_GetSerializedSize example_CCNHeader \<and>
   AddHeader (replicate 21 0) (CCNHeader_Serialize example_CCNHeader) (Create_Packet 4) \<noteq> None"
  using CCNHeader_round_trip [of "replicate 21 0" example_CCNHeader "Create_Packet 4" 0]
  by (simp add: example_CCNHeader_def CCNHeader_GetSerializedSize_def CCNHeader_new_def
      ccn_name_length_def ccn_type_length_def)

text \<open>
  The two headers an MDTP data segment is made of can be stacked and taken off again: a
  data sequence header under a multipath header adds 48 bytes, and removing the two in the
  order of the receiver gives both headers and the original payload.
\<close>

theorem multipath_headers_stack:
  assumes "length fill1 = MultipathHeaderDSN_GetSerializedSize d"
    and "length fill2 = MultipathHeader_GetSerializedSize m"
  shows "\<exists>q r. AddHeader fill1 (MultipathHeaderDSN_Serialize d) p = Some q \<and>
    AddHeader fill2 (MultipathHeader_Serialize m) q = Some r \<and> GetSize r = 48 + GetSize p \<and>
    RemoveHeader (MultipathHeader_Deserialize MultipathHeader_new) r = Some (m, q) \<and>
    RemoveHeader (MultipathHeaderDSN_Deserialize MultipathHeaderDSN_new) q = Some (d, p)"
proof -
  obtain q where q: "AddHeader fill1 (MultipathHeaderDSN_Serialize d) p = Some q"
    "GetSize q = MultipathHeaderDSN_GetSerializedSize d + GetSize p"
    "RemoveHeader (MultipathHeaderDSN_Deserialize MultipathHeaderDSN_new) q = Some (d, p)"
    using dsn.header_round_trip [OF TrueI assms(1), of p] by metis
  obtain r where r: "AddHeader fill2 (MultipathHeader_Serialize m) q = Some r"
    "GetSize r = MultipathHeader_GetSerializedSize m + GetSize q"
    "RemoveHeader (MultipathHeader_Deserialize MultipathHeader_new) r = Some (m, q)"
    using mph.header_round_trip [OF TrueI assms(2), of q] by metis
  from q r show ?thesis
    by (auto simp: MultipathHeader_GetSerializedSize_def MultipathHeaderDSN_GetSerializedSize_def)
qed

theorem multipath_headers_stack_witness:
  "\<exists>q r. AddHeader (replicate 20 0) (MultipathHeaderDSN_Serialize
        \<lparr>dsn_cuid = 5, dsn_dataSeqNum = 1, dsn_dataLen = 536\<rparr>) (Create_Packet 536) = Some q \<and>
    AddHeader (replicate 28 0) (MultipathHeader_Serialize MultipathHeader_new) q = Some r \<and>
    GetSize r = 48 + GetSize (Create_Packet 536)"
  using multipath_headers_stack [of "replicate 20 0"
      "\<lparr>dsn_cuid = 5, dsn_dataSeqNum = 1, dsn_dataLen = 536\<rparr>" "replicate 28 0"
      MultipathHeader_new "Create_Packet 536"]
  by (auto simp: MultipathHeader_GetSerializedSize_def MultipathHeaderDSN_GetSerializedSize_def)

end
