(* ===== verification/CCN.thy ===== *)
theory CCN
  imports Headers
begin

text \<open>
  The content-centric stack: \<^verbatim>\<open>CCNL4Protocol\<close>, its content consumers and
  producers, and the two applications that create them
  (\<^verbatim>\<open>src/internet/model/ccn-*.cc\<close>,
  \<^verbatim>\<open>src/applications/model/ccn-*-app.cc\<close>).  A handler takes the protocol state of
  one node and returns the new state with the packets it hands to IPv4 and the packets it
  hands to consumers, in order.  The files a producer reads are the parameter \<open>files\<close>
  (\<open>None\<close> is a file that cannot be opened).
\<close>

section \<open>State and actions\<close>

record CCNContentConsumer =
  cc_content_name :: string
  cc_recvCb :: bool

record CCNContentProducer =
  cp_content_name :: string
  cp_content_file :: string

record CCNL4Protocol =
  l4_address :: Ipv4Address
  l4_contentConsumers :: "CCNContentConsumer list"
  l4_contentProducers :: "CCNContentProducer list"
  l4_contentPrefixToHostAddress :: "string \<rightharpoonup> Ipv4Address"
  l4_pendingInterestTable :: "string \<rightharpoonup> Ipv4Address"

definition CCNL4Protocol_new :: "Ipv4Address \<Rightarrow> CCNL4Protocol" where
  "CCNL4Protocol_new a = \<lparr>l4_address = a, l4_contentConsumers = [], l4_contentProducers = [],
     l4_contentPrefixToHostAddress = Map.empty, l4_pendingInterestTable = Map.empty\<rparr>"

datatype ccn_action =
    CCN_Send packet Ipv4Address Ipv4Address
  | CCN_Deliver string packet

type_synonym ccn_result = "(CCNL4Protocol \<times> ccn_action list) outcome"

text \<open>
  The bytes reserved by \<^verbatim>\<open>AddHeader\<close> are overwritten completely by a header that
  fits, so that their former content does not matter (\<open>AddHeader_fill_irrelevant\<close>).
\<close>

definition CCN_AddHeader :: "CCNHeader \<Rightarrow> packet \<Rightarrow> packet option" where
  "CCN_AddHeader h p = AddHeader (replicate (CCNHeader_GetSerializedSize h) 0)
     (CCNHeader_Serialize h) p"

definition CCN_fresh :: CCNHeader where
  "CCN_fresh = CCNHeader_new 0"

section \<open>Name table\<close>

definition find_char :: "char \<Rightarrow> string \<Rightarrow> nat \<Rightarrow> nat option" where
  "find_char c s i =
     (let t = drop i s; k = length (takeWhile (\<lambda>x. x \<noteq> c) t)
      in if k < length t then Some (i + k) else None)"

lemma find_char_SomeD:
  assumes "find_char c s i = Some p"
  shows "i \<le> p" and "p < length s" and "s ! p = c"
    and "\<And>k. i \<le> k \<Longrightarrow> k < p \<Longrightarrow> s ! k \<noteq> c"
proof -
  let ?k = "length (takeWhile (\<lambda>x. x \<noteq> c) (drop i s))"
  from assms have p: "p = i + ?k" and k: "?k < length (drop i s)"
    by (auto simp: find_char_def Let_def split: if_splits)
  then show "i \<le> p" and "p < length s"
    by auto
  show "s ! p = c"
    using nth_length_takeWhile [OF k] k by (simp add: p)
  fix j
  assume "i \<le> j" and "j < p"
  then have "j - i < ?k"
    using p by auto
  then have "takeWhile (\<lambda>x. x \<noteq> c) (drop i s) ! (j - i) \<noteq> c"
    using nth_mem set_takeWhileD by fastforce
  moreover have "takeWhile (\<lambda>x. x \<noteq> c) (drop i s) ! (j - i) = s ! j"
    using \<open>j - i < ?k\<close> \<open>i \<le> j\<close> k by (simp add: takeWhile_nth)
  ultimately show "s ! j \<noteq> c"
    by simp
qed

lemma find_char_NoneD:
  assumes "find_char c s i = None" and "i \<le> k" and "k < length s"
  shows "s ! k \<noteq> c"
proof -
  from assms(1) have "length (takeWhile (\<lambda>x. x \<noteq> c) (drop i s)) = length (drop i s)"
    using length_takeWhile_le [of "\<lambda>x. x \<noteq> c" "drop i s"]
    by (auto simp: find_char_def Let_def split: if_splits)
  then have "takeWhile (\<lambda>x. x \<noteq> c) (drop i s) = drop i s"
    by (metis takeWhile_eq_take take_all order_refl)
  then have "\<forall>x \<in> set (drop i s). x \<noteq> c"
    by (metis set_takeWhileD)
  moreover have "s ! k \<in> set (drop i s)"
    using assms(2,3) nth_mem [of "k - i" "drop i s"] by simp
  ultimately show ?thesis
    by blast
qed

definition AddContentPrefixToHostAddress ::
  "string \<Rightarrow> Ipv4Address \<Rightarrow> CCNL4Protocol \<Rightarrow> CCNL4Protocol" where
  "AddContentPrefixToHostAddress prefix a st = st\<lparr>l4_contentPrefixToHostAddress :=
     (l4_contentPrefixToHostAddress st)(prefix \<mapsto> a)\<rparr>"

interpretation prefixes: name_store l4_contentPrefixToHostAddress
  AddContentPrefixToHostAddress "(=)"
  by unfold_locales (auto simp: AddContentPrefixToHostAddress_def)

fun AddContentPrefixToHostAddress_all ::
  "(string \<times> Ipv4Address) list \<Rightarrow> CCNL4Protocol \<Rightarrow> CCNL4Protocol" where
  "AddContentPrefixToHostAddress_all [] st = st"
| "AddContentPrefixToHostAddress_all ((prefix, a) # l) st =
     AddContentPrefixToHostAddress_all l (st\<lparr>l4_contentPrefixToHostAddress :=
       (l4_contentPrefixToHostAddress st)(prefix \<mapsto> a)\<rparr>)"

function GetHostAddress_loop ::
  "(string \<rightharpoonup> Ipv4Address) \<Rightarrow> string \<Rightarrow> nat \<Rightarrow> Ipv4Address \<Rightarrow> Ipv4Address" where
  "GetHostAddress_loop tbl contentName pos hostAddress =
     (case find_char (CHR ''/'') contentName (pos + 1) of
        None \<Rightarrow> hostAddress
      | Some pos \<Rightarrow>
          let prefix = take pos contentName
          in GetHostAddress_loop tbl contentName pos
               (case tbl prefix of Some a \<Rightarrow> a | None \<Rightarrow> hostAddress))"
  by pat_completeness auto
termination
proof (relation "measure (\<lambda>(tbl, name, pos, a). length name - pos)")
  fix tbl name pos a p
  assume "find_char (CHR ''/'') name (pos + 1) = Some p"
  then show "((tbl, name, p, b), tbl, name, pos, a) \<in>
      measure (\<lambda>(tbl, name, pos, a). length name - pos)" for b
    using find_char_SomeD(1,2) by fastforce
qed simp

definition GetHostAddressFromContentName :: "string \<Rightarrow> CCNL4Protocol \<Rightarrow> Ipv4Address" where
  "GetHostAddressFromContentName contentName st =
     GetHostAddress_loop (l4_contentPrefixToHostAddress st) contentName 0 Ipv4Address_default"

section \<open>Sending\<close>

definition SendInterest :: "packet \<Rightarrow> string \<Rightarrow> CCNL4Protocol \<Rightarrow> ccn_result" where
  "SendInterest p contentName st =
     from_option AssertFailed
       (CCN_AddHeader (CCN_fresh\<lparr>ccn_type := CCN_INTEREST, ccn_content_name := contentName\<rparr>) p)
       (\<lambda>q. let dest = GetHostAddressFromContentName contentName st
            in if ipv4_eq dest Ipv4Address_GetZero then Inr (st, [])
               else Inr (st, [CCN_Send q (l4_address st) dest]))"

definition SendData :: "packet \<Rightarrow> string \<Rightarrow> CCNL4Protocol \<Rightarrow> ccn_result" where
  "SendData p contentName st =
     from_option AssertFailed
       (CCN_AddHeader (CCN_fresh\<lparr>ccn_type := CCN_DATA, ccn_content_name := contentName\<rparr>) p)
       (\<lambda>q. let (dest, pit) = map_get_or Ipv4Address_default (l4_pendingInterestTable st)
                                contentName;
                st = st\<lparr>l4_pendingInterestTable := pit\<rparr>
            in if ipv4_eq dest Ipv4Address_GetZero then Inr (st, [])
               else Inr (st, [CCN_Send q (l4_address st) dest]))"

text \<open>
  A read of sixteen bytes reaches the end of the file exactly when fewer than sixteen are
  left, and only then does the loop stop.
\<close>

function SendContentResponse_loop :: "string \<Rightarrow> u8 list \<Rightarrow> CCNL4Protocol \<Rightarrow> ccn_result" where
  "SendContentResponse_loop name rest st =
     then_do (SendData (Create_Packet_data (take 16 rest)) name st)
       (\<lambda>(st, acts). if length rest < 16 then Inr (st, acts)
          else then_do (SendContentResponse_loop name (drop 16 rest) st)
                 (\<lambda>(st, acts'). Inr (st, acts @ acts')))"
  by pat_completeness auto
termination
  by (relation "measure (\<lambda>(name, rest, st). length rest)") auto

definition SendContentResponse ::
  "(string \<Rightarrow> u8 list option) \<Rightarrow> CCNContentProducer \<Rightarrow> CCNL4Protocol \<Rightarrow> ccn_result" where
  "SendContentResponse files producer st =
     (case files (cp_content_file producer) of
        None \<Rightarrow> Inr (st, [])
      | Some content \<Rightarrow> SendContentResponse_loop (cp_content_name producer) content st)"

section \<open>Receiving\<close>

text \<open>\<^verbatim>\<open>erase(find('\0'))\<close> throws when the name has no zero byte.\<close>

definition erase_null :: "string \<Rightarrow> string outcome" where
  "erase_null s = from_option OutOfRange (find_char (CHR 0x00) s 0) (\<lambda>p. Inr (take p s))"

definition HandleInterestPacket ::
  "(string \<Rightarrow> u8 list option) \<Rightarrow> packet \<Rightarrow> Ipv4Address \<Rightarrow> CCNL4Protocol \<Rightarrow> ccn_result" where
  "HandleInterestPacket files p saddr st =
     from_option BadBuffer (PeekHeader (CCNHeader_Deserialize CCN_fresh) p)
       (\<lambda>(h, n). then_do (erase_null (ccn_content_name h))
         (\<lambda>contentName.
            let st = st\<lparr>l4_pendingInterestTable :=
                       (l4_pendingInterestTable st)(contentName \<mapsto> saddr)\<rparr>
            in case find (\<lambda>c. cp_content_name c = contentName) (l4_contentProducers st) of
                 Some producer \<Rightarrow> SendContentResponse files producer st
               | None \<Rightarrow> Inr (st, [])))"

definition NotifyRecv :: "CCNContentConsumer \<Rightarrow> packet \<Rightarrow> ccn_action list outcome" where
  "NotifyRecv consumer p =
     (if \<not> cc_recvCb consumer then Inr []
      else from_option BadBuffer (RemoveHeader (CCNHeader_Deserialize CCN_fresh) p)
             (\<lambda>(h, q). Inr [CCN_Deliver (cc_content_name consumer) q]))"

definition HandleDataPacket :: "packet \<Rightarrow> CCNL4Protocol \<Rightarrow> ccn_result" where
  "HandleDataPacket p st =
     from_option BadBuffer (PeekHeader (CCNHeader_Deserialize CCN_fresh) p)
       (\<lambda>(h, n). then_do (erase_null (ccn_content_name h))
         (\<lambda>contentName.
            case find (\<lambda>c. cc_content_name c = contentName) (l4_contentConsumers st) of
              Some consumer \<Rightarrow> then_do (NotifyRecv consumer p) (\<lambda>acts. Inr (st, acts))
            | None \<Rightarrow> Inr (st, [])))"

definition CCN_Receive ::
  "(string \<Rightarrow> u8 list option) \<Rightarrow> packet \<Rightarrow> Ipv4Address \<Rightarrow> CCNL4Protocol \<Rightarrow> ccn_result" where
  "CCN_Receive files p saddr st =
     from_option BadBuffer (PeekHeader (CCNHeader_Deserialize CCN_fresh) p)
       (\<lambda>(h, n). if ccn_type h = CCN_INTEREST then HandleInterestPacket files p saddr st
          else if ccn_type h = CCN_DATA then HandleDataPacket p st
          else Inr (st, []))"

section \<open>Consumers, producers and their applications\<close>

definition CreateContentConsumer :: "CCNL4Protocol \<Rightarrow> CCNL4Protocol" where
  "CreateContentConsumer st = st\<lparr>l4_contentConsumers :=
     l4_contentConsumers st @ [\<lparr>cc_content_name = '''', cc_recvCb = False\<rparr>]\<rparr>"

definition CreateContentProducer :: "CCNL4Protocol \<Rightarrow> CCNL4Protocol" where
  "CreateContentProducer st = st\<lparr>l4_contentProducers :=
     l4_contentProducers st @ [\<lparr>cp_content_name = '''', cp_content_file = ''''\<rparr>]\<rparr>"

definition GetContent :: "CCNContentConsumer \<Rightarrow> CCNL4Protocol \<Rightarrow> ccn_result" where
  "GetContent consumer st = SendInterest (Create_Packet 0) (cc_content_name consumer) st"

text \<open>The object just created is the last of its vector; the application sets its fields.\<close>

definition CCNConsumerApp_StartApplication :: "string \<Rightarrow> CCNL4Protocol \<Rightarrow> ccn_result" where
  "CCNConsumerApp_StartApplication contentName st =
     (let st = CreateContentConsumer st;
          consumer = (last (l4_contentConsumers st))
            \<lparr>cc_recvCb := True, cc_content_name := contentName\<rparr>;
          st = st\<lparr>l4_contentConsumers := butlast (l4_contentConsumers st) @ [consumer]\<rparr>
      in GetContent consumer st)"

definition CCNProducerApp_StartApplication ::
  "string \<Rightarrow> string \<Rightarrow> string \<Rightarrow> CCNL4Protocol \<Rightarrow> CCNL4Protocol" where
  "CCNProducerApp_StartApplication nodeName contentName contentFile st =
     (let st = CreateContentProducer st;
          producer = (last (l4_contentProducers st))
            \<lparr>cp_content_name := nodeName @ ''/'' @ contentName, cp_content_file := contentFile\<rparr>
      in st\<lparr>l4_contentProducers := butlast (l4_contentProducers st) @ [producer]\<rparr>)"

section \<open>Longest prefix match\<close>

text \<open>A cut is a position of the name at which a slash ends a proper prefix.\<close>

definition is_cut :: "string \<Rightarrow> nat \<Rightarrow> bool" where
  "is_cut name k = (0 < k \<and> k < length name \<and> name ! k = CHR ''/'')"

declare GetHostAddress_loop.simps [simp del] SendContentResponse_loop.simps [simp del]

lemma loop_no_match:
  assumes "\<forall>k > pos. is_cut name k \<longrightarrow> tbl (take k name) = None"
  shows "GetHostAddress_loop tbl name pos a = a"
  using assms
proof (induction tbl name pos a rule: GetHostAddress_loop.induct)
  case (1 tbl name pos a)
  show ?case
  proof (cases "find_char (CHR ''/'') name (pos + 1)")
    case None
    then show ?thesis by (simp add: GetHostAddress_loop.simps [of _ _ pos])
  next
    case (Some p)
    note p = find_char_SomeD [OF Some]
    then have "is_cut name p"
      by (auto simp: is_cut_def)
    with p have "tbl (take p name) = None"
      using 1(2) by auto
    moreover have "GetHostAddress_loop tbl name p a = a"
      using 1(1) [OF Some refl] 1(2) p(1) \<open>tbl (take p name) = None\<close> by simp
    ultimately show ?thesis
      using Some by (simp add: GetHostAddress_loop.simps [of _ _ pos])
  qed
qed

lemma loop_match:
  assumes "pos < k" and "is_cut name k" and "tbl (take k name) = Some b"
    and "\<forall>k' > k. is_cut name k' \<longrightarrow> tbl (take k' name) = None"
  shows "GetHostAddress_loop tbl name pos a = b"
  using assms
proof (induction tbl name pos a rule: GetHostAddress_loop.induct)
  case (1 tbl name pos a)
  from 1(3) have k: "k < length name" "name ! k = CHR ''/''"
    by (auto simp: is_cut_def)
  with 1(2) obtain p where p: "find_char (CHR ''/'') name (pos + 1) = Some p"
    using find_char_NoneD [of "CHR ''/''" name "pos + 1" k] by fastforce
  note pD = find_char_SomeD [OF p]
  have unfold: "GetHostAddress_loop tbl name pos a = GetHostAddress_loop tbl name p
      (case tbl (take p name) of Some c \<Rightarrow> c | None \<Rightarrow> a)"
    using p by (simp add: GetHostAddress_loop.simps [of _ _ pos])
  show ?case
  proof (cases "p = k")
    case True
    then show ?thesis
      using unfold 1(4,5) loop_no_match by simp
  next
    case False
    then have "p < k"
      using pD(4) [of k] k 1(2) by (metis Suc_eq_plus1 Suc_leI linorder_neqE_nat)
    then show ?thesis
      using unfold 1(1) [OF p refl] 1(3-5) by simp
  qed
qed

section \<open>Packets of the protocol\<close>

definition ccn_packet :: "u8 \<Rightarrow> string \<Rightarrow> packet \<Rightarrow> packet" where
  "ccn_packet ty name p = Packet (CCNHeader_img
     (CCN_fresh\<lparr>ccn_type := ty, ccn_content_name := name\<rparr>) @ pk_real p) (pk_zero p)"

lemma CCN_AddHeader_eq:
  "CCN_AddHeader (CCN_fresh\<lparr>ccn_type := ty, ccn_content_name := name\<rparr>) p =
     (if length name \<le> 20 then Some (ccn_packet ty name p) else None)"
proof (cases "length name \<le> 20")
  case True
  then show ?thesis
    unfolding CCN_AddHeader_def ccn_packet_def
    by (subst ccnh.AddHeader_img) (simp_all add: CCNHeader_ok_def ccn_name_length_def)
next
  case False
  then show ?thesis
    by (simp add: CCN_AddHeader_def AddHeader_def CCNHeader_Serialize_def ccn_name_length_def
        Option.bind_eq_None_conv split: option.splits)
qed

lemma Peek_ccn_packet:
  assumes "length name \<le> 20"
  shows "PeekHeader (CCNHeader_Deserialize CCN_fresh) (ccn_packet ty name p) =
    Some (\<lparr>ccn_content_name = name @ replicate (20 - length name) (CHR 0x00), ccn_type = ty,
      ccn_selector = 0, ccn_nonce = 0\<rparr>, 21)"
  using assms ccnh.des_img [of "CCN_fresh\<lparr>ccn_type := ty, ccn_content_name := name\<rparr>" 0
      "pk_bytes p"]
  by (simp add: PeekHeader_def ccn_packet_def ccnh.pk_bytes_added CCNHeader_ok_def
      ccn_name_length_def ccn_type_length_def CCN_fresh_def CCNHeader_received_def
      CCNHeader_GetSerializedSize_def)

lemma Remove_ccn_packet:
  assumes "length name \<le> 20"
  shows "\<exists>h. RemoveHeader (CCNHeader_Deserialize CCN_fresh) (ccn_packet ty name p) = Some (h, p)"
  using assms ccnh.des_img [of "CCN_fresh\<lparr>ccn_type := ty, ccn_content_name := name\<rparr>" 0
      "pk_bytes p"] ccnh.RemoveAtStart_added [of "CCN_fresh\<lparr>ccn_type := ty,
      ccn_content_name := name\<rparr>" p]
  by (simp add: RemoveHeader_def ccn_packet_def ccnh.pk_bytes_added CCNHeader_ok_def
      ccn_name_length_def CCN_fresh_def)

text \<open>A name that leaves room for a zero byte and holds none itself survives the padding.\<close>

definition clean_name :: "string \<Rightarrow> bool" where
  "clean_name name = (length name < 20 \<and> CHR 0x00 \<notin> set name)"

lemma erase_null_padded:
  assumes "CHR 0x00 \<notin> set name"
  shows "erase_null (name @ replicate n (CHR 0x00)) = (if n = 0 then Inl OutOfRange else Inr name)"
proof -
  have "takeWhile (\<lambda>x. x \<noteq> CHR 0x00) (name @ replicate n (CHR 0x00)) = name"
    using assms by (induction name) (auto simp: takeWhile_replicate)
  then show ?thesis
    by (simp add: erase_null_def find_char_def)
qed

section \<open>Chunks of a file\<close>

function file_chunks :: "u8 list \<Rightarrow> u8 list list" where
  "file_chunks bs = (if length bs < 16 then [bs] else take 16 bs # file_chunks (drop 16 bs))"
  by pat_completeness auto
termination
  by (relation "measure length") auto

declare file_chunks.simps [simp del]

lemma concat_file_chunks: "concat (file_chunks bs) = bs"
  by (induction bs rule: file_chunks.induct)
    (subst file_chunks.simps, simp)

lemma length_file_chunks: "length (file_chunks bs) = length bs div 16 + 1"
proof (induction bs rule: file_chunks.induct)
  case (1 bs)
  show ?case
  proof (cases "length bs < 16")
    case True
    then show ?thesis by (simp add: file_chunks.simps)
  next
    case False
    then show ?thesis
      using 1 by (subst file_chunks.simps) (simp add: le_div_geq)
  qed
qed

lemma SendData_pending:
  assumes "l4_pendingInterestTable st name = Some a" and "\<not> ipv4_eq a Ipv4Address_GetZero"
    and "length name \<le> 20"
  shows "SendData p name st = Inr (st, [CCN_Send (ccn_packet CCN_DATA name p) (l4_address st) a])"
  using assms by (simp add: SendData_def CCN_AddHeader_eq)

lemma SendContentResponse_loop_eq:
  assumes "l4_pendingInterestTable st name = Some a" and "\<not> ipv4_eq a Ipv4Address_GetZero"
    and "length name \<le> 20"
  shows "SendContentResponse_loop name content st = Inr (st,
    map (\<lambda>c. CCN_Send (ccn_packet CCN_DATA name (Create_Packet_data c)) (l4_address st) a)
      (file_chunks content))"
proof (induction content rule: file_chunks.induct)
  case (1 content)
  show ?case
    using 1 by (simp add: SendData_pending [OF assms] file_chunks.simps [of content]
        SendContentResponse_loop.simps [of name content])
qed

section \<open>Exchange of a content\<close>

lemma HandleInterest_eq:
  assumes "clean_name name"
    and "find (\<lambda>c. cp_content_name c = name) (l4_contentProducers st) = Some producer"
    and "files (cp_content_file producer) = Some content"
    and "\<not> ipv4_eq saddr Ipv4Address_GetZero"
  shows "CCN_Receive files (ccn_packet CCN_INTEREST name p) saddr st =
    Inr (st\<lparr>l4_pendingInterestTable := (l4_pendingInterestTable st)(name \<mapsto> saddr)\<rparr>,
      map (\<lambda>c. CCN_Send (ccn_packet CCN_DATA name (Create_Packet_data c)) (l4_address st) saddr)
        (file_chunks content))"
proof -
  have name: "cp_content_name producer = name"
    using assms(2) by (auto simp: find_Some_iff)
  show ?thesis
    using assms by (simp add: CCN_Receive_def HandleInterestPacket_def Peek_ccn_packet
        erase_null_padded clean_name_def SendContentResponse_def name SendContentResponse_loop_eq)
qed

lemma HandleData_eq:
  assumes "clean_name name"
    and "find (\<lambda>c. cc_content_name c = name) (l4_contentConsumers st) = Some consumer"
    and "cc_recvCb consumer"
  shows "CCN_Receive files (ccn_packet CCN_DATA name p) saddr st =
    Inr (st, [CCN_Deliver name p])"
proof -
  have name: "cc_content_name consumer = name"
    using assms(2) by (auto simp: find_Some_iff)
  from assms(1) obtain h where
    "RemoveHeader (CCNHeader_Deserialize CCN_fresh) (ccn_packet CCN_DATA name p) = Some (h, p)"
    using Remove_ccn_packet [of name CCN_DATA p] by (auto simp: clean_name_def)
  then show ?thesis
    using assms name by (simp add: CCN_Receive_def HandleDataPacket_def Peek_ccn_packet
        erase_null_padded clean_name_def NotifyRecv_def CCN_MessageType_defs)
qed

text \<open>Packets that arrive one after the other at a node.\<close>

fun CCN_Receive_all ::
  "(string \<Rightarrow> u8 list option) \<Rightarrow> (packet \<times> Ipv4Address) list \<Rightarrow> CCNL4Protocol \<Rightarrow> ccn_result" where
  "CCN_Receive_all files [] st = Inr (st, [])"
| "CCN_Receive_all files ((p, saddr) # l) st =
     then_do (CCN_Receive files p saddr st)
       (\<lambda>(st, acts). then_do (CCN_Receive_all files l st)
         (\<lambda>(st, acts'). Inr (st, acts @ acts')))"

fun sent_to :: "Ipv4Address \<Rightarrow> ccn_action list \<Rightarrow> (packet \<times> Ipv4Address) list" where
  "sent_to a [] = []"
| "sent_to a (CCN_Send p s d # l) = (if d = a then (p, s) # sent_to a l else sent_to a l)"
| "sent_to a (CCN_Deliver n p # l) = sent_to a l"

lemma sent_to_map: "sent_to a (map (\<lambda>c. CCN_Send (f c) s a) cs) = map (\<lambda>c. (f c, s)) cs"
  by (induction cs) auto

lemma Receive_all_data:
  assumes "clean_name name"
    and "find (\<lambda>c. cc_content_name c = name) (l4_contentConsumers st) = Some consumer"
    and "cc_recvCb consumer"
  shows "CCN_Receive_all files (map (\<lambda>c. (ccn_packet CCN_DATA name (g c), s)) cs) st =
    Inr (st, map (\<lambda>c. CCN_Deliver name (g c)) cs)"
  by (induction cs) (simp_all add: HandleData_eq [OF assms])

lemma find_snoc: "\<forall>x \<in> set xs. \<not> P x \<Longrightarrow> P y \<Longrightarrow> find P (xs @ [y]) = Some y"
  by (induction xs) auto

lemma ConsumerApp_start:
  assumes "length name \<le> 20"
    and "\<not> ipv4_eq (GetHostAddressFromContentName name st) Ipv4Address_GetZero"
  shows "CCNConsumerApp_StartApplication name st =
    Inr (st\<lparr>l4_contentConsumers := l4_contentConsumers st @
              [\<lparr>cc_content_name = name, cc_recvCb = True\<rparr>]\<rparr>,
      [CCN_Send (ccn_packet CCN_INTEREST name (Create_Packet 0)) (l4_address st)
        (GetHostAddressFromContentName name st)])"
  using assms by (simp add: CCNConsumerApp_StartApplication_def CreateContentConsumer_def
      GetContent_def SendInterest_def CCN_AddHeader_eq GetHostAddressFromContentName_def)

section \<open>Properties\<close>

text \<open>
  C15: The lookup of a content name is a longest prefix match over the table's entries that
  end before a slash of the name other than one at its first position: if such a prefix is in
  the table, the address of the longest one is returned, and otherwise the default-constructed
  address.  The whole name is never looked up.
\<close>

theorem GetHostAddress_longest_prefix:
  "(\<forall>k a. is_cut name k \<and> l4_contentPrefixToHostAddress st (take k name) = Some a \<and>
      (\<forall>k' > k. is_cut name k' \<longrightarrow> l4_contentPrefixToHostAddress st (take k' name) = None) \<longrightarrow>
      GetHostAddressFromContentName name st = a) \<and>
   ((\<forall>k. is_cut name k \<longrightarrow> l4_contentPrefixToHostAddress st (take k name) = None) \<longrightarrow>
      GetHostAddressFromContentName name st = Ipv4Address_default)"
  unfolding GetHostAddressFromContentName_def
  using loop_match [of 0] loop_no_match by (auto simp: is_cut_def)

definition example_ccn :: CCNL4Protocol where
  "example_ccn = AddContentPrefixToHostAddress_all
     [(''P'', Ipv4Address_of 7), (''P/q'', Ipv4Address_of 8)]
     (CCNL4Protocol_new (Ipv4Address_of 1))"

theorem GetHostAddress_longest_prefix_witness:
  "is_cut ''P/q/r'' 3 \<and>
   GetHostAddressFromContentName ''P/q/r'' example_ccn = Ipv4Address_of 8"
proof -
  have none: "l4_contentPrefixToHostAddress example_ccn (take k' ''P/q/r'') = None"
    if "3 < k'" "is_cut ''P/q/r'' k'" for k'
    using that by (auto simp: is_cut_def less_Suc_eq numeral_eq_Suc)
  have "is_cut ''P/q/r'' 3 \<and>
      l4_contentPrefixToHostAddress example_ccn (take 3 ''P/q/r'') = Some (Ipv4Address_of 8)"
    by (simp add: is_cut_def example_ccn_def CCNL4Protocol_new_def numeral_eq_Suc)
  with none show ?thesis
    using GetHostAddress_longest_prefix [of "''P/q/r''" example_ccn] by blast
qed

text \<open>
  A consumer that asks for a name without an entry does not notice it: the test against
  the zero address never holds for the default-constructed address, and the interest packet is
  sent to 102.102.102.102.
\<close>

theorem SendInterest_without_route:
  assumes "length name \<le> 20"
    and "\<forall>k. is_cut name k \<longrightarrow> l4_contentPrefixToHostAddress st (take k name) = None"
  shows "\<exists>q. SendInterest p name st = Inr (st, [CCN_Send q (l4_address st) Ipv4Address_default]) \<and>
    m_address Ipv4Address_default = 0x66666666"
  using assms loop_no_match [of 0 name "l4_contentPrefixToHostAddress st" Ipv4Address_default]
  by (simp add: SendInterest_def CCN_AddHeader_eq GetHostAddressFromContentName_def
      Ipv4Address_default_def [THEN arg_cong, of m_address] UNINITIALIZED_def)

theorem SendInterest_without_route_witness:
  "\<exists>q. SendInterest (Create_Packet 0) ''/x'' (CCNL4Protocol_new (Ipv4Address_of 1)) =
     Inr (CCNL4Protocol_new (Ipv4Address_of 1),
       [CCN_Send q (l4_address (CCNL4Protocol_new (Ipv4Address_of 1))) Ipv4Address_default])"
  using SendInterest_without_route [of "''/x''" "CCNL4Protocol_new (Ipv4Address_of 1)"
      "Create_Packet 0"]
  by (auto simp: CCNL4Protocol_new_def)

text \<open>
  A content whose name has exactly twenty characters can be asked for and its interest
  packet leaves the consumer, but every node that receives it stops with an out-of-range
  exception, because no zero byte is left in the name field.
\<close>

theorem twenty_character_name_stops_receiver:
  assumes "length name = 20" and "CHR 0x00 \<notin> set name"
    and "\<not> ipv4_eq (GetHostAddressFromContentName name st) Ipv4Address_GetZero"
  shows "\<exists>q d. SendInterest (Create_Packet 0) name st = Inr (st, [CCN_Send q (l4_address st) d]) \<and>
    (\<forall>files saddr st'. CCN_Receive files q saddr st' = Inl OutOfRange)"
  using assms erase_null_padded [of name 0]
  by (simp add: SendInterest_def CCN_AddHeader_eq CCN_Receive_def HandleInterestPacket_def
      Peek_ccn_packet)

theorem twenty_character_name_stops_receiver_witness:
  "length ''/aaaaaaaaaaaaaaaaaaa'' = 20 \<and>
   (\<exists>q d. SendInterest (Create_Packet 0) ''/aaaaaaaaaaaaaaaaaaa''
       (CCNL4Protocol_new (Ipv4Address_of 1)) = Inr (CCNL4Protocol_new (Ipv4Address_of 1),
         [CCN_Send q (l4_address (CCNL4Protocol_new (Ipv4Address_of 1))) d]) \<and>
     (\<forall>files saddr st'. CCN_Receive files q saddr st' = Inl OutOfRange))"
proof -
  have "GetHostAddressFromContentName ''/aaaaaaaaaaaaaaaaaaa''
      (CCNL4Protocol_new (Ipv4Address_of 1)) = Ipv4Address_default"
    unfolding GetHostAddressFromContentName_def
    by (rule loop_no_match) (simp add: CCNL4Protocol_new_def)
  then show ?thesis
    using twenty_character_name_stops_receiver [of "''/aaaaaaaaaaaaaaaaaaa''"
        "CCNL4Protocol_new (Ipv4Address_of 1)"] by simp
qed

text \<open>
  C4: End to end, a consumer application that starts on one node with a route to the producer
  gets the whole file: it sends one interest packet to the producer's address; the producer's
  node answers it with one data packet per sixteen bytes of the file and one more for the
  remainder, all addressed to the consumer; and when these arrive in order, the consumer's
  callback is invoked with exactly the file's bytes, while the consumer's node keeps its state.
\<close>

theorem ccn_fetch_complete:
  assumes "clean_name name"
    and "GetHostAddressFromContentName name stA = addrB"
    and "\<not> ipv4_eq addrB Ipv4Address_GetZero"
    and "\<not> ipv4_eq (l4_address stA) Ipv4Address_GetZero"
    and "\<forall>c \<in> set (l4_contentConsumers stA). cc_content_name c \<noteq> name"
    and "find (\<lambda>c. cp_content_name c = name) (l4_contentProducers stB) = Some producer"
    and "files (cp_content_file producer) = Some content"
  shows "\<exists>stA' p stB' acts.
    CCNConsumerApp_StartApplication name stA = Inr (stA', [CCN_Send p (l4_address stA) addrB]) \<and>
    CCN_Receive files p (l4_address stA) stB = Inr (stB', acts) \<and>
    length acts = length content div 16 + 1 \<and>
    (\<exists>got. CCN_Receive_all filesA (sent_to (l4_address stA) acts) stA' =
        Inr (stA', map (\<lambda>c. CCN_Deliver name (Create_Packet_data c)) got) \<and>
      concat got = content)"
proof -
  have len: "length name \<le> 20"
    using assms(1) by (simp add: clean_name_def)
  let ?consumer = "\<lparr>cc_content_name = name, cc_recvCb = True\<rparr>"
  let ?stA = "stA\<lparr>l4_contentConsumers := l4_contentConsumers stA @ [?consumer]\<rparr>"
  let ?acts = "map (\<lambda>c. CCN_Send (ccn_packet CCN_DATA name (Create_Packet_data c))
    (l4_address stB) (l4_address stA)) (file_chunks content)"
  have start: "CCNConsumerApp_StartApplication name stA = Inr (?stA,
      [CCN_Send (ccn_packet CCN_INTEREST name (Create_Packet 0)) (l4_address stA) addrB])"
    using ConsumerApp_start [OF len, of stA] assms(2,3) by simp
  have "find (\<lambda>c. cc_content_name c = name) (l4_contentConsumers ?stA) = Some ?consumer"
    using assms(5) by (simp add: find_snoc)
  then have "CCN_Receive_all filesA (sent_to (l4_address stA) ?acts) ?stA =
      Inr (?stA, map (\<lambda>c. CCN_Deliver name (Create_Packet_data c)) (file_chunks content))"
    by (simp add: sent_to_map Receive_all_data [OF assms(1)])
  moreover note start
  moreover have "CCN_Receive files (ccn_packet CCN_INTEREST name (Create_Packet 0))
      (l4_address stA) stB = Inr (stB\<lparr>l4_pendingInterestTable :=
        (l4_pendingInterestTable stB)(name \<mapsto> l4_address stA)\<rparr>, ?acts)"
    using assms(1,6,7,4) by (rule HandleInterest_eq)
  ultimately show ?thesis
    using concat_file_chunks [of content] length_file_chunks [of content] by fastforce
qed

definition example_producer_node :: CCNL4Protocol where
  "example_producer_node = CCNProducerApp_StartApplication ''P'' ''doc'' ''doc.txt''
     (CCNL4Protocol_new (Ipv4Address_of 7))"

theorem ccn_fetch_complete_witness:
  "\<exists>stA' p stB' acts.
     CCNConsumerApp_StartApplication ''P/doc'' example_ccn =
       Inr (stA', [CCN_Send p (l4_address example_ccn) (Ipv4Address_of 7)]) \<and>
     CCN_Receive (\<lambda>f. Some (replicate 40 65)) p (l4_address example_ccn) example_producer_node =
       Inr (stB', acts) \<and> length acts = 3"
proof -
  have host: "GetHostAddressFromContentName ''P/doc'' example_ccn = Ipv4Address_of 7"
    unfolding GetHostAddressFromContentName_def
    by (rule loop_match [where k = 1])
      (auto simp: is_cut_def example_ccn_def CCNL4Protocol_new_def less_Suc_eq numeral_eq_Suc)
  have "find (\<lambda>c. cp_content_name c = ''P/doc'') (l4_contentProducers example_producer_node) =
      Some \<lparr>cp_content_name = ''P/doc'', cp_content_file = ''doc.txt''\<rparr>"
    by (simp add: example_producer_node_def CCNProducerApp_StartApplication_def
        CreateContentProducer_def CCNL4Protocol_new_def)
  then show ?thesis
    using ccn_fetch_complete [of "''P/doc''" example_ccn "Ipv4Address_of 7"
        example_producer_node _ "\<lambda>f. Some (replicate 40 65)" "replicate 40 65", OF _ host]
    by (force simp: clean_name_def ipv4_eq_def Ipv4Address_of_def Ipv4Address_GetZero_def
        example_ccn_def CCNL4Protocol_new_def)
qed

end
