(* ===== verification/CNRS.thy ===== *)
theory CNRS
  imports Headers
begin

text \<open>
  The hierarchical name resolution service
  (\<^verbatim>\<open>networks/cybertwin-name-resolution-service.{h,cc}\<close>).  One record is one node's
  service; a handler returns the new state and, in order, the packets it sends, the
  callbacks it invokes and the reports it schedules.  What the sockets answer (bind, connect
  and send return codes) is the parameter \<open>env\<close>; the random identifiers drawn by
  \<^verbatim>\<open>GetQueryID\<close> are a list of draws.
\<close>

section \<open>State and actions\<close>

definition DEFAULT_PAYLOAD_LEN :: nat where "DEFAULT_PAYLOAD_LEN = 128"
definition NAME_RESOLUTION_SERVICE_PORT :: u16 where "NAME_RESOLUTION_SERVICE_PORT = 5353"

text \<open>
  A pending query holds the callback of a local caller, or the service's own
  \<^verbatim>\<open>QueryResponseCallback\<close> when the query came from a subordinate node.
\<close>

datatype nrs_callback = AppCallback nat | QueryResponseCallback

datatype client_socket = NoSocket | SocketUnconnected | SocketConnected Ipv4Address

type_synonym peer_address = "Ipv4Address \<times> u16"

record NameResolutionService =
  nrs_clientSocket :: client_socket
  nrs_superior :: Ipv4Address
  nrs_itemCache :: "CYBERTWINID_t \<rightharpoonup> CYBERTWIN_INTERFACE_LIST_t"
  nrs_queryCache :: "QUERY_ID_t \<rightharpoonup> nrs_callback"
  nrs_queryClientCache :: "QUERY_ID_t \<rightharpoonup> peer_address"
  nrs_isCNRSRoot :: bool

record nrs_env =
  env_bind :: int
  env_connect :: int
  env_send :: int

text \<open>
  \<open>NRS_SendTo\<close> answers from the service socket, \<open>NRS_ServiceSend\<close> is a
  \<^verbatim>\<open>Send\<close> on the service socket, which is never connected, and
  \<open>NRS_ClientSend\<close> goes to the superior.
\<close>

datatype nrs_action =
    NRS_SendTo packet peer_address
  | NRS_ServiceSend packet
  | NRS_ClientSend packet
  | NRS_Callback nrs_callback CYBERTWINID_t CYBERTWIN_INTERFACE_LIST_t
  | NRS_ScheduleReport CYBERTWINID_t CYBERTWIN_INTERFACE_LIST_t

type_synonym nrs_result = "(NameResolutionService \<times> nrs_action list) outcome"

definition NameResolutionService_new :: "bool \<Rightarrow> NameResolutionService" where
  "NameResolutionService_new garbage = \<lparr>nrs_clientSocket = NoSocket,
     nrs_superior = Ipv4Address_default, nrs_itemCache = Map.empty,
     nrs_queryCache = Map.empty, nrs_queryClientCache = Map.empty, nrs_isCNRSRoot = garbage\<rparr>"

definition NameResolutionService_super :: "Ipv4Address \<Rightarrow> bool \<Rightarrow> NameResolutionService" where
  "NameResolutionService_super super garbage =
     (NameResolutionService_new garbage)\<lparr>nrs_superior := super\<rparr>"

definition InitSuperior ::
  "bool \<Rightarrow> Ipv4Address \<Rightarrow> NameResolutionService \<Rightarrow> NameResolutionService" where
  "InitSuperior nodeIsRoot upperNodeAddress st =
     (if nodeIsRoot then st\<lparr>nrs_isCNRSRoot := True\<rparr>
      else st\<lparr>nrs_isCNRSRoot := False, nrs_superior := upperNodeAddress\<rparr>)"

definition InitClientUDPSocket ::
  "nrs_env \<Rightarrow> NameResolutionService \<Rightarrow> (int \<times> NameResolutionService) outcome" where
  "InitClientUDPSocket env st =
     (if \<not> m_initialized (nrs_superior st) then Inr (-1, st\<lparr>nrs_clientSocket := NoSocket\<rparr>)
      else if nrs_clientSocket st = NoSocket then
        if env_bind env < 0 then Inl FatalError
        else if env_connect env < 0 then Inr (-3, st\<lparr>nrs_clientSocket := SocketUnconnected\<rparr>)
        else Inr (0, st\<lparr>nrs_clientSocket := SocketConnected (nrs_superior st)\<rparr>)
      else Inr (0, st))"

definition CNRS_AddHeader :: "CNRSHeader \<Rightarrow> packet \<Rightarrow> packet option" where
  "CNRS_AddHeader h p = AddHeader (replicate (CNRSHeader_GetSerializedSize h) 0)
     (CNRSHeader_Serialize h) p"

section \<open>Queries\<close>

definition QuerySuperiorFail ::
  "CYBERTWINID_t \<Rightarrow> QUERY_ID_t \<Rightarrow> NameResolutionService \<Rightarrow> nrs_action list" where
  "QuerySuperiorFail cuid qId st =
     (case nrs_queryCache st qId of
        None \<Rightarrow> []
      | Some cb \<Rightarrow> [NRS_Callback cb cuid []])"

definition QuerySuperior ::
  "nrs_env \<Rightarrow> CYBERTWINID_t \<Rightarrow> QUERY_ID_t \<Rightarrow> NameResolutionService \<Rightarrow>
     (int \<times> NameResolutionService \<times> nrs_action list) outcome" where
  "QuerySuperior env cuid qId st =
     (if \<not> m_initialized (nrs_superior st) then Inr (-1, st, QuerySuperiorFail cuid qId st)
      else
        from_option BadBuffer
          (CNRS_AddHeader (CNRSHeader_new\<lparr>cnrs_method := CNRS_QUERY, cnrs_cuid := cuid,
             cnrs_queryId := qId\<rparr>) (Create_Packet 0))
          (\<lambda>packet.
             then_do (if nrs_clientSocket st = NoSocket then InitClientUDPSocket env st
                      else Inr (0, st))
               (\<lambda>(_, st). if env_send env \<le> 0 then Inr (-2, st, [NRS_ClientSend packet])
                  else Inr (0, st, [NRS_ClientSend packet]))))"

definition InformCNRSResult ::
  "CYBERTWINID_t \<Rightarrow> QUERY_ID_t \<Rightarrow> peer_address \<Rightarrow> NameResolutionService \<Rightarrow> nrs_result" where
  "InformCNRSResult cuid qId from_addr st =
     (let (interfaces, items) = map_get_or [] (nrs_itemCache st) cuid;
          st = st\<lparr>nrs_itemCache := items\<rparr>
      in from_option BadBuffer
           (CNRS_AddHeader (CNRSHeader_SetInterfaceList interfaces
              (CNRSHeader_new\<lparr>cnrs_method := CNRS_QUERY_OK, cnrs_cuid := cuid,
                cnrs_queryId := qId\<rparr>)) (Create_Packet 0))
           (\<lambda>packet. Inr (st, [NRS_SendTo packet from_addr])))"

definition ProcessQuery ::
  "nrs_env \<Rightarrow> CNRSHeader \<Rightarrow> peer_address \<Rightarrow> NameResolutionService \<Rightarrow> nrs_result" where
  "ProcessQuery env rcvHeader from_addr st =
     (let cuid = cnrs_cuid rcvHeader; qId = cnrs_queryId rcvHeader
      in if nrs_itemCache st cuid \<noteq> None then InformCNRSResult cuid qId from_addr st
         else
           let st = st\<lparr>nrs_queryClientCache := (nrs_queryClientCache st)(qId \<mapsto> from_addr),
                       nrs_queryCache := (nrs_queryCache st)(qId \<mapsto> QueryResponseCallback)\<rparr>
           in then_do (QuerySuperior env cuid qId st)
                (\<lambda>(ret, st, acts).
                   if ret < 0 then Inr (st, acts @ QuerySuperiorFail cuid qId st)
                   else Inr (st, acts)))"

definition QueryResponse ::
  "peer_address \<Rightarrow> CYBERTWINID_t \<Rightarrow> QUERY_ID_t \<Rightarrow> CYBERTWIN_INTERFACE_LIST_t \<Rightarrow>
     NameResolutionService \<Rightarrow> nrs_result" where
  "QueryResponse peer cuid qid ifs st =
     (let h = CNRSHeader_new\<lparr>cnrs_cuid := cuid, cnrs_queryId := qid\<rparr>;
          h = (if length ifs = 0 then h\<lparr>cnrs_method := CNRS_QUERY_FAIL\<rparr>
               else CNRSHeader_SetInterfaceList ifs (h\<lparr>cnrs_method := CNRS_QUERY_OK\<rparr>))
      in from_option BadBuffer (CNRS_AddHeader h (Create_Packet DEFAULT_PAYLOAD_LEN))
           (\<lambda>packet. Inr (st\<lparr>nrs_queryClientCache := (nrs_queryClientCache st)(qid := None)\<rparr>,
              [NRS_SendTo packet peer])))"

definition QueryResponseHandler ::
  "bool \<Rightarrow> CNRSHeader \<Rightarrow> NameResolutionService \<Rightarrow> nrs_result" where
  "QueryResponseHandler queryOk rcvHeader st =
     (let cuid = cnrs_cuid rcvHeader; qId = cnrs_queryId rcvHeader;
          interfaces = (if queryOk then cnrs_interfaceList rcvHeader else []);
          st = (if queryOk
                then st\<lparr>nrs_itemCache := (nrs_itemCache st)(cuid \<mapsto> interfaces)\<rparr> else st)
      in case nrs_queryClientCache st qId of
           Some peer \<Rightarrow> QueryResponse peer cuid qId interfaces st
         | None \<Rightarrow>
             (case nrs_queryCache st qId of
                Some cb \<Rightarrow> Inr (st\<lparr>nrs_queryCache := (nrs_queryCache st)(qId := None)\<rparr>,
                              [NRS_Callback cb cuid interfaces])
              | None \<Rightarrow> Inr (st, [])))"

definition ClientRecv_one :: "packet \<Rightarrow> NameResolutionService \<Rightarrow> nrs_result" where
  "ClientRecv_one packet st =
     from_option BadBuffer (RemoveHeader (CNRSHeader_Deserialize CNRSHeader_new) packet)
       (\<lambda>(rcvHeader, _).
          if cnrs_method rcvHeader = CNRS_QUERY_OK then QueryResponseHandler True rcvHeader st
          else if cnrs_method rcvHeader = CNRS_QUERY_FAIL then
            QueryResponseHandler False rcvHeader st
          else Inr (st, []))"

fun ClientRecvHandler :: "packet list \<Rightarrow> NameResolutionService \<Rightarrow> nrs_result" where
  "ClientRecvHandler [] st = Inr (st, [])"
| "ClientRecvHandler (packet # packets) st =
     then_do (ClientRecv_one packet st)
       (\<lambda>(st, acts). then_do (ClientRecvHandler packets st)
         (\<lambda>(st, acts'). Inr (st, acts @ acts')))"

section \<open>Inserts\<close>

definition InsertCybertwinInterfaceName ::
  "CYBERTWINID_t \<Rightarrow> CYBERTWIN_INTERFACE_LIST_t \<Rightarrow> NameResolutionService \<Rightarrow>
     int \<times> NameResolutionService \<times> nrs_action list" where
  "InsertCybertwinInterfaceName name interfaces st =
     (if (case nrs_itemCache st name of
            Some old \<Rightarrow> interfaces_eq old interfaces | None \<Rightarrow> False)
      then (0, st, [])
      else
        let st = st\<lparr>nrs_itemCache := (nrs_itemCache st)(name \<mapsto> interfaces)\<rparr>
        in if \<not> nrs_isCNRSRoot st then (0, st, [NRS_ScheduleReport name interfaces])
           else (0, st, []))"

definition ProcessInsert :: "CNRSHeader \<Rightarrow> NameResolutionService \<Rightarrow> nrs_result" where
  "ProcessInsert rcvHeader st =
     (let (ret, st, acts) = InsertCybertwinInterfaceName (cnrs_cuid rcvHeader)
                              (cnrs_interfaceList rcvHeader) st;
          h = CNRSHeader_new\<lparr>cnrs_method := (if ret < 0 then CNRS_INSERT_FAIL else CNRS_INSERT_OK)\<rparr>
      in from_option BadBuffer (CNRS_AddHeader h (Create_Packet 0))
           (\<lambda>packet. Inr (st, acts @ [NRS_ServiceSend packet])))"

definition ReportName2Superior ::
  "nrs_env \<Rightarrow> CYBERTWINID_t \<Rightarrow> CYBERTWIN_INTERFACE_LIST_t \<Rightarrow> NameResolutionService \<Rightarrow>
     nrs_result" where
  "ReportName2Superior env cuid interfaces st =
     then_do (InitClientUDPSocket env st)
       (\<lambda>(ret, st). if ret < 0 then Inr (st, [])
          else from_option BadBuffer
            (CNRS_AddHeader (CNRSHeader_SetInterfaceList interfaces
               (CNRSHeader_new\<lparr>cnrs_method := CNRS_INSERT, cnrs_cuid := cuid\<rparr>)) (Create_Packet 0))
            (\<lambda>packet. require (nrs_clientSocket st \<noteq> NoSocket) AssertFailed
               (Inr (st, [NRS_ClientSend packet]))))"

definition ServiceRecv_one ::
  "nrs_env \<Rightarrow> packet \<Rightarrow> peer_address \<Rightarrow> NameResolutionService \<Rightarrow> nrs_result" where
  "ServiceRecv_one env packet from_addr st =
     from_option BadBuffer (RemoveHeader (CNRSHeader_Deserialize CNRSHeader_new) packet)
       (\<lambda>(rcvHeader, _).
          if cnrs_method rcvHeader = CNRS_QUERY then ProcessQuery env rcvHeader from_addr st
          else if cnrs_method rcvHeader = CNRS_INSERT then ProcessInsert rcvHeader st
          else Inr (st, []))"

fun ServiceRecvHandler ::
  "nrs_env \<Rightarrow> (packet \<times> peer_address) list \<Rightarrow> NameResolutionService \<Rightarrow> nrs_result" where
  "ServiceRecvHandler env [] st = Inr (st, [])"
| "ServiceRecvHandler env ((packet, from_addr) # packets) st =
     then_do (ServiceRecv_one env packet from_addr st)
       (\<lambda>(st, acts). then_do (ServiceRecvHandler env packets st)
         (\<lambda>(st, acts'). Inr (st, acts @ acts')))"

section \<open>Calls of the applications\<close>

text \<open>The loop draws identifiers until one is not pending; the list holds the draws.\<close>

fun GetQueryID :: "QUERY_ID_t list \<Rightarrow> NameResolutionService \<Rightarrow> QUERY_ID_t option" where
  "GetQueryID [] st = None"
| "GetQueryID (qId # draws) st =
     (if nrs_queryCache st qId \<noteq> None then GetQueryID draws st else Some qId)"

definition GetCybertwinInterfaceByName ::
  "nrs_env \<Rightarrow> QUERY_ID_t list \<Rightarrow> CYBERTWINID_t \<Rightarrow> nrs_callback \<Rightarrow> NameResolutionService \<Rightarrow>
     nrs_result" where
  "GetCybertwinInterfaceByName env draws name callback st =
     (case nrs_itemCache st name of
        Some interfaces \<Rightarrow> Inr (st, [NRS_Callback callback name interfaces])
      | None \<Rightarrow>
          from_option Unfinished (GetQueryID draws st)
            (\<lambda>qId.
               let st = st\<lparr>nrs_queryCache := (nrs_queryCache st)(qId \<mapsto> callback)\<rparr>
               in then_do (QuerySuperior env name qId st) (\<lambda>(_, st, acts). Inr (st, acts))))"

section \<open>The cache as a name table\<close>

abbreviation nrs_insert ::
  "CYBERTWINID_t \<Rightarrow> CYBERTWIN_INTERFACE_LIST_t \<Rightarrow> NameResolutionService \<Rightarrow> NameResolutionService"
  where "nrs_insert name ifs st \<equiv> fst (snd (InsertCybertwinInterfaceName name ifs st))"

lemma interfaces_eq_sym: "interfaces_eq xs ys \<Longrightarrow> interfaces_eq ys xs"
  by (auto simp: interfaces_eq_def list_all2_conv_all_nth ipv4_eq_def)

lemma interfaces_eq_trans: "interfaces_eq xs ys \<Longrightarrow> interfaces_eq ys zs \<Longrightarrow> interfaces_eq xs zs"
  by (auto simp: interfaces_eq_def list_all2_conv_all_nth ipv4_eq_def)

lemma interfaces_eq_length: "interfaces_eq xs ys \<Longrightarrow> length xs = length ys"
  by (auto simp: interfaces_eq_def dest: list_all2_lengthD)

lemma Insert_cases:
  "InsertCybertwinInterfaceName name ifs st =
     (if \<exists>old. nrs_itemCache st name = Some old \<and> interfaces_eq old ifs then (0, st, [])
      else (0, st\<lparr>nrs_itemCache := (nrs_itemCache st)(name \<mapsto> ifs)\<rparr>,
        if nrs_isCNRSRoot st then [] else [NRS_ScheduleReport name ifs]))"
  by (auto simp: InsertCybertwinInterfaceName_def Let_def split: option.splits)

interpretation names: name_store nrs_itemCache nrs_insert interfaces_eq
  by unfold_locales (auto simp: Insert_cases interfaces_eq_sym intro: interfaces_eq_trans)

section \<open>Packets of the service\<close>

definition cnrs_packet :: "CNRSHeader \<Rightarrow> packet \<Rightarrow> packet" where
  "cnrs_packet h p = Packet (CNRSHeader_img h @ pk_real p) (pk_zero p)"

definition query_header :: "CYBERTWINID_t \<Rightarrow> QUERY_ID_t \<Rightarrow> CNRSHeader" where
  "query_header cuid qId =
     CNRSHeader_new\<lparr>cnrs_method := CNRS_QUERY, cnrs_cuid := cuid, cnrs_queryId := qId\<rparr>"

definition list_header ::
  "u8 \<Rightarrow> CYBERTWINID_t \<Rightarrow> QUERY_ID_t \<Rightarrow> CYBERTWIN_INTERFACE_LIST_t \<Rightarrow> CNRSHeader" where
  "list_header method cuid qId ifs = CNRSHeader_SetInterfaceList ifs
     (CNRSHeader_new\<lparr>cnrs_method := method, cnrs_cuid := cuid, cnrs_queryId := qId\<rparr>)"

definition on_wire :: "CYBERTWIN_INTERFACE_LIST_t \<Rightarrow> CYBERTWIN_INTERFACE_LIST_t" where
  "on_wire ifs = map (\<lambda>(a, port). (Ipv4Address_of (m_address a), port)) ifs"

lemma on_wire_eq: "interfaces_eq (on_wire ifs) ifs"
  by (auto simp: interfaces_eq_def on_wire_def list_all2_conv_all_nth ipv4_eq_def
      Ipv4Address_of_def split: prod.splits)

lemma on_wire_idem [simp]: "on_wire (on_wire ifs) = on_wire ifs"
  by (auto simp: on_wire_def Ipv4Address_of_def)

lemma length_on_wire [simp]: "length (on_wire ifs) = length ifs"
  by (simp add: on_wire_def)

lemma on_wire_Nil_iff [simp]: "on_wire ifs = [] \<longleftrightarrow> ifs = []"
  by (simp add: on_wire_def)

lemma CNRS_AddHeader_ok: "CNRSHeader_ok h \<Longrightarrow> CNRS_AddHeader h p = Some (cnrs_packet h p)"
  unfolding CNRS_AddHeader_def cnrs_packet_def by (subst cnrs.AddHeader_img) simp_all

lemma CNRS_RemoveHeader:
  "CNRSHeader_ok h \<Longrightarrow> RemoveHeader (CNRSHeader_Deserialize CNRSHeader_new) (cnrs_packet h p) =
     Some (CNRSHeader_received h, p)"
  by (simp add: RemoveHeader_def cnrs_packet_def cnrs.pk_bytes_added cnrs.des_img
      cnrs.RemoveAtStart_added)

lemma query_header_ok [simp]: "CNRSHeader_ok (query_header cuid qId)"
  by (simp add: CNRSHeader_ok_def query_header_def CNRSHeader_new_def)

lemma reply_header_ok [simp]: "CNRSHeader_ok (CNRSHeader_new\<lparr>cnrs_method := m\<rparr>)"
  by (simp add: CNRSHeader_ok_def CNRSHeader_new_def)

lemma list_header_ok:
  "length ifs < 256 \<Longrightarrow> m = CNRS_INSERT \<or> m = CNRS_QUERY_OK \<Longrightarrow>
     CNRSHeader_ok (list_header m cuid qId ifs)"
  by (auto simp: CNRSHeader_ok_def list_header_def CNRSHeader_new_def
      CNRSHeader_SetInterfaceList_def)

lemma query_header_sel [simp]:
  "cnrs_method (CNRSHeader_received (query_header cuid qId)) = CNRS_QUERY"
  "cnrs_cuid (CNRSHeader_received (query_header cuid qId)) = cuid"
  "cnrs_queryId (CNRSHeader_received (query_header cuid qId)) = qId"
  by (simp_all add: CNRSHeader_received_def query_header_def)

lemma list_header_sel [simp]:
  "cnrs_method (CNRSHeader_received (list_header m cuid qId ifs)) = m"
  "cnrs_cuid (CNRSHeader_received (list_header m cuid qId ifs)) = cuid"
  "cnrs_queryId (CNRSHeader_received (list_header m cuid qId ifs)) = qId"
  "cnrs_interfaceList (CNRSHeader_received (list_header m cuid qId ifs)) = on_wire ifs"
  by (simp_all add: CNRSHeader_received_def list_header_def CNRSHeader_SetInterfaceList_def
      on_wire_def)

text \<open>The headers as the handlers build them.\<close>

lemma header_folds:
  "CNRSHeader_new\<lparr>cnrs_method := CNRS_QUERY, cnrs_cuid := cuid, cnrs_queryId := qId\<rparr> =
     query_header cuid qId"
  "CNRSHeader_SetInterfaceList ifs
     (CNRSHeader_new\<lparr>cnrs_method := m, cnrs_cuid := cuid, cnrs_queryId := qId\<rparr>) =
     list_header m cuid qId ifs"
  "CNRSHeader_SetInterfaceList ifs
     (CNRSHeader_new\<lparr>cnrs_cuid := cuid, cnrs_queryId := qId, cnrs_method := m\<rparr>) =
     list_header m cuid qId ifs"
  "CNRSHeader_SetInterfaceList ifs (CNRSHeader_new\<lparr>cnrs_method := m, cnrs_cuid := cuid\<rparr>) =
     list_header m cuid 0 ifs"
  by (simp_all add: query_header_def list_header_def CNRSHeader_new_def)

lemma method_distinct [simp]:
  "CNRS_QUERY \<noteq> CNRS_INSERT" "CNRS_INSERT \<noteq> CNRS_QUERY"
  "CNRS_QUERY_OK \<noteq> CNRS_QUERY_FAIL" "CNRS_QUERY_FAIL \<noteq> CNRS_QUERY_OK"
  by (simp_all add: CNRS_METHOD_defs)

section \<open>Behaviour of the handlers\<close>

text \<open>The sockets of the simulated nodes work: binding, connecting and sending succeed.\<close>

definition env_ok :: "nrs_env \<Rightarrow> bool" where
  "env_ok env = (env_bind env \<ge> 0 \<and> env_connect env \<ge> 0 \<and> env_send env > 0)"

definition with_client :: "NameResolutionService \<Rightarrow> NameResolutionService" where
  "with_client st = (if nrs_clientSocket st = NoSocket
     then st\<lparr>nrs_clientSocket := SocketConnected (nrs_superior st)\<rparr> else st)"

lemma with_client_sel [simp]:
  "nrs_itemCache (with_client st) = nrs_itemCache st"
  "nrs_queryCache (with_client st) = nrs_queryCache st"
  "nrs_queryClientCache (with_client st) = nrs_queryClientCache st"
  "nrs_superior (with_client st) = nrs_superior st"
  "nrs_isCNRSRoot (with_client st) = nrs_isCNRSRoot st"
  "nrs_clientSocket (with_client st) \<noteq> NoSocket"
  by (simp_all add: with_client_def)

lemma InitClientUDPSocket_ok:
  "env_ok env \<Longrightarrow> m_initialized (nrs_superior st) \<Longrightarrow>
     InitClientUDPSocket env st = Inr (0, with_client st)"
  by (auto simp: InitClientUDPSocket_def env_ok_def with_client_def)

lemma QuerySuperior_ok:
  "env_ok env \<Longrightarrow> m_initialized (nrs_superior st) \<Longrightarrow>
     QuerySuperior env cuid qId st =
       Inr (0, with_client st, [NRS_ClientSend (cnrs_packet (query_header cuid qId) (Create_Packet 0))])"
  by (auto simp: QuerySuperior_def header_folds CNRS_AddHeader_ok InitClientUDPSocket_ok
      env_ok_def) (simp_all add: with_client_def)

lemma Service_query_hit:
  assumes "nrs_itemCache st cuid = Some ifs" and "length ifs < 256"
  shows "ServiceRecv_one env (cnrs_packet (query_header cuid qId) p) from_addr st =
    Inr (st, [NRS_SendTo (cnrs_packet (list_header CNRS_QUERY_OK cuid qId ifs) (Create_Packet 0))
      from_addr])"
  using assms by (simp add: ServiceRecv_one_def CNRS_RemoveHeader ProcessQuery_def
      InformCNRSResult_def header_folds CNRS_AddHeader_ok list_header_ok)

lemma Service_query_miss:
  assumes "env_ok env" and "m_initialized (nrs_superior st)" and "nrs_itemCache st cuid = None"
  shows "ServiceRecv_one env (cnrs_packet (query_header cuid qId) p) from_addr st =
    Inr (with_client (st\<lparr>nrs_queryClientCache := (nrs_queryClientCache st)(qId \<mapsto> from_addr),
        nrs_queryCache := (nrs_queryCache st)(qId \<mapsto> QueryResponseCallback)\<rparr>),
      [NRS_ClientSend (cnrs_packet (query_header cuid qId) (Create_Packet 0))])"
  using assms by (simp add: ServiceRecv_one_def CNRS_RemoveHeader ProcessQuery_def
      QuerySuperior_ok)

lemma Client_answer_relay:
  assumes "nrs_queryClientCache st qId = Some peer" and "0 < length ifs" and "length ifs < 256"
  shows "ClientRecv_one (cnrs_packet (list_header CNRS_QUERY_OK cuid qId ifs) p) st =
    Inr (st\<lparr>nrs_itemCache := (nrs_itemCache st)(cuid \<mapsto> on_wire ifs),
        nrs_queryClientCache := (nrs_queryClientCache st)(qId := None)\<rparr>,
      [NRS_SendTo (cnrs_packet (list_header CNRS_QUERY_OK cuid qId (on_wire ifs))
        (Create_Packet DEFAULT_PAYLOAD_LEN)) peer])"
  using assms by (simp add: ClientRecv_one_def CNRS_RemoveHeader list_header_ok
      QueryResponseHandler_def QueryResponse_def header_folds CNRS_AddHeader_ok Let_def)

lemma Client_answer_local:
  assumes "nrs_queryClientCache st qId = None" and "nrs_queryCache st qId = Some cb"
    and "length ifs < 256"
  shows "ClientRecv_one (cnrs_packet (list_header CNRS_QUERY_OK cuid qId ifs) p) st =
    Inr (st\<lparr>nrs_itemCache := (nrs_itemCache st)(cuid \<mapsto> on_wire ifs),
        nrs_queryCache := (nrs_queryCache st)(qId := None)\<rparr>,
      [NRS_Callback cb cuid (on_wire ifs)])"
  using assms by (simp add: ClientRecv_one_def CNRS_RemoveHeader list_header_ok
      QueryResponseHandler_def Let_def)

lemma Service_insert:
  assumes "length ifs < 256"
  shows "ServiceRecv_one env (cnrs_packet (list_header CNRS_INSERT cuid qId ifs) p) from_addr st =
    (case InsertCybertwinInterfaceName cuid (on_wire ifs) st of
       (ret, st', acts) \<Rightarrow> Inr (st', acts @ [NRS_ServiceSend
         (cnrs_packet (CNRSHeader_new\<lparr>cnrs_method := CNRS_INSERT_OK\<rparr>) (Create_Packet 0))]))"
  using assms by (simp add: ServiceRecv_one_def CNRS_RemoveHeader list_header_ok
      ProcessInsert_def Insert_cases CNRS_AddHeader_ok)

lemma GetQueryID_fresh: "GetQueryID draws st = Some qId \<Longrightarrow> nrs_queryCache st qId = None"
  by (induction draws) (auto split: if_splits)

lemma GetQueryID_returns:
  "\<exists>q \<in> set draws. nrs_queryCache st q = None \<Longrightarrow> \<exists>qId. GetQueryID draws st = Some qId"
  by (induction draws) auto

section \<open>Pending queries\<close>

text \<open>
  Every query remembered for a subordinate node is also pending in the query cache, so that an
  identifier which is fresh there cannot be taken for a subordinate's.
\<close>

definition nrs_inv :: "NameResolutionService \<Rightarrow> bool" where
  "nrs_inv st = (\<forall>qId. nrs_queryCache st qId = None \<longrightarrow> nrs_queryClientCache st qId = None)"

text \<open>One event at a node: a call of an application, a scheduled report or a packet.\<close>

inductive nrs_step ::
  "nrs_env \<Rightarrow> NameResolutionService \<Rightarrow> nrs_action list \<Rightarrow> NameResolutionService \<Rightarrow> bool"
  for env where
  step_insert: "InsertCybertwinInterfaceName name ifs st = (ret, st', acts) \<Longrightarrow>
    nrs_step env st acts st'"
| step_lookup: "GetCybertwinInterfaceByName env draws name (AppCallback n) st = Inr (st', acts) \<Longrightarrow>
    nrs_step env st acts st'"
| step_report: "ReportName2Superior env cuid ifs st = Inr (st', acts) \<Longrightarrow>
    nrs_step env st acts st'"
| step_service: "ServiceRecv_one env p from_addr st = Inr (st', acts) \<Longrightarrow>
    nrs_step env st acts st'"
| step_client: "ClientRecv_one p st = Inr (st', acts) \<Longrightarrow> nrs_step env st acts st'"

inductive_cases nrs_stepE: "nrs_step env st acts st'"

text \<open>A service starts after either constructor, when its superior has been initialised.\<close>

definition nrs_initial :: "NameResolutionService \<Rightarrow> bool" where
  "nrs_initial st \<longleftrightarrow> (\<exists>isRoot upper super garbage.
     st = InitSuperior isRoot upper (NameResolutionService_new garbage) \<or>
     st = InitSuperior isRoot upper (NameResolutionService_super super garbage))"

abbreviation nrs_reachable :: "nrs_env \<Rightarrow> NameResolutionService \<Rightarrow> bool" where
  "nrs_reachable env \<equiv> reaches nrs_initial (\<lambda>st st'. \<exists>acts. nrs_step env st acts st')"

lemma InitClientUDPSocket_frame:
  "InitClientUDPSocket env st = Inr (ret, st') \<Longrightarrow>
     nrs_queryClientCache st' = nrs_queryClientCache st \<and> nrs_queryCache st' = nrs_queryCache st \<and>
     nrs_itemCache st' = nrs_itemCache st"
  by (auto simp: InitClientUDPSocket_def split: if_splits)

lemma QuerySuperior_frame:
  assumes "QuerySuperior env cuid qId st = Inr (ret, st', acts)"
  shows "nrs_queryClientCache st' = nrs_queryClientCache st \<and>
    nrs_queryCache st' = nrs_queryCache st"
  using assms by (auto simp: QuerySuperior_def split: if_splits dest: InitClientUDPSocket_frame)

lemma inv_Insert [inv_intros]:
  "nrs_inv st \<Longrightarrow> InsertCybertwinInterfaceName name ifs st = (ret, st', acts) \<Longrightarrow> nrs_inv st'"
  by (auto simp: Insert_cases nrs_inv_def split: if_splits)

lemma inv_Lookup [inv_intros]:
  assumes "nrs_inv st" and "GetCybertwinInterfaceByName env draws name cb st = Inr (st', acts)"
  shows "nrs_inv st'"
  using assms by (auto simp: GetCybertwinInterfaceByName_def nrs_inv_def Let_def
      split: option.splits if_splits dest!: QuerySuperior_frame)

lemma inv_Report [inv_intros]:
  assumes "nrs_inv st" and "ReportName2Superior env cuid ifs st = Inr (st', acts)"
  shows "nrs_inv st'"
  using assms by (auto simp: ReportName2Superior_def nrs_inv_def
      split: if_splits dest!: InitClientUDPSocket_frame)

lemma inv_ProcessQuery [inv_intros]:
  assumes "nrs_inv st" and "ProcessQuery env h from_addr st = Inr (st', acts)"
  shows "nrs_inv st'"
  using assms by (auto simp: ProcessQuery_def InformCNRSResult_def map_get_or_def nrs_inv_def
      Let_def split: if_splits option.splits dest!: QuerySuperior_frame)

lemma inv_ProcessInsert [inv_intros]:
  assumes "nrs_inv st" and "ProcessInsert h st = Inr (st', acts)"
  shows "nrs_inv st'"
  using assms by (auto simp: ProcessInsert_def Insert_cases nrs_inv_def split: if_splits)

lemma inv_Service [inv_intros]:
  assumes "nrs_inv st" and "ServiceRecv_one env p from_addr st = Inr (st', acts)"
  shows "nrs_inv st'"
  using assms by (auto simp: ServiceRecv_one_def split: if_splits intro: inv_intros)

lemma inv_Response [inv_intros]:
  assumes "nrs_inv st" and "QueryResponseHandler ok h st = Inr (st', acts)"
  shows "nrs_inv st'"
  using assms by (auto simp: QueryResponseHandler_def QueryResponse_def nrs_inv_def Let_def
      split: option.splits if_splits)

lemma inv_Client [inv_intros]:
  assumes "nrs_inv st" and "ClientRecv_one p st = Inr (st', acts)"
  shows "nrs_inv st'"
  using assms by (auto simp: ClientRecv_one_def split: if_splits intro: inv_intros)

interpretation nrs_system: invariant_system nrs_initial
  "\<lambda>st st'. \<exists>acts. nrs_step env st acts st'" nrs_inv for env
proof
  show "nrs_initial st \<Longrightarrow> nrs_inv st" for st
    by (auto simp: nrs_initial_def nrs_inv_def InitSuperior_def NameResolutionService_new_def
        NameResolutionService_super_def)
  show "nrs_inv st \<Longrightarrow> \<exists>acts. nrs_step env st acts st' \<Longrightarrow> nrs_inv st'" for st st'
    by (elim exE nrs_stepE) (auto intro: inv_intros)
qed

lemmas nrs_inv_reachable = nrs_system.reaches_inv

section \<open>Properties\<close>

definition example_env :: nrs_env where
  "example_env = \<lparr>env_bind = 0, env_connect = 0, env_send = 14\<rparr>"

definition example_leaf :: NameResolutionService where
  "example_leaf = InitSuperior False (Ipv4Address_of 0x0A000001) (NameResolutionService_new False)"

definition example_root :: NameResolutionService where
  "example_root = nrs_insert 42 [(Ipv4Address_of 0x0A000009, 1000)]
     (InitSuperior True Ipv4Address_default (NameResolutionService_new False))"

lemmas example_nrs_defs = example_env_def example_leaf_def example_root_def InitSuperior_def
  NameResolutionService_new_def env_ok_def Ipv4Address_of_def Ipv4Address_default_def

lemma example_root_item: "nrs_itemCache example_root 42 = Some [(Ipv4Address_of 0x0A000009, 1000)]"
  by (simp add: example_root_def Insert_cases InitSuperior_def NameResolutionService_new_def)

text \<open>
  C6: Whatever was in the cache, after a name is inserted a query packet for it is answered to
  the asking address with one positive answer, which carries the query's identifier and reads
  back as interfaces equal to the inserted ones; the answer changes nothing at the node.
\<close>

theorem insert_then_query_answered:
  assumes "length ifs < 256"
    and "InsertCybertwinInterfaceName name ifs st = (ret, st', acts)"
  shows "ret = 0 \<and> (\<exists>answer h payload.
    ServiceRecv_one env (cnrs_packet (query_header name qId) p) from_addr st' =
      Inr (st', [NRS_SendTo answer from_addr]) \<and>
    RemoveHeader (CNRSHeader_Deserialize CNRSHeader_new) answer = Some (h, payload) \<and>
    cnrs_method h = CNRS_QUERY_OK \<and> cnrs_queryId h = qId \<and> cnrs_cuid h = name \<and>
    interfaces_eq (cnrs_interfaceList h) ifs)"
proof -
  obtain w where w: "nrs_itemCache st' name = Some w" "interfaces_eq w ifs"
    using names.lookup_insert [of name ifs st] assms(2) by auto
  then have "length w < 256"
    using assms(1) interfaces_eq_length by force
  moreover have "interfaces_eq (on_wire w) ifs"
    using on_wire_eq w(2) by (rule interfaces_eq_trans)
  moreover have "ret = 0"
    using assms(2) by (auto simp: Insert_cases split: if_splits)
  ultimately show ?thesis
    using w(1) by (simp add: Service_query_hit CNRS_RemoveHeader list_header_ok)
qed

theorem insert_then_query_answered_witness:
  "\<exists>answer. ServiceRecv_one example_env (cnrs_packet (query_header 42 7) (Create_Packet 0))
      (Ipv4Address_of 0x0A000002, 49153) example_root =
    Inr (example_root, [NRS_SendTo answer (Ipv4Address_of 0x0A000002, 49153)])"
proof -
  let ?st = "InitSuperior True Ipv4Address_default (NameResolutionService_new False)"
  have "InsertCybertwinInterfaceName 42 [(Ipv4Address_of 0x0A000009, 1000)] ?st =
      (0, example_root, [])"
    by (simp add: example_root_def Insert_cases InitSuperior_def NameResolutionService_new_def)
  then show ?thesis
    using insert_then_query_answered [of "[(Ipv4Address_of 0x0A000009, 1000)]" 42 ?st 0
        example_root "[]" example_env 7 "Create_Packet 0" "(Ipv4Address_of 0x0A000002, 49153)"]
    by auto
qed

text \<open>
  Registering a batch of different names one after the other leaves every one of them
  resolvable to its own interfaces, whatever the node knew before, and no other name changes.
\<close>

theorem insert_batch_resolves:
  assumes "distinct (map fst l)"
  shows "(\<forall>(name, ifs) \<in> set l. \<exists>w.
      nrs_itemCache (fold (\<lambda>(name, ifs). nrs_insert name ifs) l st) name = Some w \<and>
      interfaces_eq w ifs) \<and>
    (\<forall>name. name \<notin> fst ` set l \<longrightarrow>
      nrs_itemCache (fold (\<lambda>(name, ifs). nrs_insert name ifs) l st) name = nrs_itemCache st name)"
  using names.lookup_fold [OF assms, of _ _ st] names.lookup_fold_other [of _ l st] by auto

theorem insert_batch_resolves_witness:
  "distinct (map fst [(1, [(Ipv4Address_of 5, 80)]), (2::CYBERTWINID_t, [])]) \<and>
   nrs_itemCache (fold (\<lambda>(name, ifs). nrs_insert name ifs)
     [(1, [(Ipv4Address_of 5, 80)]), (2, [])] example_root) 42 = nrs_itemCache example_root 42"
  using insert_batch_resolves [of "[(1, [(Ipv4Address_of 5, 80)]), (2, [])]" example_root] by simp

text \<open>
  In every state a node can reach, a query identifier that \<^verbatim>\<open>GetQueryID\<close> may
  return is not remembered for a subordinate node either, so that the answer to a local query
  always goes to the local caller.
\<close>

theorem fresh_query_id_is_local:
  assumes "nrs_reachable env st" and "GetQueryID draws st = Some qId"
  shows "nrs_queryCache st qId = None \<and> nrs_queryClientCache st qId = None"
  using GetQueryID_fresh [OF assms(2)] nrs_inv_reachable [OF assms(1)] by (simp add: nrs_inv_def)

theorem fresh_query_id_is_local_witness:
  "nrs_queryCache example_leaf 9 = None \<and> nrs_queryClientCache example_leaf 9 = None"
proof -
  have "nrs_reachable example_env example_leaf"
    unfolding example_leaf_def by (rule reaches_initial) (auto simp: nrs_initial_def)
  moreover have "GetQueryID [9] example_leaf = Some 9"
    by (simp add: example_nrs_defs)
  ultimately show ?thesis
    by (rule fresh_query_id_is_local)
qed



text \<open>
  A name registered at a leaf becomes known to its superior: inserting it schedules one
  report, the report sends one insert packet, and the superior that receives it resolves the
  name to equal interfaces; if the superior already had equal interfaces, nothing changes there
  and no further report is scheduled, so that reports cannot circulate.
\<close>

theorem insert_reaches_superior:
  assumes "env_ok env" and "\<not> nrs_isCNRSRoot leaf" and "m_initialized (nrs_superior leaf)"
    and "nrs_itemCache leaf name = None" and "length ifs < 256"
  shows "\<exists>leaf1 leaf2 report upper1 acts w.
    InsertCybertwinInterfaceName name ifs leaf = (0, leaf1, [NRS_ScheduleReport name ifs]) \<and>
    ReportName2Superior env name ifs leaf1 = Inr (leaf2, [NRS_ClientSend report]) \<and>
    ServiceRecv_one env report leaf_addr upper = Inr (upper1, acts) \<and>
    nrs_itemCache upper1 name = Some w \<and> interfaces_eq w ifs \<and>
    ((\<exists>old. nrs_itemCache upper name = Some old \<and> interfaces_eq old ifs) \<longrightarrow>
      upper1 = upper \<and> (\<forall>cuid l. NRS_ScheduleReport cuid l \<notin> set acts))"
proof -
  let ?leaf1 = "leaf\<lparr>nrs_itemCache := (nrs_itemCache leaf)(name \<mapsto> ifs)\<rparr>"
  let ?report = "cnrs_packet (list_header CNRS_INSERT name 0 ifs) (Create_Packet 0)"
  have leaf: "InsertCybertwinInterfaceName name ifs leaf =
      (0, ?leaf1, [NRS_ScheduleReport name ifs])"
    using assms by (simp add: Insert_cases)
  have report: "ReportName2Superior env name ifs ?leaf1 =
      Inr (with_client ?leaf1, [NRS_ClientSend ?report])"
    using assms by (simp add: ReportName2Superior_def InitClientUDPSocket_ok header_folds
        CNRS_AddHeader_ok list_header_ok)
  obtain w where w: "nrs_itemCache (nrs_insert name (on_wire ifs) upper) name = Some w"
    "interfaces_eq w (on_wire ifs)"
    using names.lookup_insert by blast
  have known: "interfaces_eq old (on_wire ifs)" if "interfaces_eq old ifs" for old
    using that on_wire_eq interfaces_eq_sym interfaces_eq_trans by blast
  obtain ret upper1 acts where ins:
    "InsertCybertwinInterfaceName name (on_wire ifs) upper = (ret, upper1, acts)"
    by (cases "InsertCybertwinInterfaceName name (on_wire ifs) upper")
  have "interfaces_eq w ifs"
    using w(2) on_wire_eq by (rule interfaces_eq_trans)
  moreover have "upper1 = upper \<and> acts = []"
    if "nrs_itemCache upper name = Some old" "interfaces_eq old ifs" for old
    using that known [of old] ins by (auto simp: Insert_cases)
  ultimately show ?thesis
    using leaf report w(1) ins Service_insert [OF assms(5), of env name 0 "Create_Packet 0" leaf_addr upper]
    by (intro exI [of _ ?leaf1] exI [of _ "with_client ?leaf1"] exI [of _ ?report]
        exI [of _ upper1]) auto
qed

theorem insert_reaches_superior_witness:
  "\<exists>leaf1. InsertCybertwinInterfaceName 42 [(Ipv4Address_of 5, 80)] example_leaf =
     (0, leaf1, [NRS_ScheduleReport 42 [(Ipv4Address_of 5, 80)]])"
  using insert_reaches_superior [of example_env example_leaf 42 "[(Ipv4Address_of 5, 80)]"
      "(Ipv4Address_of 1, 1)" example_root]
  by (auto simp: example_nrs_defs)

text \<open>
  A query packet for a name the root does not know is never answered: the node without a
  superior sends nothing at all, invokes its own empty \<^verbatim>\<open>QueryResponseCallback\<close>
  twice, and keeps both records of the query for good.
\<close>

theorem root_miss_unanswered:
  assumes "\<not> m_initialized (nrs_superior st)" and "nrs_itemCache st name = None"
  shows "\<exists>st'. ServiceRecv_one env (cnrs_packet (query_header name qId) p) from_addr st =
      Inr (st', [NRS_Callback QueryResponseCallback name [],
                 NRS_Callback QueryResponseCallback name []]) \<and>
    nrs_queryClientCache st' qId = Some from_addr \<and>
    nrs_queryCache st' qId = Some QueryResponseCallback"
  using assms by (simp add: ServiceRecv_one_def CNRS_RemoveHeader ProcessQuery_def
      QuerySuperior_def QuerySuperiorFail_def)

theorem root_miss_unanswered_witness:
  "\<exists>st'. ServiceRecv_one example_env (cnrs_packet (query_header 1 7) (Create_Packet 0))
      (Ipv4Address_of 2, 3) example_root =
    Inr (st', [NRS_Callback QueryResponseCallback 1 [], NRS_Callback QueryResponseCallback 1 []])"
proof -
  have "\<not> m_initialized (nrs_superior example_root)" "nrs_itemCache example_root 1 = None"
    by (simp_all add: example_nrs_defs Insert_cases)
  then show ?thesis
    using root_miss_unanswered [of example_root 1] by blast
qed

end
