(* ===== verification/Manager.thy ===== *)
theory Manager
  imports Headers
begin

text \<open>
  The cybertwin manager of an edge server (\<^verbatim>\<open>cybertwin-manager.{h,cc}\<close>) and the
  daemon with which an end host registers at it
  (\<^verbatim>\<open>cybertwin-endhost-daemon.{h,cc}\<close>).  A handler returns the new state and the
  actions on sockets, applications and the scheduler.  \<open>hash\<close> stands for
  \<^verbatim>\<open>std::hash<std::string>\<close>, on which \<^verbatim>\<open>StringToUint64\<close> is built; the address a
  host socket is bound to (\<^verbatim>\<open>GetSockName\<close>) is a parameter.
\<close>

section \<open>Manager\<close>

definition CYBERTWIN_MANAGER_PROXY_PORT :: u16 where "CYBERTWIN_MANAGER_PROXY_PORT = 17"

definition StringToUint64 :: "(string \<Rightarrow> u64) \<Rightarrow> string \<Rightarrow> u64" where
  "StringToUint64 hash str = hash str"

text \<open>What a cybertwin is created with.\<close>

record cybertwin_slot =
  slot_local :: CYBERTWIN_INTERFACE_t
  slot_global :: CYBERTWIN_INTERFACE_LIST_t

record CybertwinManager =
  mgr_globalIpv4AddrList :: "Ipv4Address list"
  mgr_cybertwinTable :: "CYBERTWINID_t \<rightharpoonup> cybertwin_slot"
  mgr_assignedPorts :: "u16 set"
  mgr_lastAssignedPort :: u16

definition CybertwinManager_new :: "Ipv4Address list \<Rightarrow> CybertwinManager" where
  "CybertwinManager_new globals = \<lparr>mgr_globalIpv4AddrList = globals,
     mgr_cybertwinTable = Map.empty, mgr_assignedPorts = {}, mgr_lastAssignedPort = 1000\<rparr>"

datatype mgr_action =
    MGR_CreateCybertwin CYBERTWINID_t cybertwin_slot
  | MGR_Send packet

type_synonym mgr_result = "(CybertwinManager \<times> mgr_action list) outcome"

lemma unat_below_max16: "p \<noteq> 65535 \<Longrightarrow> unat (p :: u16) < 65535"
proof -
  assume "p \<noteq> 65535"
  moreover have "unat p < 2 ^ LENGTH(16)"
    by (fact unsigned_less)
  ultimately show ?thesis
    using word_unat_eq_iff [of p 65535] by simp
qed

lemma unat_inc16: "p \<noteq> 65535 \<Longrightarrow> unat (p + 1 :: u16) = unat p + 1"
  using unat_below_max16 [of p] by (simp add: unat_word_ariths)

text \<open>
  The loop that takes the next port: the counter is a 16-bit integer and the increment wraps.
  The result is the port and the counter after it.
\<close>

function NextPort :: "u16 set \<Rightarrow> u16 \<Rightarrow> u16 \<times> u16" where
  "NextPort assigned lastPort =
     (let port = lastPort; lastPort = lastPort + 1
      in if port \<in> assigned \<and> lastPort < 65535 then NextPort assigned lastPort
         else (port, lastPort))"
  by pat_completeness auto

text \<open>The counter wraps at most once before it meets the bound of the loop.\<close>

termination
proof (relation "measure (\<lambda>(assigned, p). if p = 65535 then 65536 else 65535 - unat (p::u16))")
  fix assigned :: "u16 set" and p port p' :: u16
  assume "port = p" and "p' = p + 1" and "port \<in> assigned \<and> p' < 65535"
  then show "((assigned, p'), assigned, p) \<in>
      measure (\<lambda>(assigned, p). if p = 65535 then 65536 else 65535 - unat p)"
    using unat_inc16 [of p] unat_below_max16 [of p] by (auto simp: word_less_nat_alt)
qed simp

declare NextPort.simps [simp del]

fun AssignInterfaces_loop ::
  "Ipv4Address list \<Rightarrow> u16 set \<Rightarrow> u16 \<Rightarrow> CYBERTWIN_INTERFACE_LIST_t \<Rightarrow>
     (CYBERTWIN_INTERFACE_LIST_t \<times> u16 set \<times> u16) outcome" where
  "AssignInterfaces_loop [] assigned lastPort ifs = Inr (ifs, assigned, lastPort)"
| "AssignInterfaces_loop (addr # addrs) assigned lastPort ifs =
     (let (port, lastPort) = NextPort assigned lastPort
      in if lastPort < 65535 then
           AssignInterfaces_loop addrs (insert port assigned) lastPort (ifs @ [(addr, port)])
         else if lastPort = 65535 then Inl FatalError
         else AssignInterfaces_loop addrs assigned lastPort ifs)"

definition AssignInterfaces ::
  "CybertwinManager \<Rightarrow> (CYBERTWIN_INTERFACE_LIST_t \<times> CybertwinManager) outcome" where
  "AssignInterfaces st =
     then_do (AssignInterfaces_loop (mgr_globalIpv4AddrList st) (mgr_assignedPorts st)
                (mgr_lastAssignedPort st) [])
       (\<lambda>(ifs, assigned, lastPort).
          Inr (ifs, st\<lparr>mgr_assignedPorts := assigned, mgr_lastAssignedPort := lastPort\<rparr>))"

definition Manager_AddHeader :: "CybertwinManagerHeader \<Rightarrow> packet \<Rightarrow> packet option" where
  "Manager_AddHeader h p = AddHeader (replicate (CybertwinManagerHeader_GetSerializedSize h) 0)
     (CybertwinManagerHeader_Serialize h) p"

definition SendReply ::
  "CybertwinManagerHeader \<Rightarrow> mgr_action list \<Rightarrow> CybertwinManager \<Rightarrow> mgr_result" where
  "SendReply replyHeader acts st =
     from_option BadBuffer (Manager_AddHeader replyHeader (Create_Packet 0))
       (\<lambda>replyPacket. Inr (st, acts @ [MGR_Send replyPacket]))"

definition HandleCybertwinRegistration ::
  "(string \<Rightarrow> u64) \<Rightarrow> Ipv4Address \<Rightarrow> packet \<Rightarrow> CybertwinManager \<Rightarrow> mgr_result" where
  "HandleCybertwinRegistration hash sockAddr packet st =
     from_option BadBuffer
       (RemoveHeader (CybertwinManagerHeader_Deserialize CybertwinManagerHeader_new) packet)
       (\<lambda>(header, _).
          let name = mh_cname header; cuid = StringToUint64 hash name
          in if mgr_cybertwinTable st cuid \<noteq> None then
               SendReply (CybertwinManagerHeader_new\<lparr>mh_command := CYBERTWIN_REGISTRATION_ERROR,
                 mh_cname := name\<rparr>) [] st
             else
               let local_port = mgr_lastAssignedPort st;
                   st = st\<lparr>mgr_lastAssignedPort := mgr_lastAssignedPort st + 1\<rparr>
               in then_do (AssignInterfaces st)
                    (\<lambda>(g_interfaces, st).
                       let slot = \<lparr>slot_local = (sockAddr, local_port), slot_global = g_interfaces\<rparr>;
                           st = st\<lparr>mgr_cybertwinTable := (mgr_cybertwinTable st)(cuid \<mapsto> slot)\<rparr>
                       in SendReply (CybertwinManagerHeader_new
                            \<lparr>mh_command := CYBERTWIN_REGISTRATION_ACK, mh_cname := name,
                             mh_cuid := cuid, mh_port := local_port\<rparr>)
                            [MGR_CreateCybertwin cuid slot] st))"

definition HandleCybertwinDestruction ::
  "(string \<Rightarrow> u64) \<Rightarrow> packet \<Rightarrow> CybertwinManager \<Rightarrow> mgr_result" where
  "HandleCybertwinDestruction hash packet st =
     from_option BadBuffer
       (RemoveHeader (CybertwinManagerHeader_Deserialize CybertwinManagerHeader_new) packet)
       (\<lambda>(header, _).
          let name = mh_cname header; cuid = StringToUint64 hash name
          in if mgr_cybertwinTable st cuid = None then
               SendReply (CybertwinManagerHeader_new\<lparr>mh_command := CYBERTWIN_DESTRUCTION_ERROR,
                 mh_cname := name\<rparr>) [] st
             else
               SendReply (CybertwinManagerHeader_new\<lparr>mh_command := CYBERTWIN_DESTRUCTION_ACK,
                 mh_cname := name\<rparr>) []
                 (st\<lparr>mgr_cybertwinTable := (mgr_cybertwinTable st)(cuid := None)\<rparr>))"

definition HandleCybertwinReconnect ::
  "(string \<Rightarrow> u64) \<Rightarrow> packet \<Rightarrow> CybertwinManager \<Rightarrow> mgr_result" where
  "HandleCybertwinReconnect hash packet st =
     from_option BadBuffer
       (RemoveHeader (CybertwinManagerHeader_Deserialize CybertwinManagerHeader_new) packet)
       (\<lambda>(header, _).
          let name = mh_cname header; cuid = StringToUint64 hash name
          in if mgr_cybertwinTable st cuid = None then
               SendReply (CybertwinManagerHeader_new\<lparr>mh_command := CYBERTWIN_RECONNECT_ERROR,
                 mh_cname := name\<rparr>) [] st
             else
               SendReply (CybertwinManagerHeader_new\<lparr>mh_command := CYBERTWIN_RECONNECT_ACK,
                 mh_cname := name\<rparr>) [] st)"

definition HandleHostPacket ::
  "(string \<Rightarrow> u64) \<Rightarrow> Ipv4Address \<Rightarrow> packet \<Rightarrow> CybertwinManager \<Rightarrow> mgr_result" where
  "HandleHostPacket hash sockAddr packet st =
     from_option BadBuffer
       (PeekHeader (CybertwinManagerHeader_Deserialize CybertwinManagerHeader_new) packet)
       (\<lambda>(header, _).
          if mh_command header = CYBERTWIN_REGISTRATION then
            HandleCybertwinRegistration hash sockAddr packet st
          else if mh_command header = CYBERTWIN_DESTRUCTION then
            HandleCybertwinDestruction hash packet st
          else if mh_command header = CYBERTWIN_RECONNECT then
            HandleCybertwinReconnect hash packet st
          else Inr (st, []))"

text \<open>The packets a socket delivers in one callback; an empty packet ends the loop.\<close>

fun ReceiveFromHost ::
  "(string \<Rightarrow> u64) \<Rightarrow> Ipv4Address \<Rightarrow> packet list \<Rightarrow> CybertwinManager \<Rightarrow> mgr_result" where
  "ReceiveFromHost hash sockAddr [] st = Inr (st, [])"
| "ReceiveFromHost hash sockAddr (packet # packets) st =
     (if GetSize packet = 0 then Inr (st, [])
      else then_do (HandleHostPacket hash sockAddr packet st)
        (\<lambda>(st, acts). then_do (ReceiveFromHost hash sockAddr packets st)
          (\<lambda>(st, acts'). Inr (st, acts @ acts'))))"

section \<open>End host daemon\<close>

text \<open>
  The daemon's fields together with the fields of the end host node that it sets.  The
  constructor leaves the identifier and the port uninitialised; they are parameters.
\<close>

record CybertwinEndHostDaemon =
  ed_managerAddr :: Ipv4Address
  ed_managerPort :: u16
  ed_isConnectedToCybertwinManager :: bool
  ed_isRegisteredToCybertwin :: bool
  ed_cybertwinId :: CYBERTWINID_t
  ed_cybertwinPort :: u16
  host_name :: string
  host_cybertwinId :: CYBERTWINID_t
  host_cybertwinPort :: u16
  host_isConnected :: bool

definition CybertwinEndHostDaemon_new ::
  "string \<Rightarrow> Ipv4Address \<Rightarrow> CYBERTWINID_t \<Rightarrow> u16 \<Rightarrow> CybertwinEndHostDaemon" where
  "CybertwinEndHostDaemon_new name upperNodeAddress garbageId garbagePort =
     \<lparr>ed_managerAddr = upperNodeAddress, ed_managerPort = CYBERTWIN_MANAGER_PROXY_PORT,
      ed_isConnectedToCybertwinManager = False, ed_isRegisteredToCybertwin = False,
      ed_cybertwinId = garbageId, ed_cybertwinPort = garbagePort, host_name = name,
      host_cybertwinId = garbageId, host_cybertwinPort = garbagePort, host_isConnected = False\<rparr>"

datatype ed_action =
    ED_Connect Ipv4Address u16
  | ED_Send packet
  | ED_ScheduleAuthenticate nat

type_synonym ed_result = "(CybertwinEndHostDaemon \<times> ed_action list) outcome"

definition ConnectCybertwinManager ::
  "int \<Rightarrow> CybertwinEndHostDaemon \<Rightarrow> CybertwinEndHostDaemon \<times> ed_action list" where
  "ConnectCybertwinManager bindRet st =
     (if bindRet < 0 then (st, [])
      else (st, [ED_Connect (ed_managerAddr st) (ed_managerPort st)]))"

definition ConnectCybertwinManangerSucceededCallback ::
  "CybertwinEndHostDaemon \<Rightarrow> CybertwinEndHostDaemon \<times> ed_action list" where
  "ConnectCybertwinManangerSucceededCallback st =
     (st\<lparr>ed_isConnectedToCybertwinManager := True\<rparr>, [ED_ScheduleAuthenticate 0])"

definition Authenticate :: "CybertwinEndHostDaemon \<Rightarrow> ed_result" where
  "Authenticate st =
     (if ed_isRegisteredToCybertwin st then Inr (st, [])
      else from_option BadBuffer
        (Manager_AddHeader (CybertwinManagerHeader_new\<lparr>mh_command := CYBERTWIN_REGISTRATION,
           mh_cname := host_name st\<rparr>) (Create_Packet 0))
        (\<lambda>packet. Inr (st, [ED_Send packet, ED_ScheduleAuthenticate 1])))"

definition RegisterSuccessHandler ::
  "packet \<Rightarrow> CybertwinEndHostDaemon \<Rightarrow> CybertwinEndHostDaemon outcome" where
  "RegisterSuccessHandler packet st =
     from_option BadBuffer
       (RemoveHeader (CybertwinManagerHeader_Deserialize CybertwinManagerHeader_new) packet)
       (\<lambda>(header, _).
          if host_name st \<noteq> mh_cname header then Inr st
          else Inr (st\<lparr>host_cybertwinId := mh_cuid header, host_cybertwinPort := mh_port header,
            host_isConnected := True, ed_cybertwinId := mh_cuid header,
            ed_cybertwinPort := mh_port header, ed_isRegisteredToCybertwin := True\<rparr>))"

definition Daemon_packet :: "packet \<Rightarrow> CybertwinEndHostDaemon \<Rightarrow> CybertwinEndHostDaemon outcome" where
  "Daemon_packet packet st =
     from_option BadBuffer
       (PeekHeader (CybertwinManagerHeader_Deserialize CybertwinManagerHeader_new) packet)
       (\<lambda>(header, _).
          if mh_command header = CYBERTWIN_REGISTRATION_ACK then
            RegisterSuccessHandler packet (st\<lparr>ed_isRegisteredToCybertwin := True\<rparr>)
          else Inr st)"

fun RecvFromCybertwinManangerCallback ::
  "packet list \<Rightarrow> CybertwinEndHostDaemon \<Rightarrow> CybertwinEndHostDaemon outcome" where
  "RecvFromCybertwinManangerCallback [] st = Inr st"
| "RecvFromCybertwinManangerCallback (packet # packets) st =
     then_do (Daemon_packet packet st) (RecvFromCybertwinManangerCallback packets)"

section \<open>Packets between manager and daemon\<close>

definition mgr_packet :: "CybertwinManagerHeader \<Rightarrow> packet \<Rightarrow> packet" where
  "mgr_packet h p = Packet (CybertwinManagerHeader_img h @ pk_real p) (pk_zero p)"

definition mgr_header :: "u8 \<Rightarrow> string \<Rightarrow> CybertwinManagerHeader" where
  "mgr_header cmd name = CybertwinManagerHeader_new\<lparr>mh_command := cmd, mh_cname := name\<rparr>"

lemma mgr_header_sel [simp]:
  "mh_command (mgr_header cmd name) = cmd" "mh_cname (mgr_header cmd name) = name"
  by (simp_all add: mgr_header_def)

lemma mgr_header_ok:
  "CybertwinManagerHeader_ok h \<longleftrightarrow> length (mh_cname h) < 65536"
  by (simp add: CybertwinManagerHeader_ok_def)

lemma Manager_AddHeader_ok:
  "length (mh_cname h) < 65536 \<Longrightarrow> Manager_AddHeader h p = Some (mgr_packet h p)"
  unfolding Manager_AddHeader_def mgr_packet_def
  by (subst mgr.AddHeader_img) (simp_all add: mgr_header_ok)

lemma mgr_packet_read:
  assumes "length (mh_cname h) < 65536"
  shows "PeekHeader (CybertwinManagerHeader_Deserialize CybertwinManagerHeader_new) (mgr_packet h p) =
      Some (h, CybertwinManagerHeader_GetSerializedSize h)"
    and "RemoveHeader (CybertwinManagerHeader_Deserialize CybertwinManagerHeader_new) (mgr_packet h p) =
      Some (h, p)"
  using assms by (simp_all add: PeekHeader_def RemoveHeader_def mgr_packet_def mgr.pk_bytes_added
      mgr.des_img mgr_header_ok mgr.RemoveAtStart_added)

lemma GetSize_mgr_packet: "GetSize (mgr_packet h p) \<noteq> 0"
  by (simp add: GetSize_def mgr_packet_def CybertwinManagerHeader_img_def)

lemma SendReply_ok:
  "length (mh_cname h) < 65536 \<Longrightarrow>
     SendReply h acts st = Inr (st, acts @ [MGR_Send (mgr_packet h (Create_Packet 0))])"
  by (simp add: SendReply_def Manager_AddHeader_ok)

lemma command_distinct [simp]:
  "CYBERTWIN_DESTRUCTION \<noteq> CYBERTWIN_REGISTRATION" "CYBERTWIN_REGISTRATION \<noteq> CYBERTWIN_DESTRUCTION"
  "CYBERTWIN_RECONNECT \<noteq> CYBERTWIN_REGISTRATION" "CYBERTWIN_RECONNECT \<noteq> CYBERTWIN_DESTRUCTION"
  "CYBERTWIN_REGISTRATION_ERROR \<noteq> CYBERTWIN_REGISTRATION_ACK"
  by (simp_all add: CybertwinProxyCommand_defs)

section \<open>Ports\<close>

definition used_ports :: "cybertwin_slot \<Rightarrow> u16 list" where
  "used_ports slot = snd (slot_local slot) # map snd (slot_global slot)"

text \<open>
  The ports in use lie below the counter, no cybertwin uses a port twice, and no two
  cybertwins share a port.
\<close>

definition mgr_inv :: "CybertwinManager \<Rightarrow> bool" where
  "mgr_inv st =
     ((\<forall>p \<in> mgr_assignedPorts st. p < mgr_lastAssignedPort st) \<and>
      (\<forall>c s. mgr_cybertwinTable st c = Some s \<longrightarrow>
         distinct (used_ports s) \<and> (\<forall>p \<in> set (used_ports s). p < mgr_lastAssignedPort st)) \<and>
      (\<forall>c d s t. mgr_cybertwinTable st c = Some s \<longrightarrow> mgr_cybertwinTable st d = Some t \<longrightarrow>
         c \<noteq> d \<longrightarrow> set (used_ports s) \<inter> set (used_ports t) = {}))"

text \<open>There is room for one more cybertwin: a local port and one per global address.\<close>

definition mgr_room :: "CybertwinManager \<Rightarrow> bool" where
  "mgr_room st =
     (unat (mgr_lastAssignedPort st) + 1 + length (mgr_globalIpv4AddrList st) < 65535)"

fun ports_from :: "u16 \<Rightarrow> nat \<Rightarrow> u16 list" where
  "ports_from p 0 = []"
| "ports_from p (Suc n) = p # ports_from (p + 1) n"

lemma length_ports_from [simp]: "length (ports_from p n) = n"
  by (induction n arbitrary: p) auto

lemma ports_from_range:
  assumes "unat p + n < 65536" and "q \<in> set (ports_from p n)"
  shows "p \<le> q \<and> unat q < unat p + n"
  using assms
proof (induction n arbitrary: p)
  case (Suc n)
  have "unat (p + 1) = unat p + 1"
    using Suc(2) unat_inc16 [of p] by (cases "p = 65535") auto
  then show ?case
    using Suc by (auto simp: word_le_nat_alt dest!: Suc(1) [rotated])
qed simp

lemma distinct_ports_from: "unat p + n < 65536 \<Longrightarrow> distinct (ports_from p n)"
proof (induction n arbitrary: p)
  case (Suc n)
  have inc: "unat (p + 1) = unat p + 1"
    using Suc(2) unat_inc16 [of p] by (cases "p = 65535") auto
  have "p \<notin> set (ports_from (p + 1) n)"
  proof
    assume "p \<in> set (ports_from (p + 1) n)"
    then have "p + 1 \<le> p"
      using ports_from_range [of "p + 1" n p] inc Suc(2) by simp
    then show False
      using inc by (simp add: word_le_nat_alt)
  qed
  with Suc inc show ?case by simp
qed simp

lemma NextPort_fresh: "p \<notin> A \<Longrightarrow> NextPort A p = (p, p + 1)"
  by (simp add: NextPort.simps Let_def)

lemma AssignInterfaces_loop_eq:
  assumes "\<forall>q \<in> A. q < p" and "unat p + length addrs < 65535"
  shows "AssignInterfaces_loop addrs A p ifs =
    Inr (ifs @ zip addrs (ports_from p (length addrs)), A \<union> set (ports_from p (length addrs)),
      p + of_nat (length addrs))"
  using assms
proof (induction addrs arbitrary: A p ifs)
  case (Cons a addrs)
  have inc: "unat (p + 1) = unat p + 1"
    using Cons(3) unat_inc16 [of p] by (cases "p = 65535") auto
  have "p \<notin> A"
    using Cons(2) by auto
  moreover have "p + 1 < 65535"
    using Cons(3) inc by (simp add: word_less_nat_alt)
  moreover have "\<forall>q \<in> insert p A. q < p + 1"
    using Cons(2) inc by (auto simp: word_less_nat_alt)
  ultimately show ?case
    using Cons(1) [of "insert p A" "p + 1" "ifs @ [(a, p)]"] Cons(3) inc
    by (simp add: NextPort_fresh)
qed simp

text \<open>The slot of the next cybertwin and the manager after it.\<close>

definition next_slot :: "Ipv4Address \<Rightarrow> CybertwinManager \<Rightarrow> cybertwin_slot" where
  "next_slot sockAddr st = \<lparr>slot_local = (sockAddr, mgr_lastAssignedPort st),
     slot_global = zip (mgr_globalIpv4AddrList st)
       (ports_from (mgr_lastAssignedPort st + 1) (length (mgr_globalIpv4AddrList st)))\<rparr>"

definition registered ::
  "CYBERTWINID_t \<Rightarrow> Ipv4Address \<Rightarrow> CybertwinManager \<Rightarrow> CybertwinManager" where
  "registered cuid sockAddr st = st
     \<lparr>mgr_lastAssignedPort := mgr_lastAssignedPort st + 1 +
        of_nat (length (mgr_globalIpv4AddrList st)),
      mgr_assignedPorts := mgr_assignedPorts st \<union>
        set (ports_from (mgr_lastAssignedPort st + 1) (length (mgr_globalIpv4AddrList st))),
      mgr_cybertwinTable := (mgr_cybertwinTable st)(cuid \<mapsto> next_slot sockAddr st)\<rparr>"

lemma used_ports_next_slot:
  "used_ports (next_slot sockAddr st) =
     ports_from (mgr_lastAssignedPort st) (Suc (length (mgr_globalIpv4AddrList st)))"
  by (simp add: used_ports_def next_slot_def)

lemma mgr_room_unat:
  assumes "mgr_room st"
  shows "unat (mgr_lastAssignedPort st + 1) = unat (mgr_lastAssignedPort st) + 1"
    and "unat (mgr_lastAssignedPort st + 1 + of_nat (length (mgr_globalIpv4AddrList st))) =
      unat (mgr_lastAssignedPort st) + 1 + length (mgr_globalIpv4AddrList st)"
proof -
  show inc: "unat (mgr_lastAssignedPort st + 1) = unat (mgr_lastAssignedPort st) + 1"
    using assms unat_inc16 [of "mgr_lastAssignedPort st"]
    by (cases "mgr_lastAssignedPort st = 65535") (auto simp: mgr_room_def)
  show "unat (mgr_lastAssignedPort st + 1 + of_nat (length (mgr_globalIpv4AddrList st))) =
      unat (mgr_lastAssignedPort st) + 1 + length (mgr_globalIpv4AddrList st)"
    using assms inc by (subst unat_word_ariths) (simp add: mgr_room_def unat_of_nat_u16)
qed

lemma AssignInterfaces_eq:
  assumes "mgr_inv st" and "mgr_room st"
  shows "AssignInterfaces (st\<lparr>mgr_lastAssignedPort := mgr_lastAssignedPort st + 1\<rparr>) =
    Inr (slot_global (next_slot sockAddr st), st
      \<lparr>mgr_lastAssignedPort := mgr_lastAssignedPort st + 1 +
         of_nat (length (mgr_globalIpv4AddrList st)),
       mgr_assignedPorts := mgr_assignedPorts st \<union>
         set (ports_from (mgr_lastAssignedPort st + 1) (length (mgr_globalIpv4AddrList st)))\<rparr>)"
proof -
  have "\<forall>q \<in> mgr_assignedPorts st. q < mgr_lastAssignedPort st + 1"
    using assms mgr_room_unat(1) by (force simp: mgr_inv_def word_less_nat_alt)
  then show ?thesis
    using assms mgr_room_unat(1) [OF assms(2)]
    by (simp add: AssignInterfaces_def AssignInterfaces_loop_eq mgr_room_def next_slot_def)
qed

lemma mgr_inv_registered [inv_intros]:
  assumes "mgr_inv st" and "mgr_room st"
  shows "mgr_inv (registered cuid sockAddr st)"
proof -
  let ?old = "mgr_lastAssignedPort st"
  let ?new = "mgr_lastAssignedPort (registered cuid sockAddr st)"
  let ?n = "Suc (length (mgr_globalIpv4AddrList st))"
  have new: "unat ?new = unat ?old + ?n"
    using mgr_room_unat(2) [OF assms(2)] by (simp add: registered_def)
  have range: "\<forall>p \<in> set (ports_from ?old ?n). ?old \<le> p \<and> p < ?new"
    using ports_from_range [of ?old ?n] assms(2) new
    by (auto simp: mgr_room_def word_less_nat_alt simp del: ports_from.simps)
  have grow: "?old \<le> ?new"
    using new by (simp add: word_le_nat_alt)
  have sub: "set (ports_from (?old + 1) (length (mgr_globalIpv4AddrList st))) \<subseteq>
      set (ports_from ?old ?n)"
    by auto
  have dist: "distinct (used_ports (next_slot sockAddr st))"
    using distinct_ports_from [of ?old ?n] assms(2)
    by (simp add: used_ports_next_slot mgr_room_def del: ports_from.simps)
  have old: "\<forall>p \<in> set (used_ports s). p < ?old" if "mgr_cybertwinTable st c = Some s" for c s
    using assms(1) that by (auto simp: mgr_inv_def)
  have disj: "set (used_ports s) \<inter> set (ports_from ?old ?n) = {}"
    if "mgr_cybertwinTable st c = Some s" for c s
    using old [OF that] range by force
  show ?thesis
    unfolding mgr_inv_def
  proof (intro conjI allI impI ballI)
    fix p
    assume "p \<in> mgr_assignedPorts (registered cuid sockAddr st)"
    then show "p < ?new"
      using assms(1) range sub grow by (auto simp: registered_def mgr_inv_def)
  next
    fix c s
    assume "mgr_cybertwinTable (registered cuid sockAddr st) c = Some s"
    then show "distinct (used_ports s)"
      using assms(1) dist by (auto simp: registered_def mgr_inv_def split: if_splits)
  next
    fix c s p
    assume "mgr_cybertwinTable (registered cuid sockAddr st) c = Some s" and "p \<in> set (used_ports s)"
    then show "p < ?new"
      using old range grow
      by (auto simp: registered_def used_ports_next_slot split: if_splits
          simp del: ports_from.simps) (meson order_less_le_trans)+
  next
    fix c d s t
    assume "mgr_cybertwinTable (registered cuid sockAddr st) c = Some s"
      and "mgr_cybertwinTable (registered cuid sockAddr st) d = Some t" and "c \<noteq> d"
    then show "set (used_ports s) \<inter> set (used_ports t) = {}"
      using assms(1) disj by (auto simp: registered_def used_ports_next_slot mgr_inv_def
          split: if_splits simp del: ports_from.simps) blast+
  qed
qed

section \<open>Handlers on the packets of the protocol\<close>

lemma Handle_register_new:
  assumes "mgr_inv st" and "mgr_room st" and "length name < 65536"
    and "mgr_cybertwinTable st (hash name) = None"
  shows "HandleHostPacket hash sockAddr (mgr_packet (mgr_header CYBERTWIN_REGISTRATION name) p) st =
    Inr (registered (hash name) sockAddr st,
      [MGR_CreateCybertwin (hash name) (next_slot sockAddr st),
       MGR_Send (mgr_packet (mgr_header CYBERTWIN_REGISTRATION_ACK name
         \<lparr>mh_cuid := hash name, mh_port := mgr_lastAssignedPort st\<rparr>) (Create_Packet 0))])"
  using assms AssignInterfaces_eq [of st sockAddr]
  by (simp add: HandleHostPacket_def mgr_packet_read HandleCybertwinRegistration_def
      StringToUint64_def Let_def SendReply_ok registered_def next_slot_def mgr_header_def)

lemma Handle_register_known:
  assumes "length name < 65536" and "mgr_cybertwinTable st (hash name) \<noteq> None"
  shows "HandleHostPacket hash sockAddr (mgr_packet (mgr_header CYBERTWIN_REGISTRATION name) p) st =
    Inr (st, [MGR_Send (mgr_packet (mgr_header CYBERTWIN_REGISTRATION_ERROR name)
      (Create_Packet 0))])"
  using assms by (auto simp: HandleHostPacket_def mgr_packet_read HandleCybertwinRegistration_def
      StringToUint64_def Let_def SendReply_ok mgr_header_def [symmetric])

lemma Handle_destroy:
  assumes "length name < 65536"
  shows "HandleHostPacket hash sockAddr (mgr_packet (mgr_header CYBERTWIN_DESTRUCTION name) p) st =
    (if mgr_cybertwinTable st (hash name) = None
     then Inr (st, [MGR_Send (mgr_packet (mgr_header CYBERTWIN_DESTRUCTION_ERROR name)
       (Create_Packet 0))])
     else Inr (st\<lparr>mgr_cybertwinTable := (mgr_cybertwinTable st)(hash name := None)\<rparr>,
       [MGR_Send (mgr_packet (mgr_header CYBERTWIN_DESTRUCTION_ACK name) (Create_Packet 0))]))"
  using assms by (simp add: HandleHostPacket_def mgr_packet_read HandleCybertwinDestruction_def
      StringToUint64_def Let_def SendReply_ok mgr_header_def [symmetric])

lemma Handle_reconnect:
  assumes "length name < 65536"
  shows "HandleHostPacket hash sockAddr (mgr_packet (mgr_header CYBERTWIN_RECONNECT name) p) st =
    Inr (st, [MGR_Send (mgr_packet (mgr_header
      (if mgr_cybertwinTable st (hash name) = None then CYBERTWIN_RECONNECT_ERROR
       else CYBERTWIN_RECONNECT_ACK) name) (Create_Packet 0))])"
  using assms by (simp add: HandleHostPacket_def mgr_packet_read HandleCybertwinReconnect_def
      StringToUint64_def Let_def SendReply_ok mgr_header_def [symmetric])

lemma mgr_inv_destroyed [inv_intros]:
  "mgr_inv st \<Longrightarrow> mgr_inv (st\<lparr>mgr_cybertwinTable := (mgr_cybertwinTable st)(c := None)\<rparr>)"
  by (auto simp: mgr_inv_def)

section \<open>Abstract registry\<close>

text \<open>
  What the manager promises a host: the set of registered identifiers, changed by the three
  requests, and the command of the reply.
\<close>

definition registry_step ::
  "u8 \<Rightarrow> CYBERTWINID_t \<Rightarrow> CYBERTWINID_t set \<Rightarrow> CYBERTWINID_t set \<times> u8" where
  "registry_step cmd cuid R =
     (if cmd = CYBERTWIN_REGISTRATION then
        (insert cuid R, if cuid \<in> R then CYBERTWIN_REGISTRATION_ERROR
                        else CYBERTWIN_REGISTRATION_ACK)
      else if cmd = CYBERTWIN_DESTRUCTION then
        (R - {cuid}, if cuid \<in> R then CYBERTWIN_DESTRUCTION_ACK
                     else CYBERTWIN_DESTRUCTION_ERROR)
      else
        (R, if cuid \<in> R then CYBERTWIN_RECONNECT_ACK else CYBERTWIN_RECONNECT_ERROR))"

definition is_request :: "u8 \<Rightarrow> bool" where
  "is_request cmd = (cmd = CYBERTWIN_REGISTRATION \<or> cmd = CYBERTWIN_DESTRUCTION \<or>
     cmd = CYBERTWIN_RECONNECT)"

section \<open>Properties\<close>

definition example_manager :: CybertwinManager where
  "example_manager = CybertwinManager_new [Ipv4Address_of 0x0B000001, Ipv4Address_of 0x0C000001]"

lemma example_manager_inv: "mgr_inv example_manager" "mgr_room example_manager"
  by (simp_all add: example_manager_def CybertwinManager_new_def mgr_inv_def mgr_room_def)

text \<open>
  C3: The manager implements the abstract registry: for every request of a host in a
  well-formed state with room for another cybertwin, the registered identifiers after the
  handler are those of the registry, one reply is sent last, and that reply reads back as the
  registry's answer for the same name.
\<close>

theorem manager_refines_registry:
  assumes "mgr_inv st" and "mgr_room st" and "length name < 65536" and "is_request cmd"
  shows "\<exists>st' acts reply h n.
    HandleHostPacket hash sockAddr (mgr_packet (mgr_header cmd name) p) st =
      Inr (st', acts @ [MGR_Send reply]) \<and>
    PeekHeader (CybertwinManagerHeader_Deserialize CybertwinManagerHeader_new) reply = Some (h, n) \<and>
    mh_cname h = name \<and>
    (dom (mgr_cybertwinTable st'), mh_command h) =
      registry_step cmd (hash name) (dom (mgr_cybertwinTable st))"
proof -
  consider (known) "cmd = CYBERTWIN_REGISTRATION" "mgr_cybertwinTable st (hash name) \<noteq> None"
    | (new) "cmd = CYBERTWIN_REGISTRATION" "mgr_cybertwinTable st (hash name) = None"
    | (destroy) "cmd = CYBERTWIN_DESTRUCTION" | (reconnect) "cmd = CYBERTWIN_RECONNECT"
    using assms(4) by (auto simp: is_request_def)
  then show ?thesis
  proof cases
    case known
    then show ?thesis
      using Handle_register_known [of name st hash sockAddr p] assms(3)
      by (force simp: mgr_packet_read registry_step_def dom_def)
  next
    case new
    then show ?thesis
      using Handle_register_new [of st name hash sockAddr p] assms(1,2) assms(3)
      by (force simp: mgr_packet_read registry_step_def registered_def dom_def)
  next
    case destroy
    then show ?thesis
      using Handle_destroy [OF assms(3), of hash sockAddr p st] assms(3)
      by (cases "mgr_cybertwinTable st (hash name)")
        (force simp: mgr_packet_read registry_step_def dom_def)+
  next
    case reconnect
    then show ?thesis
      using Handle_reconnect [OF assms(3), of hash sockAddr p st] assms(3)
      by (force simp: mgr_packet_read registry_step_def dom_def)
  qed
qed

theorem manager_refines_registry_witness:
  "\<exists>st' acts reply. HandleHostPacket (\<lambda>s. of_nat (length s)) (Ipv4Address_of 1)
     (mgr_packet (mgr_header CYBERTWIN_REGISTRATION ''host1'') (Create_Packet 0)) example_manager =
     Inr (st', acts @ [MGR_Send reply]) \<and> dom (mgr_cybertwinTable st') = {5}"
  using manager_refines_registry [OF example_manager_inv, of "''host1''" CYBERTWIN_REGISTRATION
      "\<lambda>s. of_nat (length s)" "Ipv4Address_of 1" "Create_Packet 0"]
  by (force simp: is_request_def registry_step_def example_manager_def CybertwinManager_new_def)

text \<open>
  C16: While the 16-bit port counter has room, every request keeps the port discipline: ports in
  use are below the counter, a cybertwin's own ports are different, and two cybertwins never
  share one.
\<close>

theorem manager_ports_disjoint:
  assumes "mgr_inv st" and "mgr_room st" and "length name < 65536" and "is_request cmd"
    and "HandleHostPacket hash sockAddr (mgr_packet (mgr_header cmd name) p) st = Inr (st', acts)"
  shows "mgr_inv st'"
proof -
  consider (known) "cmd = CYBERTWIN_REGISTRATION" "mgr_cybertwinTable st (hash name) \<noteq> None"
    | (new) "cmd = CYBERTWIN_REGISTRATION" "mgr_cybertwinTable st (hash name) = None"
    | (destroy) "cmd = CYBERTWIN_DESTRUCTION" | (reconnect) "cmd = CYBERTWIN_RECONNECT"
    using assms(4) by (auto simp: is_request_def)
  then show ?thesis
    by cases (use assms in \<open>auto simp: Handle_register_known Handle_register_new Handle_destroy
        Handle_reconnect split: if_splits intro: inv_intros\<close>)
qed

theorem manager_ports_disjoint_witness:
  "\<exists>st' acts. HandleHostPacket (\<lambda>s. of_nat (length s)) (Ipv4Address_of 1)
     (mgr_packet (mgr_header CYBERTWIN_REGISTRATION ''host1'') (Create_Packet 0)) example_manager =
     Inr (st', acts) \<and> mgr_inv st'"
proof -
  have "HandleHostPacket (\<lambda>s. of_nat (length s)) (Ipv4Address_of 1)
     (mgr_packet (mgr_header CYBERTWIN_REGISTRATION ''host1'') (Create_Packet 0)) example_manager \<noteq>
     Inl e" for e
    by (subst Handle_register_new) (simp_all add: example_manager_inv,
        simp add: example_manager_def CybertwinManager_new_def)
  then obtain st' acts where st': "HandleHostPacket (\<lambda>s. of_nat (length s)) (Ipv4Address_of 1)
     (mgr_packet (mgr_header CYBERTWIN_REGISTRATION ''host1'') (Create_Packet 0)) example_manager =
     Inr (st', acts)"
    by (metis sum.exhaust prod.exhaust)
  with manager_ports_disjoint [OF example_manager_inv _ _ st'] show ?thesis
    by (simp add: is_request_def)
qed

text \<open>
  The port counter is not stopped at its end when the local port is the one before the
  last: a registration that starts with the counter at 65534 does not report that the ports are
  used up, gives the cybertwin the global port 65535 and leaves the counter at 0.
\<close>

theorem port_counter_wraps:
  assumes "mgr_lastAssignedPort st = 65534" and "mgr_globalIpv4AddrList st = [g]"
    and "65535 \<notin> mgr_assignedPorts st" and "length name < 65536"
    and "mgr_cybertwinTable st (hash name) = None"
  shows "\<exists>st' acts. HandleHostPacket hash sockAddr
      (mgr_packet (mgr_header CYBERTWIN_REGISTRATION name) p) st = Inr (st', acts) \<and>
    mgr_lastAssignedPort st' = 0 \<and>
    mgr_cybertwinTable st' (hash name) =
      Some \<lparr>slot_local = (sockAddr, 65534), slot_global = [(g, 65535)]\<rparr>"
  using assms by (simp add: HandleHostPacket_def mgr_packet_read HandleCybertwinRegistration_def
      StringToUint64_def Let_def SendReply_ok AssignInterfaces_def NextPort_fresh)

theorem port_counter_wraps_witness:
  "\<exists>st' acts. HandleHostPacket (\<lambda>s. 3) (Ipv4Address_of 1)
      (mgr_packet (mgr_header CYBERTWIN_REGISTRATION ''h'') (Create_Packet 0))
      (CybertwinManager_new [Ipv4Address_of 9]\<lparr>mgr_lastAssignedPort := 65534\<rparr>) = Inr (st', acts) \<and>
    mgr_lastAssignedPort st' = 0"
  using port_counter_wraps [of "CybertwinManager_new [Ipv4Address_of 9]
      \<lparr>mgr_lastAssignedPort := 65534\<rparr>" "Ipv4Address_of 9" "''h''" "\<lambda>s. 3" "Ipv4Address_of 1"
      "Create_Packet 0"]
  by (auto simp: CybertwinManager_new_def)

text \<open>
  C7: Registration end to end.  An unregistered daemon sends one registration packet and
  schedules a repetition; a manager with room that does not know the name creates one cybertwin
  with a local port and one global interface per global address; its reply makes the daemon
  registered with the identifier and the port under which the manager keeps the cybertwin; and a
  repeated registration is refused without disturbing either side.
\<close>

theorem registration_end_to_end:
  assumes "mgr_inv st" and "mgr_room st" and "length (host_name ed) < 65536"
    and "mgr_cybertwinTable st (hash (host_name ed)) = None"
    and "\<not> ed_isRegisteredToCybertwin ed"
  shows "\<exists>request st1 reply ed1 slot refusal.
    Authenticate ed = Inr (ed, [ED_Send request, ED_ScheduleAuthenticate 1]) \<and>
    ReceiveFromHost hash sockAddr [request] st =
      Inr (st1, [MGR_CreateCybertwin (hash (host_name ed)) slot, MGR_Send reply]) \<and>
    mgr_cybertwinTable st1 (hash (host_name ed)) = Some slot \<and>
    map fst (slot_global slot) = mgr_globalIpv4AddrList st \<and>
    RecvFromCybertwinManangerCallback [reply] ed = Inr ed1 \<and>
    ed_isRegisteredToCybertwin ed1 \<and> host_isConnected ed1 \<and>
    host_cybertwinId ed1 = hash (host_name ed) \<and>
    slot_local slot = (sockAddr, host_cybertwinPort ed1) \<and>
    Authenticate ed1 = Inr (ed1, []) \<and>
    ReceiveFromHost hash sockAddr [request] st1 = Inr (st1, [MGR_Send refusal]) \<and>
    RecvFromCybertwinManangerCallback [refusal] ed1 = Inr ed1"
proof -
  let ?name = "host_name ed"
  let ?request = "mgr_packet (mgr_header CYBERTWIN_REGISTRATION ?name) (Create_Packet 0)"
  have auth: "Authenticate ed = Inr (ed, [ED_Send ?request, ED_ScheduleAuthenticate 1])"
    using assms(3,5) by (simp add: Authenticate_def Manager_AddHeader_ok mgr_header_def)
  have known: "mgr_cybertwinTable (registered (hash ?name) sockAddr st) (hash ?name) =
      Some (next_slot sockAddr st)"
    by (simp add: registered_def)
  have slots: "map fst (slot_global (next_slot sockAddr st)) = mgr_globalIpv4AddrList st"
    "slot_local (next_slot sockAddr st) = (sockAddr, mgr_lastAssignedPort st)"
    by (simp_all add: next_slot_def)
  show ?thesis
    using assms auth known slots Handle_register_new [of st ?name hash sockAddr "Create_Packet 0"]
      Handle_register_known [of ?name "registered (hash ?name) sockAddr st" hash sockAddr
        "Create_Packet 0"]
    by (simp add: GetSize_mgr_packet Daemon_packet_def mgr_packet_read RegisterSuccessHandler_def
        Authenticate_def)
qed

theorem registration_end_to_end_witness:
  "\<exists>request. Authenticate (CybertwinEndHostDaemon_new ''host1'' (Ipv4Address_of 1) 0 0) =
     Inr (CybertwinEndHostDaemon_new ''host1'' (Ipv4Address_of 1) 0 0,
       [ED_Send request, ED_ScheduleAuthenticate 1])"
  using registration_end_to_end [OF example_manager_inv,
      of "CybertwinEndHostDaemon_new ''host1'' (Ipv4Address_of 1) 0 0"]
  by (auto simp: CybertwinEndHostDaemon_new_def example_manager_def CybertwinManager_new_def)

text \<open>
  An acknowledgement for another name makes the daemon believe that it is registered: it
  stops repeating its request although no identifier and no port were stored.
\<close>

theorem foreign_ack_stops_registration:
  assumes "length (mh_cname h) < 65536" and "mh_command h = CYBERTWIN_REGISTRATION_ACK"
    and "mh_cname h \<noteq> host_name ed" and "\<not> host_isConnected ed"
  shows "\<exists>ed'. RecvFromCybertwinManangerCallback [mgr_packet h p] ed = Inr ed' \<and>
    Authenticate ed' = Inr (ed', []) \<and> \<not> host_isConnected ed' \<and>
    host_cybertwinId ed' = host_cybertwinId ed"
  using assms by (auto simp: Daemon_packet_def mgr_packet_read RegisterSuccessHandler_def
      Authenticate_def)

theorem foreign_ack_stops_registration_witness:
  "\<exists>ed'. RecvFromCybertwinManangerCallback
     [mgr_packet (mgr_header CYBERTWIN_REGISTRATION_ACK ''b'') (Create_Packet 0)]
     (CybertwinEndHostDaemon_new ''a'' (Ipv4Address_of 1) 0 0) = Inr ed' \<and>
     Authenticate ed' = Inr (ed', [])"
  using foreign_ack_stops_registration [of "mgr_header CYBERTWIN_REGISTRATION_ACK ''b''"
      "CybertwinEndHostDaemon_new ''a'' (Ipv4Address_of 1) 0 0" "Create_Packet 0"]
  by (auto simp: CybertwinEndHostDaemon_new_def)

end
