(* ===== verification/Multipath.thy ===== *)
theory Multipath
  imports Headers
begin

text \<open>
  The multipath data transfer protocol
  (\<^verbatim>\<open>networks/multipath-data-transfer-protocol.{h,cc}\<close>): the paths with their state
  machine, the connections that bundle them, and the server that accepts them.

  Paths and connections point at each other, so a host is an explicit heap: \<open>md_paths\<close> and
  \<open>md_conns\<close> map addresses to objects, and \<open>None\<close> is memory that was never allocated
  or has been deleted.  Each path also holds the packets its socket has ready
  (\<open>sp_socketRx\<close>), which \<^verbatim>\<open>RecvFrom\<close> takes from the front.  A handler returns
  the new heap and its actions: packets and connection attempts for the sockets, callbacks,
  and events handed to the scheduler.  Fields that a constructor leaves uninitialised keep
  what the raw memory held, which is a parameter.
\<close>

section \<open>Objects\<close>

datatype PathStatus =
    SINGLE_PATH_INIT | SINGLE_PATH_READY | SINGLE_PATH_LISTEN | SINGLE_PATH_BUILD_SENT
  | SINGLE_PATH_JOIN_SENT | SINGLE_PATH_CONNECTED | SINGLE_PATH_CLOSED | SINGLE_PATH_ERROR

datatype MP_CONN_STATE =
    MP_CONN_INIT | MP_CONN_BIND | MP_CONN_SEND | MP_CONN_CONNECT | MP_CONN_CLOSING | MP_CONN_CLOSED

record SinglePath =
  sp_pathId :: MP_PATH_ID_t
  sp_socket :: bool
  sp_socketRx :: "packet list"
  sp_localKey :: MP_CONN_KEY_t
  sp_remoteKey :: MP_CONN_KEY_t
  sp_localCybertwinID :: CYBERTWINID_t
  sp_remoteIf :: CYBERTWIN_INTERFACE_t
  sp_remoteCybertwinID :: CYBERTWINID_t
  sp_connection :: "nat option"
  sp_pathState :: PathStatus
  sp_connID :: MP_CONN_ID_t
  sp_rxBuffer :: "packet list"
  sp_txTotalBytes :: u64
  sp_rxTotalBytes :: u64

record MultipathConnection =
  mc_connID :: MP_CONN_ID_t
  mc_connState :: MP_CONN_STATE
  mc_localKey :: MP_CONN_KEY_t
  mc_remoteKey :: MP_CONN_KEY_t
  mc_localCyberID :: CYBERTWINID_t
  mc_peerCyberID :: CYBERTWINID_t
  mc_interfaces :: CYBERTWIN_INTERFACE_LIST_t
  mc_paths :: "nat list"
  mc_lastPathIndex :: u32
  mc_sendSeqNum :: u64
  mc_txBuffer :: "packet list"
  mc_recvSeqNum :: u64
  mc_rxBuffer :: "packet list"
  mc_readyPath :: "nat list"
  mc_errorPath :: "nat set"
  mc_pathNum :: nat
  mc_rawReadyPath :: "nat list"
  mc_rawFailPath :: "nat list"
  mc_connectSucceedCallback :: bool
  mc_recvCallback :: bool
  mc_closeCallback :: bool
  mc_txTotalBytes :: u64
  mc_rxTotalBytes :: u64

record CybertwinDataTransferServer =
  ds_localCybertwinID :: CYBERTWINID_t
  ds_cybertwinIfs :: CYBERTWIN_INTERFACE_LIST_t
  ds_CNRSCache :: "CYBERTWINID_t \<rightharpoonup> CYBERTWIN_INTERFACE_LIST_t"
  ds_connections :: "nat set"
  ds_connectionIDs :: "MP_CONN_ID_t \<rightharpoonup> nat"
  ds_notifyNewConnection :: bool
  ds_rxBytes :: u64

record mdtp =
  md_paths :: "nat \<rightharpoonup> SinglePath"
  md_conns :: "nat \<rightharpoonup> MultipathConnection"
  md_next :: nat
  md_server :: CybertwinDataTransferServer

datatype md_event =
    EvAddInitConnectPath nat nat
  | EvPathRecvedData nat nat
  | EvPathJoinResult nat nat bool
  | EvBuildConnection nat
  | EvConnectOtherPath nat
  | EvSendData nat
  | EvClose nat
  | EvBulkSend nat

datatype md_action =
    MD_Send nat packet
  | MD_Connect nat CYBERTWIN_INTERFACE_t
  | MD_Close nat
  | MD_Resolve nat CYBERTWINID_t
  | MD_Schedule md_event
  | MD_NotifyNewConnection nat
  | MD_ConnectSucceed nat
  | MD_RecvCallback nat
  | MD_CloseCallback nat

type_synonym md_result = "(mdtp \<times> md_action list) outcome"

abbreviation path_of :: "nat \<Rightarrow> mdtp \<Rightarrow> (SinglePath \<Rightarrow> 'a outcome) \<Rightarrow> 'a outcome" where
  "path_of pid st \<equiv> from_option NullPointer (md_paths st pid)"

abbreviation conn_of :: "nat \<Rightarrow> mdtp \<Rightarrow> (MultipathConnection \<Rightarrow> 'a outcome) \<Rightarrow> 'a outcome" where
  "conn_of cid st \<equiv> from_option NullPointer (md_conns st cid)"

definition set_path :: "nat \<Rightarrow> SinglePath \<Rightarrow> mdtp \<Rightarrow> mdtp" where
  "set_path pid p st = st\<lparr>md_paths := (md_paths st)(pid \<mapsto> p)\<rparr>"

definition set_conn :: "nat \<Rightarrow> MultipathConnection \<Rightarrow> mdtp \<Rightarrow> mdtp" where
  "set_conn cid c st = st\<lparr>md_conns := (md_conns st)(cid \<mapsto> c)\<rparr>"

definition also_do :: "md_result \<Rightarrow> (mdtp \<Rightarrow> md_result) \<Rightarrow> md_result" where
  "also_do m k = then_do m (\<lambda>(st, acts). then_do (k st) (\<lambda>(st, acts'). Inr (st, acts @ acts')))"

section \<open>Constructors\<close>

definition SinglePath_new :: "SinglePath \<Rightarrow> SinglePath" where
  "SinglePath_new raw = raw\<lparr>sp_socket := False, sp_socketRx := [], sp_localKey := 0,
     sp_remoteKey := 0, sp_localCybertwinID := 0, sp_remoteIf := (Ipv4Address_default, 0),
     sp_remoteCybertwinID := 0, sp_connection := None, sp_pathState := SINGLE_PATH_INIT,
     sp_connID := 0, sp_rxBuffer := []\<rparr>"

text \<open>What both constructors of a connection leave to the members' own constructors.\<close>

definition MultipathConnection_members :: "MultipathConnection \<Rightarrow> MultipathConnection" where
  "MultipathConnection_members raw = raw\<lparr>mc_interfaces := [], mc_paths := [], mc_sendSeqNum := 0,
     mc_txBuffer := [], mc_recvSeqNum := 0, mc_rxBuffer := [], mc_readyPath := [],
     mc_errorPath := {}, mc_rawReadyPath := [], mc_rawFailPath := [],
     mc_connectSucceedCallback := False, mc_recvCallback := False, mc_closeCallback := False\<rparr>"

definition MultipathConnection_new :: "MultipathConnection \<Rightarrow> MultipathConnection" where
  "MultipathConnection_new raw = (MultipathConnection_members raw)\<lparr>mc_localCyberID := 0,
     mc_peerCyberID := 0, mc_localKey := 0, mc_connID := 0, mc_connState := MP_CONN_INIT,
     mc_pathNum := 0\<rparr>"

definition MultipathConnection_of_path ::
  "MultipathConnection \<Rightarrow> nat \<Rightarrow> SinglePath \<Rightarrow> MultipathConnection outcome" where
  "MultipathConnection_of_path raw pid path =
     require (sp_pathState path = SINGLE_PATH_CONNECTED) AssertFailed
       (Inr ((MultipathConnection_members raw)\<lparr>mc_localCyberID := sp_localCybertwinID path,
          mc_peerCyberID := sp_remoteCybertwinID path, mc_localKey := sp_localKey path,
          mc_connID := sp_connID path, mc_sendSeqNum := sp_connID path,
          mc_recvSeqNum := sp_connID path, mc_connState := MP_CONN_CONNECT, mc_pathNum := 0,
          mc_paths := [pid]\<rparr>))"

definition CybertwinDataTransferServer_new :: "u64 \<Rightarrow> CybertwinDataTransferServer" where
  "CybertwinDataTransferServer_new garbage = \<lparr>ds_localCybertwinID = 0, ds_cybertwinIfs = [],
     ds_CNRSCache = Map.empty, ds_connections = {}, ds_connectionIDs = Map.empty,
     ds_notifyNewConnection = False, ds_rxBytes = garbage\<rparr>"

definition Server_Setup ::
  "CYBERTWINID_t \<Rightarrow> CYBERTWIN_INTERFACE_LIST_t \<Rightarrow> mdtp \<Rightarrow> mdtp" where
  "Server_Setup cyberid ifs st = st\<lparr>md_server := (md_server st)
     \<lparr>ds_localCybertwinID := cyberid, ds_cybertwinIfs := ifs\<rparr>\<rparr>"

definition InsertCNRSCache ::
  "CYBERTWINID_t \<Rightarrow> CYBERTWIN_INTERFACE_LIST_t \<Rightarrow> mdtp \<Rightarrow> mdtp" where
  "InsertCNRSCache cuid ifs st = st\<lparr>md_server := (md_server st)
     \<lparr>ds_CNRSCache := (ds_CNRSCache (md_server st))(cuid \<mapsto> ifs)\<rparr>\<rparr>"

text \<open>
  The loop draws keys until one is not zero; the draws are the values of
  \<^verbatim>\<open>(MP_CONN_KEY_t)(rand->GetValue() * 10000)\<close>.
\<close>

fun GenerateKey :: "MP_CONN_KEY_t list \<Rightarrow> MP_CONN_KEY_t option" where
  "GenerateKey [] = None"
| "GenerateKey (key # draws) = (if key = 0 then GenerateKey draws else Some key)"

definition Connection_Setup ::
  "MP_CONN_KEY_t list \<Rightarrow> CYBERTWINID_t \<Rightarrow> CYBERTWIN_INTERFACE_LIST_t \<Rightarrow> nat \<Rightarrow> mdtp \<Rightarrow> md_result" where
  "Connection_Setup draws cyberid interfaces cid st =
     conn_of cid st (\<lambda>c. from_option Unfinished (GenerateKey draws) (\<lambda>key.
       Inr (set_conn cid (c\<lparr>mc_localCyberID := cyberid, mc_interfaces := interfaces,
         mc_localKey := key, mc_connState := MP_CONN_INIT\<rparr>) st, [])))"

section \<open>Data transfer of a path\<close>

definition Mp_AddHeader :: "MultipathHeader \<Rightarrow> packet \<Rightarrow> packet option" where
  "Mp_AddHeader h p = AddHeader (replicate (MultipathHeader_GetSerializedSize h) 0)
     (MultipathHeader_Serialize h) p"

definition Dsn_AddHeader :: "MultipathHeaderDSN \<Rightarrow> packet \<Rightarrow> packet option" where
  "Dsn_AddHeader h p = AddHeader (replicate (MultipathHeaderDSN_GetSerializedSize h) 0)
     (MultipathHeaderDSN_Serialize h) p"

abbreviation Mp_Deserialize :: "reader \<Rightarrow> (MultipathHeader \<times> nat) option" where
  "Mp_Deserialize \<equiv> MultipathHeader_Deserialize MultipathHeader_new"

abbreviation Dsn_Deserialize :: "reader \<Rightarrow> (MultipathHeaderDSN \<times> nat) option" where
  "Dsn_Deserialize \<equiv> MultipathHeaderDSN_Deserialize MultipathHeaderDSN_new"

text \<open>
  \<open>sock\<close> is what \<^verbatim>\<open>Socket::Send\<close> returns; a refused packet is not retried.
\<close>

definition SinglePath_Send :: "(packet \<Rightarrow> int) \<Rightarrow> nat \<Rightarrow> packet \<Rightarrow> mdtp \<Rightarrow> md_result" where
  "SinglePath_Send sock pid pkt st =
     path_of pid st (\<lambda>p.
       if \<not> sp_socket p then Inr (st, [])
       else if sp_pathState p \<noteq> SINGLE_PATH_CONNECTED then Inr (st, [])
       else if sock pkt \<le> 0 then Inr (st, [])
       else Inr (set_path pid (p\<lparr>sp_txTotalBytes := sp_txTotalBytes p + word_of_int (sock pkt)\<rparr>) st,
              [MD_Send pid pkt]))"

definition HeadPacketSeqNum :: "SinglePath \<Rightarrow> u64 outcome" where
  "HeadPacketSeqNum p =
     (case sp_rxBuffer p of
        [] \<Rightarrow> Inr 0
      | pack # _ \<Rightarrow> from_option BadBuffer (PeekHeader Dsn_Deserialize pack)
          (\<lambda>(h, n). Inr (dsn_dataSeqNum h)))"

definition SinglePath_Recv :: "SinglePath \<Rightarrow> (packet option \<times> SinglePath) outcome" where
  "SinglePath_Recv p =
     (case sp_rxBuffer p of
        [] \<Rightarrow> Inr (None, p)
      | pack # rest \<Rightarrow> from_option BadBuffer (RemoveHeader Dsn_Deserialize pack)
          (\<lambda>(h, q). Inr (Some q, p\<lparr>sp_rxBuffer := rest\<rparr>)))"

definition SendPacketWithHeader :: "MultipathHeader \<Rightarrow> nat \<Rightarrow> mdtp \<Rightarrow> md_result" where
  "SendPacketWithHeader header pid st =
     path_of pid st (\<lambda>p. from_option BadBuffer (Mp_AddHeader header (Create_Packet 0))
       (\<lambda>packet. require (sp_socket p) NullPointer (Inr (st, [MD_Send pid packet]))))"

section \<open>Data transfer of a connection\<close>

definition Connection_Send :: "packet \<Rightarrow> nat \<Rightarrow> mdtp \<Rightarrow> md_result" where
  "Connection_Send packet cid st =
     conn_of cid st (\<lambda>c.
       let pktSize = GetSize packet
       in if pktSize = 0 then Inr (st, [])
          else from_option BadBuffer
            (Dsn_AddHeader (MultipathHeaderDSN_new\<lparr>dsn_cuid := mc_localCyberID c,
               dsn_dataSeqNum := mc_sendSeqNum c, dsn_dataLen := of_nat pktSize\<rparr>) packet)
            (\<lambda>q. Inr (set_conn cid (c\<lparr>mc_sendSeqNum := mc_sendSeqNum c + of_nat pktSize,
               mc_txBuffer := mc_txBuffer c @ [q]\<rparr>) st, [MD_Schedule (EvSendData cid)])))"

text \<open>
  The loop looks for a connected path from the last index on and never ends when there is
  none.  The index is a 32-bit signed integer, converted to the unsigned 64-bit size type
  before the remainder is taken.
\<close>

definition path_index :: "u32 \<Rightarrow> nat \<Rightarrow> nat" where
  "path_index idx n = unat (scast idx :: u64) mod n"

partial_function (option) RoundRobin_loop ::
  "bool option list \<Rightarrow> u32 \<Rightarrow> (nat \<times> u32) outcome option" where
  "RoundRobin_loop connected lastIdx =
     (let idx = path_index lastIdx (length connected)
      in case connected ! idx of
           None \<Rightarrow> Some (Inl NullPointer)
         | Some ready \<Rightarrow>
             if ready then Some (Inr (idx, lastIdx + 1))
             else RoundRobin_loop connected (lastIdx + 1))"

definition paths_connected :: "mdtp \<Rightarrow> nat list \<Rightarrow> bool option list" where
  "paths_connected st pids =
     map (\<lambda>pid. map_option (\<lambda>p. sp_pathState p = SINGLE_PATH_CONNECTED) (md_paths st pid)) pids"

definition ChoosePathRoundRobin :: "MultipathConnection \<Rightarrow> mdtp \<Rightarrow> (nat \<times> u32) outcome" where
  "ChoosePathRoundRobin c st =
     require (mc_paths c \<noteq> []) AssertFailed
       (from_option Unfinished (RoundRobin_loop (paths_connected st (mc_paths c))
          (mc_lastPathIndex c)) (\<lambda>r. r))"

definition MULTIPATH_MAXSENT_PACKET_ONCE :: nat where
  "MULTIPATH_MAXSENT_PACKET_ONCE = 100"

fun SendData_loop ::
  "(packet \<Rightarrow> int) \<Rightarrow> nat \<Rightarrow> nat \<Rightarrow> nat \<Rightarrow> packet list \<Rightarrow> mdtp \<Rightarrow> md_result" where
  "SendData_loop sock 0 cid pid pkts st = Inr (st, [])"
| "SendData_loop sock (Suc n) cid pid [] st = Inr (st, [])"
| "SendData_loop sock (Suc n) cid pid (pkt # pkts) st =
     also_do (SinglePath_Send sock pid pkt st)
       (\<lambda>st. conn_of cid st (\<lambda>c.
          SendData_loop sock n cid pid pkts (set_conn cid (c\<lparr>mc_txBuffer := pkts,
            mc_txTotalBytes := mc_txTotalBytes c +
              ucast (of_nat (GetSize pkt) - 20 :: u32)\<rparr>) st)))"

definition Connection_SendData :: "(packet \<Rightarrow> int) \<Rightarrow> nat \<Rightarrow> mdtp \<Rightarrow> md_result" where
  "Connection_SendData sock cid st =
     conn_of cid st (\<lambda>c.
       if mc_txBuffer c = [] then Inr (st, [])
       else then_do (ChoosePathRoundRobin c st)
         (\<lambda>(idx, lastIdx).
            SendData_loop sock MULTIPATH_MAXSENT_PACKET_ONCE cid (mc_paths c ! idx) (mc_txBuffer c)
              (set_conn cid (c\<lparr>mc_lastPathIndex := lastIdx\<rparr>) st)))"

definition Connection_Recv :: "nat \<Rightarrow> mdtp \<Rightarrow> (packet option \<times> mdtp) outcome" where
  "Connection_Recv cid st =
     conn_of cid st (\<lambda>c.
       case mc_rxBuffer c of
         [] \<Rightarrow> Inr (None, st)
       | pack # rest \<Rightarrow> Inr (Some pack, set_conn cid (c\<lparr>mc_rxBuffer := rest\<rparr>) st))"

text \<open>
  One turn of the receiving loop: the condition is read off the head of the path's buffer, and
  the packet is taken whatever its sequence number is, unless that number is zero.
\<close>

function (sequential) PathRecvedData_loop ::
  "SinglePath \<Rightarrow> MultipathConnection \<Rightarrow> (SinglePath \<times> MultipathConnection) outcome" where
  "PathRecvedData_loop p c =
     then_do (HeadPacketSeqNum p) (\<lambda>headSeq.
       if mc_recvSeqNum c = headSeq \<or> headSeq \<noteq> 0 then
         case SinglePath_Recv p of
           Inl e \<Rightarrow> Inl e
         | Inr (None, p') \<Rightarrow> Inl AssertFailed
         | Inr (Some pack, p') \<Rightarrow>
             PathRecvedData_loop p' (c\<lparr>mc_rxBuffer := mc_rxBuffer c @ [pack],
               mc_recvSeqNum := mc_recvSeqNum c + of_nat (GetSize pack),
               mc_rxTotalBytes := mc_rxTotalBytes c + of_nat (GetSize pack)\<rparr>)
       else Inr (p, c))"
  by pat_completeness auto
termination
  by (relation "measure (\<lambda>(p, c). length (sp_rxBuffer p))")
    (auto simp: SinglePath_Recv_def from_option_def split: list.splits option.splits)

definition PathRecvedData :: "nat \<Rightarrow> nat \<Rightarrow> mdtp \<Rightarrow> md_result" where
  "PathRecvedData cid pid st =
     conn_of cid st (\<lambda>c. path_of pid st (\<lambda>p.
       then_do (PathRecvedData_loop p c) (\<lambda>(p, c).
         Inr (set_conn cid c (set_path pid p st),
           if mc_rxBuffer c \<noteq> [] \<and> mc_recvCallback c then [MD_RecvCallback cid] else []))))"

section \<open>Path management of a connection\<close>

definition AddRawPath :: "nat \<Rightarrow> nat \<Rightarrow> bool \<Rightarrow> mdtp \<Rightarrow> md_result" where
  "AddRawPath cid pid ready st =
     conn_of cid st (\<lambda>c.
       let c = (if ready then c\<lparr>mc_rawReadyPath := mc_rawReadyPath c @ [pid]\<rparr>
                else c\<lparr>mc_rawFailPath := mc_rawFailPath c @ [pid]\<rparr>)
       in Inr (set_conn cid c st,
            if length (mc_rawReadyPath c) + length (mc_rawFailPath c) = mc_pathNum c
            then [MD_Schedule (EvBuildConnection cid)] else []))"

text \<open>The first path builds the connection, the others join it.\<close>

definition InitConnection :: "nat \<Rightarrow> mdtp \<Rightarrow> md_result" where
  "InitConnection pid st =
     path_of pid st (\<lambda>p.
       also_do (SendPacketWithHeader (MultipathHeader_new\<lparr>mp_pathId := sp_pathId p,
           mp_cuid := sp_localCybertwinID p, mp_senderKey := sp_localKey p,
           mp_recverKey := 0, mp_connId := 0\<rparr>) pid st)
         (\<lambda>st. Inr (set_path pid (p\<lparr>sp_pathState := SINGLE_PATH_BUILD_SENT\<rparr>) st, [])))"

definition JoinConnection :: "nat \<Rightarrow> mdtp \<Rightarrow> md_result" where
  "JoinConnection pid st =
     path_of pid st (\<lambda>p.
       also_do (SendPacketWithHeader (MultipathHeader_new\<lparr>mp_pathId := sp_pathId p,
           mp_cuid := sp_localCybertwinID p, mp_senderKey := sp_localKey p,
           mp_recverKey := sp_remoteKey p, mp_connId := sp_connID p\<rparr>) pid st)
         (\<lambda>st. Inr (set_path pid (p\<lparr>sp_pathState := SINGLE_PATH_JOIN_SENT\<rparr>) st, [])))"

definition BuildConnection :: "nat \<Rightarrow> mdtp \<Rightarrow> md_result" where
  "BuildConnection cid st =
     conn_of cid st (\<lambda>c.
       case mc_rawReadyPath c of
         [] \<Rightarrow> Inr (st, [])
       | pid # rest \<Rightarrow> InitConnection pid (set_conn cid (c\<lparr>mc_rawReadyPath := rest\<rparr>) st))"

definition AddInitConnectPath :: "nat \<Rightarrow> nat \<Rightarrow> mdtp \<Rightarrow> md_result" where
  "AddInitConnectPath cid pid st =
     conn_of cid st (\<lambda>c. path_of pid st (\<lambda>p.
       require (sp_connID p \<noteq> 0) AssertFailed
         (Inr (set_conn cid (c\<lparr>mc_connID := sp_connID p, mc_sendSeqNum := sp_connID p,
              mc_recvSeqNum := sp_connID p, mc_remoteKey := sp_remoteKey p,
              mc_readyPath := mc_readyPath c @ [pid], mc_paths := mc_paths c @ [pid],
              mc_connState := MP_CONN_CONNECT\<rparr>) st,
            MD_Schedule (EvConnectOtherPath cid) #
              (if mc_connectSucceedCallback c then [MD_ConnectSucceed cid] else [])))))"

fun ConnectOtherPath_loop :: "nat \<Rightarrow> nat list \<Rightarrow> mdtp \<Rightarrow> md_result" where
  "ConnectOtherPath_loop cid [] st = Inr (st, [])"
| "ConnectOtherPath_loop cid (pid # rest) st =
     conn_of cid st (\<lambda>c. path_of pid st (\<lambda>p.
       let st = set_conn cid (c\<lparr>mc_rawReadyPath := rest\<rparr>) st;
           st = set_path pid (p\<lparr>sp_connID := mc_connID c, sp_remoteKey := mc_remoteKey c,
                  sp_localCybertwinID := mc_localCyberID c\<rparr>) st
       in also_do (JoinConnection pid st) (ConnectOtherPath_loop cid rest)))"

definition ConnectOtherPath :: "nat \<Rightarrow> mdtp \<Rightarrow> md_result" where
  "ConnectOtherPath cid st = conn_of cid st (\<lambda>c. ConnectOtherPath_loop cid (mc_rawReadyPath c) st)"

definition AddOtherConnectPath :: "nat \<Rightarrow> nat \<Rightarrow> mdtp \<Rightarrow> md_result" where
  "AddOtherConnectPath cid pid st =
     conn_of cid st (\<lambda>c. path_of pid st (\<lambda>p.
       require (sp_connID p = mc_connID c) AssertFailed
         (Inr (set_conn cid (c\<lparr>mc_paths := mc_paths c @ [pid],
            mc_connState := MP_CONN_CONNECT\<rparr>) st, []))))"

definition PathJoinResult :: "nat \<Rightarrow> nat \<Rightarrow> bool \<Rightarrow> mdtp \<Rightarrow> md_result" where
  "PathJoinResult cid pid success st =
     conn_of cid st (\<lambda>c.
       if success then path_of pid st (\<lambda>p.
         require (sp_connID p = mc_connID c) AssertFailed
           (Inr (set_conn cid (c\<lparr>mc_readyPath := mc_readyPath c @ [pid],
              mc_paths := mc_paths c @ [pid]\<rparr>) st, [])))
       else Inr (set_conn cid (c\<lparr>mc_errorPath := insert pid (mc_errorPath c)\<rparr>) st, []))"

text \<open>The setter of the connection's state assigns the identifier.\<close>

definition conn_state_code :: "MP_CONN_STATE \<Rightarrow> u64" where
  "conn_state_code s = (case s of MP_CONN_INIT \<Rightarrow> 0 | MP_CONN_BIND \<Rightarrow> 1 | MP_CONN_SEND \<Rightarrow> 2
     | MP_CONN_CONNECT \<Rightarrow> 3 | MP_CONN_CLOSING \<Rightarrow> 4 | MP_CONN_CLOSED \<Rightarrow> 5)"

definition SetConnState :: "MP_CONN_STATE \<Rightarrow> MultipathConnection \<Rightarrow> MultipathConnection" where
  "SetConnState s c = c\<lparr>mc_connID := conn_state_code s\<rparr>"

definition InitIdentity ::
  "CYBERTWINID_t \<Rightarrow> CYBERTWINID_t \<Rightarrow> MP_CONN_ID_t \<Rightarrow> MultipathConnection \<Rightarrow> MultipathConnection" where
  "InitIdentity localid remoteid connid c =
     c\<lparr>mc_localCyberID := localid, mc_peerCyberID := remoteid, mc_connID := connid\<rparr>"

definition Connection_Connect :: "CYBERTWINID_t \<Rightarrow> nat \<Rightarrow> mdtp \<Rightarrow> md_result" where
  "Connection_Connect targetID cid st =
     conn_of cid st (\<lambda>c. Inr (set_conn cid (c\<lparr>mc_peerCyberID := targetID\<rparr>) st,
       [MD_Resolve cid targetID]))"

definition PathConnect :: "nat \<Rightarrow> mdtp \<Rightarrow> md_result" where
  "PathConnect pid st = path_of pid st (\<lambda>p.
     if \<not> sp_socket p then Inr (st, []) else Inr (st, [MD_Connect pid (sp_remoteIf p)]))"

text \<open>
  One path per local interface; the peer's interfaces are indexed without a test of their
  number.  \<open>raw\<close> is the memory of the new path objects.
\<close>

fun OnResolved_loop ::
  "SinglePath \<Rightarrow> nat \<Rightarrow> CYBERTWIN_INTERFACE_LIST_t \<Rightarrow> CYBERTWIN_INTERFACE_LIST_t \<Rightarrow> nat \<Rightarrow> mdtp \<Rightarrow>
     md_result" where
  "OnResolved_loop raw cid [] remote n st = Inr (st, [])"
| "OnResolved_loop raw cid (itf # itfs) remote n st =
     conn_of cid st (\<lambda>c. require (n < length remote) OutOfRange
       (let pid = md_next st;
            p = (SinglePath_new raw)\<lparr>sp_socket := True, sp_remoteIf := remote ! n,
                  sp_localKey := mc_localKey c, sp_localCybertwinID := mc_localCyberID c,
                  sp_connection := Some cid\<rparr>;
            st = (set_path pid p st)\<lparr>md_next := pid + 1\<rparr>
        in also_do (PathConnect pid st) (OnResolved_loop raw cid itfs remote (n + 1))))"

definition OnCybertwinInterfaceResolved ::
  "SinglePath \<Rightarrow> nat \<Rightarrow> CYBERTWIN_INTERFACE_LIST_t \<Rightarrow> mdtp \<Rightarrow> md_result" where
  "OnCybertwinInterfaceResolved raw cid interfaces st =
     conn_of cid st (\<lambda>c.
       OnResolved_loop raw cid (mc_interfaces c) interfaces 0
         (set_conn cid (c\<lparr>mc_pathNum := length (mc_interfaces c)\<rparr>) st))"

text \<open>
  Closing: a closed path is deleted and used right after, and only null entries of the vector
  would count as closed.  The entries are addresses; none is ever set to null.
\<close>

definition PathClose :: "nat \<Rightarrow> mdtp \<Rightarrow> md_result" where
  "PathClose pid st = path_of pid st (\<lambda>p. Inr (st, if sp_socket p then [MD_Close pid] else []))"

fun Close_loop :: "nat list \<Rightarrow> mdtp \<Rightarrow> md_result" where
  "Close_loop [] st = Inr (st, [])"
| "Close_loop (pid # pids) st =
     path_of pid st (\<lambda>p.
       let st = (if sp_pathState p = SINGLE_PATH_CLOSED
                 then st\<lparr>md_paths := (md_paths st)(pid := None)\<rparr> else st)
       in also_do (PathClose pid st) (Close_loop pids))"

definition Connection_Close :: "nat \<Rightarrow> mdtp \<Rightarrow> md_result" where
  "Connection_Close cid st =
     conn_of cid st (\<lambda>c.
       also_do
         (if mc_rxBuffer c = []
          then Close_loop (mc_paths c) (set_conn cid (c\<lparr>mc_connState := MP_CONN_CLOSING\<rparr>) st)
          else Inr (st, []))
         (\<lambda>st. conn_of cid st (\<lambda>c.
            let closedNum = 0
            in if closedNum = length (mc_paths c) then
                 Inr (set_conn cid (c\<lparr>mc_connState := MP_CONN_CLOSED\<rparr>) st,
                   if mc_closeCallback c then [MD_CloseCallback cid] else [])
               else Inr (st, [MD_Schedule (EvClose cid)]))))"

text \<open>Reports: the connection's totals and one entry per path.\<close>

record mp_report =
  rep_connid :: MP_CONN_ID_t
  rep_local :: CYBERTWINID_t
  rep_peer :: CYBERTWINID_t
  rep_connBytes :: u64
  rep_pathBytes :: "(MP_PATH_ID_t \<times> u64) list"

fun report_paths ::
  "(SinglePath \<Rightarrow> u64) \<Rightarrow> nat list \<Rightarrow> mdtp \<Rightarrow> (MP_PATH_ID_t \<times> u64) list outcome" where
  "report_paths f [] st = Inr []"
| "report_paths f (pid # pids) st = path_of pid st (\<lambda>p.
     then_do (report_paths f pids st) (\<lambda>l. Inr ((sp_pathId p, f p) # l)))"

definition ConnectionReport :: "bool \<Rightarrow> nat \<Rightarrow> mdtp \<Rightarrow> mp_report outcome" where
  "ConnectionReport send cid st =
     conn_of cid st (\<lambda>c.
       then_do (report_paths (if send then sp_txTotalBytes else sp_rxTotalBytes) (mc_paths c) st)
         (\<lambda>l. Inr \<lparr>rep_connid = mc_connID c, rep_local = mc_localCyberID c,
            rep_peer = mc_peerCyberID c,
            rep_connBytes = (if send then mc_txTotalBytes c else mc_rxTotalBytes c),
            rep_pathBytes = l\<rparr>))"

section \<open>Server\<close>

text \<open>\<open>raw\<close> and \<open>rawConn\<close> are the memory of the objects the server allocates.\<close>

definition PathListen :: "nat \<Rightarrow> mdtp \<Rightarrow> md_result" where
  "PathListen pid st = path_of pid st (\<lambda>p.
     if \<not> sp_socket p then Inr (st, [])
     else Inr (set_path pid (p\<lparr>sp_pathState := SINGLE_PATH_LISTEN\<rparr>) st, []))"

definition PathCreatedCallback ::
  "SinglePath \<Rightarrow> MP_CONN_KEY_t list \<Rightarrow> mdtp \<Rightarrow> md_result" where
  "PathCreatedCallback raw draws st =
     from_option Unfinished (GenerateKey draws) (\<lambda>key.
       let pid = md_next st;
           p = (SinglePath_new raw)\<lparr>sp_socket := True, sp_localKey := key,
                 sp_localCybertwinID := ds_localCybertwinID (md_server st),
                 sp_pathState := SINGLE_PATH_LISTEN\<rparr>
       in PathListen pid ((set_path pid p st)\<lparr>md_next := pid + 1\<rparr>))"

definition NewConnectionBuilt :: "MultipathConnection \<Rightarrow> nat \<Rightarrow> mdtp \<Rightarrow> md_result" where
  "NewConnectionBuilt rawConn pid st =
     path_of pid st (\<lambda>p.
       then_do (MultipathConnection_of_path rawConn pid p) (\<lambda>c.
         let cid = md_next st; srv = md_server st;
             st = (set_conn cid c st)\<lparr>md_next := cid + 1, md_server :=
               srv\<lparr>ds_connections := insert cid (ds_connections srv),
                   ds_connectionIDs := (ds_connectionIDs srv)(mc_connID c \<mapsto> cid)\<rparr>\<rparr>;
             st = set_path pid (p\<lparr>sp_connection := Some cid\<rparr>) st
         in Inr (st, if ds_notifyNewConnection srv then [MD_NotifyNewConnection cid] else [])))"

definition ValidConnectionID :: "MP_CONN_ID_t \<Rightarrow> mdtp \<Rightarrow> bool" where
  "ValidConnectionID connid st = (ds_connectionIDs (md_server st) connid \<noteq> None)"

definition NewPathJoinConnection :: "nat \<Rightarrow> mdtp \<Rightarrow> md_result" where
  "NewPathJoinConnection pid st =
     path_of pid st (\<lambda>p.
       case ds_connectionIDs (md_server st) (sp_connID p) of
         None \<Rightarrow> Inr (st, [])
       | Some cid \<Rightarrow> AddOtherConnectPath cid pid (set_path pid (p\<lparr>sp_connection := Some cid\<rparr>) st))"

definition SetNewConnectCreatedCallback :: "mdtp \<Rightarrow> mdtp" where
  "SetNewConnectCreatedCallback st = st\<lparr>md_server := (md_server st)
     \<lparr>ds_notifyNewConnection := True, ds_rxBytes := 0\<rparr>\<rparr>"

definition DtServerBulkSend :: "nat \<Rightarrow> mdtp \<Rightarrow> md_result" where
  "DtServerBulkSend cid st =
     (if ds_rxBytes (md_server st) < 100 * 1024 * 1024 then
        also_do (Connection_Send (Create_Packet 516) cid st)
          (\<lambda>st. Inr (st\<lparr>md_server := (md_server st)\<lparr>ds_rxBytes := ds_rxBytes (md_server st) + 1\<rparr>\<rparr>,
             [MD_Schedule (EvBulkSend cid)]))
      else Inr (st, []))"

section \<open>State machine of a path\<close>

text \<open>\<^verbatim>\<open>SP_KEYS_TO_CONNEID\<close>.\<close>

definition SP_KEYS_TO_CONNEID :: "MP_CONN_KEY_t \<Rightarrow> MP_CONN_KEY_t \<Rightarrow> MP_CONN_ID_t" where
  "SP_KEYS_TO_CONNEID key1 key2 = push_bit 32 (ucast key1) + ucast key2"

fun BuildSent_loop :: "packet list \<Rightarrow> SinglePath \<Rightarrow> SinglePath outcome" where
  "BuildSent_loop [] p = Inr p"
| "BuildSent_loop (packet # packets) p =
     from_option BadBuffer (PeekHeader Mp_Deserialize packet) (\<lambda>(h, n).
       if n = 0 then BuildSent_loop packets p
       else require (mp_connId h \<noteq> 0 \<and> mp_senderKey h \<noteq> 0) AssertFailed
         (BuildSent_loop packets (p\<lparr>sp_connID := mp_connId h, sp_remoteKey := mp_senderKey h,
            sp_pathState := SINGLE_PATH_CONNECTED\<rparr>)))"

definition ProcessBuildSent :: "nat \<Rightarrow> mdtp \<Rightarrow> md_result" where
  "ProcessBuildSent pid st =
     path_of pid st (\<lambda>p. then_do (BuildSent_loop (sp_socketRx p) (p\<lparr>sp_socketRx := []\<rparr>)) (\<lambda>p.
       let st = set_path pid p st
       in if sp_pathState p = SINGLE_PATH_CONNECTED then
            from_option NullPointer (sp_connection p) (\<lambda>cid.
              Inr (st, [MD_Schedule (EvAddInitConnectPath cid pid)]))
          else Inr (st, [])))"

fun Connected_loop :: "packet list \<Rightarrow> SinglePath \<Rightarrow> SinglePath outcome" where
  "Connected_loop [] p = Inr p"
| "Connected_loop (packet # packets) p =
     from_option BadBuffer (PeekHeader Dsn_Deserialize packet) (\<lambda>(h, n).
       Connected_loop packets (p\<lparr>sp_rxBuffer := sp_rxBuffer p @ [packet],
         sp_rxTotalBytes := sp_rxTotalBytes p +
           ucast (of_nat (GetSize packet) - of_nat (MultipathHeaderDSN_GetSerializedSize h) :: u32)\<rparr>))"

definition ProcessConnected :: "nat \<Rightarrow> mdtp \<Rightarrow> md_result" where
  "ProcessConnected pid st =
     path_of pid st (\<lambda>p. then_do (Connected_loop (sp_socketRx p) (p\<lparr>sp_socketRx := []\<rparr>)) (\<lambda>p.
       from_option NullPointer (sp_connection p) (\<lambda>cid.
         Inr (set_path pid p st, [MD_Schedule (EvPathRecvedData cid pid)]))))"

fun JoinSent_loop ::
  "nat \<Rightarrow> nat \<Rightarrow> packet list \<Rightarrow> SinglePath \<Rightarrow> (SinglePath \<times> md_action list) outcome" where
  "JoinSent_loop cid pid [] p = Inr (p, [])"
| "JoinSent_loop cid pid (packet # packets) p =
     from_option BadBuffer (PeekHeader Mp_Deserialize packet) (\<lambda>(h, n).
       if n = 0 then JoinSent_loop cid pid packets p
       else
         let joinResult = (mp_connId h = sp_connID p);
             p = p\<lparr>sp_pathState := if joinResult then SINGLE_PATH_CONNECTED else SINGLE_PATH_ERROR\<rparr>
         in then_do (JoinSent_loop cid pid packets p) (\<lambda>(p, acts).
              Inr (p, MD_Schedule (EvPathJoinResult cid pid joinResult) # acts)))"

definition ProcessJoinSent :: "nat \<Rightarrow> mdtp \<Rightarrow> md_result" where
  "ProcessJoinSent pid st =
     path_of pid st (\<lambda>p. from_option NullPointer (sp_connection p) (\<lambda>cid.
       then_do (JoinSent_loop cid pid (sp_socketRx p) (p\<lparr>sp_socketRx := []\<rparr>)) (\<lambda>(p, acts).
         Inr (set_path pid p st, acts))))"

text \<open>
  The first path of a connection ends the loop; a path that joins an existing connection goes
  on reading; an attempt to join an unknown connection is dropped without an answer.
\<close>

fun Listen_loop :: "MultipathConnection \<Rightarrow> nat \<Rightarrow> packet list \<Rightarrow> mdtp \<Rightarrow> md_result" where
  "Listen_loop rawConn pid [] st = Inr (st, [])"
| "Listen_loop rawConn pid (packet # packets) st =
     path_of pid st (\<lambda>p. from_option BadBuffer (PeekHeader Mp_Deserialize packet) (\<lambda>(h, n).
       let p = p\<lparr>sp_socketRx := packets\<rparr>
       in if n = 0 then Listen_loop rawConn pid packets (set_path pid p st)
          else if mp_connId h = 0 then
            let connID = SP_KEYS_TO_CONNEID (mp_senderKey h) (sp_localKey p);
                p = p\<lparr>sp_remoteKey := mp_senderKey h, sp_remoteCybertwinID := mp_cuid h,
                      sp_connID := connID\<rparr>;
                rsp = MultipathHeader_new\<lparr>mp_senderKey := sp_localKey p,
                        mp_recverKey := sp_remoteKey p, mp_connId := sp_connID p\<rparr>
            in also_do (SendPacketWithHeader rsp pid (set_path pid p st))
                 (\<lambda>st. NewConnectionBuilt rawConn pid
                    (set_path pid (p\<lparr>sp_pathState := SINGLE_PATH_CONNECTED\<rparr>) st))
          else if ValidConnectionID (mp_connId h) st then
            let p = p\<lparr>sp_remoteKey := mp_senderKey h, sp_connID := mp_connId h\<rparr>;
                rsp = MultipathHeader_new\<lparr>mp_senderKey := sp_localKey p,
                        mp_recverKey := sp_remoteKey p, mp_connId := sp_connID p\<rparr>
            in also_do (NewPathJoinConnection pid (set_path pid p st)) (\<lambda>st.
                 also_do (SendPacketWithHeader rsp pid st) (\<lambda>st.
                   path_of pid st (\<lambda>p. Listen_loop rawConn pid packets
                     (set_path pid (p\<lparr>sp_pathState := SINGLE_PATH_CONNECTED\<rparr>) st))))
          else Inr (set_path pid p st, [])))"

definition ProcessListen :: "MultipathConnection \<Rightarrow> nat \<Rightarrow> mdtp \<Rightarrow> md_result" where
  "ProcessListen rawConn pid st = path_of pid st (\<lambda>p. Listen_loop rawConn pid (sp_socketRx p) st)"

definition StateProcesser :: "MultipathConnection \<Rightarrow> nat \<Rightarrow> mdtp \<Rightarrow> md_result" where
  "StateProcesser rawConn pid st =
     path_of pid st (\<lambda>p.
       case sp_pathState p of
         SINGLE_PATH_BUILD_SENT \<Rightarrow> ProcessBuildSent pid st
       | SINGLE_PATH_LISTEN \<Rightarrow> ProcessListen rawConn pid st
       | SINGLE_PATH_JOIN_SENT \<Rightarrow> ProcessJoinSent pid st
       | SINGLE_PATH_CONNECTED \<Rightarrow> ProcessConnected pid st
       | _ \<Rightarrow> Inr (st, []))"

text \<open>Callbacks of the socket.\<close>

definition PathConnectSucceeded :: "nat \<Rightarrow> mdtp \<Rightarrow> md_result" where
  "PathConnectSucceeded pid st = path_of pid st (\<lambda>p.
     from_option NullPointer (sp_connection p) (\<lambda>cid.
       AddRawPath cid pid True (set_path pid (p\<lparr>sp_pathState := SINGLE_PATH_READY\<rparr>) st)))"

definition PathConnectFailed :: "nat \<Rightarrow> mdtp \<Rightarrow> md_result" where
  "PathConnectFailed pid st = path_of pid st (\<lambda>p.
     from_option NullPointer (sp_connection p) (\<lambda>cid.
       AddRawPath cid pid False (set_path pid (p\<lparr>sp_pathState := SINGLE_PATH_ERROR\<rparr>) st)))"

definition PathCloseSucceeded :: "MultipathConnection \<Rightarrow> nat \<Rightarrow> mdtp \<Rightarrow> md_result" where
  "PathCloseSucceeded rawConn pid st = path_of pid st (\<lambda>p.
     StateProcesser rawConn pid (set_path pid (p\<lparr>sp_pathState := SINGLE_PATH_CLOSED\<rparr>) st))"

definition PathCloseFailed :: "MultipathConnection \<Rightarrow> nat \<Rightarrow> mdtp \<Rightarrow> md_result" where
  "PathCloseFailed rawConn pid st = path_of pid st (\<lambda>p.
     StateProcesser rawConn pid (set_path pid (p\<lparr>sp_pathState := SINGLE_PATH_ERROR\<rparr>) st))"

text \<open>A packet becomes readable on a path's socket and the socket notifies the path.\<close>

definition PathRecvHandler ::
  "MultipathConnection \<Rightarrow> packet \<Rightarrow> nat \<Rightarrow> mdtp \<Rightarrow> md_result" where
  "PathRecvHandler rawConn packet pid st = path_of pid st (\<lambda>p.
     StateProcesser rawConn pid (set_path pid (p\<lparr>sp_socketRx := sp_socketRx p @ [packet]\<rparr>) st))"

end
