(* ===== verification/Multipath_Props.thy ===== *)
theory Multipath_Props
  imports Multipath
begin

text \<open>
  Correctness of the multipath protocol: connection identifiers, the handshake that builds a
  connection and the one that joins a path, choice of a path, delivery of data, and closing.
\<close>

section \<open>Heap and sequencing\<close>

lemma set_path_sel [simp]:
  "md_paths (set_path pid p st) = (md_paths st)(pid \<mapsto> p)"
  "md_conns (set_path pid p st) = md_conns st"
  "md_next (set_path pid p st) = md_next st"
  "md_server (set_path pid p st) = md_server st"
  by (simp_all add: set_path_def)

lemma set_conn_sel [simp]:
  "md_conns (set_conn cid c st) = (md_conns st)(cid \<mapsto> c)"
  "md_paths (set_conn cid c st) = md_paths st"
  "md_next (set_conn cid c st) = md_next st"
  "md_server (set_conn cid c st) = md_server st"
  by (simp_all add: set_conn_def)

lemma set_twice [simp]:
  "set_conn cid c (set_conn cid c' st) = set_conn cid c st"
  "set_path pid p (set_path pid p' st) = set_path pid p st"
  by (simp_all add: set_conn_def set_path_def)

lemma set_conn_same: "md_conns st cid = Some c \<Longrightarrow> set_conn cid c st = st"
  by (simp add: set_conn_def fun_upd_idem)

lemma also_do_simps [simp]:
  "also_do (Inl e) k = Inl e"
  "also_do (Inr (st, acts)) k = then_do (k st) (\<lambda>(st, acts'). Inr (st, acts @ acts'))"
  by (simp_all add: also_do_def)

lemma also_do_Inr [simp]:
  "also_do m k = Inr (st', all) \<longleftrightarrow>
     (\<exists>st acts acts'. m = Inr (st, acts) \<and> k st = Inr (st', acts') \<and> all = acts @ acts')"
  by (cases m) (auto simp: also_do_def)

section \<open>Packets\<close>

definition mp_packet :: "MultipathHeader \<Rightarrow> packet" where
  "mp_packet h = Packet (MultipathHeader_img h) 0"

definition dsn_packet :: "MultipathHeaderDSN \<Rightarrow> packet \<Rightarrow> packet" where
  "dsn_packet h p = Packet (MultipathHeaderDSN_img h @ pk_real p) (pk_zero p)"

lemma Mp_AddHeader_eq: "Mp_AddHeader h (Create_Packet 0) = Some (mp_packet h)"
  unfolding Mp_AddHeader_def mp_packet_def
  by (subst mph.AddHeader_img) (simp_all add: Create_Packet_def)

lemma Mp_Peek [simp]: "PeekHeader Mp_Deserialize (mp_packet h) = Some (h, 28)"
  using mph.des_img [of h "[]"]
  by (simp add: PeekHeader_def mp_packet_def pk_bytes_def MultipathHeader_GetSerializedSize_def)

lemma Dsn_AddHeader_eq: "Dsn_AddHeader h p = Some (dsn_packet h p)"
  unfolding Dsn_AddHeader_def dsn_packet_def by (subst dsn.AddHeader_img) simp_all

lemma Dsn_Peek [simp]: "PeekHeader Dsn_Deserialize (dsn_packet h p) = Some (h, 20)"
  by (simp add: PeekHeader_def dsn_packet_def dsn.pk_bytes_added dsn.des_img
      MultipathHeaderDSN_GetSerializedSize_def)

lemma Dsn_Remove [simp]: "RemoveHeader Dsn_Deserialize (dsn_packet h p) = Some (h, p)"
  by (simp add: RemoveHeader_def dsn_packet_def dsn.pk_bytes_added dsn.des_img
      dsn.RemoveAtStart_added)

lemma GetSize_dsn_packet: "GetSize (dsn_packet h p) = 20 + GetSize p"
  by (simp add: GetSize_def dsn_packet_def dsn.len_img MultipathHeaderDSN_GetSerializedSize_def)

section \<open>Connection identifiers\<close>

lemma unat_SP_KEYS:
  "unat (SP_KEYS_TO_CONNEID k1 k2) = unat k1 * 2 ^ 32 + unat k2"
proof -
  have "unat k1 < 2 ^ LENGTH(32)" and "unat k2 < 2 ^ LENGTH(32)"
    by (fact unsigned_less)+
  then have "unat k1 < 4294967296" and "unat k2 < 4294967296"
    by simp_all
  moreover have "unat (push_bit 32 (ucast k1 :: u64)) = unat k1 * 2 ^ 32"
    using \<open>unat k1 < 4294967296\<close>
    by (simp add: push_bit_eq_mult unat_word_ariths unsigned_ucast_eq take_bit_nat_eq_self)
  ultimately show ?thesis
    by (simp add: SP_KEYS_TO_CONNEID_def unat_word_ariths unsigned_ucast_eq take_bit_nat_eq_self)
qed

lemma SP_KEYS_inj:
  "SP_KEYS_TO_CONNEID k1 k2 = SP_KEYS_TO_CONNEID l1 l2 \<longleftrightarrow> k1 = l1 \<and> k2 = l2"
proof
  assume "SP_KEYS_TO_CONNEID k1 k2 = SP_KEYS_TO_CONNEID l1 l2"
  then have eq: "unat k1 * 2 ^ 32 + unat k2 = unat l1 * 2 ^ 32 + unat l2"
    by (metis unat_SP_KEYS)
  have "unat k2 < 2 ^ LENGTH(32)" and "unat l2 < 2 ^ LENGTH(32)"
    by (fact unsigned_less)+
  then have "unat k1 = (unat k1 * 2 ^ 32 + unat k2) div 2 ^ 32"
    and "unat l1 = (unat l1 * 2 ^ 32 + unat l2) div 2 ^ 32"
    by simp_all
  with eq have "unat k1 = unat l1" and "unat k2 = unat l2"
    by simp_all
  then show "k1 = l1 \<and> k2 = l2"
    by (simp add: word_unat_eq_iff)
qed simp

lemma SP_KEYS_nonzero: "k1 \<noteq> 0 \<Longrightarrow> SP_KEYS_TO_CONNEID k1 k2 \<noteq> 0"
  using SP_KEYS_inj [of k1 k2 0 0] by (auto simp: SP_KEYS_TO_CONNEID_def)

lemma GenerateKey_nonzero: "GenerateKey draws = Some key \<Longrightarrow> key \<noteq> 0"
  by (induction draws) (auto split: if_splits)

section \<open>Choice of a path\<close>

lemma path_index_nonneg:
  assumes "0 \<le> sint idx"
  shows "path_index idx n = nat (sint idx) mod n"
proof -
  have "sint idx < 2 ^ 31"
    using sint_less [of idx] by simp
  moreover have "uint (scast idx :: u64) = sint idx mod 2 ^ LENGTH(64)"
    by (simp only: scast_eq uint_word_of_int)
  ultimately have "uint (scast idx :: u64) = sint idx"
    using assms by simp
  then show ?thesis
    by (simp add: path_index_def unat_eq_nat_uint)
qed

lemma sint_inc:
  assumes "sint (idx :: u32) + 1 < 2 ^ 31"
  shows "sint (idx + 1) = sint idx + 1"
proof -
  have "- (2 ^ 31) \<le> sint idx"
    using sint_ge [of idx] by simp
  then show ?thesis
    using assms by (simp add: signed_take_bit_int_eq_self sint_word_ariths)
qed

text \<open>
  \<open>k\<close> further increments reach a connected path; every path passed on the way is
  allocated and not connected.
\<close>

lemma RoundRobin_finds:
  assumes "0 \<le> sint lastIdx" and "sint lastIdx + int k + 1 < 2 ^ 31"
    and "\<forall>j < k. connected ! ((nat (sint lastIdx) + j) mod length connected) = Some False"
    and "connected ! ((nat (sint lastIdx) + k) mod length connected) = Some True"
  shows "\<exists>lastIdx'. RoundRobin_loop connected lastIdx =
    Some (Inr ((nat (sint lastIdx) + k) mod length connected, lastIdx')) \<and>
    sint lastIdx' = sint lastIdx + int k + 1"
  using assms
proof (induction k arbitrary: lastIdx)
  case 0
  then show ?case
    using sint_inc [of lastIdx]
    by (simp add: RoundRobin_loop.simps [of _ lastIdx] path_index_nonneg)
next
  case (Suc k)
  have inc: "sint (lastIdx + 1) = sint lastIdx + 1"
    using Suc(3) by (intro sint_inc) simp
  then have nat_inc: "nat (sint (lastIdx + 1)) = Suc (nat (sint lastIdx))"
    using Suc(2) by simp
  have "\<forall>j < k. connected ! ((nat (sint (lastIdx + 1)) + j) mod length connected) = Some False"
    using Suc(4) nat_inc by (metis Suc_less_eq add_Suc_shift)
  moreover have "connected ! ((nat (sint (lastIdx + 1)) + k) mod length connected) = Some True"
    using Suc(5) nat_inc by simp
  ultimately obtain l where "RoundRobin_loop connected (lastIdx + 1) =
      Some (Inr ((nat (sint (lastIdx + 1)) + k) mod length connected, l))"
    and "sint l = sint (lastIdx + 1) + int k + 1"
    using Suc(1) [of "lastIdx + 1"] Suc(2,3) inc by auto
  moreover have "connected ! (nat (sint lastIdx) mod length connected) = Some False"
    using Suc(4) by force
  ultimately show ?case
    using Suc(2) nat_inc inc
    by (simp add: RoundRobin_loop.simps [of _ lastIdx] path_index_nonneg)
qed

lemma first_connected:
  assumes "i < length connected" and "connected ! i = Some True" and "None \<notin> set connected"
  shows "\<exists>k < length connected. connected ! ((s + k) mod length connected) = Some True \<and>
    (\<forall>j < k. connected ! ((s + j) mod length connected) = Some False)"
proof -
  let ?n = "length connected"
  let ?P = "\<lambda>k. connected ! ((s + k) mod ?n) = Some True"
  have n: "0 < ?n"
    using assms(1) by linarith
  define k0 where "k0 = (i + (?n - s mod ?n)) mod ?n"
  have "(s + k0) mod ?n = (s + (i + (?n - s mod ?n))) mod ?n"
    by (simp add: k0_def mod_add_right_eq)
  also have "\<dots> = (s mod ?n + (i + (?n - s mod ?n))) mod ?n"
    by (simp add: mod_add_left_eq)
  also have "s mod ?n + (i + (?n - s mod ?n)) = i + ?n"
    using mod_less_divisor [OF n, of s] by linarith
  also have "(i + ?n) mod ?n = i"
    using assms(1) by simp
  finally have "?P k0"
    using assms(2) by simp
  then have "?P (LEAST k. ?P k)" and "(LEAST k. ?P k) \<le> k0"
    by (rule LeastI, rule Least_le)
  moreover have "connected ! ((s + j) mod ?n) = Some False" if "j < (LEAST k. ?P k)" for j
  proof -
    have "connected ! ((s + j) mod ?n) \<noteq> Some True"
      using not_less_Least [OF that] .
    moreover have "connected ! ((s + j) mod ?n) \<in> set connected"
      using n by simp
    ultimately show ?thesis
      using assms(3) by (cases "connected ! ((s + j) mod ?n)") auto
  qed
  moreover have "k0 < ?n"
    using n by (simp add: k0_def)
  ultimately show ?thesis
    by (meson order_le_less_trans)
qed

lemma ChoosePath_picks:
  assumes "i < length (mc_paths c)" and "md_paths st (mc_paths c ! i) = Some p"
    and "sp_pathState p = SINGLE_PATH_CONNECTED"
    and "\<forall>pid \<in> set (mc_paths c). md_paths st pid \<noteq> None"
    and "0 \<le> sint (mc_lastPathIndex c)"
    and "sint (mc_lastPathIndex c) + int (length (mc_paths c)) < 2 ^ 31"
  shows "\<exists>k q lastIdx. ChoosePathRoundRobin c st = Inr (k, lastIdx) \<and> k < length (mc_paths c) \<and>
    md_paths st (mc_paths c ! k) = Some q \<and> sp_pathState q = SINGLE_PATH_CONNECTED \<and>
    (nat (sint lastIdx) - 1) mod length (mc_paths c) = k"
proof -
  let ?xs = "paths_connected st (mc_paths c)"
  let ?s = "nat (sint (mc_lastPathIndex c))"
  have len: "length ?xs = length (mc_paths c)"
    by (simp add: paths_connected_def)
  have "i < length ?xs" and "?xs ! i = Some True" and "None \<notin> set ?xs"
    using assms(1-4) by (auto simp: paths_connected_def)
  from first_connected [OF this, of ?s] obtain k where k: "k < length ?xs"
    "?xs ! ((?s + k) mod length ?xs) = Some True"
    "\<forall>j < k. ?xs ! ((?s + j) mod length ?xs) = Some False"
    by blast
  obtain l where l: "RoundRobin_loop ?xs (mc_lastPathIndex c) =
      Some (Inr ((?s + k) mod length ?xs, l))" "sint l = sint (mc_lastPathIndex c) + int k + 1"
    using RoundRobin_finds [OF assms(5) _ k(3,2)] assms(6) k(1) len by auto
  let ?k = "(?s + k) mod length ?xs"
  have "?k < length (mc_paths c)"
    using assms(1) len by (metis mod_less_divisor order_less_trans zero_less_iff_neq_zero not_less0)
  moreover from this k(2) obtain q where "md_paths st (mc_paths c ! ?k) = Some q"
    and "sp_pathState q = SINGLE_PATH_CONNECTED"
    by (auto simp: paths_connected_def)
  moreover have "nat (sint l) - 1 = ?s + k"
    using l(2) assms(5) by linarith
  ultimately show ?thesis
    using l(1) assms(1) len by (auto simp: ChoosePathRoundRobin_def)
qed

section \<open>Receiving on a connection\<close>

text \<open>The segments that carry a list of payloads from a given sequence number on.\<close>

fun segments :: "CYBERTWINID_t \<Rightarrow> u64 \<Rightarrow> packet list \<Rightarrow> packet list" where
  "segments cuid seqno [] = []"
| "segments cuid seqno (p # ps) =
     dsn_packet \<lparr>dsn_cuid = cuid, dsn_dataSeqNum = seqno, dsn_dataLen = of_nat (GetSize p)\<rparr> p #
       segments cuid (seqno + of_nat (GetSize p)) ps"

lemma length_segments [simp]: "length (segments cuid seqno ps) = length ps"
  by (induction ps arbitrary: seqno) auto

lemma segments_Nil_iff [simp]: "segments cuid seqno ps = [] \<longleftrightarrow> ps = []"
  by (cases ps) auto

definition total_size :: "packet list \<Rightarrow> nat" where
  "total_size ps = sum_list (map GetSize ps)"

declare PathRecvedData_loop.simps [simp del]

lemma PathRecved_step:
  assumes "sp_rxBuffer p = dsn_packet h q # rest" and "dsn_dataSeqNum h \<noteq> 0"
  shows "PathRecvedData_loop p c = PathRecvedData_loop (p\<lparr>sp_rxBuffer := rest\<rparr>)
    (c\<lparr>mc_rxBuffer := mc_rxBuffer c @ [q],
       mc_recvSeqNum := mc_recvSeqNum c + of_nat (GetSize q),
       mc_rxTotalBytes := mc_rxTotalBytes c + of_nat (GetSize q)\<rparr>)"
  using assms by (subst PathRecvedData_loop.simps) (simp add: HeadPacketSeqNum_def SinglePath_Recv_def)

lemma PathRecved_end:
  assumes "sp_rxBuffer p = []" and "mc_recvSeqNum c \<noteq> 0"
  shows "PathRecvedData_loop p c = Inr (p, c)"
  using assms by (subst PathRecvedData_loop.simps) (simp add: HeadPacketSeqNum_def)

lemma unat_add_small:
  assumes "unat (x :: u64) + n < 2 ^ 64"
  shows "unat (x + of_nat n) = unat x + n"
proof -
  have "unat (of_nat n :: u64) = n"
    using assms by (simp add: unat_of_nat)
  then show ?thesis
    using assms by (simp add: unat_word_ariths)
qed

lemma PathRecved_segments:
  assumes "sp_rxBuffer p = segments cuid seqno ps" and "seqno \<noteq> 0"
    and "unat seqno + total_size ps < 2 ^ 64" and "mc_recvSeqNum c = seqno"
  shows "PathRecvedData_loop p c = Inr (p\<lparr>sp_rxBuffer := []\<rparr>,
    c\<lparr>mc_rxBuffer := mc_rxBuffer c @ ps, mc_recvSeqNum := seqno + of_nat (total_size ps),
      mc_rxTotalBytes := mc_rxTotalBytes c + of_nat (total_size ps)\<rparr>)"
  using assms
proof (induction ps arbitrary: p c seqno)
  case Nil
  then show ?case
    using PathRecved_end [of p c] by (simp add: total_size_def)
next
  case (Cons q ps)
  let ?next = "seqno + of_nat (GetSize q)"
  have step: "unat ?next = unat seqno + GetSize q"
    using Cons(4) by (intro unat_add_small) (simp add: total_size_def)
  then have "?next \<noteq> 0"
    using Cons(3) by (metis add_is_0 unat_eq_zero unat_0)
  moreover have "unat ?next + total_size ps < 2 ^ 64"
    using Cons(4) step by (simp add: total_size_def)
  ultimately show ?case
    using Cons(1) [of "p\<lparr>sp_rxBuffer := segments cuid ?next ps\<rparr>" ?next
        "c\<lparr>mc_rxBuffer := mc_rxBuffer c @ [q], mc_recvSeqNum := ?next,
           mc_rxTotalBytes := mc_rxTotalBytes c + of_nat (GetSize q)\<rparr>"] Cons(2,3,5)
    by (simp add: PathRecved_step total_size_def add.assoc)
qed

lemma Connected_loop_segments:
  "\<exists>total. Connected_loop (segments cuid seqno ps) p =
     Inr (p\<lparr>sp_rxBuffer := sp_rxBuffer p @ segments cuid seqno ps, sp_rxTotalBytes := total\<rparr>)"
proof (induction ps arbitrary: seqno p)
  case Nil
  show ?case
    by (rule exI [of _ "sp_rxTotalBytes p"]) simp
next
  case (Cons q ps)
  obtain total where "Connected_loop (segments cuid (seqno + of_nat (GetSize q)) ps) (p
      \<lparr>sp_rxBuffer := sp_rxBuffer p @ [dsn_packet \<lparr>dsn_cuid = cuid, dsn_dataSeqNum = seqno,
         dsn_dataLen = of_nat (GetSize q)\<rparr> q],
       sp_rxTotalBytes := sp_rxTotalBytes p + ucast (of_nat (20 + GetSize q) - 20 :: u32)\<rparr>) =
      Inr (p\<lparr>sp_rxBuffer := sp_rxBuffer p @ segments cuid seqno (q # ps),
        sp_rxTotalBytes := total\<rparr>)"
    using Cons [of "seqno + of_nat (GetSize q)" "p
      \<lparr>sp_rxBuffer := sp_rxBuffer p @ [dsn_packet \<lparr>dsn_cuid = cuid, dsn_dataSeqNum = seqno,
         dsn_dataLen = of_nat (GetSize q)\<rparr> q],
       sp_rxTotalBytes := sp_rxTotalBytes p + ucast (of_nat (20 + GetSize q) - 20 :: u32)\<rparr>"]
    by auto
  then show ?case
    by (intro exI [of _ total]) (simp add: GetSize_dsn_packet
        MultipathHeaderDSN_GetSerializedSize_def)
qed

section \<open>Sending on a connection\<close>

fun Send_all :: "packet list \<Rightarrow> nat \<Rightarrow> mdtp \<Rightarrow> md_result" where
  "Send_all [] cid st = Inr (st, [])"
| "Send_all (p # ps) cid st = also_do (Connection_Send p cid st) (Send_all ps cid)"

lemma Send_all_segments:
  assumes "md_conns st cid = Some c" and "\<forall>p \<in> set ps. GetSize p \<noteq> 0"
  shows "Send_all ps cid st = Inr (set_conn cid
      (c\<lparr>mc_sendSeqNum := mc_sendSeqNum c + of_nat (total_size ps),
        mc_txBuffer := mc_txBuffer c @ segments (mc_localCyberID c) (mc_sendSeqNum c) ps\<rparr>) st,
    replicate (length ps) (MD_Schedule (EvSendData cid)))"
  using assms
proof (induction ps arbitrary: st c)
  case Nil
  then show ?case
    by (simp add: total_size_def set_conn_same)
next
  case (Cons p ps)
  let ?h = "\<lparr>dsn_cuid = mc_localCyberID c, dsn_dataSeqNum = mc_sendSeqNum c,
    dsn_dataLen = of_nat (GetSize p)\<rparr>"
  let ?c = "c\<lparr>mc_sendSeqNum := mc_sendSeqNum c + of_nat (GetSize p),
    mc_txBuffer := mc_txBuffer c @ [dsn_packet ?h p]\<rparr>"
  have "Connection_Send p cid st = Inr (set_conn cid ?c st, [MD_Schedule (EvSendData cid)])"
    using Cons(2,3) by (simp add: Connection_Send_def Dsn_AddHeader_eq Let_def MultipathHeaderDSN_new_def)
  then show ?case
    using Cons(1) [of "set_conn cid ?c st" ?c] Cons(3)
    by (simp add: total_size_def add.assoc)
qed

lemma SendData_loop_all:
  assumes "md_conns st cid = Some c" and "md_paths st pid = Some p" and "sp_socket p"
    and "sp_pathState p = SINGLE_PATH_CONNECTED" and "\<forall>q \<in> set pkts. sock q > 0"
    and "length pkts \<le> n" and "mc_txBuffer c = pkts"
  shows "\<exists>st' c'. SendData_loop sock n cid pid pkts st = Inr (st', map (MD_Send pid) pkts) \<and>
    md_conns st' cid = Some c' \<and> mc_txBuffer c' = [] \<and> mc_sendSeqNum c' = mc_sendSeqNum c"
  using assms
proof (induction pkts arbitrary: st c p n)
  case Nil
  then show ?case
    by (cases n) auto
next
  case (Cons q pkts)
  then obtain m where m: "n = Suc m" "length pkts \<le> m"
    by (cases n) auto
  let ?p = "p\<lparr>sp_txTotalBytes := sp_txTotalBytes p + word_of_int (sock q)\<rparr>"
  let ?c = "c\<lparr>mc_txBuffer := pkts, mc_txTotalBytes := mc_txTotalBytes c +
    ucast (of_nat (GetSize q) - 20 :: u32)\<rparr>"
  have "\<exists>st' c'. SendData_loop sock m cid pid pkts (set_conn cid ?c (set_path pid ?p st)) =
      Inr (st', map (MD_Send pid) pkts) \<and> md_conns st' cid = Some c' \<and> mc_txBuffer c' = [] \<and>
      mc_sendSeqNum c' = mc_sendSeqNum ?c"
    using Cons(2-6) m(2) by (intro Cons(1) [where p = ?p]) simp_all
  then show ?case
    using Cons(2-6) m(1) by (auto simp: SinglePath_Send_def)
qed

section \<open>Properties\<close>

text \<open>
  C5: Building a connection.  When a client connection takes the first ready path and a server
  path in the listening state receives its request, both ends agree: the identifier made of the
  client's and the server's keys names the connection at both ends, both start their send and
  receive sequence numbers at it, both use the path, and the server has registered the
  connection under the identifier, with the client's cybertwin as the peer.
\<close>

theorem mdtp_handshake:
  assumes "md_conns stA ca = Some c" and "mc_rawReadyPath c = pa # rest"
    and "md_paths stA pa = Some a" and "sp_socket a" and "sp_socketRx a = []"
    and "sp_connection a = Some ca" and "sp_localKey a \<noteq> 0"
    and "md_paths stB pb = Some b" and "sp_socket b" and "sp_socketRx b = []"
    and "sp_pathState b = SINGLE_PATH_LISTEN" and "sp_localKey b \<noteq> 0"
  shows "\<exists>stA1 request stB1 answer note stA2 stA3 acts c1 cb c2.
    BuildConnection ca stA = Inr (stA1, [MD_Send pa request]) \<and>
    PathRecvHandler raw request pb stB = Inr (stB1, MD_Send pb answer # note) \<and>
    PathRecvHandler raw' answer pa stA1 = Inr (stA2, [MD_Schedule (EvAddInitConnectPath ca pa)]) \<and>
    AddInitConnectPath ca pa stA2 = Inr (stA3, acts) \<and>
    md_conns stA3 ca = Some c1 \<and>
    mc_connID c1 = SP_KEYS_TO_CONNEID (sp_localKey a) (sp_localKey b) \<and>
    mc_connState c1 = MP_CONN_CONNECT \<and> pa \<in> set (mc_paths c1) \<and>
    ds_connectionIDs (md_server stB1) (mc_connID c1) = Some cb \<and>
    md_conns stB1 cb = Some c2 \<and> mc_connID c2 = mc_connID c1 \<and>
    mc_connState c2 = MP_CONN_CONNECT \<and> mc_paths c2 = [pb] \<and>
    mc_peerCyberID c2 = sp_localCybertwinID a \<and>
    mc_sendSeqNum c1 = mc_recvSeqNum c2 \<and> mc_sendSeqNum c2 = mc_recvSeqNum c1"
  using assms SP_KEYS_nonzero [of "sp_localKey a" "sp_localKey b"]
  by (simp add: BuildConnection_def InitConnection_def SendPacketWithHeader_def Mp_AddHeader_eq
      PathRecvHandler_def StateProcesser_def ProcessListen_def NewConnectionBuilt_def Let_def
      MultipathConnection_of_path_def ProcessBuildSent_def AddInitConnectPath_def)

definition example_path :: SinglePath where
  "example_path = (SinglePath_new \<lparr>sp_pathId = 0, sp_socket = False, sp_socketRx = [],
     sp_localKey = 0, sp_remoteKey = 0, sp_localCybertwinID = 0,
     sp_remoteIf = (Ipv4Address_default, 0), sp_remoteCybertwinID = 0, sp_connection = None,
     sp_pathState = SINGLE_PATH_INIT, sp_connID = 0, sp_rxBuffer = [], sp_txTotalBytes = 0,
     sp_rxTotalBytes = 0\<rparr>)\<lparr>sp_socket := True, sp_localKey := 17, sp_connection := Some 1\<rparr>"

definition example_conn :: MultipathConnection where
  "example_conn = \<lparr>mc_connID = 0, mc_connState = MP_CONN_INIT, mc_localKey = 17,
     mc_remoteKey = 0, mc_localCyberID = 5, mc_peerCyberID = 6, mc_interfaces = [],
     mc_paths = [], mc_lastPathIndex = 0, mc_sendSeqNum = 0, mc_txBuffer = [],
     mc_recvSeqNum = 0, mc_rxBuffer = [], mc_readyPath = [], mc_errorPath = {}, mc_pathNum = 1,
     mc_rawReadyPath = [0], mc_rawFailPath = [], mc_connectSucceedCallback = True,
     mc_recvCallback = True, mc_closeCallback = True, mc_txTotalBytes = 0, mc_rxTotalBytes = 0\<rparr>"

definition example_host :: "SinglePath \<Rightarrow> MultipathConnection \<Rightarrow> mdtp" where
  "example_host p c = \<lparr>md_paths = [0 \<mapsto> p], md_conns = [1 \<mapsto> c], md_next = 2,
     md_server = CybertwinDataTransferServer_new 0\<rparr>"

lemmas example_mdtp = example_path_def example_conn_def example_host_def SinglePath_new_def

theorem mdtp_handshake_witness:
  "\<exists>stA1 request. BuildConnection 1 (example_host (example_path
       \<lparr>sp_pathState := SINGLE_PATH_READY\<rparr>) example_conn) = Inr (stA1, [MD_Send 0 request])"
  using mdtp_handshake [of "example_host (example_path\<lparr>sp_pathState := SINGLE_PATH_READY\<rparr>)
      example_conn" 1 example_conn 0 "[]" "example_path\<lparr>sp_pathState := SINGLE_PATH_READY\<rparr>"
      "example_host (example_path\<lparr>sp_pathState := SINGLE_PATH_LISTEN\<rparr>) example_conn" 0
      "example_path\<lparr>sp_pathState := SINGLE_PATH_LISTEN\<rparr>" example_conn example_conn]
  by (auto simp: example_mdtp)

text \<open>
  The connection identifier determines the two keys it was made of, so that connections
  with different key pairs are never confused, and it is not zero, the value that marks a
  request for a new connection, whenever the client's key is not zero, as generated keys are.
\<close>

theorem connection_id_injective:
  "(SP_KEYS_TO_CONNEID k1 k2 = SP_KEYS_TO_CONNEID l1 l2 \<longleftrightarrow> k1 = l1 \<and> k2 = l2) \<and>
   (GenerateKey draws = Some k1 \<longrightarrow> SP_KEYS_TO_CONNEID k1 k2 \<noteq> 0)"
  using SP_KEYS_inj GenerateKey_nonzero SP_KEYS_nonzero by blast

theorem connection_id_injective_witness:
  "GenerateKey [0, 9] = Some 9 \<and> SP_KEYS_TO_CONNEID 9 4 \<noteq> 0"
  using connection_id_injective [of 9 4 9 4 "[0, 9]"] by simp

text \<open>
  C17: Joining a path.  A further ready path of an established client connection sends the
  connection's identifier; a listening server path that receives it is added to the server's
  connection and answers with the same identifier; and on the answer the client path becomes
  connected and is added to the client's connection.
\<close>

theorem mdtp_join:
  assumes "md_conns stA ca = Some c" and "mc_rawReadyPath c = [pa]" and "mc_connID c \<noteq> 0"
    and "md_paths stA pa = Some a" and "sp_socket a" and "sp_socketRx a = []"
    and "sp_connection a = Some ca"
    and "md_paths stB pb = Some b" and "sp_socket b" and "sp_socketRx b = []"
    and "sp_pathState b = SINGLE_PATH_LISTEN"
    and "ds_connectionIDs (md_server stB) (mc_connID c) = Some cb"
    and "md_conns stB cb = Some d" and "mc_connID d = mc_connID c"
  shows "\<exists>stA1 request stB1 answer stA2 stA3 c1 d1 a1 b1.
    ConnectOtherPath ca stA = Inr (stA1, [MD_Send pa request]) \<and>
    PathRecvHandler raw request pb stB = Inr (stB1, [MD_Send pb answer]) \<and>
    PathRecvHandler raw' answer pa stA1 = Inr (stA2, [MD_Schedule (EvPathJoinResult ca pa True)]) \<and>
    PathJoinResult ca pa True stA2 = Inr (stA3, []) \<and>
    md_conns stA3 ca = Some c1 \<and> mc_paths c1 = mc_paths c @ [pa] \<and>
    md_conns stB1 cb = Some d1 \<and> mc_paths d1 = mc_paths d @ [pb] \<and>
    md_paths stA3 pa = Some a1 \<and> sp_pathState a1 = SINGLE_PATH_CONNECTED \<and>
    md_paths stB1 pb = Some b1 \<and> sp_pathState b1 = SINGLE_PATH_CONNECTED \<and>
    sp_connection b1 = Some cb"
  using assms
  by (simp add: ConnectOtherPath_def JoinConnection_def SendPacketWithHeader_def Mp_AddHeader_eq
      PathRecvHandler_def StateProcesser_def ProcessListen_def ValidConnectionID_def Let_def
      NewPathJoinConnection_def AddOtherConnectPath_def ProcessJoinSent_def PathJoinResult_def)

theorem mdtp_join_witness:
  "\<exists>stA1 request. ConnectOtherPath 1 (example_host (example_path
       \<lparr>sp_pathState := SINGLE_PATH_READY\<rparr>) (example_conn\<lparr>mc_connID := 99\<rparr>)) =
     Inr (stA1, [MD_Send 0 request])"
  using mdtp_join [of "example_host (example_path\<lparr>sp_pathState := SINGLE_PATH_READY\<rparr>)
      (example_conn\<lparr>mc_connID := 99\<rparr>)" 1 "example_conn\<lparr>mc_connID := 99\<rparr>" 0
      "example_path\<lparr>sp_pathState := SINGLE_PATH_READY\<rparr>"
      "example_host (example_path\<lparr>sp_pathState := SINGLE_PATH_LISTEN\<rparr>)
        (example_conn\<lparr>mc_connID := 99\<rparr>)\<lparr>md_server := (CybertwinDataTransferServer_new 0)
          \<lparr>ds_connectionIDs := [99 \<mapsto> 1]\<rparr>\<rparr>" 0
      "example_path\<lparr>sp_pathState := SINGLE_PATH_LISTEN\<rparr>" 1 "example_conn\<lparr>mc_connID := 99\<rparr>"
      example_conn example_conn]
  by (auto simp: example_mdtp)

text \<open>
  An attempt to join a connection the server does not know changes nothing but consumes the
  packet: the server path stays listening and no answer is sent, so that the client path waits
  in the join state for good.
\<close>

theorem mdtp_join_unknown:
  assumes "md_paths stB pb = Some b" and "sp_socketRx b = []"
    and "sp_pathState b = SINGLE_PATH_LISTEN" and "mp_connId h \<noteq> 0"
    and "\<not> ValidConnectionID (mp_connId h) stB"
  shows "PathRecvHandler raw (mp_packet h) pb stB = Inr (set_path pb b stB, [])"
  using assms by (cases b) (simp add: PathRecvHandler_def StateProcesser_def ProcessListen_def
      ValidConnectionID_def Let_def)

theorem mdtp_join_unknown_witness:
  "PathRecvHandler example_conn (mp_packet (MultipathHeader_new\<lparr>mp_connId := 3\<rparr>)) 0
     (example_host (example_path\<lparr>sp_pathState := SINGLE_PATH_LISTEN\<rparr>) example_conn) =
   Inr (set_path 0 (example_path\<lparr>sp_pathState := SINGLE_PATH_LISTEN\<rparr>)
     (example_host (example_path\<lparr>sp_pathState := SINGLE_PATH_LISTEN\<rparr>) example_conn), [])"
  by (rule mdtp_join_unknown) (simp_all add: example_mdtp ValidConnectionID_def
      CybertwinDataTransferServer_new_def)




definition example_sender :: MultipathConnection where
  "example_sender = example_conn\<lparr>mc_paths := [0], mc_sendSeqNum := 99, mc_recvSeqNum := 99\<rparr>"

definition example_connected :: SinglePath where
  "example_connected = example_path\<lparr>sp_pathState := SINGLE_PATH_CONNECTED\<rparr>"


text \<open>
  The receiver does not wait for the next byte: a packet at the head of a path's buffer is
  delivered to the connection whatever its sequence number is, unless that is zero, so that data
  that arrives early over a faster path is handed up out of order.
\<close>

theorem mdtp_accepts_out_of_order:
  assumes "sp_rxBuffer p = [dsn_packet h q]" and "dsn_dataSeqNum h \<noteq> 0"
    and "dsn_dataSeqNum h \<noteq> mc_recvSeqNum c" and "mc_recvSeqNum c + of_nat (GetSize q) \<noteq> 0"
  shows "\<exists>p' c'. PathRecvedData_loop p c = Inr (p', c') \<and> sp_rxBuffer p' = [] \<and>
    mc_rxBuffer c' = mc_rxBuffer c @ [q]"
  using assms by (simp add: PathRecved_step PathRecved_end)

theorem mdtp_accepts_out_of_order_witness:
  "\<exists>p' c'. PathRecvedData_loop (example_connected\<lparr>sp_rxBuffer := [dsn_packet
     (MultipathHeaderDSN_new\<lparr>dsn_dataSeqNum := 5000\<rparr>) (Create_Packet 4)]\<rparr>) example_sender =
     Inr (p', c') \<and> mc_rxBuffer c' = [Create_Packet 4]"
  using mdtp_accepts_out_of_order [of "example_connected\<lparr>sp_rxBuffer := [dsn_packet
      (MultipathHeaderDSN_new\<lparr>dsn_dataSeqNum := 5000\<rparr>) (Create_Packet 4)]\<rparr>"
      "MultipathHeaderDSN_new\<lparr>dsn_dataSeqNum := 5000\<rparr>" "Create_Packet 4" example_sender]
  by (auto simp: example_sender_def example_conn_def GetSize_def Create_Packet_def)

lemma Close_loop_frame:
  assumes "Close_loop pids st = Inr (st', acts)"
  shows "md_conns st' = md_conns st \<and> (\<forall>cid. MD_CloseCallback cid \<notin> set acts)"
  using assms
proof (induction pids arbitrary: st acts)
  case (Cons pid pids)
  then show ?case
    by (auto simp: PathClose_def Let_def split: if_splits dest!: Cons.IH)
qed simp

text \<open>
  A connection that has a path never closes: every call of \<^verbatim>\<open>Close\<close> that
  returns leaves the state other than closed, reports nothing to the upper layer and schedules
  itself again, because no entry of the path vector is ever null; and a call that finds a path
  already closed uses that path's memory after deleting it.
\<close>

theorem mdtp_close_never_completes:
  assumes "md_conns st cid = Some c" and "mc_paths c \<noteq> []" and "mc_connState c \<noteq> MP_CONN_CLOSED"
  shows "(\<forall>st' acts. Connection_Close cid st = Inr (st', acts) \<longrightarrow>
      (\<exists>c'. md_conns st' cid = Some c' \<and> mc_connState c' \<noteq> MP_CONN_CLOSED) \<and>
      MD_Schedule (EvClose cid) \<in> set acts \<and> MD_CloseCallback cid \<notin> set acts) \<and>
    (\<forall>p. mc_rxBuffer c = [] \<and> md_paths st (hd (mc_paths c)) = Some p \<and>
      sp_pathState p = SINGLE_PATH_CLOSED \<longrightarrow> Connection_Close cid st = Inl NullPointer)"
proof (intro conjI allI impI)
  fix st' acts
  assume close: "Connection_Close cid st = Inr (st', acts)"
  have "\<exists>c' acts'. md_conns st' cid = Some c' \<and> mc_connState c' \<noteq> MP_CONN_CLOSED \<and>
      acts = acts' @ [MD_Schedule (EvClose cid)] \<and> MD_CloseCallback cid \<notin> set acts'"
    using close assms by (auto simp: Connection_Close_def Let_def split: if_splits
        dest!: Close_loop_frame)
  then show "\<exists>c'. md_conns st' cid = Some c' \<and> mc_connState c' \<noteq> MP_CONN_CLOSED"
    and "MD_Schedule (EvClose cid) \<in> set acts" and "MD_CloseCallback cid \<notin> set acts"
    by auto
next
  fix p
  assume "mc_rxBuffer c = [] \<and> md_paths st (hd (mc_paths c)) = Some p \<and>
    sp_pathState p = SINGLE_PATH_CLOSED"
  then show "Connection_Close cid st = Inl NullPointer"
    using assms by (cases "mc_paths c") (simp_all add: Connection_Close_def PathClose_def)
qed

theorem mdtp_close_never_completes_witness:
  "Connection_Close 1 (example_host (example_path\<lparr>sp_pathState := SINGLE_PATH_CLOSED\<rparr>)
     example_sender) = Inl NullPointer"
  using mdtp_close_never_completes [of "example_host (example_path
      \<lparr>sp_pathState := SINGLE_PATH_CLOSED\<rparr>) example_sender" 1 example_sender]
  by (simp add: example_sender_def example_mdtp)

lemma OnResolved_short:
  assumes "md_conns st cid = Some c" and "n \<le> length remote" and "length remote - n < length itfs"
  shows "OnResolved_loop raw cid itfs remote n st = Inl OutOfRange"
  using assms
proof (induction itfs arbitrary: n st)
  case (Cons itf itfs)
  show ?case
  proof (cases "n < length remote")
    case True
    with Cons(4) have "length remote - (n + 1) < length itfs"
      by simp
    with True Cons(1) [of _ "n + 1"] Cons(2) show ?thesis
      by (simp add: PathConnect_def Let_def)
  next
    case False
    with Cons(2) show ?thesis
      by simp
  qed
qed simp

text \<open>
  A peer with fewer interfaces than the local cybertwin makes the connection attempt read
  past the end of the peer's interface list.
\<close>

theorem mdtp_fewer_peer_interfaces:
  assumes "md_conns st cid = Some c" and "length remote < length (mc_interfaces c)"
  shows "OnCybertwinInterfaceResolved raw cid remote st = Inl OutOfRange"
  using assms OnResolved_short [of "set_conn cid (c\<lparr>mc_pathNum := length (mc_interfaces c)\<rparr>) st"
      cid "c\<lparr>mc_pathNum := length (mc_interfaces c)\<rparr>" 0 remote "mc_interfaces c" raw]
  by (simp add: OnCybertwinInterfaceResolved_def)

theorem mdtp_fewer_peer_interfaces_witness:
  "OnCybertwinInterfaceResolved example_path 1 [] (example_host example_path
     (example_conn\<lparr>mc_interfaces := [(Ipv4Address_of 1, 80)]\<rparr>)) = Inl OutOfRange"
  by (rule mdtp_fewer_peer_interfaces) (auto simp: example_host_def)

end
