(* ===== verification/Cybertwin_App.thy ===== *)
theory Cybertwin_App
  imports Headers
begin

text \<open>
  The cybertwin application (\<^verbatim>\<open>cybertwin.{h,cc}\<close>, class \<^verbatim>\<open>Cybertwin\<close>, with
  \<^verbatim>\<open>MDTP_ENABLED\<close> 0 as in the sources): the download relay, the stream connections
  between cybertwins, and the traffic shaper and policer.  Code under \<^verbatim>\<open>#if 0\<close> is left
  out.

  Sockets are numbers; a handler that creates one takes the new number as the argument
  \<open>fresh\<close>.  Packets a socket has ready are the argument of its receive callback.  The
  handler of a scheduled event takes the simulation time in nanoseconds where it reads the
  clock.  Throughputs, which the code computes in \<^verbatim>\<open>double\<close>, are compared exactly.  An
  \<^verbatim>\<open>EventId\<close> is true while its event is waiting in the scheduler.
\<close>

section \<open>State and actions\<close>

type_synonym STREAMID_t = "128 word"

record Cybertwin =
  ct_cybertwinId :: CYBERTWINID_t
  ct_localSocket :: "nat option"
  ct_localInterface :: CYBERTWIN_INTERFACE_t
  ct_globalInterfaces :: CYBERTWIN_INTERFACE_LIST_t
  ct_cnrs :: bool
  ct_dtServer :: "nat option"
  ct_streamBuffer :: "nat list"
  ct_txStreamBuffer :: "STREAMID_t \<rightharpoonup> packet list"
  ct_txStreamBufferOrder :: "STREAMID_t list"
  ct_lastTxStreamBufferOrder :: u32
  ct_noneDataCnt :: u32
  ct_txConnections :: "STREAMID_t \<rightharpoonup> nat"
  ct_pendingConnections :: "STREAMID_t \<rightharpoonup> nat"
  ct_pendingConnectionsReverse :: "nat \<rightharpoonup> STREAMID_t"
  ct_txConnectionsReverse :: "nat \<rightharpoonup> CYBERTWINID_t"
  ct_rxConnections :: "nat set"
  ct_rxConnectionsReverse :: "nat \<rightharpoonup> CYBERTWIN_INTERFACE_t"
  ct_rxSizePerSecond :: "nat \<rightharpoonup> u64"
  ct_socketList :: "nat list"
  ct_cloud2endSockMap :: "nat \<rightharpoonup> nat"
  ct_end2cloudSockMap :: "nat \<rightharpoonup> nat"
  ct_isStartTrafficOpt :: bool
  ct_comm_test_total_bytes :: u64
  ct_comm_test_interval_bytes :: u64
  ct_startShapingTime :: int
  ct_lastTime :: int
  ct_statisticalEnd :: bool
  ct_tsPktQueue :: "packet list"
  ct_tokenBucket :: u64
  ct_consumeBytes :: u64
  ct_lastShapingTime :: int
  ct_tokenGeneratorEvent :: bool
  ct_consumerEvent :: bool
  ct_statisticalEvent :: bool
  ct_tpPktQueue :: "packet list"
  ct_startPolicingTime :: int
  ct_lastTpStartTime :: int
  ct_lastTpStaticTime :: int
  ct_tpTotalConsumeBytes :: u64
  ct_tpTotalDropedBytes :: u64
  ct_intervalTpBytes :: u64
  ct_tpConsumeEvent :: bool
  ct_tpStatisticEvent :: bool

text \<open>Callbacks given to the name resolution service and to sockets, and scheduled events.\<close>

datatype ct_resolved = OnStartDownloadProcess nat | OnSocketConnect nat
datatype ct_recv = RecvLocal | RecvDownload | RecvSp | RecvNull
datatype ct_event =
    EvLocallyListen | EvGloballyListen | EvStartCybertwinDownload nat CYBERTWINID_t
  | EvLocallyForward | EvSendPendingPackets STREAMID_t | EvCommModelStatistical
  | EvGenerateToken int | EvConsumeToken | EvTrafficShapingStatistical
  | EvTpConsumePacket | EvTpStatistical

datatype ct_action =
    CT_Schedule int ct_event
  | CT_Insert CYBERTWINID_t CYBERTWIN_INTERFACE_LIST_t
  | CT_Resolve CYBERTWINID_t ct_resolved
  | CT_Listen nat u16
  | CT_Bind nat
  | CT_Connect nat CYBERTWIN_INTERFACE_t
  | CT_SetRecvCallback nat ct_recv
  | CT_Send nat packet
  | CT_Close nat
  | CT_ShutdownSend nat

type_synonym ct_result = "(Cybertwin \<times> ct_action list) outcome"

definition microseconds :: "int \<Rightarrow> int" where "microseconds n = n * 1000"
definition milliseconds :: "int \<Rightarrow> int" where "milliseconds n = n * 1000000"

text \<open>The members the constructor does not mention keep what the memory held (\<open>raw\<close>).\<close>

definition Cybertwin_new ::
  "Cybertwin \<Rightarrow> CYBERTWINID_t \<Rightarrow> CYBERTWIN_INTERFACE_t \<Rightarrow> CYBERTWIN_INTERFACE_LIST_t \<Rightarrow> Cybertwin" where
  "Cybertwin_new raw cuid l_interface g_interfaces = raw\<lparr>
     ct_cybertwinId := cuid, ct_localSocket := None, ct_localInterface := l_interface,
     ct_globalInterfaces := g_interfaces, ct_cnrs := False, ct_dtServer := None,
     ct_streamBuffer := [], ct_txStreamBuffer := Map.empty, ct_txStreamBufferOrder := [],
     ct_txConnections := Map.empty, ct_pendingConnections := Map.empty,
     ct_pendingConnectionsReverse := Map.empty, ct_txConnectionsReverse := Map.empty,
     ct_rxConnections := {}, ct_rxConnectionsReverse := Map.empty,
     ct_rxSizePerSecond := Map.empty, ct_socketList := [], ct_cloud2endSockMap := Map.empty,
     ct_end2cloudSockMap := Map.empty, ct_isStartTrafficOpt := False,
     ct_comm_test_total_bytes := 0, ct_comm_test_interval_bytes := 0,
     ct_startShapingTime := 0, ct_lastTime := 0, ct_tsPktQueue := [], ct_lastShapingTime := 0,
     ct_tokenGeneratorEvent := False, ct_consumerEvent := False, ct_statisticalEvent := False,
     ct_tpPktQueue := [], ct_startPolicingTime := 0, ct_lastTpStartTime := 0,
     ct_lastTpStaticTime := 0, ct_tpConsumeEvent := False, ct_tpStatisticEvent := False\<rparr>"

section \<open>Start and stop\<close>

definition Cybertwin_StartApplication :: "bool \<Rightarrow> Cybertwin \<Rightarrow> ct_result" where
  "Cybertwin_StartApplication nodeHasCNRS st =
     require nodeHasCNRS AssertFailed
       (Inr (st\<lparr>ct_cnrs := True\<rparr>,
          [CT_Schedule 0 EvLocallyListen, CT_Schedule 0 EvGloballyListen,
           CT_Insert (ct_cybertwinId st) (ct_globalInterfaces st)]))"

definition Cybertwin_StopApplication :: "Cybertwin \<Rightarrow> ct_result" where
  "Cybertwin_StopApplication st =
     Inr (st\<lparr>ct_streamBuffer := []\<rparr>,
       map CT_Close (ct_streamBuffer st) @
       (case ct_localSocket st of
          Some s \<Rightarrow> [CT_Close s, CT_SetRecvCallback s RecvNull] | None \<Rightarrow> []))"

definition Cybertwin_DoDispose :: "Cybertwin \<Rightarrow> Cybertwin" where
  "Cybertwin_DoDispose st = st\<lparr>ct_localSocket := None\<rparr>"

text \<open>\<open>bindRet\<close> is what \<^verbatim>\<open>Bind\<close> returns.\<close>

definition LocallyListen :: "nat \<Rightarrow> int \<Rightarrow> Cybertwin \<Rightarrow> ct_result" where
  "LocallyListen fresh bindRet st =
     (let sock = (case ct_localSocket st of Some s \<Rightarrow> s | None \<Rightarrow> fresh);
          st = st\<lparr>ct_localSocket := Some sock\<rparr>
      in if bindRet < 0 then Inr (st, [])
         else Inr (st, [CT_Listen sock (snd (ct_localInterface st))]))"

definition LocalConnCreatedCallback :: "nat \<Rightarrow> Cybertwin \<Rightarrow> ct_result" where
  "LocalConnCreatedCallback socket st = Inr (st, [CT_SetRecvCallback socket RecvLocal])"

definition LocalNormalCloseCallback :: "nat \<Rightarrow> Cybertwin \<Rightarrow> ct_result" where
  "LocalNormalCloseCallback socket st = Inr (st, [CT_ShutdownSend socket])"

definition GloballyListen :: "nat \<Rightarrow> Cybertwin \<Rightarrow> ct_result" where
  "GloballyListen fresh st =
     (case ct_globalInterfaces st of
        [] \<Rightarrow> Inl OutOfRange
      | i # _ \<Rightarrow> Inr (st\<lparr>ct_dtServer := Some fresh\<rparr>, [CT_Listen fresh (snd i)]))"

section \<open>Download relay\<close>

definition StartCybertwinDownloadProcess :: "nat \<Rightarrow> CYBERTWINID_t \<Rightarrow> Cybertwin \<Rightarrow> ct_result" where
  "StartCybertwinDownloadProcess socket targetID st =
     require (ct_cnrs st) NullPointer
       (Inr (st, [CT_Resolve targetID (OnStartDownloadProcess socket)]))"

text \<open>The first interface is read without a test.\<close>

definition StartDownloadProcess ::
  "nat \<Rightarrow> nat \<Rightarrow> CYBERTWINID_t \<Rightarrow> CYBERTWIN_INTERFACE_LIST_t \<Rightarrow> Cybertwin \<Rightarrow> ct_result" where
  "StartDownloadProcess fresh endHostSock targetID targetInterfaces st =
     (let st = st\<lparr>ct_socketList := ct_socketList st @ [fresh]\<rparr>
      in case targetInterfaces of
           [] \<Rightarrow> Inl OutOfRange
         | i # _ \<Rightarrow>
             Inr (st\<lparr>ct_cloud2endSockMap := (ct_cloud2endSockMap st)(fresh \<mapsto> endHostSock),
                     ct_end2cloudSockMap := (ct_end2cloudSockMap st)(endHostSock \<mapsto> fresh)\<rparr>,
               [CT_Connect fresh i, CT_SetRecvCallback fresh RecvDownload]))"

text \<open>A socket without an entry yields a null pointer, which is then used.\<close>

fun DownloadSocketRecvCallback :: "nat \<Rightarrow> packet list \<Rightarrow> Cybertwin \<Rightarrow> ct_result" where
  "DownloadSocketRecvCallback socket [] st = Inr (st, [])"
| "DownloadSocketRecvCallback socket (packet # packets) st =
     from_option NullPointer (ct_cloud2endSockMap st socket)
       (\<lambda>endHostSock. then_do (DownloadSocketRecvCallback socket packets st)
          (\<lambda>(st, acts). Inr (st, CT_Send endHostSock packet # acts)))"

fun LocalRecvCallback :: "nat \<Rightarrow> packet list \<Rightarrow> Cybertwin \<Rightarrow> ct_result" where
  "LocalRecvCallback socket [] st = Inr (st, [])"
| "LocalRecvCallback socket (packet # packets) st =
     from_option BadBuffer (RemoveHeader (EndHostHeader_Deserialize EndHostHeader_new) packet)
       (\<lambda>(header, _). then_do (LocalRecvCallback socket packets st)
          (\<lambda>(st, acts). Inr (st,
             (if eh_command header = DOWNLOAD_REQUEST
              then [CT_Schedule 0 (EvStartCybertwinDownload socket (eh_targetID header))]
              else []) @ acts)))"

section \<open>Streams between cybertwins\<close>

definition CYBERTWIN_FORWARD_MAX_WAIT_NUM :: u32 where
  "CYBERTWIN_FORWARD_MAX_WAIT_NUM = 10000"

definition GET_PEERID_FROM_STREAMID :: "STREAMID_t \<Rightarrow> CYBERTWINID_t" where
  "GET_PEERID_FROM_STREAMID streamid = ucast (streamid AND 0xFFFFFFFFFFFFFFFF)"

text \<open>
  The search for a stream with packets uses the position in the order vector as the key of
  the buffers; reading a missing key creates an empty queue.
\<close>

fun LocallyForward_loop ::
  "nat \<Rightarrow> nat \<Rightarrow> nat \<Rightarrow> (STREAMID_t \<rightharpoonup> packet list) \<Rightarrow> nat option \<times> (STREAMID_t \<rightharpoonup> packet list)" where
  "LocallyForward_loop 0 idx sz buf = (None, buf)"
| "LocallyForward_loop (Suc n) idx sz buf =
     (let (q, buf) = map_get_or [] buf (of_nat idx)
      in if q \<noteq> [] then (Some idx, buf)
         else LocallyForward_loop n ((idx + 1) mod sz) sz buf)"

definition LocallyForward :: "Cybertwin \<Rightarrow> ct_result" where
  "LocallyForward st =
     (let st = st\<lparr>ct_lastTxStreamBufferOrder := 0\<rparr>; order = ct_txStreamBufferOrder st
      in if order = [] then
           Inr (st\<lparr>ct_noneDataCnt := ct_noneDataCnt st + 1\<rparr>,
             if ct_noneDataCnt st < CYBERTWIN_FORWARD_MAX_WAIT_NUM
             then [CT_Schedule (milliseconds 10) EvLocallyForward] else [])
         else
           let (pick, buf) = LocallyForward_loop (length order)
                 (unat (ct_lastTxStreamBufferOrder st)) (length order) (ct_txStreamBuffer st);
               st = st\<lparr>ct_txStreamBuffer := buf\<rparr>
           in case pick of
                None \<Rightarrow> Inr (st, [CT_Schedule (milliseconds 1) EvLocallyForward])
              | Some streamIdx \<Rightarrow>
                  Inr (st, [CT_Schedule 0 (EvSendPendingPackets (order ! streamIdx))]))"

definition SendPendingPackets :: "nat \<Rightarrow> STREAMID_t \<Rightarrow> Cybertwin \<Rightarrow> ct_result" where
  "SendPendingPackets fresh streamId st =
     (case ct_txConnections st streamId of
        Some conn \<Rightarrow>
          (let (q, buf) = map_get_or [] (ct_txStreamBuffer st) streamId
           in Inr (st\<lparr>ct_txStreamBuffer := buf(streamId \<mapsto> [])\<rparr>, map (CT_Send conn) q))
      | None \<Rightarrow>
          if ct_pendingConnections st streamId \<noteq> None then Inr (st, [])
          else require (ct_cnrs st) NullPointer
            (Inr (st\<lparr>
               ct_pendingConnectionsReverse := (ct_pendingConnectionsReverse st)(fresh \<mapsto> streamId),
               ct_pendingConnections := (ct_pendingConnections st)(streamId \<mapsto> fresh)\<rparr>,
               [CT_Bind fresh,
                CT_Resolve (GET_PEERID_FROM_STREAMID streamId) (OnSocketConnect fresh)])))"

definition SocketConnectWithResolvedCybertwinName ::
  "nat \<Rightarrow> CYBERTWINID_t \<Rightarrow> CYBERTWIN_INTERFACE_LIST_t \<Rightarrow> Cybertwin \<Rightarrow> ct_result" where
  "SocketConnectWithResolvedCybertwinName socket cuid ifs st =
     (case ifs of
        [] \<Rightarrow> Inr (st, [])
      | i # _ \<Rightarrow> Inr (st, [CT_SetRecvCallback socket RecvSp, CT_Connect socket i]))"

definition NewSpConnectionCreatedCallback ::
  "nat \<Rightarrow> CYBERTWIN_INTERFACE_t \<Rightarrow> Cybertwin \<Rightarrow> ct_result" where
  "NewSpConnectionCreatedCallback sock peeraddr st =
     (case ct_pendingConnectionsReverse st sock of
        Some streamId \<Rightarrow>
          Inr (st\<lparr>ct_pendingConnections := (ct_pendingConnections st)(streamId := None),
                  ct_pendingConnectionsReverse := (ct_pendingConnectionsReverse st)(sock := None),
                  ct_txConnections := (ct_txConnections st)(streamId \<mapsto> sock),
                  ct_txConnectionsReverse := (ct_txConnectionsReverse st)(sock \<mapsto> ucast streamId)\<rparr>,
            [CT_Schedule 0 (EvSendPendingPackets streamId), CT_SetRecvCallback sock RecvSp])
      | None \<Rightarrow>
          Inr (st\<lparr>ct_rxConnections := insert sock (ct_rxConnections st),
                  ct_rxConnectionsReverse := (ct_rxConnectionsReverse st)(sock \<mapsto> peeraddr),
                  ct_rxSizePerSecond := (ct_rxSizePerSecond st)(sock \<mapsto> 0)\<rparr>,
            [CT_SetRecvCallback sock RecvSp]))"

fun SpConnectionRecvCallback :: "nat \<Rightarrow> packet list \<Rightarrow> Cybertwin \<Rightarrow> Cybertwin" where
  "SpConnectionRecvCallback sock [] st = st"
| "SpConnectionRecvCallback sock (packet # packets) st =
     (let (n, sizes) = map_get_or 0 (ct_rxSizePerSecond st) sock
      in SpConnectionRecvCallback sock packets
           (st\<lparr>ct_rxSizePerSecond := sizes(sock \<mapsto> n + of_nat (GetSize packet))\<rparr>))"

definition SpNormalCloseCallback :: "nat \<Rightarrow> Cybertwin \<Rightarrow> Cybertwin" where
  "SpNormalCloseCallback sock st =
     (if ct_txConnectionsReverse st sock \<noteq> None then
        st\<lparr>ct_txConnectionsReverse := (ct_txConnectionsReverse st)(sock := None)\<rparr>
      else if ct_rxConnectionsReverse st sock \<noteq> None then
        st\<lparr>ct_rxConnectionsReverse := (ct_rxConnectionsReverse st)(sock := None),
           ct_rxConnections := ct_rxConnections st - {sock}\<rparr>
      else st)"

section \<open>Traffic shaping\<close>

definition END_HOST_BULK_SEND_TEST_TIME :: int where
  "END_HOST_BULK_SEND_TEST_TIME = milliseconds 500"
definition STATISTIC_INTERVAL_MILLISECONDS :: int where
  "STATISTIC_INTERVAL_MILLISECONDS = 10"
definition TRAFFIC_SHAPING_LIMIT_THROUGHPUT :: int where
  "TRAFFIC_SHAPING_LIMIT_THROUGHPUT = 120"

definition CybertwinCommModelStatistical :: "int \<Rightarrow> Cybertwin \<Rightarrow> ct_result" where
  "CybertwinCommModelStatistical now st =
     (if now - ct_startShapingTime st \<ge> END_HOST_BULK_SEND_TEST_TIME then
        Inr (st\<lparr>ct_statisticalEnd := True\<rparr>, [])
      else
        Inr (st\<lparr>ct_comm_test_interval_bytes := 0, ct_lastTime := now\<rparr>,
          [CT_Schedule (milliseconds STATISTIC_INTERVAL_MILLISECONDS) EvCommModelStatistical]))"

text \<open>
  One token stands for a packet of 515 bytes; the interval in microseconds is truncated to an
  integer when it is passed to \<^verbatim>\<open>MicroSeconds\<close>.
\<close>

definition CybertwinCommModelTrafficShaping :: "Cybertwin \<Rightarrow> ct_result" where
  "CybertwinCommModelTrafficShaping st =
     (let interval = (515 * 8 * 1000000) div (TRAFFIC_SHAPING_LIMIT_THROUGHPUT * 1000000)
      in Inr (st, [CT_Schedule 0 (EvGenerateToken interval), CT_Schedule 0 EvConsumeToken,
           CT_Schedule (milliseconds STATISTIC_INTERVAL_MILLISECONDS) EvTrafficShapingStatistical]))"

definition GenerateToken :: "int \<Rightarrow> Cybertwin \<Rightarrow> ct_result" where
  "GenerateToken interval st =
     Inr (st\<lparr>ct_tokenBucket := ct_tokenBucket st + 1, ct_tokenGeneratorEvent := True\<rparr>,
       [CT_Schedule (microseconds interval) (EvGenerateToken interval)])"

definition StopTrafficShaping :: "Cybertwin \<Rightarrow> Cybertwin" where
  "StopTrafficShaping st = st\<lparr>ct_tokenGeneratorEvent := False, ct_consumerEvent := False,
     ct_statisticalEvent := False\<rparr>"

definition ConsumeToken :: "Cybertwin \<Rightarrow> ct_result" where
  "ConsumeToken st =
     (if ct_statisticalEnd st \<and> ct_tsPktQueue st = [] then Inr (StopTrafficShaping st, [])
      else
        let st = (case ct_tsPktQueue st of
                    pkt # rest \<Rightarrow>
                      if ct_tokenBucket st > 0 then
                        st\<lparr>ct_tokenBucket := ct_tokenBucket st - 1,
                           ct_consumeBytes := ct_consumeBytes st + of_nat (GetSize pkt),
                           ct_tsPktQueue := rest\<rparr>
                      else st
                  | [] \<Rightarrow> st)
        in Inr (st\<lparr>ct_consumerEvent := True\<rparr>, [CT_Schedule (microseconds 10) EvConsumeToken]))"

definition TrafficShapingStatistical :: "int \<Rightarrow> Cybertwin \<Rightarrow> ct_result" where
  "TrafficShapingStatistical now st =
     Inr (st\<lparr>ct_lastShapingTime := now, ct_consumeBytes := 0, ct_statisticalEvent := True\<rparr>,
       [CT_Schedule (milliseconds STATISTIC_INTERVAL_MILLISECONDS) EvTrafficShapingStatistical])"

section \<open>Traffic policing\<close>

definition TRAFFIC_POLICING_INTERVAL_MILLISECONDS :: int where
  "TRAFFIC_POLICING_INTERVAL_MILLISECONDS = 10"
definition TRAFFIC_POLICING_LIMIT_THROUGHPUT :: int where
  "TRAFFIC_POLICING_LIMIT_THROUGHPUT = 120"
definition CYBERTWIN_COMM_MODEL_STAT_INTERVAL_MILLISECONDS :: int where
  "CYBERTWIN_COMM_MODEL_STAT_INTERVAL_MILLISECONDS = 10"

definition CybertwinCommModelTrafficPolicing :: "int \<Rightarrow> Cybertwin \<Rightarrow> ct_result" where
  "CybertwinCommModelTrafficPolicing now st =
     Inr (st\<lparr>ct_startPolicingTime := now, ct_lastTpStartTime := now, ct_lastTpStaticTime := now\<rparr>,
       [CT_Schedule 0 EvTpConsumePacket, CT_Schedule 0 EvTpStatistical])"

text \<open>
  \<open>bits\<close> over \<open>ns\<close> nanoseconds is less than \<open>limit\<close> megabits per second.  Over an
  empty interval the quotient is infinite or not a number, and the comparison is false.
\<close>

definition throughput_below :: "u64 \<Rightarrow> int \<Rightarrow> int \<Rightarrow> bool" where
  "throughput_below bits ns limit = (uint bits * 1000 < limit * ns)"

definition CCMTrafficPolicingConsumePacket :: "int \<Rightarrow> Cybertwin \<Rightarrow> ct_result" where
  "CCMTrafficPolicingConsumePacket now st =
     (let again = (\<lambda>st. Inr (st\<lparr>ct_tpConsumeEvent := True\<rparr>,
                     [CT_Schedule (microseconds 10) EvTpConsumePacket]))
      in if (now - ct_lastTpStartTime st) div 1000000 \<ge> TRAFFIC_POLICING_INTERVAL_MILLISECONDS then
           again (st\<lparr>ct_lastTpStartTime := now, ct_intervalTpBytes := 0\<rparr>)
         else case ct_tpPktQueue st of
           [] \<Rightarrow> again st
         | pkt # rest \<Rightarrow>
             let pktSize = of_nat (GetSize pkt) :: u64;
                 st = st\<lparr>ct_tpPktQueue := rest\<rparr>;
                 interval = now - ct_lastTpStartTime st
             in if throughput_below ((ct_intervalTpBytes st + pktSize) * 8) interval
                     TRAFFIC_POLICING_LIMIT_THROUGHPUT
                then again (st\<lparr>ct_tpTotalConsumeBytes := ct_tpTotalConsumeBytes st + pktSize,
                               ct_intervalTpBytes := ct_intervalTpBytes st + pktSize\<rparr>)
                else again (st\<lparr>ct_tpTotalDropedBytes := ct_tpTotalDropedBytes st + pktSize\<rparr>))"

definition CCMTrafficPolicingStop :: "Cybertwin \<Rightarrow> Cybertwin" where
  "CCMTrafficPolicingStop st = st\<lparr>ct_tpConsumeEvent := False, ct_tpStatisticEvent := False\<rparr>"

definition CCMTrafficPolicingStatistical :: "int \<Rightarrow> Cybertwin \<Rightarrow> ct_result" where
  "CCMTrafficPolicingStatistical now st =
     (if now - ct_startPolicingTime st \<ge> END_HOST_BULK_SEND_TEST_TIME then
        Inr (CCMTrafficPolicingStop st, [])
      else
        Inr (st\<lparr>ct_lastTpStaticTime := now, ct_tpTotalConsumeBytes := 0,
                ct_tpStatisticEvent := True\<rparr>,
          [CT_Schedule (milliseconds CYBERTWIN_COMM_MODEL_STAT_INTERVAL_MILLISECONDS)
             EvTpStatistical]))"

section \<open>The shaper is a token bucket\<close>

text \<open>
  The events of the shaper in any order: packets that are put into its queue, tokens, attempts
  to consume, and reports.
\<close>

datatype shaper_event = Arrive packet | Token int | Consume | Report int

definition shaper_step :: "shaper_event \<Rightarrow> Cybertwin \<Rightarrow> Cybertwin" where
  "shaper_step e st = (case e of
       Arrive p \<Rightarrow> st\<lparr>ct_tsPktQueue := ct_tsPktQueue st @ [p]\<rparr>
     | Token i \<Rightarrow> (case GenerateToken i st of Inr (st, _) \<Rightarrow> st | Inl _ \<Rightarrow> st)
     | Consume \<Rightarrow> (case ConsumeToken st of Inr (st, _) \<Rightarrow> st | Inl _ \<Rightarrow> st)
     | Report now \<Rightarrow> (case TrafficShapingStatistical now st of Inr (st, _) \<Rightarrow> st | Inl _ \<Rightarrow> st))"

fun arrivals :: "shaper_event list \<Rightarrow> packet list" where
  "arrivals [] = []"
| "arrivals (Arrive p # es) = p # arrivals es"
| "arrivals (_ # es) = arrivals es"

fun tokens :: "shaper_event list \<Rightarrow> nat" where
  "tokens [] = 0"
| "tokens (Token _ # es) = Suc (tokens es)"
| "tokens (_ # es) = tokens es"

lemma unat_dec: "0 < (x::u64) \<Longrightarrow> Suc (unat (x - 1)) = unat x"
  using unat_minus_one [of x] by (simp add: word_gt_0 unat_gt_0)

lemma unat_inc: "unat (x::u64) + 1 < 2 ^ 64 \<Longrightarrow> unat (x + 1) = unat x + 1"
  by (simp add: unat_word_ariths)

lemma ConsumeToken_cases:
  "\<exists>gone. ct_tsPktQueue st = gone @ ct_tsPktQueue (shaper_step Consume st) \<and>
     unat (ct_tokenBucket (shaper_step Consume st)) + length gone = unat (ct_tokenBucket st)"
proof (cases "ct_tsPktQueue st")
  case Nil
  then show ?thesis by (simp add: shaper_step_def ConsumeToken_def StopTrafficShaping_def)
next
  case (Cons p rest)
  show ?thesis
  proof (cases "ct_tokenBucket st > 0")
    case True
    with Cons show ?thesis
      by (intro exI [of _ "[p]"]) (simp add: shaper_step_def ConsumeToken_def unat_dec)
  next
    case False
    with Cons show ?thesis
      by (intro exI [of _ "[]"]) (simp add: shaper_step_def ConsumeToken_def)
  qed
qed

lemma shaper_step_other:
  "ct_tsPktQueue (shaper_step (Arrive p) st) = ct_tsPktQueue st @ [p]"
  "ct_tokenBucket (shaper_step (Arrive p) st) = ct_tokenBucket st"
  "ct_tsPktQueue (shaper_step (Token i) st) = ct_tsPktQueue st"
  "ct_tokenBucket (shaper_step (Token i) st) = ct_tokenBucket st + 1"
  "ct_tsPktQueue (shaper_step (Report now) st) = ct_tsPktQueue st"
  "ct_tokenBucket (shaper_step (Report now) st) = ct_tokenBucket st"
  by (simp_all add: shaper_step_def GenerateToken_def TrafficShapingStatistical_def)

lemma shaper_run:
  assumes "unat (ct_tokenBucket st) + tokens es < 2 ^ 64"
  shows "\<exists>gone. ct_tsPktQueue st @ arrivals es = gone @ ct_tsPktQueue (fold shaper_step es st) \<and>
    unat (ct_tokenBucket (fold shaper_step es st)) + length gone =
      unat (ct_tokenBucket st) + tokens es"
  using assms
proof (induction es arbitrary: st)
  case Nil
  then show ?case by simp
next
  case (Cons e es)
  show ?case
  proof (cases e)
    case (Arrive p)
    then show ?thesis using Cons.IH [of "shaper_step e st"] Cons.prems
      by (simp add: shaper_step_other)
  next
    case (Token i)
    then show ?thesis using Cons.IH [of "shaper_step e st"] Cons.prems
      by (simp add: shaper_step_other unat_inc)
  next
    case Consume
    obtain g where g: "ct_tsPktQueue st = g @ ct_tsPktQueue (shaper_step Consume st)"
      "unat (ct_tokenBucket (shaper_step Consume st)) + length g = unat (ct_tokenBucket st)"
      using ConsumeToken_cases by blast
    obtain gone where "ct_tsPktQueue (shaper_step Consume st) @ arrivals es =
        gone @ ct_tsPktQueue (fold shaper_step es (shaper_step Consume st))"
      "unat (ct_tokenBucket (fold shaper_step es (shaper_step Consume st))) + length gone =
        unat (ct_tokenBucket (shaper_step Consume st)) + tokens es"
      using Cons.IH [of "shaper_step Consume st"] Cons.prems Consume g(2) by auto
    with g Consume show ?thesis
      by (intro exI [of _ "g @ gone"]) simp
  next
    case (Report now)
    then show ?thesis using Cons.IH [of "shaper_step e st"] Cons.prems
      by (simp add: shaper_step_other)
  qed
qed

text \<open>
  C34: The shaper is a token bucket.  Whatever the order of arriving packets, generated tokens,
  consume attempts and reports, the packets that have left are the oldest ones in their order
  of arrival, the rest is still queued, and each of them took one token: what left and what is
  in the bucket add up to the tokens there were and the tokens generated.  When the test has
  ended and the queue is empty, the next consume attempt cancels the shaper's events.
\<close>

theorem shaping_token_bucket:
  assumes "unat (ct_tokenBucket st) + tokens es < 2 ^ 64"
  shows "(\<exists>gone. ct_tsPktQueue st @ arrivals es = gone @ ct_tsPktQueue (fold shaper_step es st) \<and>
      unat (ct_tokenBucket (fold shaper_step es st)) + length gone =
        unat (ct_tokenBucket st) + tokens es) \<and>
    (ct_statisticalEnd (fold shaper_step es st) \<and> ct_tsPktQueue (fold shaper_step es st) = [] \<longrightarrow>
      ConsumeToken (fold shaper_step es st) = Inr (StopTrafficShaping (fold shaper_step es st), []))"
  using shaper_run [OF assms] by (simp add: ConsumeToken_def)

definition example_cybertwin :: Cybertwin where
  "example_cybertwin = \<lparr>ct_cybertwinId = 1, ct_localSocket = None,
     ct_localInterface = (Ipv4Address_of 1, 40000), ct_globalInterfaces = [(Ipv4Address_of 2, 50000)],
     ct_cnrs = True, ct_dtServer = None, ct_streamBuffer = [], ct_txStreamBuffer = Map.empty,
     ct_txStreamBufferOrder = [], ct_lastTxStreamBufferOrder = 0, ct_noneDataCnt = 0,
     ct_txConnections = Map.empty, ct_pendingConnections = Map.empty,
     ct_pendingConnectionsReverse = Map.empty, ct_txConnectionsReverse = Map.empty,
     ct_rxConnections = {}, ct_rxConnectionsReverse = Map.empty, ct_rxSizePerSecond = Map.empty,
     ct_socketList = [], ct_cloud2endSockMap = Map.empty, ct_end2cloudSockMap = Map.empty,
     ct_isStartTrafficOpt = False, ct_comm_test_total_bytes = 0, ct_comm_test_interval_bytes = 0,
     ct_startShapingTime = 0, ct_lastTime = 0, ct_statisticalEnd = False, ct_tsPktQueue = [],
     ct_tokenBucket = 0, ct_consumeBytes = 0, ct_lastShapingTime = 0,
     ct_tokenGeneratorEvent = False, ct_consumerEvent = False, ct_statisticalEvent = False,
     ct_tpPktQueue = [], ct_startPolicingTime = 0, ct_lastTpStartTime = 0, ct_lastTpStaticTime = 0,
     ct_tpTotalConsumeBytes = 0, ct_tpTotalDropedBytes = 0, ct_intervalTpBytes = 0,
     ct_tpConsumeEvent = False, ct_tpStatisticEvent = False\<rparr>"

theorem shaping_token_bucket_witness:
  "\<exists>gone. [Create_Packet 1, Create_Packet 2] = gone @ ct_tsPktQueue (fold shaper_step
       [Arrive (Create_Packet 1), Arrive (Create_Packet 2), Token 34, Consume, Consume] example_cybertwin) \<and>
     unat (ct_tokenBucket (fold shaper_step
       [Arrive (Create_Packet 1), Arrive (Create_Packet 2), Token 34, Consume, Consume] example_cybertwin)) + length gone = 1"
  using shaping_token_bucket
    [of example_cybertwin "[Arrive (Create_Packet 1), Arrive (Create_Packet 2), Token 34, Consume, Consume]"]
  by (simp add: example_cybertwin_def del: fold_simps)

section \<open>The policer keeps the limit\<close>

datatype policer_event = TpArrive packet | TpConsume int | TpReport int

definition policer_step :: "policer_event \<Rightarrow> Cybertwin \<Rightarrow> Cybertwin" where
  "policer_step e st = (case e of
       TpArrive p \<Rightarrow> st\<lparr>ct_tpPktQueue := ct_tpPktQueue st @ [p]\<rparr>
     | TpConsume now \<Rightarrow>
         (case CCMTrafficPolicingConsumePacket now st of Inr (st, _) \<Rightarrow> st | Inl _ \<Rightarrow> st)
     | TpReport now \<Rightarrow>
         (case CCMTrafficPolicingStatistical now st of Inr (st, _) \<Rightarrow> st | Inl _ \<Rightarrow> st))"

text \<open>The clock does not go back, and packet sizes fit their 32-bit type.\<close>

fun policer_run_ok :: "int \<Rightarrow> policer_event list \<Rightarrow> bool" where
  "policer_run_ok t [] = True"
| "policer_run_ok t (TpArrive p # es) = (GetSize p < 2 ^ 32 \<and> policer_run_ok t es)"
| "policer_run_ok t (TpConsume now # es) = (t \<le> now \<and> policer_run_ok now es)"
| "policer_run_ok t (TpReport now # es) = (t \<le> now \<and> policer_run_ok now es)"

fun run_end :: "int \<Rightarrow> policer_event list \<Rightarrow> int" where
  "run_end t [] = t"
| "run_end t (TpArrive p # es) = run_end t es"
| "run_end t (TpConsume now # es) = run_end now es"
| "run_end t (TpReport now # es) = run_end now es"

definition policer_inv :: "int \<Rightarrow> Cybertwin \<Rightarrow> bool" where
  "policer_inv t st \<longleftrightarrow> ct_lastTpStartTime st \<le> t \<and>
     uint (ct_intervalTpBytes st) * 8000 \<le> 120 * (t - ct_lastTpStartTime st) \<and>
     uint (ct_intervalTpBytes st) \<le> 150000 \<and>
     (\<forall>p \<in> set (ct_tpPktQueue st). GetSize p < 2 ^ 32)"

lemma uint_sum_bits:
  assumes "uint (x::u64) \<le> 150000" and "n < 2 ^ 32"
  shows "uint (x + of_nat n) = uint x + int n"
    and "uint (x * 8 + of_nat n * 8) = (uint x + int n) * 8"
proof -
  have "x + of_nat n = word_of_int (uint x + int n)"
    by simp
  then show "uint (x + of_nat n) = uint x + int n"
    using assms by (simp only: uint_word_of_int) simp
  have "x * 8 + of_nat n * 8 = word_of_int ((uint x + int n) * 8)"
    by (simp add: distrib_right)
  then show "uint (x * 8 + of_nat n * 8) = (uint x + int n) * 8"
    using assms by (simp only: uint_word_of_int) simp
qed

lemma policer_inv_mono: "policer_inv t st \<Longrightarrow> t \<le> now \<Longrightarrow> policer_inv now st"
  by (auto simp: policer_inv_def)

lemma policer_inv_consume:
  assumes "policer_inv now st"
  shows "policer_inv now (policer_step (TpConsume now) st)"
proof (cases "(now - ct_lastTpStartTime st) div 1000000 \<ge> 10")
  case True
  then show ?thesis using assms
    by (simp add: policer_step_def CCMTrafficPolicingConsumePacket_def policer_inv_def
        TRAFFIC_POLICING_INTERVAL_MILLISECONDS_def)
next
  case early: False
  then have lt: "now - ct_lastTpStartTime st < 10000000"
    by linarith
  show ?thesis
  proof (cases "ct_tpPktQueue st")
    case Nil
    with early assms show ?thesis
      by (simp add: policer_step_def CCMTrafficPolicingConsumePacket_def policer_inv_def
          TRAFFIC_POLICING_INTERVAL_MILLISECONDS_def)
  next
    case (Cons p rest)
    have b: "uint (ct_intervalTpBytes st) \<le> 150000" "GetSize p < 2 ^ 32"
      using assms Cons by (auto simp: policer_inv_def)
    from early Cons assms lt show ?thesis
      by (simp add: policer_step_def CCMTrafficPolicingConsumePacket_def policer_inv_def
          TRAFFIC_POLICING_INTERVAL_MILLISECONDS_def TRAFFIC_POLICING_LIMIT_THROUGHPUT_def
          throughput_below_def uint_sum_bits [OF b] Let_def)
  qed
qed

lemma policer_inv_step:
  "policer_inv t st \<Longrightarrow> GetSize p < 2 ^ 32 \<Longrightarrow> policer_inv t (policer_step (TpArrive p) st)"
  "policer_inv t st \<Longrightarrow> policer_inv t (policer_step (TpReport now) st)"
  by (auto simp: policer_inv_def policer_step_def CCMTrafficPolicingStatistical_def
      CCMTrafficPolicingStop_def)

lemma policer_inv_run:
  "policer_inv t st \<Longrightarrow> policer_run_ok t es \<Longrightarrow>
     policer_inv (run_end t es) (fold policer_step es st)"
proof (induction t es arbitrary: st rule: policer_run_ok.induct)
  case (2 t p es)
  then show ?case by (simp add: policer_inv_step)
next
  case (3 t now es)
  then show ?case by (simp add: policer_inv_consume policer_inv_mono [of t])
next
  case (4 t now es)
  then show ?case by (simp add: policer_inv_step policer_inv_mono [of t])
qed simp



section \<open>Stream connections\<close>

text \<open>
  The steps that touch the connection tables, in any order; other code fills the stream
  buffers.  A socket that is created is new.
\<close>

definition unused_socket :: "nat \<Rightarrow> Cybertwin \<Rightarrow> bool" where
  "unused_socket s st \<longleftrightarrow> ct_pendingConnectionsReverse st s = None \<and> s \<notin> ran (ct_txConnections st)"

inductive ct_step :: "Cybertwin \<Rightarrow> Cybertwin \<Rightarrow> bool" where
  fill: "ct_step st (st\<lparr>ct_txStreamBuffer := buf, ct_txStreamBufferOrder := order\<rparr>)"
| start: "Cybertwin_StartApplication c st = Inr (st', acts) \<Longrightarrow> ct_step st st'"
| forward: "LocallyForward st = Inr (st', acts) \<Longrightarrow> ct_step st st'"
| send: "SendPendingPackets fresh sid st = Inr (st', acts) \<Longrightarrow> unused_socket fresh st \<Longrightarrow> ct_step st st'"
| resolved: "SocketConnectWithResolvedCybertwinName sock cuid ifs st = Inr (st', acts) \<Longrightarrow> ct_step st st'"
| created: "NewSpConnectionCreatedCallback sock peer st = Inr (st', acts) \<Longrightarrow> ct_step st st'"
| recv: "ct_step st (SpConnectionRecvCallback sock packets st)"
| close: "ct_step st (SpNormalCloseCallback sock st)"

inductive_cases ct_stepE: "ct_step st st'"

definition ct_initial :: "Cybertwin \<Rightarrow> bool" where
  "ct_initial st \<longleftrightarrow> (\<exists>raw cuid l g. st = Cybertwin_new raw cuid l g)"

abbreviation ct_reachable :: "Cybertwin \<Rightarrow> bool" where
  "ct_reachable \<equiv> reaches ct_initial ct_step"

definition stream_inv :: "Cybertwin \<Rightarrow> bool" where
  "stream_inv st \<longleftrightarrow>
     (\<forall>sid s. ct_pendingConnections st sid = Some s \<longleftrightarrow> ct_pendingConnectionsReverse st s = Some sid) \<and>
     dom (ct_pendingConnections st) \<inter> dom (ct_txConnections st) = {} \<and>
     inj_on (ct_txConnections st) (dom (ct_txConnections st)) \<and>
     (\<forall>s \<in> ran (ct_txConnections st). ct_pendingConnectionsReverse st s = None)"

text \<open>The steps that leave the tables alone.\<close>

lemma stream_inv_cong:
  "ct_pendingConnections st' = ct_pendingConnections st \<Longrightarrow>
   ct_pendingConnectionsReverse st' = ct_pendingConnectionsReverse st \<Longrightarrow>
   ct_txConnections st' = ct_txConnections st \<Longrightarrow> stream_inv st \<Longrightarrow> stream_inv st'"
  by (simp add: stream_inv_def)

lemma recv_keeps [simp]:
  "ct_pendingConnections (SpConnectionRecvCallback sock packets st) = ct_pendingConnections st"
  "ct_pendingConnectionsReverse (SpConnectionRecvCallback sock packets st) =
     ct_pendingConnectionsReverse st"
  "ct_txConnections (SpConnectionRecvCallback sock packets st) = ct_txConnections st"
  by (induction packets arbitrary: st) (simp_all split: prod.splits)

lemma close_keeps [simp]:
  "ct_pendingConnections (SpNormalCloseCallback sock st) = ct_pendingConnections st"
  "ct_pendingConnectionsReverse (SpNormalCloseCallback sock st) = ct_pendingConnectionsReverse st"
  "ct_txConnections (SpNormalCloseCallback sock st) = ct_txConnections st"
  by (simp_all add: SpNormalCloseCallback_def)

lemma forward_keeps:
  "LocallyForward st = Inr (st', acts) \<Longrightarrow> ct_pendingConnections st' = ct_pendingConnections st \<and>
     ct_pendingConnectionsReverse st' = ct_pendingConnectionsReverse st \<and>
     ct_txConnections st' = ct_txConnections st"
  by (auto simp: LocallyForward_def Let_def split: if_splits prod.splits option.splits)

lemma stream_inv_send:
  assumes "stream_inv st" and "unused_socket fresh st"
    and "SendPendingPackets fresh sid st = Inr (st', acts)"
  shows "stream_inv st'"
proof (cases "ct_txConnections st sid = None \<and> ct_pendingConnections st sid = None")
  case True
  with assms(3) have "st' = st\<lparr>
      ct_pendingConnectionsReverse := (ct_pendingConnectionsReverse st)(fresh \<mapsto> sid),
      ct_pendingConnections := (ct_pendingConnections st)(sid \<mapsto> fresh)\<rparr>"
    by (auto simp: SendPendingPackets_def)
  moreover have "ct_pendingConnectionsReverse st s \<noteq> Some sid" for s
    using assms(1) True unfolding stream_inv_def by (metis option.distinct(1))
  ultimately show ?thesis
    using True assms(1,2) by (auto simp: stream_inv_def unused_socket_def)
next
  case False
  with assms(3) show ?thesis
    by (intro stream_inv_cong [OF _ _ _ assms(1)])
      (auto simp: SendPendingPackets_def split: option.splits prod.splits)
qed

lemma inverse_map_del:
  assumes "\<forall>x y. P x = Some y \<longleftrightarrow> R y = Some x" and "R b = Some a"
  shows "(P(a := None)) x = Some y \<longleftrightarrow> (R(b := None)) y = Some x"
  using assms by (metis fun_upd_apply option.distinct(1) option.inject)

lemma stream_inv_created:
  assumes "stream_inv st" and "NewSpConnectionCreatedCallback sock peer st = Inr (st', acts)"
  shows "stream_inv st'"
proof (cases "ct_pendingConnectionsReverse st sock")
  case None
  with assms(2) show ?thesis
    by (intro stream_inv_cong [OF _ _ _ assms(1)]) (auto simp: NewSpConnectionCreatedCallback_def)
next
  case (Some sid)
  let ?P = "ct_pendingConnections st" and ?R = "ct_pendingConnectionsReverse st"
  let ?T = "ct_txConnections st"
  have st': "ct_pendingConnections st' = ?P(sid := None)"
    "ct_pendingConnectionsReverse st' = ?R(sock := None)" "ct_txConnections st' = ?T(sid \<mapsto> sock)"
    using Some assms(2) by (auto simp: NewSpConnectionCreatedCallback_def)
  have "sock \<notin> ran ?T" "ran (?T(sid \<mapsto> sock)) \<subseteq> insert sock (ran ?T)"
    using Some assms(1) by (auto simp: stream_inv_def ran_def)
  with assms(1) have "inj_on (?T(sid \<mapsto> sock)) (dom (?T(sid \<mapsto> sock)))"
    and "\<forall>s \<in> ran (?T(sid \<mapsto> sock)). (?R(sock := None)) s = None"
    unfolding stream_inv_def by (auto intro!: inj_on_fun_updI simp: ran_def inj_on_def)
  with assms(1) show ?thesis
    using inverse_map_del [of ?P ?R sock sid] Some unfolding stream_inv_def st' by auto
qed

lemma stream_inv_step: "stream_inv st \<Longrightarrow> ct_step st st' \<Longrightarrow> stream_inv st'"
proof (erule ct_stepE)
  fix acts
  assume "stream_inv st" and "LocallyForward st = Inr (st', acts)"
  then show "stream_inv st'"
    using forward_keeps stream_inv_cong by blast
next
  fix c acts
  assume "stream_inv st" and "Cybertwin_StartApplication c st = Inr (st', acts)"
  then show "stream_inv st'"
    by (intro stream_inv_cong [of st' st]) (auto simp: Cybertwin_StartApplication_def)
next
  fix sock cuid ifs acts
  assume "stream_inv st" and "SocketConnectWithResolvedCybertwinName sock cuid ifs st = Inr (st', acts)"
  then show "stream_inv st'"
    by (auto simp: SocketConnectWithResolvedCybertwinName_def split: list.splits)
qed (auto intro: stream_inv_send stream_inv_created stream_inv_cong)

interpretation streams: invariant_system ct_initial ct_step stream_inv
proof
  show "ct_initial st \<Longrightarrow> stream_inv st" for st
    by (auto simp: ct_initial_def Cybertwin_new_def stream_inv_def)
qed (rule stream_inv_step)

text \<open>
  C36: In every state a cybertwin can reach, the two tables of pending connections are inverse to
  each other, a stream is never pending and established at once, and two streams never share a
  socket; so a stream that has or awaits a connection opens no second one.
\<close>

theorem one_connection_per_stream:
  assumes "ct_reachable st"
  shows "(\<forall>sid s. ct_pendingConnections st sid = Some s \<longleftrightarrow>
      ct_pendingConnectionsReverse st s = Some sid) \<and>
    dom (ct_pendingConnections st) \<inter> dom (ct_txConnections st) = {} \<and>
    (\<forall>sid sid' s. ct_txConnections st sid = Some s \<and> ct_txConnections st sid' = Some s \<longrightarrow> sid = sid') \<and>
    (\<forall>sid fresh st' acts. sid \<in> dom (ct_pendingConnections st) \<union> dom (ct_txConnections st) \<and>
      SendPendingPackets fresh sid st = Inr (st', acts) \<longrightarrow>
      ct_pendingConnections st' = ct_pendingConnections st \<and> (\<forall>id cb. CT_Resolve id cb \<notin> set acts))"
proof -
  have inv: "stream_inv st"
    using assms by (rule streams.reaches_inv)
  then have "sid = sid'" if "ct_txConnections st sid = Some s" "ct_txConnections st sid' = Some s"
    for sid sid' s
    using that unfolding stream_inv_def by (metis domI inj_onD)
  moreover have "ct_pendingConnections st' = ct_pendingConnections st \<and>
      (\<forall>id cb. CT_Resolve id cb \<notin> set acts)"
    if "sid \<in> dom (ct_pendingConnections st) \<union> dom (ct_txConnections st)"
      and "SendPendingPackets fresh sid st = Inr (st', acts)" for sid fresh st' acts
    using that by (auto simp: SendPendingPackets_def split: option.splits prod.splits if_splits)
  ultimately show ?thesis
    using inv unfolding stream_inv_def by (intro conjI allI impI) blast+
qed

theorem one_connection_per_stream_witness:
  "dom (ct_pendingConnections (Cybertwin_new example_cybertwin 1 (Ipv4Address_of 1, 40000) [])) \<inter>
   dom (ct_txConnections (Cybertwin_new example_cybertwin 1 (Ipv4Address_of 1, 40000) [])) = {}"
proof -
  have "ct_reachable (Cybertwin_new example_cybertwin 1 (Ipv4Address_of 1, 40000) [])"
    by (rule reaches_initial) (unfold ct_initial_def, blast)
  from one_connection_per_stream [OF this] show ?thesis by blast
qed

text \<open>
  Packets that wait for a connection are not lost.  The first attempt to send a stream
  resolves its peer and leaves the packets queued; an attempt meanwhile does nothing; when the
  name is resolved the socket connects to the peer's first interface; and once connected, all
  packets of the stream are sent over that socket in their order, and the queue is empty.
\<close>

theorem stream_delivers_buffer:
  assumes "ct_cnrs st" and "ct_txConnections st sid = None" and "ct_pendingConnections st sid = None"
    and "ct_txStreamBuffer st sid = Some pkts"
  shows "\<exists>st1 st2 st3.
    SendPendingPackets fresh sid st = Inr (st1, [CT_Bind fresh,
      CT_Resolve (GET_PEERID_FROM_STREAMID sid) (OnSocketConnect fresh)]) \<and>
    SendPendingPackets fresh' sid st1 = Inr (st1, []) \<and>
    SocketConnectWithResolvedCybertwinName fresh cuid (i # ifs) st1 =
      Inr (st1, [CT_SetRecvCallback fresh RecvSp, CT_Connect fresh i]) \<and>
    NewSpConnectionCreatedCallback fresh peer st1 =
      Inr (st2, [CT_Schedule 0 (EvSendPendingPackets sid), CT_SetRecvCallback fresh RecvSp]) \<and>
    SendPendingPackets fresh'' sid st2 = Inr (st3, map (CT_Send fresh) pkts) \<and>
    ct_txStreamBuffer st3 sid = Some [] \<and>
    (\<forall>other. other \<noteq> sid \<longrightarrow> ct_txStreamBuffer st3 other = ct_txStreamBuffer st other)"
  using assms by (simp add: SendPendingPackets_def SocketConnectWithResolvedCybertwinName_def
      NewSpConnectionCreatedCallback_def)

theorem stream_delivers_buffer_witness:
  "\<exists>st1. SendPendingPackets 7 3 (example_cybertwin\<lparr>ct_txStreamBuffer := [3 \<mapsto> [Create_Packet 9]]\<rparr>) =
     Inr (st1, [CT_Bind 7, CT_Resolve (GET_PEERID_FROM_STREAMID 3) (OnSocketConnect 7)])"
  using stream_delivers_buffer
    [of "example_cybertwin\<lparr>ct_txStreamBuffer := [3 \<mapsto> [Create_Packet 9]]\<rparr>" 3 "[Create_Packet 9]" 7
      8 3 "(Ipv4Address_of 2, 50000)" "[]" "(Ipv4Address_of 2, 50000)" 9]
  by (auto simp: example_cybertwin_def)

text \<open>
  A stream does not recover from the end of its connection: the close callback leaves the
  closed socket among the established connections, so that the packets of the stream are taken
  out of its queue and written to the closed socket, and no new connection is opened.
\<close>

theorem closed_stream_keeps_socket:
  assumes "ct_txConnections st sid = Some sock" and "ct_txConnectionsReverse st sock \<noteq> None"
    and "ct_txStreamBuffer st sid = Some pkts"
  shows "\<exists>st'. SendPendingPackets fresh sid (SpNormalCloseCallback sock st) =
      Inr (st', map (CT_Send sock) pkts) \<and>
    ct_txStreamBuffer st' sid = Some [] \<and> ct_txConnections st' sid = Some sock \<and>
    ct_txConnectionsReverse st' sock = None"
  using assms by (auto simp: SendPendingPackets_def SpNormalCloseCallback_def)

theorem closed_stream_keeps_socket_witness:
  "\<exists>st'. SendPendingPackets 8 3 (SpNormalCloseCallback 7 (example_cybertwin\<lparr>
      ct_txConnections := [3 \<mapsto> 7], ct_txConnectionsReverse := [7 \<mapsto> 3],
      ct_txStreamBuffer := [3 \<mapsto> [Create_Packet 9]]\<rparr>)) = Inr (st', [CT_Send 7 (Create_Packet 9)])"
  using closed_stream_keeps_socket [of "example_cybertwin\<lparr>
      ct_txConnections := [3 \<mapsto> 7], ct_txConnectionsReverse := [7 \<mapsto> 3],
      ct_txStreamBuffer := [3 \<mapsto> [Create_Packet 9]]\<rparr>" 3 7 "[Create_Packet 9]" 8] by auto

end
