(* ===== verification/Duplex_Stream.thy ===== *)
theory Duplex_Stream
  imports Headers Complex_Main
begin

text \<open>
  The full duplex stream between an end host and a cloud cybertwin
  (\<^verbatim>\<open>cybertwin.{h,cc}\<close>, class \<^verbatim>\<open>CybertwinFullDuplexStream\<close>): two queues, one
  per direction, emptied by events that keep the throughput below a limit.

  Sockets are numbers.  A handler that is an event takes the simulation time in nanoseconds,
  what the socket's \<^verbatim>\<open>Send\<close> returns for a packet, and whether it is the event its
  \<^verbatim>\<open>EventId\<close> names (\<open>own\<close>); the \<^verbatim>\<open>EventId\<close> is true while that event is
  waiting.  The rate limits are the \<^verbatim>\<open>double\<close> attributes, and throughputs are compared
  with them exactly.
\<close>

section \<open>State and actions\<close>

datatype ENDPOINT_STATUS =
    ENDPOINT_NONE | ENDPOINT_CONNECTING | ENDPOINT_CONNECTED | ENDPOINT_DISCONNECTED
  | ENDPOINT_DONE | ENDPOINT_END_STOP

record CybertwinFullDuplexStream =
  fd_endSocket :: "nat option"
  fd_cloudSocket :: "nat option"
  fd_endID :: CYBERTWINID_t
  fd_cloudID :: CYBERTWINID_t
  fd_endStatus :: ENDPOINT_STATUS
  fd_cloudStatus :: ENDPOINT_STATUS
  fd_endBuffer :: "packet list"
  fd_cloudBuffer :: "packet list"
  fd_sendToCloudEvent :: bool
  fd_sendToCloudBytes :: u64
  fd_cloudStartTime :: int
  fd_sendToEndEvent :: bool
  fd_sendToEndBytes :: u64
  fd_endStartTime :: int
  fd_cloudRateLimit :: rat
  fd_endRateLimit :: rat

datatype fd_event = EvOuputCloudBuffer | EvOuputEndBuffer
datatype fd_recv = RecvEnd | RecvCloud

datatype fd_action =
    FD_Schedule int fd_event
  | FD_Resolve CYBERTWINID_t
  | FD_Connect nat CYBERTWIN_INTERFACE_t
  | FD_SetRecvCallback nat fd_recv
  | FD_Send nat packet
  | FD_Close nat

type_synonym fd_result = "(CybertwinFullDuplexStream \<times> fd_action list) outcome"

definition close_socket :: "nat option \<Rightarrow> fd_action list" where
  "close_socket s = (case s of Some s \<Rightarrow> [FD_Close s] | None \<Rightarrow> [])"

text \<open>The byte counters keep what the memory held until \<^verbatim>\<open>Activate\<close>.\<close>

definition CybertwinFullDuplexStream_new ::
  "u64 \<Rightarrow> u64 \<Rightarrow> CYBERTWINID_t \<Rightarrow> CYBERTWINID_t \<Rightarrow> CybertwinFullDuplexStream" where
  "CybertwinFullDuplexStream_new raw1 raw2 end_id cloud_id =
     \<lparr>fd_endSocket = None, fd_cloudSocket = None, fd_endID = end_id, fd_cloudID = cloud_id,
      fd_endStatus = ENDPOINT_NONE, fd_cloudStatus = ENDPOINT_NONE, fd_endBuffer = [],
      fd_cloudBuffer = [], fd_sendToCloudEvent = False, fd_sendToCloudBytes = raw1,
      fd_cloudStartTime = 0, fd_sendToEndEvent = False, fd_sendToEndBytes = raw2,
      fd_endStartTime = 0, fd_cloudRateLimit = 100, fd_endRateLimit = 100\<rparr>"

section \<open>Connection handling\<close>

definition Activate :: "int \<Rightarrow> CybertwinFullDuplexStream \<Rightarrow> fd_result" where
  "Activate now st =
     (let st = st\<lparr>fd_sendToCloudBytes := 0, fd_sendToEndBytes := 0, fd_endStartTime := now,
                  fd_cloudStartTime := now\<rparr>
      in case fd_endSocket st of
           None \<Rightarrow> Inr (st\<lparr>fd_endStatus := ENDPOINT_DISCONNECTED\<rparr>, [])
         | Some s \<Rightarrow>
             (let st = st\<lparr>fd_endStatus := ENDPOINT_CONNECTED\<rparr>
              in case fd_cloudSocket st of
                   None \<Rightarrow> Inr (st\<lparr>fd_cloudStatus := ENDPOINT_CONNECTING\<rparr>,
                             [FD_SetRecvCallback s RecvEnd, FD_Resolve (fd_cloudID st)])
                 | Some c \<Rightarrow> Inr (st\<lparr>fd_cloudStatus := ENDPOINT_CONNECTED\<rparr>,
                             [FD_SetRecvCallback s RecvEnd, FD_SetRecvCallback c RecvCloud])))"

definition DuplexStreamEndNormalCloseCallback :: "CybertwinFullDuplexStream \<Rightarrow> fd_result" where
  "DuplexStreamEndNormalCloseCallback st =
     Inr (st\<lparr>fd_endStatus := ENDPOINT_DISCONNECTED\<rparr>, close_socket (fd_cloudSocket st))"

definition DuplexStreamEndErrorCloseCallback :: "CybertwinFullDuplexStream \<Rightarrow> fd_result" where
  "DuplexStreamEndErrorCloseCallback st = Inr (st\<lparr>fd_endStatus := ENDPOINT_DISCONNECTED\<rparr>, [])"

definition DuplexStreamCloudConnect ::
  "nat \<Rightarrow> CYBERTWIN_INTERFACE_LIST_t \<Rightarrow> CybertwinFullDuplexStream \<Rightarrow> fd_result" where
  "DuplexStreamCloudConnect fresh itfs st =
     (case itfs of
        [] \<Rightarrow> Inr (st, [])
      | cloudIf # _ \<Rightarrow>
          let sock = (case fd_cloudSocket st of Some s \<Rightarrow> s | None \<Rightarrow> fresh)
          in Inr (st\<lparr>fd_cloudSocket := Some sock\<rparr>, [FD_Connect sock cloudIf]))"

definition DuplexStreamCloudConnectCallback :: "CybertwinFullDuplexStream \<Rightarrow> fd_result" where
  "DuplexStreamCloudConnectCallback st =
     from_option NullPointer (fd_cloudSocket st)
       (\<lambda>s. Inr (st\<lparr>fd_cloudStatus := ENDPOINT_CONNECTED\<rparr>, [FD_SetRecvCallback s RecvCloud]))"

definition DuplexStreamCloudConnectErrorCallback :: "CybertwinFullDuplexStream \<Rightarrow> fd_result" where
  "DuplexStreamCloudConnectErrorCallback st =
     Inr (st\<lparr>fd_cloudStatus := ENDPOINT_DISCONNECTED\<rparr>, [])"

definition DuplexStreamCloudNormalCloseCallback :: "CybertwinFullDuplexStream \<Rightarrow> fd_result" where
  "DuplexStreamCloudNormalCloseCallback st =
     Inr (st\<lparr>fd_cloudStatus := ENDPOINT_DONE\<rparr>, close_socket (fd_cloudSocket st) @
       (if fd_cloudBuffer st = [] then close_socket (fd_endSocket st) else []))"

definition DuplexStreamCloudErrorCloseCallback :: "CybertwinFullDuplexStream \<Rightarrow> fd_result" where
  "DuplexStreamCloudErrorCloseCallback st =
     Inr (st\<lparr>fd_cloudStatus := ENDPOINT_DISCONNECTED\<rparr>, [])"

definition Deactivate :: "CybertwinFullDuplexStream \<Rightarrow> fd_result" where
  "Deactivate st = Inr (st, close_socket (fd_endSocket st) @ close_socket (fd_cloudSocket st))"

section \<open>Receiving\<close>

text \<open>
  \<^verbatim>\<open>RemoveHeader\<close> returns the number of bytes it took off; the code takes a non-zero
  number to mean that the packet was a request.
\<close>

fun EndRecv_loop :: "packet list \<Rightarrow> CybertwinFullDuplexStream \<Rightarrow> fd_result" where
  "EndRecv_loop [] st = Inr (st, [])"
| "EndRecv_loop (pkt # pkts) st =
     from_option BadBuffer (PeekHeader (CybertwinHeader_Deserialize CybertwinHeader_new) pkt)
       (\<lambda>(header, n).
          if n \<noteq> 0 then
            if ch_command header = ENDHOST_STOP_STREAM then
              EndRecv_loop pkts (st\<lparr>fd_endStatus := ENDPOINT_END_STOP, fd_sendToEndEvent := False\<rparr>)
            else if ch_command header = ENDHOST_START_STREAM then
              then_do (EndRecv_loop pkts
                  (st\<lparr>fd_endStatus := ENDPOINT_CONNECTED, fd_sendToEndEvent := True\<rparr>))
                (\<lambda>(st, acts). Inr (st, FD_Schedule 0 EvOuputCloudBuffer # acts))
            else EndRecv_loop pkts st
          else if length (fd_endBuffer st) > 100000 then EndRecv_loop pkts st
          else EndRecv_loop pkts (st\<lparr>fd_endBuffer := fd_endBuffer st @ [RemoveAtStart n pkt]\<rparr>))"

definition DuplexStreamEndRecvCallback ::
  "packet list \<Rightarrow> CybertwinFullDuplexStream \<Rightarrow> fd_result" where
  "DuplexStreamEndRecvCallback pkts st =
     then_do (EndRecv_loop pkts st)
       (\<lambda>(st, acts). if fd_sendToCloudEvent st then Inr (st, acts)
          else Inr (st\<lparr>fd_sendToCloudEvent := True\<rparr>, acts @ [FD_Schedule 0 EvOuputEndBuffer]))"

fun CloudRecv_loop :: "packet list \<Rightarrow> packet list \<Rightarrow> packet list" where
  "CloudRecv_loop [] buf = buf"
| "CloudRecv_loop (pkt # pkts) buf =
     (if length buf > 100000 then CloudRecv_loop pkts buf else CloudRecv_loop pkts (buf @ [pkt]))"

definition DuplexStreamCloudRecvCallback ::
  "packet list \<Rightarrow> CybertwinFullDuplexStream \<Rightarrow> fd_result" where
  "DuplexStreamCloudRecvCallback pkts st =
     (let st = st\<lparr>fd_cloudBuffer := CloudRecv_loop pkts (fd_cloudBuffer st)\<rparr>
      in if fd_sendToEndEvent st then Inr (st, [])
         else Inr (st\<lparr>fd_sendToEndEvent := True\<rparr>, [FD_Schedule 0 EvOuputCloudBuffer]))"

section \<open>Rate-limited output\<close>

text \<open>
  \<open>bits\<close> over \<open>ns\<close> nanoseconds reach \<open>limit\<close> megabits per second.  Over an empty
  interval the quotient is infinite, or not a number when there are no bits, and then the
  comparison is false.
\<close>

definition throughput_reaches :: "u64 \<Rightarrow> int \<Rightarrow> rat \<Rightarrow> bool" where
  "throughput_reaches bits ns limit =
     (if ns = 0 then bits \<noteq> 0 else limit * of_int ns \<le> of_int (uint bits * 1000))"

text \<open>\<open>send1\<close> and \<open>send2\<close> are the results of the two calls of \<^verbatim>\<open>Send\<close>.\<close>

definition OuputEndBuffer ::
  "bool \<Rightarrow> int \<Rightarrow> (packet \<Rightarrow> int) \<Rightarrow> (packet \<Rightarrow> int) \<Rightarrow> CybertwinFullDuplexStream \<Rightarrow> fd_result" where
  "OuputEndBuffer own now send1 send2 st =
     (let st = (if own then st\<lparr>fd_sendToCloudEvent := False\<rparr> else st);
          again = (\<lambda>st acts. Inr (st\<lparr>fd_sendToCloudEvent := True\<rparr>,
                     acts @ [FD_Schedule 10000 EvOuputEndBuffer]))
      in case fd_cloudSocket st of
           None \<Rightarrow> Inr (st, [])
         | Some c \<Rightarrow>
             (case fd_endBuffer st of
                [] \<Rightarrow> Inr (st, [])
              | pkt # rest \<Rightarrow>
                  if fd_cloudStatus st \<noteq> ENDPOINT_CONNECTED then Inr (st, [])
                  else if throughput_reaches ((fd_sendToCloudBytes st + of_nat (GetSize pkt)) * 8)
                            (now - fd_endStartTime st) (fd_cloudRateLimit st) then again st []
                  else if send1 pkt \<le> 0 then again st [FD_Send c pkt]
                  else again (st\<lparr>fd_sendToCloudBytes := fd_sendToCloudBytes st + of_int (send2 pkt),
                                 fd_endBuffer := rest\<rparr>) [FD_Send c pkt, FD_Send c pkt]))"

definition OuputCloudBuffer ::
  "bool \<Rightarrow> int \<Rightarrow> (packet \<Rightarrow> int) \<Rightarrow> CybertwinFullDuplexStream \<Rightarrow> fd_result" where
  "OuputCloudBuffer own now send st =
     (let st = (if own then st\<lparr>fd_sendToEndEvent := False\<rparr> else st);
          again = (\<lambda>st acts. Inr (st\<lparr>fd_sendToEndEvent := True\<rparr>,
                     acts @ [FD_Schedule 10000 EvOuputCloudBuffer]))
      in case fd_cloudBuffer st of
           [] \<Rightarrow> Inr (st, if fd_cloudStatus st = ENDPOINT_DONE
                          then close_socket (fd_endSocket st) else [])
         | pkt # rest \<Rightarrow>
             if fd_endStatus st = ENDPOINT_END_STOP then Inr (st, [])
             else if throughput_reaches ((fd_sendToEndBytes st + of_nat (GetSize pkt)) * 8)
                       (now - fd_cloudStartTime st) (fd_cloudRateLimit st) then again st []
             else from_option NullPointer (fd_endSocket st)
               (\<lambda>s. if send pkt \<le> 0 then again st [FD_Send s pkt]
                    else again (st\<lparr>fd_sendToEndBytes := fd_sendToEndBytes st + of_int (send pkt),
                                   fd_cloudBuffer := rest\<rparr>) [FD_Send s pkt]))"

section \<open>From the cloud to the end host\<close>

text \<open>
  A run of the cloud-to-end direction: batches of packets that arrive from the cloud, and
  output events.  Besides the state, a run yields the packets the end host's socket accepted.
\<close>

datatype cloud_event = FromCloud "packet list" | Output bool int "packet \<Rightarrow> int"

definition accepted :: "(packet \<Rightarrow> int) \<Rightarrow> fd_action list \<Rightarrow> packet list" where
  "accepted send acts =
     concat (map (\<lambda>a. case a of FD_Send s p \<Rightarrow> (if send p > 0 then [p] else []) | _ \<Rightarrow> []) acts)"

fun cloud_run ::
  "cloud_event list \<Rightarrow> CybertwinFullDuplexStream \<Rightarrow> (CybertwinFullDuplexStream \<times> packet list) outcome" where
  "cloud_run [] st = Inr (st, [])"
| "cloud_run (FromCloud pkts # es) st =
     then_do (DuplexStreamCloudRecvCallback pkts st) (\<lambda>(st, _). cloud_run es st)"
| "cloud_run (Output own now send # es) st =
     then_do (OuputCloudBuffer own now send st)
       (\<lambda>(st, acts). then_do (cloud_run es st) (\<lambda>(st, sent). Inr (st, accepted send acts @ sent)))"

fun from_cloud :: "cloud_event list \<Rightarrow> packet list" where
  "from_cloud [] = []"
| "from_cloud (FromCloud pkts # es) = pkts @ from_cloud es"
| "from_cloud (Output _ _ _ # es) = from_cloud es"

lemma accepted_simps [simp]:
  "accepted send [] = []"
  "accepted send (FD_Send s p # acts) = (if send p > 0 then [p] else []) @ accepted send acts"
  "accepted send (FD_Schedule t e # acts) = accepted send acts"
  "accepted send (FD_Close s # acts) = accepted send acts"
  by (simp_all add: accepted_def)

lemma accepted_close [simp]: "accepted send (close_socket s) = []"
  by (simp add: close_socket_def split: option.splits)

lemma CloudRecv_loop_room:
  "length buf + length pkts \<le> 100000 \<Longrightarrow> CloudRecv_loop pkts buf = buf @ pkts"
  by (induction pkts arbitrary: buf) auto

text \<open>What an output event does: it takes at most the oldest packet, within the limit.\<close>

definition one_output ::
  "int \<Rightarrow> (packet \<Rightarrow> int) \<Rightarrow> CybertwinFullDuplexStream \<Rightarrow> CybertwinFullDuplexStream \<Rightarrow> packet list \<Rightarrow> bool"
  where
  "one_output now send st st' out \<longleftrightarrow>
     fd_cloudBuffer st = out @ fd_cloudBuffer st' \<and> fd_endSocket st' = fd_endSocket st \<and>
     fd_cloudRateLimit st' = fd_cloudRateLimit st \<and> fd_cloudStartTime st' = fd_cloudStartTime st \<and>
     (out = [] \<and> fd_sendToEndBytes st' = fd_sendToEndBytes st \<or>
      (\<exists>p. out = [p] \<and> 0 < send p \<and>
        fd_sendToEndBytes st' = fd_sendToEndBytes st + of_int (send p) \<and>
        \<not> throughput_reaches ((fd_sendToEndBytes st + of_nat (GetSize p)) * 8)
            (now - fd_cloudStartTime st) (fd_cloudRateLimit st)))"

lemma OuputCloudBuffer_step:
  assumes "fd_endSocket st = Some s"
  shows "\<exists>st' acts. OuputCloudBuffer own now send st = Inr (st', acts) \<and>
    one_output now send st st' (accepted send acts)"
proof (cases "fd_cloudBuffer st")
  case Nil
  with assms show ?thesis
    by (cases own) (simp_all add: OuputCloudBuffer_def one_output_def Let_def)
next
  case (Cons pkt rest)
  with assms show ?thesis
    by (cases own) (simp_all add: OuputCloudBuffer_def one_output_def Let_def)
qed

lemma CloudRecv_step:
  assumes "length (fd_cloudBuffer st) + length pkts \<le> 100000"
  shows "\<exists>st' acts. DuplexStreamCloudRecvCallback pkts st = Inr (st', acts) \<and>
    fd_cloudBuffer st' = fd_cloudBuffer st @ pkts \<and> fd_endSocket st' = fd_endSocket st \<and>
    fd_cloudRateLimit st' = fd_cloudRateLimit st \<and> fd_cloudStartTime st' = fd_cloudStartTime st \<and>
    fd_sendToEndBytes st' = fd_sendToEndBytes st"
  using assms
  by (cases "fd_sendToEndEvent st")
    (simp_all add: DuplexStreamCloudRecvCallback_def CloudRecv_loop_room)

lemma cloud_run_order:
  assumes "fd_endSocket st = Some s"
    and "length (fd_cloudBuffer st) + length (from_cloud es) \<le> 100000"
  shows "\<exists>st' sent. cloud_run es st = Inr (st', sent) \<and>
    fd_cloudBuffer st @ from_cloud es = sent @ fd_cloudBuffer st'"
  using assms
proof (induction es arbitrary: st rule: from_cloud.induct)
  case (2 pkts es)
  from 2(3) have "length (fd_cloudBuffer st) + length pkts \<le> 100000" by simp
  then obtain st1 acts where step: "DuplexStreamCloudRecvCallback pkts st = Inr (st1, acts)"
    "fd_cloudBuffer st1 = fd_cloudBuffer st @ pkts" "fd_endSocket st1 = fd_endSocket st"
    using CloudRecv_step by blast
  from step 2(2,3) show ?case
    using 2(1) [of st1] by simp
next
  case (3 own now send es)
  from 3(2) obtain st1 acts where step: "OuputCloudBuffer own now send st = Inr (st1, acts)"
    "one_output now send st st1 (accepted send acts)"
    using OuputCloudBuffer_step by blast
  then obtain st2 sent where "cloud_run es st1 = Inr (st2, sent)"
    "fd_cloudBuffer st1 @ from_cloud es = sent @ fd_cloudBuffer st2"
    using 3(1) [of st1] 3(2,3) by (auto simp: one_output_def)
  with step show ?case by (simp add: one_output_def)
qed simp

text \<open>Events in the order of the clock, with a socket that accepts at most the whole packet.\<close>

fun clock_ok :: "int \<Rightarrow> cloud_event list \<Rightarrow> bool" where
  "clock_ok t [] = True"
| "clock_ok t (FromCloud pkts # es) = clock_ok t es"
| "clock_ok t (Output own now send # es) =
     (t \<le> now \<and> (\<forall>p. send p \<le> int (GetSize p)) \<and> clock_ok now es)"

fun clock_end :: "int \<Rightarrow> cloud_event list \<Rightarrow> int" where
  "clock_end t [] = t"
| "clock_end t (FromCloud pkts # es) = clock_end t es"
| "clock_end t (Output own now send # es) = clock_end now es"

definition bytes_of :: "packet list \<Rightarrow> nat" where
  "bytes_of ps = sum_list (map GetSize ps)"

lemma bytes_of_simps [simp]:
  "bytes_of [] = 0" "bytes_of (p # ps) = GetSize p + bytes_of ps"
  "bytes_of (ps @ qs) = bytes_of ps + bytes_of qs"
  by (simp_all add: bytes_of_def)

definition rate_inv :: "int \<Rightarrow> nat \<Rightarrow> CybertwinFullDuplexStream \<Rightarrow> bool" where
  "rate_inv now coming st \<longleftrightarrow> fd_cloudStartTime st \<le> now \<and> 0 \<le> fd_cloudRateLimit st \<and>
     of_int (uint (fd_sendToEndBytes st) * 8000) \<le>
       fd_cloudRateLimit st * of_int (now - fd_cloudStartTime st) \<and>
     uint (fd_sendToEndBytes st) + int (bytes_of (fd_cloudBuffer st)) + int coming < 2 ^ 60"

lemma rate_inv_mono:
  assumes "rate_inv t n st" and "t \<le> now"
  shows "rate_inv now n st"
proof -
  have "fd_cloudRateLimit st * of_int (t - fd_cloudStartTime st) \<le>
      fd_cloudRateLimit st * of_int (now - fd_cloudStartTime st)"
    using assms by (intro mult_left_mono) (auto simp: rate_inv_def)
  with assms show ?thesis
    unfolding rate_inv_def by linarith
qed

lemma uint_plus_small:
  fixes x :: u64
  assumes "uint x + k < 2 ^ 60" and "0 \<le> k"
  shows "uint (x + of_int k) = uint x + k" and "uint ((x + of_int k) * 8) = (uint x + k) * 8"
proof -
  have "x + of_int k = word_of_int (uint x + k)"
    by simp
  then show "uint (x + of_int k) = uint x + k"
    using assms uint_ge_0 [of x] by (simp only: uint_word_of_int) simp
  have "(x + of_int k) * 8 = word_of_int ((uint x + k) * 8)"
    by (simp add: distrib_right)
  then show "uint ((x + of_int k) * 8) = (uint x + k) * 8"
    using assms uint_ge_0 [of x] by (simp only: uint_word_of_int) simp
qed

lemma rate_inv_output:
  assumes inv: "rate_inv now n st" and out: "one_output now send st st' out"
    and send: "\<forall>p. send p \<le> int (GetSize p)"
  shows "rate_inv now n st'"
proof (cases "out = []")
  case True
  with inv out show ?thesis by (auto simp: rate_inv_def one_output_def)
next
  case False
  let ?x = "fd_sendToEndBytes st" and ?ns = "now - fd_cloudStartTime st"
  from False out obtain p where p: "out = [p]" "0 < send p"
    "fd_sendToEndBytes st' = ?x + of_int (send p)"
    "\<not> throughput_reaches ((?x + of_nat (GetSize p)) * 8) ?ns (fd_cloudRateLimit st)"
    by (auto simp: one_output_def)
  have buf: "fd_cloudBuffer st = p # fd_cloudBuffer st'"
    using out p(1) by (simp add: one_output_def)
  have small: "uint ?x + int (GetSize p) < 2 ^ 60"
    using inv by (simp add: rate_inv_def buf)
  have le: "send p \<le> int (GetSize p)"
    using send by blast
  have new: "uint (fd_sendToEndBytes st') = uint ?x + send p"
    using p(2,3) small le uint_plus_small(1) [of ?x "send p"] by simp
  have bits: "uint ((?x + of_nat (GetSize p)) * 8) = (uint ?x + int (GetSize p)) * 8"
    using uint_plus_small(2) [OF small] by simp
  then have "(?x + of_nat (GetSize p)) * 8 \<noteq> 0"
    using p(2) le uint_ge_0 [of ?x] by (metis add_nonneg_pos less_le_trans mult_pos_pos
        order_less_irrefl uint_0_eq zero_less_numeral)
  with p(4) have "of_int ((uint ?x + int (GetSize p)) * 8 * 1000) < fd_cloudRateLimit st * of_int ?ns"
    unfolding throughput_reaches_def bits not_le by (simp only: not_le split: if_splits)
  moreover have "(of_int (uint (fd_sendToEndBytes st') * 8000) :: rat) \<le>
      of_int ((uint ?x + int (GetSize p)) * 8 * 1000)"
    unfolding of_int_le_iff new using le by simp
  ultimately have "of_int (uint (fd_sendToEndBytes st') * 8000) \<le> fd_cloudRateLimit st * of_int ?ns"
    by linarith
  with inv out new le buf show ?thesis
    by (auto simp: rate_inv_def one_output_def)
qed

lemma cloud_run_rate:
  assumes "fd_endSocket st = Some s" and "rate_inv t (bytes_of (from_cloud es)) st"
    and "length (fd_cloudBuffer st) + length (from_cloud es) \<le> 100000" and "clock_ok t es"
  shows "\<exists>st' sent. cloud_run es st = Inr (st', sent) \<and> rate_inv (clock_end t es) 0 st' \<and>
    fd_cloudRateLimit st' = fd_cloudRateLimit st \<and> fd_cloudStartTime st' = fd_cloudStartTime st"
  using assms
proof (induction t es arbitrary: st rule: clock_end.induct)
  case (2 t pkts es)
  from 2(4) have "length (fd_cloudBuffer st) + length pkts \<le> 100000" by simp
  then obtain st1 acts where step: "DuplexStreamCloudRecvCallback pkts st = Inr (st1, acts)"
    "fd_cloudBuffer st1 = fd_cloudBuffer st @ pkts" "fd_endSocket st1 = fd_endSocket st"
    "fd_cloudRateLimit st1 = fd_cloudRateLimit st" "fd_cloudStartTime st1 = fd_cloudStartTime st"
    "fd_sendToEndBytes st1 = fd_sendToEndBytes st"
    using CloudRecv_step by blast
  then have "rate_inv t (bytes_of (from_cloud es)) st1"
    using 2(3) by (simp add: rate_inv_def)
  with step 2(2,4,5) show ?case
    using 2(1) [of st1] by simp
next
  case (3 t own now send es)
  from 3(2) obtain st1 acts where step: "OuputCloudBuffer own now send st = Inr (st1, acts)"
    and one: "one_output now send st st1 (accepted send acts)"
    using OuputCloudBuffer_step by blast
  have ok: "t \<le> now" "\<forall>p. send p \<le> int (GetSize p)" "clock_ok now es"
    "rate_inv t (bytes_of (from_cloud es)) st"
    using 3(3,5) by simp_all
  have "rate_inv now (bytes_of (from_cloud es)) st1"
    using rate_inv_output [OF rate_inv_mono [OF ok(4,1)] one ok(2)] .
  moreover have "length (fd_cloudBuffer st1) \<le> length (fd_cloudBuffer st)"
    using one by (simp add: one_output_def)
  ultimately obtain st2 sent where "cloud_run es st1 = Inr (st2, sent)"
    "rate_inv (clock_end now es) 0 st2" "fd_cloudRateLimit st2 = fd_cloudRateLimit st1"
    "fd_cloudStartTime st2 = fd_cloudStartTime st1"
    using 3(1) [of st1] 3(2,4) ok(3) one unfolding one_output_def by fastforce
  with step one show ?case by (simp add: one_output_def)
qed simp

text \<open>
  C37: The stream relays the cloud's packets faithfully.  As long as its buffer has room, any run
  of arrivals and output events ends normally, and the packets the end host's socket accepted
  are the oldest ones, each once and in the order in which they came from the cloud, while the
  rest is still buffered.
\<close>

theorem duplex_relays_in_order:
  assumes "fd_endSocket st = Some s"
    and "length (fd_cloudBuffer st) + length (from_cloud es) \<le> 100000"
  shows "\<exists>st' sent. cloud_run es st = Inr (st', sent) \<and>
    fd_cloudBuffer st @ from_cloud es = sent @ fd_cloudBuffer st'"
  using assms by (rule cloud_run_order)

definition example_stream :: CybertwinFullDuplexStream where
  "example_stream = (CybertwinFullDuplexStream_new 5 6 1 2)\<lparr>fd_endSocket := Some 7\<rparr>"

theorem duplex_relays_in_order_witness:
  "\<exists>st' sent. cloud_run [FromCloud [Create_Packet 3], Output True 1000 (\<lambda>p. 3)] example_stream =
     Inr (st', sent) \<and> [Create_Packet 3] = sent @ fd_cloudBuffer st'"
  using duplex_relays_in_order
    [of example_stream 7 "[FromCloud [Create_Packet 3], Output True 1000 (\<lambda>p. 3)]"]
  by (simp add: example_stream_def CybertwinFullDuplexStream_new_def del: cloud_run.simps)

text \<open>
  After its activation the stream keeps the rate limit towards the end host: when events
  happen in the order of the clock and the socket accepts at most the whole packet, the bits it
  has taken never exceed the limit in megabits per second times the time since the activation.
\<close>

theorem duplex_rate_limit:
  assumes "fd_endSocket st = Some s" and "0 \<le> fd_cloudRateLimit st" and "clock_ok t es"
    and "length (fd_cloudBuffer st) + length (from_cloud es) \<le> 100000"
    and "bytes_of (fd_cloudBuffer st) + bytes_of (from_cloud es) < 2 ^ 60"
  shows "\<exists>st0 acts st' sent. Activate t st = Inr (st0, acts) \<and> cloud_run es st0 = Inr (st', sent) \<and>
    of_int (uint (fd_sendToEndBytes st') * 8 * 1000) \<le>
      fd_cloudRateLimit st * of_int (clock_end t es - t)"
proof -
  obtain st0 acts where act: "Activate t st = Inr (st0, acts)" "fd_sendToEndBytes st0 = 0"
    "fd_cloudBuffer st0 = fd_cloudBuffer st" "fd_cloudStartTime st0 = t"
    "fd_endSocket st0 = Some s" "fd_cloudRateLimit st0 = fd_cloudRateLimit st"
    using assms(1) by (cases "fd_cloudSocket st") (auto simp: Activate_def)
  have "int (bytes_of (fd_cloudBuffer st)) + int (bytes_of (from_cloud es)) < 2 ^ 60"
    using assms(5) by simp
  then have "rate_inv t (bytes_of (from_cloud es)) st0"
    using act assms(2) by (simp add: rate_inv_def)
  then obtain st' sent where "cloud_run es st0 = Inr (st', sent)" "rate_inv (clock_end t es) 0 st'"
    "fd_cloudRateLimit st' = fd_cloudRateLimit st" "fd_cloudStartTime st' = t"
    using cloud_run_rate [of st0 s t es] act assms(3,4) by auto
  with act show ?thesis
    by (auto simp: rate_inv_def)
qed

theorem duplex_rate_limit_witness:
  "\<exists>st0 acts st' sent. Activate 0 example_stream = Inr (st0, acts) \<and>
     cloud_run [FromCloud [Create_Packet 3], Output True 1000 (\<lambda>p. 0)] st0 = Inr (st', sent) \<and>
     of_int (uint (fd_sendToEndBytes st') * 8 * 1000) \<le> (100::rat) * of_int (1000 - 0)"
  using duplex_rate_limit
    [of example_stream 7 0 "[FromCloud [Create_Packet 3], Output True 1000 (\<lambda>p. 0)]"]
  by (simp add: example_stream_def CybertwinFullDuplexStream_new_def GetSize_def Create_Packet_def
      del: cloud_run.simps)

section \<open>From the end host to the cloud\<close>

lemma CybertwinHeader_Peek_size:
  "PeekHeader (CybertwinHeader_Deserialize h0) pkt = Some (h, n) \<Longrightarrow> n = 24"
  by (auto simp: PeekHeader_def CybertwinHeader_Deserialize_def bind_eq_Some_conv
      CybertwinHeader_GetSerializedSize_def)

lemma EndRecv_loop_buffer:
  "EndRecv_loop pkts st = Inr (st', acts) \<Longrightarrow> fd_endBuffer st' = fd_endBuffer st"
proof (induction pkts arbitrary: st acts)
  case (Cons pkt pkts)
  then obtain h n where h: "PeekHeader (CybertwinHeader_Deserialize CybertwinHeader_new) pkt = Some (h, n)"
    by auto
  with Cons show ?case
    by (auto simp: CybertwinHeader_Peek_size [OF h] split: if_splits)
qed simp

text \<open>
  Data from the end host does not reach the cloud as it should.  Every packet received from
  the end host is taken for a request, because removing the header always reports the header's
  size, so that the buffer towards the cloud never grows; and a packet that is in that buffer
  is written to the cloud's socket twice.
\<close>

theorem duplex_end_data:
  "(DuplexStreamEndRecvCallback pkts st = Inr (st', acts) \<longrightarrow> fd_endBuffer st' = fd_endBuffer st) \<and>
   (fd_cloudSocket st = Some c \<and> fd_endBuffer st = p # rest \<and>
      fd_cloudStatus st = ENDPOINT_CONNECTED \<and> send1 p > 0 \<and>
      \<not> throughput_reaches ((fd_sendToCloudBytes st + of_nat (GetSize p)) * 8)
          (now - fd_endStartTime st) (fd_cloudRateLimit st) \<longrightarrow>
    (\<exists>st''. OuputEndBuffer own now send1 send2 st =
        Inr (st'', [FD_Send c p, FD_Send c p, FD_Schedule 10000 EvOuputEndBuffer]) \<and>
      fd_endBuffer st'' = rest))"
proof (intro conjI impI)
  assume "DuplexStreamEndRecvCallback pkts st = Inr (st', acts)"
  then show "fd_endBuffer st' = fd_endBuffer st"
    by (auto simp: DuplexStreamEndRecvCallback_def dest: EndRecv_loop_buffer split: if_splits)
next
  assume "fd_cloudSocket st = Some c \<and> fd_endBuffer st = p # rest \<and>
      fd_cloudStatus st = ENDPOINT_CONNECTED \<and> send1 p > 0 \<and>
      \<not> throughput_reaches ((fd_sendToCloudBytes st + of_nat (GetSize p)) * 8)
          (now - fd_endStartTime st) (fd_cloudRateLimit st)"
  then show "\<exists>st''. OuputEndBuffer own now send1 send2 st =
        Inr (st'', [FD_Send c p, FD_Send c p, FD_Schedule 10000 EvOuputEndBuffer]) \<and>
      fd_endBuffer st'' = rest"
    by (cases own) (simp_all add: OuputEndBuffer_def Let_def)
qed

theorem duplex_end_data_witness:
  "\<exists>st''. OuputEndBuffer True 1000000000 (\<lambda>p. 3) (\<lambda>p. 3)
      (example_stream\<lparr>fd_cloudSocket := Some 8, fd_cloudStatus := ENDPOINT_CONNECTED,
        fd_sendToCloudBytes := 0, fd_endBuffer := [Create_Packet 3]\<rparr>) =
     Inr (st'', [FD_Send 8 (Create_Packet 3), FD_Send 8 (Create_Packet 3),
       FD_Schedule 10000 EvOuputEndBuffer]) \<and> fd_endBuffer st'' = []"
  using duplex_end_data [of "[]" example_stream example_stream "[]"] duplex_end_data [of "[]"
      "example_stream\<lparr>fd_cloudSocket := Some 8, fd_cloudStatus := ENDPOINT_CONNECTED,
        fd_sendToCloudBytes := 0, fd_endBuffer := [Create_Packet 3]\<rparr>" example_stream "[]" 8
      "Create_Packet 3" "[]" "\<lambda>p. 3" 1000000000 True "\<lambda>p. 3"]
  by (simp add: example_stream_def CybertwinFullDuplexStream_new_def throughput_reaches_def
      GetSize_def Create_Packet_def)

end
