(* ===== verification/Applications.thy ===== *)
theory Applications
  imports Cybertwin_App Manager
begin

text \<open>
  The applications that generate traffic: the download server and client that the helper
  installs (\<^verbatim>\<open>cybertwin-app-download-{server,client}.cc\<close>) and the older ones under
  \<^verbatim>\<open>apps/\<close> (\<^verbatim>\<open>download-server.cc\<close>, \<^verbatim>\<open>download-client.cc\<close>,
  \<^verbatim>\<open>end-host-bulk-send.cc\<close>).

  Sockets and events are numbers; a handler that creates one takes the new number as an
  argument.  The value that \<^verbatim>\<open>Send\<close> returns, the packets a socket has ready, the
  simulation time (nanoseconds) and the draws of a random variable are arguments too.  The log
  files are left out, and so are the throughput figures written to them.
\<close>

section \<open>Actions\<close>

datatype 'e app_action =
    APP_Schedule int 'e
  | APP_ScheduleAs nat int 'e
  | APP_Cancel nat
  | APP_Insert CYBERTWINID_t CYBERTWIN_INTERFACE_LIST_t
  | APP_Listen nat u16
  | APP_Connect nat CYBERTWIN_INTERFACE_t
  | APP_SetRecvCallback nat
  | APP_Send nat packet
  | APP_Close nat

abbreviation SYSTEM_PACKET_SIZE :: nat where
  "SYSTEM_PACKET_SIZE \<equiv> 536"

definition seconds :: "int \<Rightarrow> int" where "seconds n = n * 1000000000"

text \<open>\<^verbatim>\<open>AddPaddingAtEnd\<close> does not set the bytes it adds: they are what the
  memory \<open>pad\<close> holds.\<close>

definition AddPaddingAtEnd :: "(nat \<Rightarrow> u8) \<Rightarrow> nat \<Rightarrow> packet \<Rightarrow> packet" where
  "AddPaddingAtEnd pad sz packet = Packet (pk_bytes packet @ map pad [0..<sz]) 0"

section \<open>CybertwinAppDownloadServer\<close>

record CybertwinAppDownloadServer =
  ds_cybertwinID :: CYBERTWINID_t
  ds_interfaces :: CYBERTWIN_INTERFACE_LIST_t
  ds_maxBytes :: u64
  ds_serverSocket :: "nat option"
  ds_serverPort :: u16
  ds_sendBytes :: "nat \<rightharpoonup> u64"

datatype ds_event = DS_SendData nat

type_synonym ds_result = "(CybertwinAppDownloadServer \<times> ds_event app_action list) outcome"

text \<open>The constructor ignores its arguments; the attributes have their defaults.\<close>

definition CybertwinAppDownloadServer_new ::
  "CYBERTWINID_t \<Rightarrow> CYBERTWIN_INTERFACE_LIST_t \<Rightarrow> CybertwinAppDownloadServer" where
  "CybertwinAppDownloadServer_new cybertwinID interfaces = \<lparr>ds_cybertwinID = 0, ds_interfaces = [],
     ds_maxBytes = 0, ds_serverSocket = None, ds_serverPort = 80, ds_sendBytes = Map.empty\<rparr>"

definition DS_StartApplication ::
  "Ipv4Address list \<Rightarrow> bool \<Rightarrow> nat \<Rightarrow> CybertwinAppDownloadServer \<Rightarrow> ds_result" where
  "DS_StartApplication globalIpList nodeHasCNRS fresh st =
     (let st = st\<lparr>ds_interfaces := ds_interfaces st @ map (\<lambda>ip. (ip, ds_serverPort st)) globalIpList\<rparr>
      in require nodeHasCNRS AssertFailed
           (Inr (st\<lparr>ds_serverSocket := Some fresh\<rparr>,
              [APP_Insert (ds_cybertwinID st) (ds_interfaces st), APP_Listen fresh (ds_serverPort st)])))"

definition DS_StopApplication :: "CybertwinAppDownloadServer \<Rightarrow> ds_result" where
  "DS_StopApplication st =
     Inr (st, case ds_serverSocket st of None \<Rightarrow> [] | Some s \<Rightarrow> [APP_Close s])"

definition DS_ConnRequestCallback :: "nat \<Rightarrow> CybertwinAppDownloadServer \<Rightarrow> bool" where
  "DS_ConnRequestCallback socket st = True"

definition DS_ConnCreatedCallback :: "nat \<Rightarrow> CybertwinAppDownloadServer \<Rightarrow> ds_result" where
  "DS_ConnCreatedCallback socket st =
     Inr (st\<lparr>ds_sendBytes := (ds_sendBytes st)(socket \<mapsto> 0)\<rparr>,
       [APP_SetRecvCallback socket, APP_Schedule 0 (DS_SendData socket)])"

definition DS_SendData_handler ::
  "int \<Rightarrow> nat option \<Rightarrow> CybertwinAppDownloadServer \<Rightarrow> ds_result" where
  "DS_SendData_handler sendSize socket st =
     (case socket of
        None \<Rightarrow> Inr (st, [])
      | Some s \<Rightarrow>
          let (sent, m) = map_get_or 0 (ds_sendBytes st) s;
              st = st\<lparr>ds_sendBytes := m\<rparr>
          in if ds_maxBytes st \<le> sent then Inr (st, [APP_Close s])
             else if sendSize \<le> 0 then Inr (st, [APP_Send s (Create_Packet SYSTEM_PACKET_SIZE)])
             else Inr (st\<lparr>ds_sendBytes := m(s \<mapsto> sent + word_of_int sendSize)\<rparr>,
                    [APP_Send s (Create_Packet SYSTEM_PACKET_SIZE),
                     APP_Schedule (milliseconds 1) (DS_SendData s)]))"

section \<open>CybertwinAppDownloadClient\<close>

record CybertwinAppDownloadClient =
  dc_cybertwinAddr :: Ipv4Address
  dc_cybertwinPort :: u16
  dc_socket :: "nat option"
  dc_nodeName :: string
  dc_targetCybertwinId :: CYBERTWINID_t
  dc_selfCybertwinId :: CYBERTWINID_t

datatype dc_event = DC_StartApplication

type_synonym dc_result = "(CybertwinAppDownloadClient \<times> dc_event app_action list) outcome"

definition CybertwinAppDownloadClient_new :: "u16 \<Rightarrow> CYBERTWINID_t \<Rightarrow> CybertwinAppDownloadClient" where
  "CybertwinAppDownloadClient_new garbagePort garbageId = \<lparr>dc_cybertwinAddr = Ipv4Address_default,
     dc_cybertwinPort = garbagePort, dc_socket = None, dc_nodeName = '''',
     dc_targetCybertwinId = 0, dc_selfCybertwinId = garbageId\<rparr>"

text \<open>The loop that waits for the daemon; no simulation time passes in it.\<close>

fun wait_daemon :: "bool \<Rightarrow> nat \<Rightarrow> dc_event app_action list" where
  "wait_daemon isReg 0 = []"
| "wait_daemon isReg (Suc k) =
     (if \<not> isReg
      then APP_Schedule (seconds 1) DC_StartApplication # wait_daemon isReg k else [])"

text \<open>
  \<open>host\<close> is what the node offers: nothing when it is no end host, else its daemon if it
  has one.
\<close>

definition DC_StartApplication_handler ::
  "CybertwinEndHostDaemon option option \<Rightarrow> string \<Rightarrow> CYBERTWINID_t \<Rightarrow> nat \<Rightarrow>
     CybertwinAppDownloadClient \<Rightarrow> dc_result" where
  "DC_StartApplication_handler host name cuid fresh st =
     from_option AssertFailed host (\<lambda>daemon. from_option AssertFailed daemon (\<lambda>daemon.
       let waits = wait_daemon (ed_isRegisteredToCybertwin daemon) 10;
           st = st\<lparr>dc_nodeName := name, dc_selfCybertwinId := cuid,
             dc_cybertwinAddr := ed_managerAddr daemon, dc_cybertwinPort := ed_cybertwinPort daemon,
             dc_socket := Some fresh\<rparr>
       in Inr (st, waits @ [APP_Connect fresh (dc_cybertwinAddr st, dc_cybertwinPort st)])))"

definition DC_StopApplication :: "CybertwinAppDownloadClient \<Rightarrow> dc_result" where
  "DC_StopApplication st = Inr (st, case dc_socket st of None \<Rightarrow> [] | Some s \<Rightarrow> [APP_Close s])"

definition SendDownloadRequest :: "(nat \<Rightarrow> u8) \<Rightarrow> nat \<Rightarrow> CybertwinAppDownloadClient \<Rightarrow> dc_result" where
  "SendDownloadRequest pad socket st =
     (let header = EndHostHeader_new\<lparr>eh_command := DOWNLOAD_REQUEST, eh_targetID := dc_targetCybertwinId st\<rparr>
      in from_option BadBuffer
           (AddHeader (replicate (EndHostHeader_GetSerializedSize header) 0)
              (EndHostHeader_Serialize header) (Create_Packet 0))
           (\<lambda>packet. Inr (st, [APP_Send socket (AddPaddingAtEnd pad
              (SYSTEM_PACKET_SIZE - EndHostHeader_GetSerializedSize header) packet)])))"

definition DC_ConnectSucceededCallback ::
  "(nat \<Rightarrow> u8) \<Rightarrow> nat \<Rightarrow> CybertwinAppDownloadClient \<Rightarrow> dc_result" where
  "DC_ConnectSucceededCallback pad socket st =
     then_do (SendDownloadRequest pad socket st)
       (\<lambda>(st, acts). Inr (st, APP_SetRecvCallback socket # acts))"

section \<open>DownloadServer\<close>

text \<open>
  The counters are \<^verbatim>\<open>double\<close>s that hold whole numbers below \<open>2 ^ 53\<close>; an event that is
  waiting is in \<open>running\<close>.
\<close>

record DownloadServer =
  bs_cybertwinID :: CYBERTWINID_t
  bs_interfaces :: CYBERTWIN_INTERFACE_LIST_t
  bs_dtServer :: "nat option"
  bs_sendBytes :: "nat \<rightharpoonup> int"
  bs_startTimes :: "nat \<rightharpoonup> int"
  bs_maxMBytes :: u32
  bs_pattern :: string
  bs_sendEvent :: "nat option"

datatype bs_event = BS_BulkSend nat

type_synonym bs_result = "(DownloadServer \<times> bs_event app_action list) outcome"

definition DownloadServer_new ::
  "CYBERTWINID_t \<Rightarrow> CYBERTWIN_INTERFACE_LIST_t \<Rightarrow> DownloadServer" where
  "DownloadServer_new cybertwinID interfaces = \<lparr>bs_cybertwinID = cybertwinID,
     bs_interfaces = interfaces, bs_dtServer = None, bs_sendBytes = Map.empty,
     bs_startTimes = Map.empty, bs_maxMBytes = 0, bs_pattern = ''exponential'', bs_sendEvent = None\<rparr>"

definition BS_Init :: "nat \<Rightarrow> DownloadServer \<Rightarrow> bs_result" where
  "BS_Init fresh st =
     (case bs_interfaces st of
        [] \<Rightarrow> Inl Undefined
      | i # _ \<Rightarrow> Inr (st\<lparr>bs_dtServer := Some fresh\<rparr>, [APP_Listen fresh (snd i)]))"

definition BS_StartApplication :: "bool \<Rightarrow> nat \<Rightarrow> DownloadServer \<Rightarrow> bs_result" where
  "BS_StartApplication nodeHasCNRS fresh st =
     then_do (BS_Init fresh st)
       (\<lambda>(st, acts).
          require (bs_pattern st = ''exponential'' \<or> bs_pattern st = ''constant'') FatalError
          (require nodeHasCNRS NullPointer
             (Inr (st, acts @ [APP_Insert (bs_cybertwinID st) (bs_interfaces st)]))))"

text \<open>\<open>order\<close> is the iteration order of the hash map.\<close>

definition BS_StopApplication :: "nat list \<Rightarrow> DownloadServer \<Rightarrow> bs_result" where
  "BS_StopApplication order st =
     Inr (st, map APP_Close (filter (\<lambda>s. bs_sendBytes st s \<noteq> None) order))"

definition BS_ConnCreatedCallback :: "nat \<Rightarrow> int \<Rightarrow> nat \<Rightarrow> DownloadServer \<Rightarrow> bs_result" where
  "BS_ConnCreatedCallback event now socket st =
     Inr (st\<lparr>bs_sendBytes := (bs_sendBytes st)(socket \<mapsto> 0),
             bs_startTimes := (bs_startTimes st)(socket \<mapsto> now), bs_sendEvent := Some event\<rparr>,
       [APP_SetRecvCallback socket, APP_ScheduleAs event 0 (BS_BulkSend socket)])"

definition BulkSend ::
  "nat \<Rightarrow> int \<Rightarrow> int \<Rightarrow> nat option \<Rightarrow> DownloadServer \<Rightarrow> bs_result" where
  "BulkSend event delay sendSize socket st =
     (case socket of
        None \<Rightarrow> Inr (st, [])
      | Some s \<Rightarrow>
          let (sent, m) = map_get_or 0 (bs_sendBytes st) s;
              st = st\<lparr>bs_sendBytes := m\<rparr>
          in if 100 * 1024 * 1024 \<le> sent then Inr (st, [APP_Close s])
             else
               let st = (if sendSize \<le> 0 then st else st\<lparr>bs_sendBytes := m(s \<mapsto> sent + sendSize)\<rparr>)
               in Inr (st\<lparr>bs_sendEvent := Some event\<rparr>,
                    [APP_Send s (Create_Packet SYSTEM_PACKET_SIZE),
                     APP_ScheduleAs event delay (BS_BulkSend s)]))"

text \<open>Both close callbacks cancel the event that was scheduled last, for whatever socket.\<close>

definition BS_CloseCallback :: "(nat \<Rightarrow> bool) \<Rightarrow> nat \<Rightarrow> DownloadServer \<Rightarrow> bs_result" where
  "BS_CloseCallback running socket st =
     Inr (st, case bs_sendEvent st of
        None \<Rightarrow> [] | Some e \<Rightarrow> (if running e then [APP_Cancel e] else []))"

section \<open>EndHostBulkSend\<close>

record EndHostBulkSend =
  eb_cybertwinAddr :: Ipv4Address
  eb_cybertwinPort :: u16
  eb_socket :: "nat option"
  eb_endSend :: bool
  eb_maxBytes :: u32
  eb_totalSendBytes :: u32
  eb_startTime :: int
  eb_sendBytes1msLogger :: u64
  eb_sendBytes10msLogger :: u64
  eb_sendBytes100msLogger :: u64

datatype eb_event = EB_ConnectCybertwin | EB_SendData | EB_ThroughputLogger int

type_synonym eb_result = "(EndHostBulkSend \<times> eb_event app_action list) outcome"

abbreviation END_HOST_BULK_SEND_TEST_TIME :: int where
  "END_HOST_BULK_SEND_TEST_TIME \<equiv> 500000000"

definition COMM_TEST_CYBERTWIN_ID :: CYBERTWINID_t where
  "COMM_TEST_CYBERTWIN_ID = 18888"

text \<open>
  \<open>host\<close> is the end host's upper address, cybertwin port and whether its cybertwin exists;
  on a node of another class there is none.
\<close>

definition ConnectCybertwin ::
  "(Ipv4Address \<times> u16 \<times> bool) option \<Rightarrow> nat \<Rightarrow> EndHostBulkSend \<Rightarrow> eb_result" where
  "ConnectCybertwin host fresh st =
     (case host of
        None \<Rightarrow> Inr (st, [])
      | Some (upper, port, created) \<Rightarrow>
          if \<not> created then Inr (st, [APP_Schedule (milliseconds 100) EB_ConnectCybertwin])
          else
            let st = st\<lparr>eb_cybertwinAddr := upper, eb_cybertwinPort := port\<rparr>
            in case eb_socket st of
                 Some _ \<Rightarrow> Inr (st, [])
               | None \<Rightarrow> Inr (st\<lparr>eb_socket := Some fresh\<rparr>, [APP_Connect fresh (upper, port)]))"

text \<open>
  The traffic pattern that \<^verbatim>\<open>StartApplication\<close> fixes is the exponential one; the delays drawn
  from it are the parameter \<open>delay\<close> of the handlers below.  \<open>cybertwinNode\<close> tells whether the
  node is a \<^verbatim>\<open>CybertwinNode\<close>.
\<close>

definition EB_StartApplication ::
  "bool \<Rightarrow> (Ipv4Address \<times> u16 \<times> bool) option \<Rightarrow> nat \<Rightarrow> EndHostBulkSend \<Rightarrow> eb_result" where
  "EB_StartApplication cybertwinNode host fresh st =
     (if cybertwinNode then ConnectCybertwin host fresh st else Inr (st, []))"

definition EB_StopApplication :: "EndHostBulkSend \<Rightarrow> eb_result" where
  "EB_StopApplication st = Inr (st, case eb_socket st of None \<Rightarrow> [] | Some s \<Rightarrow> [APP_Close s])"

definition EndSend :: "EndHostBulkSend \<Rightarrow> eb_result" where
  "EndSend st = Inr (st\<lparr>eb_endSend := True\<rparr>, case eb_socket st of None \<Rightarrow> [] | Some s \<Rightarrow> [APP_Close s])"

text \<open>
  The ten attempts after a failed one: \<open>ret i\<close> is what attempt \<open>i\<close> returns; the result is
  the number of further attempts made and the last size.
\<close>

fun send_again :: "(nat \<Rightarrow> int) \<Rightarrow> nat \<Rightarrow> nat \<Rightarrow> int \<Rightarrow> nat \<times> int" where
  "send_again ret 0 i sz = (0, sz)"
| "send_again ret (Suc k) i sz =
     (if 0 < ret i then (1, ret i)
      else let (n, sz) = send_again ret k (i + 1) (ret i) in (n + 1, sz))"

definition EB_SendData_handler ::
  "(nat \<Rightarrow> u8) \<Rightarrow> int \<Rightarrow> (nat \<Rightarrow> int) \<Rightarrow> int \<Rightarrow> EndHostBulkSend \<Rightarrow> eb_result" where
  "EB_SendData_handler pad delay ret now st =
     (if eb_maxBytes st \<noteq> 0 \<and> eb_maxBytes st \<le> eb_totalSendBytes st then EndSend st
      else if END_HOST_BULK_SEND_TEST_TIME \<le> now - eb_startTime st then EndSend st
      else
        let header = CybertwinHeader_new\<lparr>ch_cybertwin := COMM_TEST_CYBERTWIN_ID,
              ch_peer := COMM_TEST_CYBERTWIN_ID, ch_command := CYBERTWIN_HEADER_DATA\<rparr>
        in from_option BadBuffer
             (AddHeader (replicate (CybertwinHeader_GetSerializedSize header) 0)
                (CybertwinHeader_Serialize header) (Create_Packet 0))
             (\<lambda>packet. from_option NullPointer (eb_socket st)
             (\<lambda>socket.
               let packet = AddPaddingAtEnd pad
                     (SYSTEM_PACKET_SIZE - CybertwinHeader_GetSerializedSize header) packet;
                   (again, sz) = (if ret 0 \<le> 0 then send_again ret 10 1 (ret 0) else (0, ret 0));
                   st = (if 0 < sz then st\<lparr>eb_totalSendBytes := eb_totalSendBytes st + word_of_int sz,
                           eb_sendBytes1msLogger := eb_sendBytes1msLogger st + word_of_int sz,
                           eb_sendBytes10msLogger := eb_sendBytes10msLogger st + word_of_int sz,
                           eb_sendBytes100msLogger := eb_sendBytes100msLogger st + word_of_int sz\<rparr>
                         else st)
               in Inr (st, replicate (1 + again) (APP_Send socket packet) @
                    [APP_Schedule delay EB_SendData]))))"

definition EB_ConnectionSucceeded ::
  "(nat \<Rightarrow> u8) \<Rightarrow> int \<Rightarrow> (nat \<Rightarrow> int) \<Rightarrow> int \<Rightarrow> nat \<Rightarrow> EndHostBulkSend \<Rightarrow> eb_result" where
  "EB_ConnectionSucceeded pad delay ret now socket st =
     then_do (EB_SendData_handler pad delay ret now
        (st\<lparr>eb_startTime := now, eb_endSend := False, eb_totalSendBytes := 0,
            eb_sendBytes1msLogger := 0, eb_sendBytes10msLogger := 0, eb_sendBytes100msLogger := 0\<rparr>))
       (\<lambda>(st, acts). Inr (st,
          [APP_SetRecvCallback socket,
           APP_Schedule (milliseconds 1) (EB_ThroughputLogger 1),
           APP_Schedule (milliseconds 10) (EB_ThroughputLogger 10),
           APP_Schedule (milliseconds 100) (EB_ThroughputLogger 100)] @ acts))"

text \<open>The logger's interval is one of 1, 10 and 100 milliseconds.\<close>

definition ThroughputLogger :: "int \<Rightarrow> EndHostBulkSend \<Rightarrow> eb_result" where
  "ThroughputLogger interval st =
     (if eb_endSend st then Inr (st, [])
      else if interval = 1 then
        Inr (st\<lparr>eb_sendBytes1msLogger := 0\<rparr>, [APP_Schedule (milliseconds interval) (EB_ThroughputLogger interval)])
      else if interval = 10 then
        Inr (st\<lparr>eb_sendBytes10msLogger := 0\<rparr>, [APP_Schedule (milliseconds interval) (EB_ThroughputLogger interval)])
      else if interval = 100 then
        Inr (st\<lparr>eb_sendBytes100msLogger := 0\<rparr>, [APP_Schedule (milliseconds interval) (EB_ThroughputLogger interval)])
      else Inr (st, []))"

section \<open>DownloadClient and DownloadStream\<close>

record NaiveStreamInfo =
  nv_streamID :: u32
  nv_startTime :: int
  nv_socket :: "nat option"
  nv_totalBytes :: u64
  nv_realBytes :: u64
  nv_serverAddr :: Ipv4Address
  nv_serverPort :: u16
  nv_offlineBytes :: u32

record DownloadStream =
  st_cuid :: CYBERTWINID_t
  st_streamID :: u32
  st_targetID :: CYBERTWINID_t
  st_socket :: "nat option"
  st_cybertwin :: CYBERTWIN_INTERFACE_t
  st_lastTime :: int
  st_statisticalEvent :: "nat option"
  st_intervalBytes :: u32
  st_totalBytes :: u64
  st_rate :: u8
  st_offlineTime :: u8

record DownloadClient =
  cl_targetServers :: "(CYBERTWINID_t \<times> u8) list"
  cl_streams :: "DownloadStream list"
  cl_maxOfflineTime :: u8
  cl_streamID :: u8
  cl_naiveStreams :: "NaiveStreamInfo list"
  cl_socketToStream :: "nat \<rightharpoonup> nat"

datatype cl_event =
    CL_StartDownloadStreams u8
  | CL_StartNaiveStreams u8 u8
  | CL_SendCreateRequest
  | CL_SendStopRequest
  | CL_SendStartRequest
  | CL_Statistical

type_synonym st_result = "(DownloadStream \<times> cl_event app_action list) outcome"
type_synonym cl_result = "(DownloadClient \<times> cl_event app_action list) outcome"

definition AddTargetServer :: "CYBERTWINID_t \<Rightarrow> u8 \<Rightarrow> DownloadClient \<Rightarrow> DownloadClient" where
  "AddTargetServer cuid rate st = st\<lparr>cl_targetServers := cl_targetServers st @ [(cuid, rate)]\<rparr>"

definition NaiveStream_new :: "nat \<Rightarrow> NaiveStreamInfo" where
  "NaiveStream_new i = \<lparr>nv_streamID = of_nat i, nv_startTime = 0, nv_socket = None, nv_totalBytes = 0,
     nv_realBytes = 0, nv_serverAddr = Ipv4Address_of 0x1E000002, nv_serverPort = 8080,
     nv_offlineBytes = of_nat (i * 1024 * 1024)\<rparr>"

definition StartNaiveDownloadStreams :: "DownloadClient \<Rightarrow> cl_result" where
  "StartNaiveDownloadStreams st =
     (let ids = [0..<unat (cl_maxOfflineTime st)]
      in Inr (st\<lparr>cl_naiveStreams := cl_naiveStreams st @ map NaiveStream_new ids\<rparr>,
           map (\<lambda>i. APP_Schedule 0 (CL_StartNaiveStreams (of_nat (i + 1)) (of_nat i))) ids))"

definition CL_StartApplication :: "bool \<Rightarrow> DownloadClient \<Rightarrow> cl_result" where
  "CL_StartApplication isEndHost st =
     require isEndHost FatalError (StartNaiveDownloadStreams st)"

definition StartOnOffDownloadStreams :: "DownloadClient \<Rightarrow> cl_result" where
  "StartOnOffDownloadStreams st =
     Inr (st, map (\<lambda>i. APP_Schedule 0 (CL_StartDownloadStreams (of_nat (i + 1))))
       [0..<unat (cl_maxOfflineTime st)])"

definition StartNaiveStreams :: "nat \<Rightarrow> int \<Rightarrow> u8 \<Rightarrow> u8 \<Rightarrow> DownloadClient \<Rightarrow> cl_result" where
  "StartNaiveStreams fresh now offlineTime streamID st =
     require (unat streamID < length (cl_naiveStreams st)) Undefined
       (let stream = cl_naiveStreams st ! unat streamID
        in Inr (st\<lparr>cl_naiveStreams := (cl_naiveStreams st)[unat streamID :=
                     stream\<lparr>nv_socket := Some fresh, nv_startTime := now\<rparr>],
                   cl_socketToStream := (cl_socketToStream st)(fresh \<mapsto> unat streamID)\<rparr>,
             [APP_Connect fresh (nv_serverAddr stream, nv_serverPort stream), APP_SetRecvCallback fresh]))"

text \<open>The stream a socket belongs to; the hash map gives a null pointer for any other socket.\<close>

definition NaiveStreamRecvCallback :: "packet list \<Rightarrow> nat \<Rightarrow> DownloadClient \<Rightarrow> cl_result" where
  "NaiveStreamRecvCallback packets socket st =
     from_option NullPointer (cl_socketToStream st socket) (\<lambda>k.
       let got = sum_list (map (\<lambda>p. of_nat (GetSize p)) packets);
           info = cl_naiveStreams st ! k;
           info = info\<lparr>nv_totalBytes := nv_totalBytes info + got, nv_realBytes := nv_realBytes info + got\<rparr>;
           (info, acts) =
             (if nv_offlineBytes info \<noteq> 0 \<and> ucast (nv_offlineBytes info) \<le> nv_realBytes info then
                (info\<lparr>nv_offlineBytes := 0, nv_realBytes := 0\<rparr>,
                 [APP_Close socket, APP_Connect socket (nv_serverAddr info, nv_serverPort info),
                  APP_SetRecvCallback socket])
              else (info, []));
           acts = acts @ (if 10 * 1024 * 1024 \<le> nv_realBytes info then [APP_Close socket] else [])
       in Inr (st\<lparr>cl_naiveStreams := (cl_naiveStreams st)[k := info]\<rparr>, acts))"

definition NaiveStreamClose :: "u8 \<Rightarrow> DownloadClient \<Rightarrow> cl_result" where
  "NaiveStreamClose streamID st =
     require (unat streamID < length (cl_naiveStreams st)) Undefined
       (from_option NullPointer (nv_socket (cl_naiveStreams st ! unat streamID))
          (\<lambda>socket. Inr (st, [APP_Close socket])))"

definition NaiveStreamReconnect :: "u8 \<Rightarrow> DownloadClient \<Rightarrow> cl_result" where
  "NaiveStreamReconnect streamID st =
     require (unat streamID < length (cl_naiveStreams st)) Undefined
       (let stream = cl_naiveStreams st ! unat streamID
        in from_option NullPointer (nv_socket stream)
             (\<lambda>socket. Inr (st, [APP_Connect socket (nv_serverAddr stream, nv_serverPort stream)])))"

definition DownloadStream_new :: "DownloadStream \<Rightarrow> DownloadStream" where
  "DownloadStream_new raw = raw\<lparr>st_socket := None, st_statisticalEvent := None\<rparr>"

definition ST_Activate :: "nat \<Rightarrow> DownloadStream \<Rightarrow> DownloadStream \<times> cl_event app_action list" where
  "ST_Activate fresh st =
     (case st_socket st of
        Some _ \<Rightarrow> (st, [])
      | None \<Rightarrow> (st\<lparr>st_socket := Some fresh\<rparr>, [APP_Connect fresh (st_cybertwin st)]))"

fun create_streams ::
  "DownloadStream \<Rightarrow> nat \<Rightarrow> CYBERTWIN_INTERFACE_t \<Rightarrow> u8 \<Rightarrow> (CYBERTWINID_t \<times> u8) list \<Rightarrow>
     DownloadClient \<Rightarrow> DownloadClient \<times> cl_event app_action list" where
  "create_streams raw fresh cybertwin offlineTime [] st = (st, [])"
| "create_streams raw fresh cybertwin offlineTime (tar # tars) st =
     (let stream = (DownloadStream_new raw)\<lparr>st_streamID := ucast (cl_streamID st), st_targetID := fst tar,
            st_rate := snd tar, st_cuid := 0, st_cybertwin := cybertwin, st_offlineTime := offlineTime\<rparr>;
          (stream, acts) = ST_Activate fresh stream;
          st = st\<lparr>cl_streamID := cl_streamID st + 1, cl_streams := cl_streams st @ [stream]\<rparr>;
          (st, acts') = create_streams raw (fresh + 1) cybertwin offlineTime tars st
      in (st, acts @ acts'))"

definition StartDownloadStreams ::
  "DownloadStream \<Rightarrow> nat \<Rightarrow> CYBERTWIN_INTERFACE_t \<Rightarrow> bool \<Rightarrow> u8 \<Rightarrow> DownloadClient \<Rightarrow> cl_result" where
  "StartDownloadStreams raw fresh cybertwin created offlineTime st =
     (if \<not> created then Inr (st, [APP_Schedule (seconds 1) (CL_StartDownloadStreams offlineTime)])
      else Inr (create_streams raw fresh cybertwin offlineTime (cl_targetServers st) st))"

definition ST_ConnectionSucceeded :: "nat \<Rightarrow> DownloadStream \<Rightarrow> st_result" where
  "ST_ConnectionSucceeded socket st =
     require (st_socket st = Some socket) AssertFailed
       (Inr (st, APP_SetRecvCallback socket #
          concat (map (\<lambda>i. [APP_Schedule (milliseconds (100 * (int i + 1))) CL_SendStopRequest,
                            APP_Schedule (milliseconds (100 * (int i + 1) + 10)) CL_SendStartRequest])
                    [0..<unat (st_offlineTime st)]) @
          [APP_Schedule 100 CL_SendCreateRequest]))"

definition ST_RecvCallback :: "packet list \<Rightarrow> DownloadStream \<Rightarrow> DownloadStream" where
  "ST_RecvCallback packets st = st\<lparr>
     st_intervalBytes := st_intervalBytes st + sum_list (map (\<lambda>p. of_nat (GetSize p)) packets),
     st_totalBytes := st_totalBytes st + sum_list (map (\<lambda>p. of_nat (GetSize p)) packets)\<rparr>"

text \<open>The three requests of a stream differ in their header.\<close>

definition send_request ::
  "(nat \<Rightarrow> u8) \<Rightarrow> CybertwinHeader \<Rightarrow> (nat \<Rightarrow> packet \<Rightarrow> st_result) \<Rightarrow> DownloadStream \<Rightarrow> st_result" where
  "send_request pad header k st =
     from_option BadBuffer
       (AddHeader (replicate (CybertwinHeader_GetSerializedSize header) 0)
          (CybertwinHeader_Serialize header) (Create_Packet 0))
       (\<lambda>packet. from_option NullPointer (st_socket st)
          (\<lambda>socket. k socket (AddPaddingAtEnd pad
             (SYSTEM_PACKET_SIZE - CybertwinHeader_GetSerializedSize header) packet)))"

definition SendCreateRequest ::
  "(nat \<Rightarrow> u8) \<Rightarrow> nat \<Rightarrow> int \<Rightarrow> int \<Rightarrow> DownloadStream \<Rightarrow> st_result" where
  "SendCreateRequest pad event ret now st =
     send_request pad (CybertwinHeader_new\<lparr>ch_command := CREATE_STREAM, ch_cybertwin := st_cuid st,
         ch_peer := st_targetID st, ch_recvRate := st_rate st\<rparr>)
       (\<lambda>socket packet.
          if ret \<le> 0 then Inr (st, [APP_Send socket packet])
          else Inr (st\<lparr>st_lastTime := now, st_intervalBytes := 0, st_totalBytes := 0,
                       st_statisticalEvent := Some event\<rparr>,
                 [APP_Send socket packet, APP_ScheduleAs event (milliseconds 10) CL_Statistical])) st"

definition SendStopRequest :: "(nat \<Rightarrow> u8) \<Rightarrow> DownloadStream \<Rightarrow> st_result" where
  "SendStopRequest pad st =
     send_request pad (CybertwinHeader_new\<lparr>ch_command := ENDHOST_STOP_STREAM, ch_cybertwin := st_cuid st,
         ch_peer := st_targetID st\<rparr>) (\<lambda>socket packet. Inr (st, [APP_Send socket packet])) st"

definition SendStartRequest :: "(nat \<Rightarrow> u8) \<Rightarrow> DownloadStream \<Rightarrow> st_result" where
  "SendStartRequest pad st =
     send_request pad (CybertwinHeader_new\<lparr>ch_command := ENDHOST_START_STREAM, ch_cybertwin := st_cuid st,
         ch_peer := st_targetID st\<rparr>) (\<lambda>socket packet. Inr (st, [APP_Send socket packet])) st"

definition ST_ConnectionNormalClosed :: "(nat \<Rightarrow> bool) \<Rightarrow> DownloadStream \<Rightarrow> st_result" where
  "ST_ConnectionNormalClosed running st =
     Inr (st\<lparr>st_socket := None\<rparr>,
       (case st_statisticalEvent st of
          None \<Rightarrow> [] | Some e \<Rightarrow> (if running e then [APP_Cancel e] else [])) @
       (case st_socket st of None \<Rightarrow> [] | Some s \<Rightarrow> [APP_Close s]))"

definition DownloadThroughputStatistical :: "nat \<Rightarrow> int \<Rightarrow> DownloadStream \<Rightarrow> st_result" where
  "DownloadThroughputStatistical event now st =
     Inr (st\<lparr>st_intervalBytes := 0, st_lastTime := now, st_statisticalEvent := Some event\<rparr>,
       [APP_ScheduleAs event (milliseconds 10) CL_Statistical])"

section \<open>Senders that run to a limit\<close>

text \<open>
  Running a sender's event handler until it schedules no further event; the result is the
  number of packets sent.  A handler that keeps going longer than the fuel gives \<open>None\<close>.
\<close>

fun run_sender :: "('s \<Rightarrow> 's \<times> bool) \<Rightarrow> nat \<Rightarrow> 's \<Rightarrow> (nat \<times> 's) option" where
  "run_sender step 0 st = None"
| "run_sender step (Suc fuel) st =
     (let (st', again) = step st
      in if again then map_option (\<lambda>(n, t). (Suc n, t)) (run_sender step fuel st') else Some (0, st'))"

definition packets_needed :: "nat \<Rightarrow> nat \<Rightarrow> nat" where
  "packets_needed limit packet_size = (limit + packet_size - 1) div packet_size"

text \<open>
  What the three senders promise while every packet is accepted: below the limit a packet more
  is sent and the handler is scheduled again, at the limit it is not.
\<close>

locale paced_sender =
  fixes step :: "'s \<Rightarrow> 's \<times> bool"
    and ok :: "'s \<Rightarrow> bool"
    and sent :: "'s \<Rightarrow> nat"
    and limit packet_size :: nat
  assumes packet_pos: "0 < packet_size"
    and finished: "ok s \<Longrightarrow> limit \<le> sent s \<Longrightarrow> \<not> snd (step s) \<and> sent (fst (step s)) = sent s \<and> ok (fst (step s))"
    and progress: "ok s \<Longrightarrow> sent s < limit \<Longrightarrow>
      snd (step s) \<and> sent (fst (step s)) = sent s + packet_size \<and> ok (fst (step s))"
begin

lemma runs:
  assumes "ok s" and "limit \<le> sent s + n * packet_size"
    and "n = 0 \<or> sent s + (n - 1) * packet_size < limit"
  shows "\<exists>t. run_sender step (Suc n) s = Some (n, t) \<and> sent t = sent s + n * packet_size \<and> ok t"
  using assms
proof (induction n arbitrary: s)
  case 0
  with finished [of s] show ?case
    by (auto split: prod.splits)
next
  case (Suc n)
  then have "sent s < limit"
    by auto
  with progress [OF Suc.prems(1)] obtain s' where s': "step s = (s', True)"
    "sent s' = sent s + packet_size" "ok s'"
    by (cases "step s") auto
  have "n = 0 \<or> sent s' + (n - 1) * packet_size < limit"
    using Suc.prems(3) s'(2) by (cases n) auto
  with Suc.IH [OF s'(3)] Suc.prems(2) s'(2) obtain t where
    "run_sender step (Suc n) s' = Some (n, t)" "sent t = sent s' + n * packet_size" "ok t"
    by auto
  with s' show ?case
    by (auto simp del: run_sender.simps(2) simp: run_sender.simps(2) [of step "Suc n"])
qed

text \<open>From the start: the limit in packets, rounded up.\<close>

lemma completes:
  assumes "ok s" and "sent s = 0"
  shows "\<exists>t. run_sender step (Suc (packets_needed limit packet_size)) s =
      Some (packets_needed limit packet_size, t) \<and>
    sent t = packets_needed limit packet_size * packet_size \<and> ok t \<and> limit \<le> sent t"
proof -
  let ?n = "packets_needed limit packet_size"
  have "limit + packet_size - 1 = ?n * packet_size + (limit + packet_size - 1) mod packet_size"
    by (simp add: packets_needed_def)
  moreover have "(limit + packet_size - 1) mod packet_size < packet_size"
    using packet_pos by simp
  ultimately obtain m r where m: "?n = m" and r: "limit + packet_size - 1 = m * packet_size + r"
    "r < packet_size"
    by blast
  have up: "limit \<le> ?n * packet_size"
    unfolding m using r packet_pos by linarith
  have low: "?n = 0 \<or> (?n - 1) * packet_size < limit"
    unfolding m using r packet_pos by (cases m) auto
  from runs [OF assms(1), of ?n] up low assms(2) show ?thesis
    by (auto simp del: run_sender.simps)
qed

end

declare run_sender.simps(2) [simp del]

text \<open>The handlers as steps of a sender, with every packet accepted in full.\<close>

definition is_schedule :: "'e app_action \<Rightarrow> bool" where
  "is_schedule a = (case a of APP_Schedule _ _ \<Rightarrow> True | APP_ScheduleAs _ _ _ \<Rightarrow> True | _ \<Rightarrow> False)"

definition sender_step :: "('s \<Rightarrow> ('s \<times> 'e app_action list) outcome) \<Rightarrow> 's \<Rightarrow> 's \<times> bool" where
  "sender_step handler st =
     (case handler st of Inl _ \<Rightarrow> (st, False) | Inr (st', acts) \<Rightarrow> (st', \<exists>a \<in> set acts. is_schedule a))"

abbreviation accepted :: int where "accepted \<equiv> int SYSTEM_PACKET_SIZE"

abbreviation ds_sender :: "nat \<Rightarrow> CybertwinAppDownloadServer \<Rightarrow> CybertwinAppDownloadServer \<times> bool" where
  "ds_sender k \<equiv> sender_step (DS_SendData_handler accepted (Some k))"

abbreviation bs_sender :: "nat \<Rightarrow> nat \<Rightarrow> int \<Rightarrow> DownloadServer \<Rightarrow> DownloadServer \<times> bool" where
  "bs_sender k event delay \<equiv> sender_step (BulkSend event delay accepted (Some k))"

abbreviation eb_sender :: "(nat \<Rightarrow> u8) \<Rightarrow> int \<Rightarrow> int \<Rightarrow> EndHostBulkSend \<Rightarrow> EndHostBulkSend \<times> bool" where
  "eb_sender pad delay now \<equiv> sender_step (EB_SendData_handler pad delay (\<lambda>_. accepted) now)"

lemma u64_add:
  "unat (x::u64) < m \<Longrightarrow> m + 536 < 2 ^ 64 \<Longrightarrow> unat (x + 536) = unat x + 536"
  using unat_add_lem [of x 536] by simp

lemma u32_add:
  "unat (x::u32) < m \<Longrightarrow> m + 536 < 2 ^ 32 \<Longrightarrow> unat (x + 536) = unat x + 536"
  using unat_add_lem [of x 536] by simp

definition ds_sent :: "nat \<Rightarrow> CybertwinAppDownloadServer \<Rightarrow> nat" where
  "ds_sent k st = (case ds_sendBytes st k of None \<Rightarrow> 0 | Some n \<Rightarrow> unat n)"

interpretation ds: paced_sender "ds_sender k"
    "\<lambda>st. ds_maxBytes st = m \<and> unat m + 536 < 2 ^ 64 \<and> ds_sendBytes st k \<noteq> None" "ds_sent k" "unat m" SYSTEM_PACKET_SIZE for k m
proof unfold_locales
  show "0 < SYSTEM_PACKET_SIZE" by simp
  fix st :: CybertwinAppDownloadServer assume st: "ds_maxBytes st = m \<and> unat m + 536 < 2 ^ 64 \<and> ds_sendBytes st k \<noteq> None"
  show "\<not> snd (ds_sender k st) \<and> ds_sent k (fst (ds_sender k st)) = ds_sent k st \<and>
      ds_maxBytes (fst (ds_sender k st)) = m \<and> unat m + 536 < 2 ^ 64 \<and>
      ds_sendBytes (fst (ds_sender k st)) k \<noteq> None" if "unat m \<le> ds_sent k st"
    using st that
    by (cases "ds_sendBytes st k")
      (auto simp: sender_step_def DS_SendData_handler_def ds_sent_def is_schedule_def map_get_or_def
        word_le_nat_alt)
  show "snd (ds_sender k st) \<and> ds_sent k (fst (ds_sender k st)) = ds_sent k st + SYSTEM_PACKET_SIZE \<and>
      ds_maxBytes (fst (ds_sender k st)) = m \<and> unat m + 536 < 2 ^ 64 \<and>
      ds_sendBytes (fst (ds_sender k st)) k \<noteq> None" if "ds_sent k st < unat m"
    using st that u64_add
    by (cases "ds_sendBytes st k")
      (auto simp: sender_step_def DS_SendData_handler_def ds_sent_def is_schedule_def map_get_or_def
        word_le_nat_alt)
qed

definition bs_sent :: "nat \<Rightarrow> DownloadServer \<Rightarrow> nat" where
  "bs_sent k st = (case bs_sendBytes st k of None \<Rightarrow> 0 | Some n \<Rightarrow> nat n)"

interpretation bs: paced_sender "bs_sender k event delay"
    "\<lambda>st. \<forall>n. bs_sendBytes st k = Some n \<longrightarrow> 0 \<le> n" "bs_sent k" 104857600 SYSTEM_PACKET_SIZE for k event delay
proof unfold_locales
  show "0 < SYSTEM_PACKET_SIZE" by simp
  fix st :: DownloadServer assume st: "\<forall>n. bs_sendBytes st k = Some n \<longrightarrow> 0 \<le> n"
  show "\<not> snd (bs_sender k event delay st) \<and> bs_sent k (fst (bs_sender k event delay st)) = bs_sent k st \<and>
      (\<forall>n. bs_sendBytes (fst (bs_sender k event delay st)) k = Some n \<longrightarrow> 0 \<le> n)"
    if "104857600 \<le> bs_sent k st"
    using st that
    by (cases "bs_sendBytes st k")
      (auto simp: sender_step_def BulkSend_def bs_sent_def is_schedule_def map_get_or_def)
  show "snd (bs_sender k event delay st) \<and>
      bs_sent k (fst (bs_sender k event delay st)) = bs_sent k st + SYSTEM_PACKET_SIZE \<and>
      (\<forall>n. bs_sendBytes (fst (bs_sender k event delay st)) k = Some n \<longrightarrow> 0 \<le> n)"
    if "bs_sent k st < 104857600"
    using st that
    by (cases "bs_sendBytes st k")
      (auto simp: sender_step_def BulkSend_def bs_sent_def is_schedule_def map_get_or_def)
qed

lemma bulk_header:
  "\<exists>packet. AddHeader (replicate (CybertwinHeader_GetSerializedSize h) 0) (CybertwinHeader_Serialize h)
     (Create_Packet 0) = Some packet"
  using cyb.AddHeader_img [where h = h and fill = "replicate (CybertwinHeader_GetSerializedSize h) 0"]
  by simp

lemma EB_SendData_accepted:
  assumes "eb_socket st = Some s" and "now - eb_startTime st < END_HOST_BULK_SEND_TEST_TIME"
    and "eb_maxBytes st \<noteq> 0" and "eb_totalSendBytes st < eb_maxBytes st"
  shows "snd (eb_sender pad delay now st) \<and>
    eb_totalSendBytes (fst (eb_sender pad delay now st)) = eb_totalSendBytes st + 536 \<and>
    eb_socket (fst (eb_sender pad delay now st)) = Some s \<and>
    eb_startTime (fst (eb_sender pad delay now st)) = eb_startTime st \<and>
    eb_maxBytes (fst (eb_sender pad delay now st)) = eb_maxBytes st"
  using assms
    bulk_header [of "CybertwinHeader_new\<lparr>ch_cybertwin := COMM_TEST_CYBERTWIN_ID,
      ch_peer := COMM_TEST_CYBERTWIN_ID, ch_command := CYBERTWIN_HEADER_DATA\<rparr>"]
  by (auto simp: sender_step_def EB_SendData_handler_def Let_def is_schedule_def)

interpretation eb: paced_sender "eb_sender pad delay now"
    "\<lambda>st. (\<exists>s. eb_socket st = Some s) \<and> now - eb_startTime st < END_HOST_BULK_SEND_TEST_TIME \<and>
       eb_maxBytes st = m \<and> m \<noteq> 0 \<and> unat m + 536 < 2 ^ 32"
    "\<lambda>st. unat (eb_totalSendBytes st)" "unat m" SYSTEM_PACKET_SIZE for pad delay now m
proof unfold_locales
  show "0 < SYSTEM_PACKET_SIZE" by simp
  fix st :: EndHostBulkSend
  assume st: "(\<exists>s. eb_socket st = Some s) \<and> now - eb_startTime st < END_HOST_BULK_SEND_TEST_TIME \<and>
    eb_maxBytes st = m \<and> m \<noteq> 0 \<and> unat m + 536 < 2 ^ 32"
  then obtain s where s: "eb_socket st = Some s" by blast
  let ?st = "fst (eb_sender pad delay now st)"
  show "\<not> snd (eb_sender pad delay now st) \<and> unat (eb_totalSendBytes ?st) = unat (eb_totalSendBytes st) \<and>
      (\<exists>s. eb_socket ?st = Some s) \<and> now - eb_startTime ?st < END_HOST_BULK_SEND_TEST_TIME \<and>
      eb_maxBytes ?st = m \<and> m \<noteq> 0 \<and> unat m + 536 < 2 ^ 32"
    if "unat m \<le> unat (eb_totalSendBytes st)"
    using st that s
    by (simp add: sender_step_def EB_SendData_handler_def EndSend_def is_schedule_def word_le_nat_alt)
  show "snd (eb_sender pad delay now st) \<and>
      unat (eb_totalSendBytes ?st) = unat (eb_totalSendBytes st) + SYSTEM_PACKET_SIZE \<and>
      (\<exists>s. eb_socket ?st = Some s) \<and> now - eb_startTime ?st < END_HOST_BULK_SEND_TEST_TIME \<and>
      eb_maxBytes ?st = m \<and> m \<noteq> 0 \<and> unat m + 536 < 2 ^ 32"
    if "unat (eb_totalSendBytes st) < unat m"
    using st that s EB_SendData_accepted [OF s, of now pad delay] u32_add [of "eb_totalSendBytes st" "unat m"]
    by (simp add: word_less_nat_alt)
qed

section \<open>Properties\<close>



text \<open>
  The older server ignores its configured size: whatever \<^verbatim>\<open>MaxBytes\<close> says, a new
  connection is sent 195630 packets (100 MiB) while the transport accepts them.
\<close>

theorem bulk_send_ignores_size:
  assumes "BS_ConnCreatedCallback e now k (st\<lparr>bs_maxMBytes := maxMBytes\<rparr>) = Inr (st1, acts)"
  shows "\<exists>t. run_sender (bs_sender k event delay) 195631 st1 = Some (195630, t) \<and>
    bs_sent k t = 104857680"
proof -
  have "\<forall>n. bs_sendBytes st1 k = Some n \<longrightarrow> 0 \<le> n" "bs_sent k st1 = 0"
    using assms by (auto simp: BS_ConnCreatedCallback_def bs_sent_def)
  from bs.completes [OF this, of event delay] show ?thesis
    by (auto simp: packets_needed_def)
qed

theorem bulk_send_ignores_size_witness:
  "\<exists>t. run_sender (bs_sender 3 9 40) 195631 (DownloadServer_new 1 []\<lparr>bs_maxMBytes := 1,
      bs_sendBytes := [3 \<mapsto> 0], bs_startTimes := [3 \<mapsto> 5], bs_sendEvent := Some 2\<rparr>) = Some (195630, t) \<and>
    bs_sent 3 t = 104857680"
  by (rule bulk_send_ignores_size [where st = "DownloadServer_new 1 []" and maxMBytes = 1 and e = 2
        and now = 5 and k = 3])
    (simp add: BS_ConnCreatedCallback_def DownloadServer_new_def)

text \<open>
  The end host's bulk sender keeps to its limit: within the test time, and for a limit that
  leaves room for one packet in the 32-bit counter, it sends the packets the limit needs and then
  ends the transfer.
\<close>

theorem bulk_sender_keeps_limit:
  assumes "eb_socket st = Some s" and "now - eb_startTime st < END_HOST_BULK_SEND_TEST_TIME"
    and "eb_maxBytes st \<noteq> 0" and "unat (eb_maxBytes st) + 536 < 2 ^ 32" and "eb_totalSendBytes st = 0"
  shows "\<exists>t. run_sender (eb_sender pad delay now) (Suc (packets_needed (unat (eb_maxBytes st)) 536)) st =
      Some (packets_needed (unat (eb_maxBytes st)) 536, t) \<and>
    unat (eb_totalSendBytes t) = packets_needed (unat (eb_maxBytes st)) 536 * 536"
  using eb.completes [of st now "eb_maxBytes st" pad delay] assms by auto

definition example_bulk :: EndHostBulkSend where
  "example_bulk = \<lparr>eb_cybertwinAddr = Ipv4Address_default, eb_cybertwinPort = 1,
     eb_socket = Some 5, eb_endSend = False, eb_maxBytes = 1000, eb_totalSendBytes = 0, eb_startTime = 0,
     eb_sendBytes1msLogger = 0, eb_sendBytes10msLogger = 0, eb_sendBytes100msLogger = 0\<rparr>"

theorem bulk_sender_keeps_limit_witness:
  "\<exists>t. run_sender (eb_sender (\<lambda>_. 0) 40 0) 3 example_bulk = Some (2, t) \<and>
    unat (eb_totalSendBytes t) = 1072"
  using bulk_sender_keeps_limit [of example_bulk 5 0 "\<lambda>_. 0" 40]
  by (simp add: packets_needed_def example_bulk_def)

text \<open>
  A limit close to the top of the counter is never reached: the counter wraps around and the
  sender starts again.
\<close>

theorem bulk_sender_total_wraps:
  assumes "eb_socket st = Some s" and "now - eb_startTime st < END_HOST_BULK_SEND_TEST_TIME"
    and "eb_maxBytes st = 0xFFFFFFFF" and "eb_totalSendBytes st = 4294966928"
  shows "snd (eb_sender pad delay now st) \<and> eb_totalSendBytes (fst (eb_sender pad delay now st)) = 168"
  using EB_SendData_accepted [OF assms(1,2), of pad delay] assms(3,4) by simp

text \<open>
  A download server whose packet is refused stops for good: below the configured size, a
  \<^verbatim>\<open>Send\<close> that returns no positive number leaves the counters as they are, schedules nothing
  and does not close the connection.
\<close>

theorem refused_send_stalls:
  assumes "ds_sendBytes st k = Some sent" and "sent < ds_maxBytes st" and "r \<le> 0"
  shows "DS_SendData_handler r (Some k) st = Inr (st, [APP_Send k (Create_Packet SYSTEM_PACKET_SIZE)])"
  using assms by (simp add: DS_SendData_handler_def)

theorem refused_send_stalls_witness:
  "DS_SendData_handler (-1) (Some 7) (CybertwinAppDownloadServer_new 1 []\<lparr>ds_maxBytes := 1200,
      ds_sendBytes := [7 \<mapsto> 536]\<rparr>) = Inr (CybertwinAppDownloadServer_new 1 []\<lparr>ds_maxBytes := 1200,
      ds_sendBytes := [7 \<mapsto> 536]\<rparr>, [APP_Send 7 (Create_Packet 536)])"
  by (rule refused_send_stalls [where sent = 536]) (simp_all add: word_less_nat_alt)

text \<open>
  The runs of the download client's start handler, counted by the second in which they happen:
  each run leaves as many successors in the next second as restarts it schedules.
\<close>

definition restarts :: "dc_result \<Rightarrow> nat" where
  "restarts r = (case r of Inl _ \<Rightarrow> 0
     | Inr (_, acts) \<Rightarrow> length (filter (\<lambda>a. a = APP_Schedule (seconds 1) DC_StartApplication) acts))"

fun start_runs :: "(nat \<Rightarrow> CybertwinEndHostDaemon) \<Rightarrow> CybertwinAppDownloadClient \<Rightarrow> nat \<Rightarrow> nat" where
  "start_runs daemon st 0 = 1"
| "start_runs daemon st (Suc sec) = start_runs daemon st sec *
     restarts (DC_StartApplication_handler (Some (Some (daemon sec))) ''host'' 0 0 st)"

lemma wait_daemon_eq:
  "wait_daemon isReg n = (if isReg then [] else replicate n (APP_Schedule (seconds 1) DC_StartApplication))"
  by (induction n) auto

text \<open>
  A download client that is started before its end host is registered multiplies: the loop
  that should wait schedules ten more starts and connects all the same, so after \<open>sec\<close> seconds
  without a registration the handler runs \<open>10 ^ sec\<close> times within one second.
\<close>

theorem download_client_restart_storm:
  assumes "\<forall>j < sec. \<not> ed_isRegisteredToCybertwin (daemon j)"
  shows "start_runs daemon st sec = 10 ^ sec"
  using assms
  by (induction sec)
    (auto simp: restarts_def DC_StartApplication_handler_def Let_def wait_daemon_eq)

theorem download_client_restart_storm_witness:
  "start_runs (\<lambda>_. CybertwinEndHostDaemon_new ''h'' (Ipv4Address_of 1) 0 0)
     (CybertwinAppDownloadClient_new 0 0) 3 = 1000"
  using download_client_restart_storm [of 3 "\<lambda>_. CybertwinEndHostDaemon_new ''h'' (Ipv4Address_of 1) 0 0"]
  by (simp add: CybertwinEndHostDaemon_new_def)

text \<open>
  The one event identifier the older server keeps is that of the event scheduled last: when two
  connections are open, closing the first cancels the transfer on the second.
\<close>

theorem close_cancels_other_transfer:
  assumes "BS_ConnCreatedCallback e1 now k1 st = Inr (st1, acts1)"
    and "BS_ConnCreatedCallback e2 now k2 st1 = Inr (st2, acts2)" and "running e2"
  shows "APP_ScheduleAs e2 0 (BS_BulkSend k2) \<in> set acts2 \<and>
    BS_CloseCallback running k1 st2 = Inr (st2, [APP_Cancel e2])"
  using assms by (auto simp: BS_ConnCreatedCallback_def BS_CloseCallback_def)

end
