(* ===== verification/Addresses.thy ===== *)
theory Addresses
  imports FISim_Prelude
begin

text \<open>
  IPv4 addresses as the topology code produces them: the text form
  (\<^verbatim>\<open>network/utils/ipv4-address.cc\<close>), the generator that remembers every address
  it has handed out (\<^verbatim>\<open>internet/model/ipv4-address-generator.cc\<close>), the helper that
  numbers the devices of one network (\<^verbatim>\<open>internet/helper/ipv4-address-helper.cc\<close>) and
  the two functions of the topology reader that drive it.

  The generator keeps its addresses as a sorted list of blocks; it refines the set of
  addresses allocated so far.  Its singleton is passed explicitly.
\<close>

section \<open>Text\<close>

definition char_code :: "char \<Rightarrow> nat" where
  "char_code c = of_char c"

text \<open>\<^verbatim>\<open>std::to_string\<close> on an unsigned number.\<close>

fun to_string :: "nat \<Rightarrow> string" where
  "to_string n = (if n < 10 then [char_of (48 + n)]
     else to_string (n div 10) @ [char_of (48 + n mod 10)])"

declare to_string.simps [simp del]

text \<open>
  \<^verbatim>\<open>AsciiToIpv4Host\<close>: the arguments are whether the last character was a dot (or none
  was read), the address and the byte read so far, and the 8-bit number of dots.  The string
  ends at a zero character.
\<close>

fun ascii_host :: "bool \<Rightarrow> u32 \<Rightarrow> u8 \<Rightarrow> u8 \<Rightarrow> string \<Rightarrow> u32 outcome" where
  "ascii_host afterDot host byte numberOfDots [] =
     require (\<not> afterDot \<and> numberOfDots = 3) AssertFailed (Inr (shl8_or host byte))"
| "ascii_host afterDot host byte numberOfDots (c # cs) =
     (if c = CHR ''.'' then
        require (\<not> afterDot) AssertFailed
          (ascii_host True (shl8_or host byte) 0 (numberOfDots + 1) cs)
      else ascii_host False host (byte * 10 + (of_nat (char_code c) - 48)) numberOfDots cs)"

definition AsciiToIpv4Host :: "string \<Rightarrow> u32 outcome" where
  "AsciiToIpv4Host address = ascii_host True 0 0 0 (takeWhile (\<lambda>c. c \<noteq> CHR 0x00) address)"

definition Ipv4Address_of_string :: "string \<Rightarrow> Ipv4Address outcome" where
  "Ipv4Address_of_string address = then_do (AsciiToIpv4Host address) (\<lambda>a. Inr (Ipv4Address_of a))"

definition dotted :: "u32 \<Rightarrow> string" where
  "dotted a = to_string (unat (byte_at 24 a)) @ ''.'' @ to_string (unat (byte_at 16 a)) @ ''.'' @
     to_string (unat (byte_at 8 a)) @ ''.'' @ to_string (unat (byte_at 0 a))"

definition Ipv4Address_Print :: "Ipv4Address \<Rightarrow> string" where
  "Ipv4Address_Print a = dotted (m_address a)"

text \<open>
  The number a C string starts with (white space, a sign, digits), as \<^verbatim>\<open>strtol\<close> reads
  it; \<^verbatim>\<open>std::stoi\<close> throws when there is none or when it does not fit an
  \<^verbatim>\<open>int\<close>, \<^verbatim>\<open>std::atoi\<close> gives zero when there is none and is undefined when it does
  not fit.
\<close>

definition is_digit :: "char \<Rightarrow> bool" where
  "is_digit c \<longleftrightarrow> 48 \<le> char_code c \<and> char_code c \<le> 57"

definition is_space :: "char \<Rightarrow> bool" where
  "is_space c \<longleftrightarrow> char_code c = 32 \<or> 9 \<le> char_code c \<and> char_code c \<le> 13"

definition digits_value :: "string \<Rightarrow> nat" where
  "digits_value ds = foldl (\<lambda>n c. n * 10 + (char_code c - 48)) 0 ds"

definition leading_number :: "string \<Rightarrow> int option" where
  "leading_number s =
     (let s = dropWhile is_space s;
          neg = (s \<noteq> [] \<and> hd s = CHR ''-'');
          s = (if s \<noteq> [] \<and> (hd s = CHR ''-'' \<or> hd s = CHR ''+'') then tl s else s);
          ds = takeWhile is_digit s
      in if ds = [] then None
         else Some (if neg then - int (digits_value ds) else int (digits_value ds)))"

definition fits_int :: "int \<Rightarrow> bool" where
  "fits_int n \<longleftrightarrow> - (2 ^ 31) \<le> n \<and> n < 2 ^ 31"

definition stoi :: "string \<Rightarrow> int outcome" where
  "stoi s = from_option InvalidArgument (leading_number s)
     (\<lambda>n. require (fits_int n) OutOfRange (Inr n))"

definition atoi :: "string \<Rightarrow> int outcome" where
  "atoi s = (case leading_number s of None \<Rightarrow> Inr 0 | Some n \<Rightarrow> require (fits_int n) Undefined (Inr n))"

definition Ipv4Mask_of_string :: "string \<Rightarrow> u32 outcome" where
  "Ipv4Mask_of_string msk =
     (case msk of
        CHR ''/'' # rest \<Rightarrow>
          then_do (atoi rest)
            (\<lambda>n. let plen = word_of_int n :: u32
                 in require (plen \<le> 32) AssertFailed
                      (Inr (if 0 < plen then push_bit (unat (32 - plen)) 0xffffffff else 0)))
      | _ \<Rightarrow> AsciiToIpv4Host msk)"

definition CombineMask :: "u32 \<Rightarrow> u32 \<Rightarrow> u32" where
  "CombineMask a msk = a AND msk"

section \<open>The address generator\<close>

record NetworkState =
  ns_mask :: u32
  ns_shift :: nat
  ns_network :: u32
  ns_addr :: u32
  ns_addrMax :: u32

record Entry =
  addrLow :: u32
  addrHigh :: u32

record Ipv4AddressGeneratorImpl =
  ag_netTable :: "NetworkState list"
  ag_entries :: "Entry list"
  ag_test :: bool

type_synonym 'a ag_result = "('a \<times> Ipv4AddressGeneratorImpl) outcome"

abbreviation N_BITS :: nat where
  "N_BITS \<equiv> 32"

fun reset_rows :: "nat \<Rightarrow> nat \<Rightarrow> u32 \<Rightarrow> NetworkState list" where
  "reset_rows 0 i msk = []"
| "reset_rows (Suc k) i msk =
     \<lparr>ns_mask = msk, ns_shift = N_BITS - i, ns_network = 1, ns_addr = 1, ns_addrMax = NOT msk\<rparr>
     # reset_rows k (i + 1) (drop_bit 1 msk OR 0x80000000)"

definition Generator_Reset :: Ipv4AddressGeneratorImpl where
  "Generator_Reset = \<lparr>ag_netTable = reset_rows N_BITS 0 0, ag_entries = [], ag_test = False\<rparr>"

text \<open>The loop that looks for the lowest bit of a mask, from bit \<open>i\<close>.\<close>

fun lowest_bit :: "nat \<Rightarrow> nat \<Rightarrow> u32 \<Rightarrow> nat outcome" where
  "lowest_bit 0 i maskbits = Inl AssertFailed"
| "lowest_bit (Suc k) i maskbits =
     (if maskbits AND 1 \<noteq> 0 then Inr i else lowest_bit k (i + 1) (drop_bit 1 maskbits))"

definition MaskToIndex :: "u32 \<Rightarrow> nat outcome" where
  "MaskToIndex msk =
     then_do (lowest_bit N_BITS 0 msk)
       (\<lambda>i. let index = N_BITS - i
            in require (0 < index \<and> index < N_BITS) FatalError (Inr index))"

definition set_row ::
  "nat \<Rightarrow> (NetworkState \<Rightarrow> NetworkState) \<Rightarrow> Ipv4AddressGeneratorImpl \<Rightarrow> Ipv4AddressGeneratorImpl" where
  "set_row index f st = st\<lparr>ag_netTable := (ag_netTable st)[index := f (ag_netTable st ! index)]\<rparr>"

definition Generator_Init ::
  "u32 \<Rightarrow> u32 \<Rightarrow> u32 \<Rightarrow> Ipv4AddressGeneratorImpl \<Rightarrow> Ipv4AddressGeneratorImpl outcome" where
  "Generator_Init netBits maskBits addrBits st =
     require (netBits AND NOT maskBits = 0) FatalError
     (require (addrBits AND maskBits = 0) FatalError
     (then_do (MaskToIndex maskBits)
       (\<lambda>index.
          let st = set_row index (\<lambda>ns. ns\<lparr>ns_network := drop_bit (ns_shift ns) netBits\<rparr>) st
          in require (addrBits \<le> ns_addrMax (ag_netTable st ! index)) FatalError
               (Inr (set_row index (\<lambda>ns. ns\<lparr>ns_addr := addrBits\<rparr>) st)))))"

definition row_network :: "NetworkState \<Rightarrow> u32" where
  "row_network ns = push_bit (ns_shift ns) (ns_network ns)"

definition GetNetwork :: "u32 \<Rightarrow> Ipv4AddressGeneratorImpl \<Rightarrow> u32 outcome" where
  "GetNetwork msk st =
     then_do (MaskToIndex msk) (\<lambda>index. Inr (row_network (ag_netTable st ! index)))"

definition NextNetwork :: "u32 \<Rightarrow> Ipv4AddressGeneratorImpl \<Rightarrow> u32 ag_result" where
  "NextNetwork msk st =
     then_do (MaskToIndex msk)
       (\<lambda>index. let st = set_row index (\<lambda>ns. ns\<lparr>ns_network := ns_network ns + 1\<rparr>) st
                in Inr (row_network (ag_netTable st ! index), st))"

definition InitAddress ::
  "u32 \<Rightarrow> u32 \<Rightarrow> Ipv4AddressGeneratorImpl \<Rightarrow> Ipv4AddressGeneratorImpl outcome" where
  "InitAddress addrBits msk st =
     then_do (MaskToIndex msk)
       (\<lambda>index. require (addrBits \<le> ns_addrMax (ag_netTable st ! index)) FatalError
          (Inr (set_row index (\<lambda>ns. ns\<lparr>ns_addr := addrBits\<rparr>) st)))"

definition row_address :: "NetworkState \<Rightarrow> u32" where
  "row_address ns = row_network ns OR ns_addr ns"

definition GetAddress :: "u32 \<Rightarrow> Ipv4AddressGeneratorImpl \<Rightarrow> u32 outcome" where
  "GetAddress msk st =
     then_do (MaskToIndex msk) (\<lambda>index. Inr (row_address (ag_netTable st ! index)))"

text \<open>The loop of \<^verbatim>\<open>AddAllocated\<close> over the blocks; arithmetic is modulo \<open>2 ^ 32\<close>.\<close>

definition collision :: "bool \<Rightarrow> Entry list \<Rightarrow> (bool \<times> Entry list) outcome" where
  "collision test es = (if test then Inr (False, es) else Inl FatalError)"

fun add_allocated :: "bool \<Rightarrow> u32 \<Rightarrow> Entry list \<Rightarrow> (bool \<times> Entry list) outcome" where
  "add_allocated test addr [] = Inr (True, [\<lparr>addrLow = addr, addrHigh = addr\<rparr>])"
| "add_allocated test addr (e # es) =
     (if addrLow e \<le> addr \<and> addr \<le> addrHigh e then collision test (e # es)
      else if addr < addrLow e - 1 then
        Inr (True, \<lparr>addrLow = addr, addrHigh = addr\<rparr> # e # es)
      else if addr = addrHigh e + 1 then
        (if es \<noteq> [] \<and> addr = addrLow (hd es) then collision test (e # es)
         else Inr (True, e\<lparr>addrHigh := addr\<rparr> # es))
      else if addr = addrLow e - 1 then Inr (True, e\<lparr>addrLow := addr\<rparr> # es)
      else then_do (add_allocated test addr es) (\<lambda>(ok, es). Inr (ok, e # es)))"

definition AddAllocated :: "u32 \<Rightarrow> Ipv4AddressGeneratorImpl \<Rightarrow> bool ag_result" where
  "AddAllocated addr st =
     require (addr \<noteq> 0) FatalError
       (then_do (add_allocated (ag_test st) addr (ag_entries st))
          (\<lambda>(ok, es). Inr (ok, st\<lparr>ag_entries := es\<rparr>)))"

definition NextAddress :: "u32 \<Rightarrow> Ipv4AddressGeneratorImpl \<Rightarrow> u32 ag_result" where
  "NextAddress msk st =
     then_do (MaskToIndex msk)
       (\<lambda>index.
          let ns = ag_netTable st ! index
          in require (ns_addr ns \<le> ns_addrMax ns) FatalError
               (let addr = row_address ns;
                    st = set_row index (\<lambda>ns. ns\<lparr>ns_addr := ns_addr ns + 1\<rparr>) st
                in then_do (AddAllocated addr st) (\<lambda>(_, st). Inr (addr, st))))"

definition IsAddressAllocated :: "u32 \<Rightarrow> Ipv4AddressGeneratorImpl \<Rightarrow> bool outcome" where
  "IsAddressAllocated addr st =
     require (addr \<noteq> 0) FatalError
       (Inr (\<not> (\<exists>e \<in> set (ag_entries st). addrLow e \<le> addr \<and> addr \<le> addrHigh e)))"

definition IsNetworkAllocated :: "u32 \<Rightarrow> u32 \<Rightarrow> Ipv4AddressGeneratorImpl \<Rightarrow> bool outcome" where
  "IsNetworkAllocated address msk st =
     require (address = CombineMask address msk) FatalError
       (Inr (\<not> (\<exists>e \<in> set (ag_entries st).
          address = CombineMask (addrLow e) msk \<or> address = CombineMask (addrHigh e) msk)))"

definition TestMode :: "Ipv4AddressGeneratorImpl \<Rightarrow> Ipv4AddressGeneratorImpl" where
  "TestMode st = st\<lparr>ag_test := True\<rparr>"

section \<open>The address helper\<close>

record Ipv4AddressHelper =
  hp_network :: u32
  hp_mask :: u32
  hp_address :: u32
  hp_base :: u32
  hp_shift :: nat
  hp_max :: u32

definition NumAddressBits :: "u32 \<Rightarrow> nat outcome" where
  "NumAddressBits maskbits = lowest_bit N_BITS 0 maskbits"

definition SetBase :: "u32 \<Rightarrow> u32 \<Rightarrow> u32 \<Rightarrow> Ipv4AddressHelper outcome" where
  "SetBase network msk address =
     require (network AND NOT msk = 0) AssertFailed
       (then_do (NumAddressBits msk)
          (\<lambda>shift. Inr \<lparr>hp_network = drop_bit shift network, hp_mask = msk, hp_address = address,
             hp_base = address, hp_shift = shift, hp_max = push_bit shift 1 - 2\<rparr>))"

definition NewAddress ::
  "Ipv4AddressHelper \<Rightarrow> Ipv4AddressGeneratorImpl \<Rightarrow> (Ipv4Address \<times> Ipv4AddressHelper) ag_result" where
  "NewAddress hp st =
     require (hp_address hp \<le> hp_max hp) AssertFailed
       (let addr = push_bit (hp_shift hp) (hp_network hp) OR hp_address hp;
            hp = hp\<lparr>hp_address := hp_address hp + 1\<rparr>
        in then_do (AddAllocated addr st) (\<lambda>(_, st). Inr ((Ipv4Address_of addr, hp), st)))"

definition NewNetwork :: "Ipv4AddressHelper \<Rightarrow> Ipv4Address \<times> Ipv4AddressHelper" where
  "NewNetwork hp =
     (let hp = hp\<lparr>hp_network := hp_network hp + 1, hp_address := hp_base hp\<rparr>
      in (Ipv4Address_of (push_bit (hp_shift hp) (hp_network hp)), hp))"

text \<open>The addresses of \<open>n\<close> devices, in the order of the container.\<close>

fun Assign ::
  "nat \<Rightarrow> Ipv4AddressHelper \<Rightarrow> Ipv4AddressGeneratorImpl \<Rightarrow>
     (Ipv4Address list \<times> Ipv4AddressHelper) ag_result" where
  "Assign 0 hp st = Inr (([], hp), st)"
| "Assign (Suc n) hp st =
     then_do (NewAddress hp st)
       (\<lambda>((a, hp), st). then_do (Assign n hp st) (\<lambda>((as, hp), st). Inr ((a # as, hp), st)))"

section \<open>Networks of the topology file\<close>

definition MaskNumberToIpv4Address :: "string \<Rightarrow> string outcome" where
  "MaskNumberToIpv4Address msk =
     then_do (stoi msk)
       (\<lambda>n. let maskNumber = word_of_int n :: u32
            in require (unat (32 - maskNumber) < 32) Undefined
                 (Inr (dotted (push_bit (unat (32 - maskNumber)) 0xFFFFFFFF))))"

definition network_prefix :: "string \<Rightarrow> string" where
  "network_prefix network = takeWhile (\<lambda>c. c \<noteq> CHR ''/'') network"

definition network_mask :: "string \<Rightarrow> string" where
  "network_mask network =
     (case dropWhile (\<lambda>c. c \<noteq> CHR ''/'') network of [] \<Rightarrow> network | _ # msk \<Rightarrow> msk)"

definition AssignIPAddresses ::
  "nat \<Rightarrow> string \<Rightarrow> Ipv4AddressGeneratorImpl \<Rightarrow> Ipv4Address list ag_result" where
  "AssignIPAddresses devices network st =
     then_do (MaskNumberToIpv4Address (network_mask network))
       (\<lambda>networkMask. then_do (AsciiToIpv4Host (network_prefix network))
       (\<lambda>net. then_do (Ipv4Mask_of_string networkMask)
       (\<lambda>msk. then_do (SetBase net msk 1)
       (\<lambda>hp. then_do (Assign devices hp st)
       (\<lambda>((as, _), st). Inr (as, st))))))"

section \<open>The blocks are a set of addresses\<close>

definition block :: "Entry \<Rightarrow> u32 set" where
  "block e = {addrLow e..addrHigh e}"

definition blocks :: "Entry list \<Rightarrow> u32 set" where
  "blocks es = (\<Union>e \<in> set es. block e)"

definition entries_ok :: "Entry list \<Rightarrow> bool" where
  "entries_ok es \<longleftrightarrow> sorted_wrt (\<lambda>e f. addrHigh e < addrLow f) es \<and>
     (\<forall>e \<in> set es. 0 < addrLow e \<and> addrLow e \<le> addrHigh e)"

definition allocated :: "Ipv4AddressGeneratorImpl \<Rightarrow> u32 set" where
  "allocated st = blocks (ag_entries st)"

definition generator_ok :: "Ipv4AddressGeneratorImpl \<Rightarrow> bool" where
  "generator_ok st \<longleftrightarrow> entries_ok (ag_entries st) \<and> length (ag_netTable st) = N_BITS"

lemma blocks_simps [simp]:
  "blocks [] = {}"
  "blocks (e # es) = block e \<union> blocks es"
  by (simp_all add: blocks_def)

lemma entries_ok_simps [simp]:
  "entries_ok []"
  "entries_ok (e # es) \<longleftrightarrow> 0 < addrLow e \<and> addrLow e \<le> addrHigh e \<and>
     (\<forall>x \<in> blocks es. addrHigh e < x) \<and> entries_ok es"
proof -
  show "entries_ok []"
    by (simp add: entries_ok_def)
  have "(\<forall>f \<in> set es. addrHigh e < addrLow f) \<longleftrightarrow> (\<forall>x \<in> blocks es. addrHigh e < x)"
    if "\<forall>f \<in> set es. addrLow f \<le> addrHigh f"
    using that by (force simp: blocks_def block_def)
  then show "entries_ok (e # es) \<longleftrightarrow> 0 < addrLow e \<and> addrLow e \<le> addrHigh e \<and>
     (\<forall>x \<in> blocks es. addrHigh e < x) \<and> entries_ok es"
    by (auto simp: entries_ok_def)
qed

lemma hd_in_blocks: "entries_ok es \<Longrightarrow> es \<noteq> [] \<Longrightarrow> addrLow (hd es) \<in> blocks es"
  by (cases es) (auto simp: block_def)

lemma succ_word:
  fixes h :: u32
  assumes "h + 1 \<noteq> 0"
  shows "x \<le> h + 1 \<longleftrightarrow> x \<le> h \<or> x = h + 1" and "h < h + 1"
    and "h < x \<Longrightarrow> x \<noteq> h + 1 \<Longrightarrow> h + 1 < x"
  using assms by (unat_arith, unat_arith, unat_arith)

lemma succ_unat: "x < y \<Longrightarrow> unat (x + 1 :: u32) = unat x + 1"
  by unat_arith

lemma pred_word:
  fixes l :: u32
  assumes "0 < l"
  shows "l - 1 \<le> x \<longleftrightarrow> l \<le> x \<or> x = l - 1" and "a < l - 1 \<Longrightarrow> a < l"
    and "\<not> a < l - 1 \<Longrightarrow> a \<noteq> l - 1 \<Longrightarrow> l \<le> a"
  using assms by (unat_arith, unat_arith, unat_arith)

lemma hd_least: "entries_ok es \<Longrightarrow> x \<in> blocks es \<Longrightarrow> addrLow (hd es) \<le> x"
  by (cases es) (auto simp: block_def intro: order.trans less_imp_le)

text \<open>Past a block that is neither hit nor adjacent from below.\<close>

lemma beyond_block:
  assumes "0 < addrLow e" and "addrLow e \<le> addrHigh e" and "addrHigh e < addr"
  shows "\<not> addr < addrLow e - 1" and "addr \<noteq> addrLow e - 1" and "\<not> addr \<le> addrHigh e"
proof -
  have "addrLow e < addr"
    using assms(2,3) by (rule le_less_trans)
  then show "\<not> addr < addrLow e - 1" "addr \<noteq> addrLow e - 1"
    using pred_word(2) [OF assms(1), of addr] pred_word(2) [OF assms(1), of "addrLow e"] by auto
  show "\<not> addr \<le> addrHigh e"
    using assms(3) by simp
qed

lemma add_allocated_taken:
  assumes "entries_ok es" and "addr \<in> blocks es" and "addr \<noteq> 0"
  shows "add_allocated test addr es = collision test es"
  using assms
proof (induction es)
  case Nil
  then show ?case by simp
next
  case (Cons e es)
  show ?case
  proof (cases "addr \<in> block e")
    case True
    then show ?thesis by (simp add: block_def)
  next
    case False
    with Cons.prems have in_es: "addr \<in> blocks es" and gt: "addrHigh e < addr"
      and e: "0 < addrLow e" "addrLow e \<le> addrHigh e" and es: "entries_ok es" "es \<noteq> []"
      by auto
    have "addr = addrLow (hd es)" if "addr = addrHigh e + 1"
    proof (rule ccontr)
      assume "addr \<noteq> addrLow (hd es)"
      moreover have "addrHigh e < addrLow (hd es)"
        using Cons.prems(1) hd_in_blocks [OF es] by simp
      ultimately have "addr < addrLow (hd es)"
        using succ_word(3) [of "addrHigh e" "addrLow (hd es)"] that \<open>addr \<noteq> 0\<close> by auto
      with hd_least [OF es(1) in_es] show False by simp
    qed
    then show ?thesis
      using beyond_block [OF e gt] Cons.IH [OF es(1) in_es \<open>addr \<noteq> 0\<close>] es(2)
      by (auto simp: collision_def)
  qed
qed

lemma add_allocated_free:
  assumes "entries_ok es" and "addr \<notin> blocks es" and "addr \<noteq> 0"
  obtains es' where "add_allocated test addr es = Inr (True, es')" and "entries_ok es'"
    and "blocks es' = insert addr (blocks es)"
  using assms
proof (induction es arbitrary: thesis)
  case Nil
  then show ?case by (simp add: block_def word_gt_0)
next
  case (Cons e es)
  then have e: "0 < addrLow e" "addrLow e \<le> addrHigh e" and es: "entries_ok es"
    and out: "addr \<notin> block e" "addr \<notin> blocks es" and above: "\<forall>x \<in> blocks es. addrHigh e < x"
    by auto
  consider (before) "addr < addrLow e - 1" | (low) "addr = addrLow e - 1" "addr < addrLow e"
    | (high) "addrHigh e < addr" "addr = addrHigh e + 1"
    | (beyond) "addrHigh e < addr" "addr \<noteq> addrHigh e + 1"
    using out(1) pred_word [OF e(1), of addr] by (fastforce simp: block_def)
  then show ?case
  proof cases
    case before
    then have "addr < addrLow e"
      using pred_word(2) [OF e(1)] by blast
    then show ?thesis
      using before e above Cons.prems(2,4)
      by (intro Cons.prems(1) [of "\<lparr>addrLow = addr, addrHigh = addr\<rparr> # e # es"])
        (auto simp: block_def word_gt_0 intro: less_le_trans less_trans)
  next
    case low
    have "addr \<noteq> addrHigh e + 1"
    proof
      assume "addr = addrHigh e + 1"
      with succ_word(2) [of "addrHigh e"] Cons.prems(4) have "addrHigh e < addr"
        by simp
      with low(2) e(2) show False by simp
    qed
    then show ?thesis
      using low e above es Cons.prems(4) pred_word [OF e(1)]
      by (intro Cons.prems(1) [of "e\<lparr>addrLow := addr\<rparr> # es"])
        (auto simp: block_def word_gt_0)
  next
    case high
    have "addr \<noteq> addrLow (hd es)" if "es \<noteq> []"
      using hd_in_blocks [OF es that] out(2) by auto
    moreover have "\<forall>x \<in> blocks es. addr < x"
      using above out(2) succ_word(3) [of "addrHigh e"] high Cons.prems(4) by auto
    ultimately show ?thesis
      using high e es Cons.prems(4) beyond_block [OF e high(1)] succ_word [of "addrHigh e"]
      by (intro Cons.prems(1) [of "e\<lparr>addrHigh := addr\<rparr> # es"]) (auto simp: block_def)
  next
    case beyond
    obtain es' where es': "add_allocated test addr es = Inr (True, es')" "entries_ok es'"
      "blocks es' = insert addr (blocks es)"
      using Cons.IH es out(2) Cons.prems(4) by blast
    then show ?thesis
      using beyond e above beyond_block [OF e beyond(1)]
      by (intro Cons.prems(1) [of "e # es'"]) auto
  qed
qed

lemma AddAllocated_cases:
  assumes "generator_ok st" and "addr \<noteq> 0"
  shows "addr \<in> allocated st \<Longrightarrow>
      AddAllocated addr st = (if ag_test st then Inr (False, st) else Inl FatalError)"
    and "addr \<notin> allocated st \<Longrightarrow> \<exists>st'. AddAllocated addr st = Inr (True, st') \<and>
      generator_ok st' \<and> allocated st' = insert addr (allocated st) \<and>
      ag_test st' = ag_test st \<and> ag_netTable st' = ag_netTable st"
proof -
  have ok: "entries_ok (ag_entries st)"
    using assms(1) by (simp add: generator_ok_def)
  show "AddAllocated addr st = (if ag_test st then Inr (False, st) else Inl FatalError)"
    if "addr \<in> allocated st"
    using add_allocated_taken [OF ok] that assms(2)
    by (simp add: AddAllocated_def allocated_def collision_def)
  show "\<exists>st'. AddAllocated addr st = Inr (True, st') \<and>
      generator_ok st' \<and> allocated st' = insert addr (allocated st) \<and>
      ag_test st' = ag_test st \<and> ag_netTable st' = ag_netTable st" if "addr \<notin> allocated st"
  proof -
    from that obtain es' where "add_allocated (ag_test st) addr (ag_entries st) = Inr (True, es')"
      "entries_ok es'" "blocks es' = insert addr (blocks (ag_entries st))"
      using add_allocated_free [OF ok, of addr] assms(2) unfolding allocated_def by blast
    then show ?thesis
      using assms by (auto simp: AddAllocated_def allocated_def generator_ok_def)
  qed
qed

text \<open>The generator outside test mode allocates each address once.\<close>

definition reserve_address :: "u32 \<Rightarrow> Ipv4AddressGeneratorImpl \<Rightarrow> Ipv4AddressGeneratorImpl outcome" where
  "reserve_address addr st = then_do (AddAllocated addr st) (\<lambda>(_, st). Inr st)"

definition generator_live :: "Ipv4AddressGeneratorImpl \<Rightarrow> bool" where
  "generator_live st \<longleftrightarrow> generator_ok st \<and> \<not> ag_test st"

lemma reserve_address_Inr:
  assumes "generator_live st" and "reserve_address addr st = Inr st'"
  shows "addr \<noteq> 0" and "addr \<notin> allocated st" and "generator_live st'"
    and "allocated st' = insert addr (allocated st)"
proof -
  have nz: "addr \<noteq> 0"
    using assms(2) by (auto simp: reserve_address_def AddAllocated_def)
  have ok: "generator_ok st" "\<not> ag_test st"
    using assms(1) by (auto simp: generator_live_def)
  have "addr \<notin> allocated st \<and> generator_live st' \<and> allocated st' = insert addr (allocated st)"
  proof (cases "addr \<in> allocated st")
    case True
    with AddAllocated_cases(1) [OF ok(1) nz] ok(2) assms(2) show ?thesis
      by (simp add: reserve_address_def)
  next
    case False
    then obtain st1 where "AddAllocated addr st = Inr (True, st1)" "generator_ok st1"
      "allocated st1 = insert addr (allocated st)" "ag_test st1 = ag_test st"
      using AddAllocated_cases(2) [OF ok(1) nz] by blast
    with False ok(2) assms(2) show ?thesis
      by (simp add: reserve_address_def generator_live_def)
  qed
  with nz show "addr \<noteq> 0" "addr \<notin> allocated st" "generator_live st'"
    "allocated st' = insert addr (allocated st)"
    by simp_all
qed

interpretation generator: unique_allocator generator_live allocated reserve_address
  by unfold_locales (simp_all add: reserve_address_Inr)

lemma Generator_Reset_live: "generator_live Generator_Reset" "allocated Generator_Reset = {}"
proof -
  have "length (reset_rows k i m) = k" for k i m
    by (induction k arbitrary: i m) auto
  then show "generator_live Generator_Reset" "allocated Generator_Reset = {}"
    by (simp_all add: generator_live_def generator_ok_def Generator_Reset_def allocated_def)
qed

section \<open>Host parts\<close>

lemma lowest_bit_Inr:
  assumes "lowest_bit k i msk = Inr s"
  shows "i \<le> s \<and> s < i + k \<and> bit msk (s - i) \<and> (\<forall>j < s - i. \<not> bit msk j)"
  using assms
proof (induction k arbitrary: i msk)
  case 0
  then show ?case by simp
next
  case (Suc k)
  show ?case
  proof (cases "bit msk 0")
    case True
    then have "msk AND 1 \<noteq> 0"
      by (simp add: and_one_eq bit_0 odd_iff_mod_2_eq_one)
    with Suc.prems True show ?thesis by auto
  next
    case False
    then have "msk AND 1 = 0"
      by (simp add: and_one_eq bit_0 even_iff_mod_2_eq_zero)
    with Suc.IH [of "i + 1" "drop_bit 1 msk"] Suc.prems have "i + 1 \<le> s \<and> s < i + 1 + k \<and> bit (drop_bit 1 msk) (s - (i + 1)) \<and>
        (\<forall>j < s - (i + 1). \<not> bit (drop_bit 1 msk) j)"
      by simp
    then have *: "i + 1 \<le> s" "s < i + 1 + k" "bit msk (s - i)"
      "\<And>j. j < s - (i + 1) \<Longrightarrow> \<not> bit msk (j + 1)"
      by (auto simp: bit_simps Suc_diff_Suc Suc_le_eq)
    have "\<not> bit msk j" if "j < s - i" for j
      using that False *(4) [of "j - 1"] by (cases j) auto
    with * show ?thesis by auto
  qed
qed

lemma unat_exp: "s < 32 \<Longrightarrow> unat (2 ^ s :: u32) = 2 ^ s"
proof -
  assume "s < 32"
  then have "(2::nat) ^ s < 2 ^ 32"
    by (intro power_strict_increasing) auto
  then have "unat (of_nat (2 ^ s) :: u32) = 2 ^ s"
    by (subst unat_of_nat) simp
  then show ?thesis by simp
qed

lemma below_bit:
  assumes "x < 2 ^ s" and "s < 32"
  shows "bit (x :: u32) j \<Longrightarrow> j < s"
proof -
  assume "bit x j"
  then have "bit (unat x) j"
    by (simp add: bit_unsigned_iff)
  then have "2 ^ j \<le> unat x"
    by (metis bit_iff_odd div_less even_zero linorder_not_less)
  moreover have "unat x < 2 ^ s"
    using assms by (simp add: word_less_nat_alt unat_exp)
  ultimately have "(2::nat) ^ j < 2 ^ s" by (rule le_less_trans)
  then show "j < s" by simp
qed

lemma max_host:
  assumes "0 < s" and "s < 32" and "x \<le> push_bit s (1 :: u32) - 2"
  shows "x < 2 ^ s" and "x + 1 < 2 ^ s" and "x < x + 1"
proof -
  have "2 \<le> (2 :: nat) ^ s"
    using assms(1) by (cases s) auto
  moreover have "unat (2 ^ s :: u32) = 2 ^ s"
    using assms(2) by (rule unat_exp)
  ultimately have "unat (2 ^ s - 2 :: u32) = 2 ^ s - 2"
    by (subst unat_sub) (simp_all add: word_le_nat_alt)
  then have "unat x \<le> 2 ^ s - 2"
    using assms(3) by (simp add: word_le_nat_alt push_bit_eq_mult)
  moreover have "(2::nat) ^ s < 2 ^ 32"
    using assms(2) by (intro power_strict_increasing) auto
  ultimately show "x < 2 ^ s" "x + 1 < 2 ^ s" "x < x + 1"
    using \<open>2 \<le> 2 ^ s\<close> \<open>unat (2 ^ s) = 2 ^ s\<close>
    by (auto simp: word_less_nat_alt unat_word_ariths)
qed

lemma host_bits:
  assumes "lowest_bit 32 0 msk = Inr s" and "0 < s" and "net AND NOT msk = 0"
    and "x \<le> push_bit s 1 - 2"
  shows "(push_bit s (drop_bit s net) OR x) AND msk = net"
    and "(push_bit s (drop_bit s net) OR x) AND NOT msk = x"
    and "x \<noteq> NOT msk"
proof -
  have s: "s < 32" "bit msk s" "\<And>j. j < s \<Longrightarrow> \<not> bit msk j"
    using lowest_bit_Inr [OF assms(1)] by auto
  have lt: "x < 2 ^ s" "x + 1 < 2 ^ s"
    using max_host(1,2) [OF assms(2) s(1) assms(4)] .
  have x: "bit x j \<Longrightarrow> j < s" for j
    using below_bit [OF lt(1) s(1)] .
  have net: "bit net j \<Longrightarrow> bit msk j" for j
    using arg_cong [OF assms(3), of "\<lambda>w. bit w j"] bit_imp_le_length [of net j]
    by (auto simp: bit_simps)
  have net_s: "bit net j \<Longrightarrow> s \<le> j" for j
    using net s(3) by (meson not_le)
  show "(push_bit s (drop_bit s net) OR x) AND msk = net"
    using net net_s x s(3) by (intro bit_word_eqI) (auto simp: bit_simps)
  show "(push_bit s (drop_bit s net) OR x) AND NOT msk = x"
    using net net_s x s(3) by (intro bit_word_eqI) (auto simp: bit_simps)
  show "x \<noteq> NOT msk"
  proof
    assume "x = NOT msk"
    then have "bit x j \<longleftrightarrow> j < s" for j
      using x s(3) s(1) by (auto simp: bit_simps)
    then have "x = Bit_Operations.mask s"
      using s(1) by (intro bit_word_eqI) (auto simp: bit_simps)
    then have "x + 1 = 2 ^ s"
      by (simp add: mask_eq_exp_minus_1)
    with lt show False by simp
  qed
qed

section \<open>Numbering the devices of a network\<close>

lemma NewAddress_Inr:
  assumes "NewAddress hp st = Inr ((a, hp'), st')"
  shows "hp_address hp \<le> hp_max hp" and "hp' = hp\<lparr>hp_address := hp_address hp + 1\<rparr>"
    and "a = Ipv4Address_of (push_bit (hp_shift hp) (hp_network hp) OR hp_address hp)"
    and "reserve_address (m_address a) st = Inr st'"
  using assms
  by (auto simp: NewAddress_def Let_def reserve_address_def Ipv4Address_of_def split: prod.splits)

lemma Assign_reserves:
  assumes "Assign n hp st = Inr ((as, hp'), st')"
  shows "length as = n \<and> each reserve_address (map m_address as) st = Inr st'"
  using assms
proof (induction n arbitrary: hp st as)
  case 0
  then show ?case by simp
next
  case (Suc n)
  then obtain a hp1 st1 as1 where a: "NewAddress hp st = Inr ((a, hp1), st1)"
    and as: "Assign n hp1 st1 = Inr ((as1, hp'), st')" "as = a # as1"
    by (auto split: prod.splits)
  with Suc.IH [OF as(1)] NewAddress_Inr(4) [OF a] show ?case by simp
qed

lemma Assign_initialized:
  assumes "Assign n hp st = Inr ((as, hp'), st')"
  shows "\<forall>a \<in> set as. m_initialized a"
  using assms
proof (induction n arbitrary: hp st as)
  case 0
  then show ?case by simp
next
  case (Suc n)
  then obtain a hp1 st1 as1 where a: "NewAddress hp st = Inr ((a, hp1), st1)"
    and as: "Assign n hp1 st1 = Inr ((as1, hp'), st')" "as = a # as1"
    by (auto split: prod.splits)
  with Suc.IH [OF as(1)] NewAddress_Inr(3) [OF a] show ?case
    by (simp add: Ipv4Address_of_def)
qed

text \<open>Whatever the text of the network, the addresses assigned are new and different.\<close>

lemma AssignIPAddresses_fresh:
  assumes "generator_live st" and "AssignIPAddresses k network st = Inr (as, st')"
  shows "length as = k" and "distinct (map m_address as)" and "generator_live st'"
    and "m_address ` set as \<inter> allocated st = {}" and "allocated st' = m_address ` set as \<union> allocated st"
    and "\<forall>a \<in> set as. m_initialized a"
proof -
  obtain hp hp' where run: "Assign k hp st = Inr ((as, hp'), st')"
    using assms(2) by (auto simp: AssignIPAddresses_def split: prod.splits)
  have all: "length as = k" "each reserve_address (map m_address as) st = Inr st'"
    using Assign_reserves [OF run] by simp_all
  then show "length as = k" by simp
  show "\<forall>a \<in> set as. m_initialized a"
    using Assign_initialized [OF run] .
  show "distinct (map m_address as)" "generator_live st'" "m_address ` set as \<inter> allocated st = {}"
    "allocated st' = m_address ` set as \<union> allocated st"
    using generator.reserve_all [OF assms(1) all(2)] by simp_all
qed

text \<open>What the addresses of a network with a host part look like.\<close>

definition host_of :: "u32 \<Rightarrow> u32 \<Rightarrow> Ipv4Address \<Rightarrow> bool" where
  "host_of net msk a \<longleftrightarrow> m_initialized a \<and> m_address a AND msk = net \<and> m_address a \<noteq> net \<and>
     m_address a \<noteq> net OR NOT msk"

lemma Assign_hosts:
  assumes "lowest_bit N_BITS 0 msk = Inr s" and "0 < s" and "net AND NOT msk = 0"
    and "hp_network hp = drop_bit s net" and "hp_shift hp = s" and "hp_max hp = push_bit s 1 - 2"
    and "0 < hp_address hp" and "Assign n hp st = Inr ((as, hp'), st')"
  shows "\<forall>a \<in> set as. host_of net msk a"
  using assms(4-)
proof (induction n arbitrary: hp st as)
  case 0
  then show ?case by simp
next
  case (Suc n)
  then obtain a hp1 st1 as1 where a: "NewAddress hp st = Inr ((a, hp1), st1)"
    and as: "Assign n hp1 st1 = Inr ((as1, hp'), st')" "as = a # as1"
    by (auto split: prod.splits)
  note new = NewAddress_Inr [OF a]
  have s: "s < 32"
    using lowest_bit_Inr [OF assms(1)] by simp
  have le: "hp_address hp \<le> push_bit s 1 - 2"
    using new(1) Suc.prems(3) by simp
  note bits = host_bits [OF assms(1-3) le]
  have "hp_address hp < hp_address hp + 1"
    using max_host(3) [OF assms(2) s le] .
  then have "0 < hp_address hp1"
    using new(2) word_gt_0 by (auto intro: le_less_trans)
  then have "\<forall>a \<in> set as1. host_of net msk a"
    using Suc.IH [OF _ _ _ _ as(1)] new(2) Suc.prems by simp
  moreover have "host_of net msk a"
  proof -
    have addr: "m_address a = push_bit s (drop_bit s net) OR hp_address hp" "m_initialized a"
      using new(3) Suc.prems(1,2) by (simp_all add: Ipv4Address_of_def)
    have "m_address a \<noteq> net"
      using bits(2) addr(1) assms(3) Suc.prems(4) by (metis word_gt_0)
    moreover have "(net OR NOT msk) AND NOT msk = NOT msk"
      by (rule bit_word_eqI) (auto simp: bit_simps)
    then have "m_address a \<noteq> net OR NOT msk"
      using bits(2,3) addr(1) by metis
    ultimately show ?thesis
      using bits(1) addr by (simp add: host_of_def)
  qed
  ultimately show ?case
    using as(2) by simp
qed

lemma Assign_room:
  assumes "generator_live st" and "unat (hp_address hp) + n \<le> unat (hp_max hp) + 1"
    and "\<And>i. i < n \<Longrightarrow> push_bit (hp_shift hp) (hp_network hp) OR (hp_address hp + of_nat i) \<notin>
      insert 0 (allocated st)"
    and "\<And>i j. i < j \<Longrightarrow> j < n \<Longrightarrow> push_bit (hp_shift hp) (hp_network hp) OR (hp_address hp + of_nat i) \<noteq>
      push_bit (hp_shift hp) (hp_network hp) OR (hp_address hp + of_nat j)"
  shows "\<exists>as hp' st'. Assign n hp st = Inr ((as, hp'), st')"
  using assms
proof (induction n arbitrary: hp st)
  case 0
  then show ?case by simp
next
  case (Suc n)
  let ?a = "push_bit (hp_shift hp) (hp_network hp) OR hp_address hp"
  have free: "?a \<noteq> 0" "?a \<notin> allocated st"
    using Suc.prems(3) [of 0] by auto
  have ok: "generator_ok st" "\<not> ag_test st"
    using Suc.prems(1) by (auto simp: generator_live_def)
  obtain st1 where st1: "AddAllocated ?a st = Inr (True, st1)" "generator_ok st1"
    "allocated st1 = insert ?a (allocated st)" "ag_test st1 = ag_test st"
    using AddAllocated_cases(2) [OF ok(1) free] by blast
  let ?hp = "hp\<lparr>hp_address := hp_address hp + 1\<rparr>"
  have le: "hp_address hp \<le> hp_max hp"
    using Suc.prems(2) by (simp add: word_le_nat_alt)
  have "\<exists>as hp' st'. Assign n ?hp st1 = Inr ((as, hp'), st')"
  proof (cases n)
    case (Suc m)
    show ?thesis
    proof (rule Suc.IH)
      show "generator_live st1"
        using st1 ok by (simp add: generator_live_def)
      show "unat (hp_address ?hp) + n \<le> unat (hp_max ?hp) + 1"
        using Suc.prems(2) succ_unat [of "hp_address hp" "hp_max hp"] \<open>n = Suc m\<close>
        by (simp add: word_less_nat_alt)
      show "push_bit (hp_shift ?hp) (hp_network ?hp) OR (hp_address ?hp + of_nat i) \<notin>
          insert 0 (allocated st1)" if "i < n" for i
        using Suc.prems(3) [of "Suc i"] Suc.prems(4) [of 0 "Suc i"] that st1(3)
        by (simp add: algebra_simps)
      show "push_bit (hp_shift ?hp) (hp_network ?hp) OR (hp_address ?hp + of_nat i) \<noteq>
          push_bit (hp_shift ?hp) (hp_network ?hp) OR (hp_address ?hp + of_nat j)"
        if "i < j" "j < n" for i j
        using Suc.prems(4) [of "Suc i" "Suc j"] that by (simp add: algebra_simps)
    qed
  qed simp
  then show ?case
    using st1(1) le by (auto simp: NewAddress_def Let_def)
qed


section \<open>Text round trips\<close>

lemma digit_char:
  assumes "d < 10"
  shows "char_code (char_of (48 + d)) = 48 + d"
    and "is_digit (char_of (48 + d))"
  using assms by (simp_all add: is_digit_def char_code_def)

lemma to_string_digits: "(\<forall>c \<in> set (to_string n). is_digit c) \<and> to_string n \<noteq> []"
proof (induction n rule: to_string.induct)
  case (1 n)
  then show ?case
    by (simp add: to_string.simps [of n] digit_char)
qed

lemma digit_not_special:
  assumes "is_digit c"
  shows "c \<noteq> CHR ''.''" "c \<noteq> CHR ''/''" "c \<noteq> CHR 0x00" "c \<noteq> CHR ''-''" "c \<noteq> CHR ''+''" "\<not> is_space c"
  using assms by (auto simp: is_digit_def is_space_def char_code_def)

lemma ascii_host_number:
  "ascii_host afterDot host 0 dots (to_string n @ rest) = ascii_host False host (of_nat n) dots rest"
proof (induction n arbitrary: rest afterDot rule: to_string.induct)
  case (1 n)
  show ?case
  proof (cases "n < 10")
    case True
    then show ?thesis
      using digit_char [OF True] digit_not_special [OF digit_char(2) [OF True]]
      by (simp add: to_string.simps [of n])
  next
    case False
    have d: "n mod 10 < 10" by simp
    have "of_nat (n div 10) * 10 + of_nat (n mod 10) = (of_nat n :: u8)"
      by (metis div_mult_mod_eq of_nat_add of_nat_mult of_nat_numeral)
    with False show ?thesis
      using 1 [OF False] digit_char [OF d] digit_not_special [OF digit_char(2) [OF d]]
      by (simp add: to_string.simps [of n])
  qed
qed

lemma dotted_chars: "\<forall>c \<in> set (dotted a). c \<noteq> CHR 0x00 \<and> c \<noteq> CHR ''/''"
  using to_string_digits digit_not_special by (fastforce simp: dotted_def)

lemma AsciiToIpv4Host_dotted: "AsciiToIpv4Host (dotted a) = Inr a"
proof -
  have "takeWhile (\<lambda>c. c \<noteq> CHR 0x00) (dotted a) = dotted a"
    using dotted_chars by (simp add: takeWhile_eq_all_conv)
  then have "AsciiToIpv4Host (dotted a) = ascii_host True 0 0 0 (dotted a)"
    by (simp only: AsciiToIpv4Host_def)
  then show ?thesis
    using ascii_host_number [of _ _ _ "unat (byte_at 0 a)" "[]"]
    by (simp add: dotted_def ascii_host_number bytes32)
qed

lemma Ipv4Mask_of_dotted: "Ipv4Mask_of_string (dotted a) = Inr a"
proof -
  obtain c cs where "dotted a = c # cs" "c \<noteq> CHR ''/''"
    using dotted_chars [of a] to_string_digits [of "unat (byte_at 24 a)"]
    by (cases "dotted a") (auto simp: dotted_def)
  then have "Ipv4Mask_of_string (dotted a) = AsciiToIpv4Host (dotted a)"
    by (auto simp: Ipv4Mask_of_string_def split: list.splits char.splits bool.splits)
  then show ?thesis
    by (simp add: AsciiToIpv4Host_dotted)
qed

lemma digits_value_to_string: "digits_value (to_string n) = n"
proof (induction n rule: to_string.induct)
  case (1 n)
  have "n mod 10 < 10" by simp
  with 1 show ?case
    by (cases "n < 10") (simp_all add: to_string.simps [of n] digits_value_def digit_char)
qed

lemma stoi_to_string: "n < 2 ^ 31 \<Longrightarrow> stoi (to_string n) = Inr (int n)"
proof -
  assume "n < 2 ^ 31"
  obtain c cs where s: "to_string n = c # cs" "is_digit c"
    using to_string_digits [of n] by (cases "to_string n") auto
  have "takeWhile is_digit cs = cs"
    using to_string_digits [of n] s(1) by (simp add: takeWhile_eq_all_conv)
  then have "leading_number (to_string n) = Some (int n)"
    using s digit_not_special [OF s(2)] digits_value_to_string [of n]
    by (simp add: leading_number_def del: takeWhile_eq_all_conv)
  with \<open>n < 2 ^ 31\<close> show ?thesis
    by (simp add: stoi_def fits_int_def)
qed

abbreviation prefix_mask :: "nat \<Rightarrow> u32" where
  "prefix_mask n \<equiv> push_bit (32 - n) 0xFFFFFFFF"

lemma MaskNumberToIpv4Address_text:
  assumes "0 < n" and "n \<le> 32"
  shows "MaskNumberToIpv4Address (to_string n) = Inr (dotted (prefix_mask n))"
proof -
  have "unat (32 - word_of_int (int n) :: u32) = 32 - n"
    using assms by (subst unat_sub) (simp_all add: word_le_nat_alt unat_of_nat)
  with assms show ?thesis
    by (simp add: MaskNumberToIpv4Address_def stoi_to_string)
qed

lemma network_text:
  "network_prefix (dotted net @ ''/'' @ s) = dotted net"
  "network_mask (dotted net @ ''/'' @ s) = s"
  using dotted_chars [of net]
  by (simp_all add: network_prefix_def network_mask_def takeWhile_append2 dropWhile_append3 dropWhile_append2)

lemma AssignIPAddresses_text:
  assumes "0 < n" and "n \<le> 32"
  shows "AssignIPAddresses k (dotted net @ ''/'' @ to_string n) st =
    then_do (SetBase net (prefix_mask n) 1)
      (\<lambda>hp. then_do (Assign k hp st) (\<lambda>((as, _), st). Inr (as, st)))"
  using MaskNumberToIpv4Address_text [OF assms]
  by (simp add: AssignIPAddresses_def network_text [simplified] AsciiToIpv4Host_dotted Ipv4Mask_of_dotted)

lemma lowest_bit_prefix_mask:
  assumes "0 < n" and "n \<le> 32"
  shows "lowest_bit N_BITS 0 (prefix_mask n) = Inr (32 - n)"
proof -
  have "n \<in> set [1..<33]" using assms by auto
  moreover have "\<forall>n \<in> set [1..<33]. lowest_bit N_BITS 0 (prefix_mask n) = Inr (32 - n)"
    by code_simp
  ultimately show ?thesis by blast
qed
section \<open>Properties\<close>

lemma set_row_frame [simp]:
  "allocated (set_row i f st) = allocated st"
  "generator_live (set_row i f st) = generator_live st"
  by (simp_all add: set_row_def allocated_def generator_live_def generator_ok_def)

text \<open>
  The runs of the generator from its reset state, with the addresses it has handed out:
  directly (\<^verbatim>\<open>NextAddress\<close>) or on behalf of a helper (\<^verbatim>\<open>AddAllocated\<close>).
\<close>

inductive generator_run :: "Ipv4AddressGeneratorImpl \<Rightarrow> u32 list \<Rightarrow> bool" where
  run_reset: "generator_run Generator_Reset []"
| run_init: "generator_run st as \<Longrightarrow> Generator_Init net msk addr st = Inr st' \<Longrightarrow> generator_run st' as"
| run_network: "generator_run st as \<Longrightarrow> NextNetwork msk st = Inr (net, st') \<Longrightarrow> generator_run st' as"
| run_set: "generator_run st as \<Longrightarrow> InitAddress addr msk st = Inr st' \<Longrightarrow> generator_run st' as"
| run_next: "generator_run st as \<Longrightarrow> NextAddress msk st = Inr (a, st') \<Longrightarrow> generator_run st' (a # as)"
| run_add: "generator_run st as \<Longrightarrow> AddAllocated a st = Inr (fresh, st') \<Longrightarrow> generator_run st' (a # as)"

lemma NextAddress_reserves:
  assumes "NextAddress msk st = Inr (a, st')"
  shows "\<exists>i f. reserve_address a (set_row i f st) = Inr st'"
  using assms by (auto simp: NextAddress_def Let_def reserve_address_def)

lemma AddAllocated_reserves: "AddAllocated a st = Inr (fresh, st') \<Longrightarrow> reserve_address a st = Inr st'"
  by (simp add: reserve_address_def)

lemma row_ops:
  "Generator_Init net msk addr st = Inr st' \<Longrightarrow> \<exists>i f j g. st' = set_row i f (set_row j g st)"
  "NextNetwork msk st = Inr (n, st') \<Longrightarrow> \<exists>i f. st' = set_row i f st"
  "InitAddress addr msk st = Inr st' \<Longrightarrow> \<exists>i f. st' = set_row i f st"
  by (auto simp: Generator_Init_def NextNetwork_def InitAddress_def Let_def)

lemma generator_run_inv:
  assumes "generator_run st as"
  shows "generator_live st \<and> distinct as \<and> set as = allocated st"
  using assms
proof induction
  case run_reset
  then show ?case by (simp add: Generator_Reset_live)
next
  case (run_next st as msk a st')
  then obtain i f where "reserve_address a (set_row i f st) = Inr st'"
    using NextAddress_reserves by blast
  with run_next.IH reserve_address_Inr [of "set_row i f st" a st'] show ?case by simp
next
  case (run_add st as a fresh st')
  with reserve_address_Inr [of st a st'] AddAllocated_reserves show ?case by simp
qed (use row_ops in fastforce)+

text \<open>
  C14: Recording an address in the generator's sorted list of blocks is insertion into the set
  of allocated addresses: a new address is accepted, the blocks stay sorted and disjoint and
  cover exactly one address more; a known address is a fatal error, or is refused without a
  change in test mode.
\<close>

theorem AddAllocated_refines:
  assumes "generator_ok st" and "addr \<noteq> 0"
  shows "if addr \<in> allocated st
    then AddAllocated addr st = (if ag_test st then Inr (False, st) else Inl FatalError)
    else \<exists>st'. AddAllocated addr st = Inr (True, st') \<and> generator_ok st' \<and>
      allocated st' = insert addr (allocated st)"
proof (cases "addr \<in> allocated st")
  case True
  with AddAllocated_cases(1) [OF assms] show ?thesis by simp
next
  case False
  with AddAllocated_cases(2) [OF assms] show ?thesis by auto
qed

definition example_generator :: Ipv4AddressGeneratorImpl where
  "example_generator = Generator_Reset\<lparr>ag_entries :=
     [\<lparr>addrLow = 1, addrHigh = 3\<rparr>, \<lparr>addrLow = 5, addrHigh = 6\<rparr>]\<rparr>"

lemma example_generator_ok: "generator_ok example_generator" "\<not> ag_test example_generator"
  "4 \<notin> allocated example_generator"
  using Generator_Reset_live
  by (simp_all add: example_generator_def generator_live_def generator_ok_def entries_ok_def
      allocated_def blocks_def block_def Generator_Reset_def)

theorem AddAllocated_refines_witness:
  "\<exists>st'. AddAllocated 4 example_generator = Inr (True, st') \<and> generator_ok st' \<and>
     allocated st' = insert 4 (allocated example_generator)"
  using AddAllocated_refines [of example_generator 4] example_generator_ok by simp



text \<open>
  C39: Printing an address and parsing the text gives the address back, for each of the
  \<open>2 ^ 32\<close> addresses; the same holds for masks, whose text form the topology reader computes
  from the prefix length.
\<close>

theorem Ipv4_text_roundtrip:
  "Ipv4Address_of_string (Ipv4Address_Print (Ipv4Address_of a)) = Inr (Ipv4Address_of a) \<and>
   (0 < n \<and> n \<le> 32 \<longrightarrow>
     then_do (MaskNumberToIpv4Address (to_string n)) Ipv4Mask_of_string = Inr (prefix_mask n))"
  by (simp add: Ipv4Address_of_string_def Ipv4Address_Print_def Ipv4Address_of_def
      AsciiToIpv4Host_dotted MaskNumberToIpv4Address_text Ipv4Mask_of_dotted)

theorem Ipv4_text_roundtrip_witness:
  "then_do (MaskNumberToIpv4Address (to_string 24)) Ipv4Mask_of_string = Inr (prefix_mask 24)"
  using Ipv4_text_roundtrip [where n = 24] by simp

lemma unat_max:
  assumes "0 < s" and "s < 32"
  shows "unat (push_bit s 1 - 2 :: u32) = 2 ^ s - 2"
proof -
  have "2 \<le> (2 :: nat) ^ s"
    using assms(1) by (cases s) auto
  then show ?thesis
    using unat_exp [OF assms(2)] by (subst unat_sub) (simp_all add: word_le_nat_alt push_bit_eq_mult)
qed

lemma host_number:
  assumes "0 < s" and "s < 32" and "Suc i \<le> 2 ^ s - 2"
  shows "(1 + of_nat i :: u32) \<le> push_bit s 1 - 2" and "unat (1 + of_nat i :: u32) = Suc i"
proof -
  have "(2::nat) ^ s \<le> 2 ^ 32"
    using assms(2) by (intro power_increasing) auto
  with assms(3) have "Suc i < 2 ^ 32"
    by linarith
  then show "unat (1 + of_nat i :: u32) = Suc i"
    using unat_of_nat_u32 [of "Suc i"] by simp
  with assms(3) unat_max [OF assms(1,2)] show "(1 + of_nat i :: u32) \<le> push_bit s 1 - 2"
    by (simp add: word_le_nat_alt)
qed

lemma AssignIPAddresses_room:
  assumes "0 < n" and "n \<le> 30" and "generator_live st" and "net AND NOT (prefix_mask n) = 0"
    and "\<forall>a \<in> allocated st. a AND prefix_mask n \<noteq> net" and "k \<le> 2 ^ (32 - n) - 2"
  shows "\<exists>as st'. AssignIPAddresses k (dotted net @ ''/'' @ to_string n) st = Inr (as, st')"
proof -
  let ?s = "32 - n"
  let ?hp = "\<lparr>hp_network = drop_bit ?s net, hp_mask = prefix_mask n, hp_address = 1,
    hp_base = 1, hp_shift = ?s, hp_max = push_bit ?s 1 - 2\<rparr>"
  have n: "n \<le> 32" "0 < ?s" "?s < 32"
    using assms(1,2) by auto
  have max: "unat (push_bit ?s 1 - 2 :: u32) = 2 ^ ?s - 2"
    using unat_max [OF n(2,3)] .
  have k: "Suc i \<le> 2 ^ ?s - 2" if "i < k" for i
    using that assms(6) by simp
  note le = host_number [OF n(2,3) k]
  note bits = host_bits [OF lowest_bit_prefix_mask [OF assms(1) n(1)] n(2) assms(4) le(1)]
  have "\<exists>as hp' st'. Assign k ?hp st = Inr ((as, hp'), st')"
  proof (rule Assign_room [OF assms(3)])
    show "unat (hp_address ?hp) + k \<le> unat (hp_max ?hp) + 1"
      using assms(6) max by simp
    show "push_bit (hp_shift ?hp) (hp_network ?hp) OR (hp_address ?hp + of_nat i) \<notin>
        insert 0 (allocated st)" if "i < k" for i
    proof -
      let ?a = "push_bit ?s (drop_bit ?s net) OR (1 + of_nat i)"
      have "?a AND NOT (prefix_mask n) \<noteq> 0"
        using bits(2) [OF that] le(2) [OF that] by (metis unat_0 nat.distinct(1))
      then have "?a \<noteq> 0"
        by auto
      moreover have "?a \<notin> allocated st"
        using bits(1) [OF that] assms(5) by blast
      ultimately show ?thesis by simp
    qed
    show "push_bit (hp_shift ?hp) (hp_network ?hp) OR (hp_address ?hp + of_nat i) \<noteq>
        push_bit (hp_shift ?hp) (hp_network ?hp) OR (hp_address ?hp + of_nat j)"
      if "i < j" "j < k" for i j
    proof
      assume "push_bit (hp_shift ?hp) (hp_network ?hp) OR (hp_address ?hp + of_nat i) =
        push_bit (hp_shift ?hp) (hp_network ?hp) OR (hp_address ?hp + of_nat j)"
      then have eq: "push_bit ?s (drop_bit ?s net) OR (1 + of_nat i) =
          push_bit ?s (drop_bit ?s net) OR (1 + of_nat j)"
        by (simp only: Ipv4AddressHelper.select_convs)
      have ij: "i < k" "j < k"
        using that by simp_all
      have "(1 + of_nat i :: u32) = 1 + of_nat j"
        using arg_cong [OF eq, of "\<lambda>w. w AND NOT (prefix_mask n)"] bits(2) [OF ij(1)] bits(2) [OF ij(2)]
        by (simp only:)
      then have "Suc i = Suc j"
        using le(2) [OF ij(1)] le(2) [OF ij(2)] by (simp only:)
      with that show False by simp
    qed
  qed
  then show ?thesis
    using assms(4)
    unfolding AssignIPAddresses_text [OF assms(1) n(1)] SetBase_def NumAddressBits_def
      lowest_bit_prefix_mask [OF assms(1) n(1)]
    by auto
qed

lemma AssignIPAddresses_in_network:
  assumes "0 < n" and "n < 32" and "generator_live st"
    and "AssignIPAddresses k (dotted net @ ''/'' @ to_string n) st = Inr (as, st')"
  shows "length as = k \<and> distinct (map m_address as) \<and> (\<forall>a \<in> set as.
    host_of net (prefix_mask n) a \<and> m_address a \<notin> allocated st \<and> m_address a \<in> allocated st')"
proof -
  have n: "n \<le> 32" "0 < 32 - n"
    using assms(2) by auto
  obtain hp hp' where net: "net AND NOT (prefix_mask n) = 0"
    and hp: "hp = \<lparr>hp_network = drop_bit (32 - n) net, hp_mask = prefix_mask n, hp_address = 1,
      hp_base = 1, hp_shift = 32 - n, hp_max = push_bit (32 - n) 1 - 2\<rparr>"
    and as: "Assign k hp st = Inr ((as, hp'), st')"
    using assms(4)
    unfolding AssignIPAddresses_text [OF assms(1) n(1)] SetBase_def NumAddressBits_def
      lowest_bit_prefix_mask [OF assms(1) n(1)]
    by (auto split: prod.splits)
  have "\<forall>a \<in> set as. host_of net (prefix_mask n) a"
    by (rule Assign_hosts [OF lowest_bit_prefix_mask [OF assms(1) n(1)] n(2) net _ _ _ _ as])
      (simp_all add: hp)
  moreover have "length as = k" "each reserve_address (map m_address as) st = Inr st'"
    using Assign_reserves [OF as] by simp_all
  ultimately show ?thesis
    using generator.reserve_all [OF assms(3)] by fastforce
qed

text \<open>
  The devices of a network written \<open>a.b.c.d/n\<close> get host addresses of that network: each is
  initialised, carries the network's prefix, is neither the network's own address nor its
  broadcast address, differs from the others and from every address allocated before, and is
  recorded as allocated.
\<close>

theorem AssignIPAddresses_hosts:
  assumes "0 < n" and "n < 32" and "generator_live st"
    and "AssignIPAddresses k (dotted net @ ''/'' @ to_string n) st = Inr (as, st')"
  shows "length as = k \<and> distinct (map m_address as) \<and> (\<forall>a \<in> set as.
    host_of net (prefix_mask n) a \<and> m_address a \<notin> allocated st \<and> m_address a \<in> allocated st')"
  using AssignIPAddresses_in_network [OF assms] .

lemma example_assign:
  "\<exists>as st'. AssignIPAddresses 2 (dotted 0x0A000000 @ ''/'' @ to_string 24) Generator_Reset = Inr (as, st')"
  by (rule AssignIPAddresses_room) (simp_all add: Generator_Reset_live)

theorem AssignIPAddresses_hosts_witness:
  "\<exists>as st'. AssignIPAddresses 2 (dotted 0x0A000000 @ ''/'' @ to_string 24) Generator_Reset = Inr (as, st') \<and>
     length as = 2 \<and> distinct (map m_address as) \<and> (\<forall>a \<in> set as. host_of 0x0A000000 (prefix_mask 24) a)"
proof -
  obtain as st' where "AssignIPAddresses 2 (dotted 0x0A000000 @ ''/'' @ to_string 24) Generator_Reset
      = Inr (as, st')"
    using example_assign by blast
  with AssignIPAddresses_hosts [OF _ _ Generator_Reset_live(1) this] show ?thesis by auto
qed

text \<open>
  Numbering succeeds whenever it can: a network of prefix length at most 30 with no address
  allocated so far takes any number of devices up to \<open>2 ^ (32 - n) - 2\<close>.
\<close>

theorem AssignIPAddresses_succeeds:
  assumes "0 < n" and "n \<le> 30" and "generator_live st" and "net AND NOT (prefix_mask n) = 0"
    and "\<forall>a \<in> allocated st. a AND prefix_mask n \<noteq> net" and "k \<le> 2 ^ (32 - n) - 2"
  shows "\<exists>as st'. AssignIPAddresses k (dotted net @ ''/'' @ to_string n) st = Inr (as, st')"
  using assms by (rule AssignIPAddresses_room)

theorem AssignIPAddresses_succeeds_witness:
  "\<exists>as st'. AssignIPAddresses 254 (dotted 0xC0A80100 @ ''/'' @ to_string 24) Generator_Reset = Inr (as, st')"
  by (rule AssignIPAddresses_succeeds) (simp_all add: Generator_Reset_live)

text \<open>
  \<^verbatim>\<open>IsAddressAllocated\<close> answers true exactly for the addresses that are free, the
  opposite of its documentation.
\<close>

theorem IsAddressAllocated_inverted:
  assumes "addr \<noteq> 0"
  shows "IsAddressAllocated addr st = Inr (addr \<notin> allocated st)"
  using assms by (auto simp: IsAddressAllocated_def allocated_def blocks_def block_def)

theorem IsAddressAllocated_inverted_witness:
  "IsAddressAllocated 4 example_generator = Inr True"
  using IsAddressAllocated_inverted [of 4 example_generator] example_generator_ok by simp

text \<open>
  \<^verbatim>\<open>IsNetworkAllocated\<close> looks only at the two ends of each block: once
  the addresses from 10.0.0.3 to 10.0.0.9 have been recorded, it takes the network 10.0.0.4/30
  to be free although each of its addresses is allocated.
\<close>

theorem IsNetworkAllocated_misses:
  "\<exists>st. generator_run st [0x0A000009, 0x0A000008, 0x0A000007, 0x0A000006, 0x0A000005, 0x0A000004, 0x0A000003] \<and>
     IsNetworkAllocated 0x0A000004 (prefix_mask 30) st = Inr True"
proof -
  let ?as = "[0x0A000003, 0x0A000004, 0x0A000005, 0x0A000006, 0x0A000007, 0x0A000008, 0x0A000009] :: u32 list"
  have run: "generator_run st' (rev as @ bs)"
    if "each reserve_address as st = Inr st'" "generator_run st bs" for as bs st st'
    using that
  proof (induction as arbitrary: st bs)
    case (Cons a as)
    then obtain st1 where st1: "reserve_address a st = Inr st1" "each reserve_address as st1 = Inr st'"
      by auto
    from st1(1) obtain fresh where "AddAllocated a st = Inr (fresh, st1)"
      by (auto simp: reserve_address_def)
    with Cons.IH [OF st1(2), of "a # bs"] Cons.prems(2) run_add show ?case by fastforce
  qed simp
  have "each reserve_address ?as Generator_Reset =
      Inr (Generator_Reset\<lparr>ag_entries := [\<lparr>addrLow = 0x0A000003, addrHigh = 0x0A000009\<rparr>]\<rparr>)"
    by (simp add: reserve_address_def AddAllocated_def Generator_Reset_def word_less_nat_alt word_le_nat_alt)
  from run [OF this run_reset] show ?thesis
    by (intro exI [where x = "Generator_Reset\<lparr>ag_entries := [\<lparr>addrLow = 0x0A000003, addrHigh = 0x0A000009\<rparr>]\<rparr>"])
      (simp add: IsNetworkAllocated_def CombineMask_def)
qed

end
