(* ===== verification/Nodes.thy ===== *)
theory Nodes
  imports CNRS Applications Addresses
begin

text \<open>
  The nodes of a simulation (\<^verbatim>\<open>cybertwin-node.{h,cc}\<close>) and the helper that installs
  the applications of the configuration on them (\<^verbatim>\<open>cybertwin-app-helper.cc\<close>).

  The three node classes share one record; a node's applications are the list of what was
  added to it, with the time at which each starts, and pointers to them are positions in that
  list.  Pointers to other nodes are numbers.  The address of a node's first interface is the
  parameter \<open>ifaceAddr\<close>.
\<close>

section \<open>Nodes\<close>

datatype node_kind = CoreServer | EdgeServer | EndHost

datatype application =
    CNRS_App NameResolutionService
  | Manager_App CybertwinManager
  | Daemon_App CybertwinEndHostDaemon
  | DownloadClient_App CybertwinAppDownloadClient
  | DownloadServer_App CybertwinAppDownloadServer

record CybertwinNode =
  nd_kind :: node_kind
  nd_name :: string
  nd_upperNodeAddress :: Ipv4Address
  nd_localAddrList :: "Ipv4Address list"
  nd_globalAddrList :: "Ipv4Address list"
  nd_parents :: "nat list"
  nd_isCNRSRoot :: bool
  nd_applications :: "(application \<times> int) list"
  nd_cybertwinCNRSApp :: "nat option"
  nd_CybertwinManagerApp :: "nat option"
  nd_cybertwinEndHostDaemon :: "nat option"
  nd_installedApps :: "nat \<rightharpoonup> int"

text \<open>The flag of the root is not initialised.\<close>

definition CybertwinNode_new :: "node_kind \<Rightarrow> bool \<Rightarrow> CybertwinNode" where
  "CybertwinNode_new kind garbage = \<lparr>nd_kind = kind, nd_name = '''',
     nd_upperNodeAddress = Ipv4Address_default, nd_localAddrList = [], nd_globalAddrList = [],
     nd_parents = [], nd_isCNRSRoot = garbage, nd_applications = [], nd_cybertwinCNRSApp = None,
     nd_CybertwinManagerApp = None, nd_cybertwinEndHostDaemon = None,
     nd_installedApps = Map.empty\<rparr>"

definition AddParent :: "nat \<Rightarrow> CybertwinNode \<Rightarrow> CybertwinNode" where
  "AddParent parent st =
     (if parent \<in> set (nd_parents st) then st else st\<lparr>nd_parents := nd_parents st @ [parent]\<rparr>)"

definition SetUpperNodeAddress :: "Ipv4Address \<Rightarrow> CybertwinNode \<Rightarrow> CybertwinNode" where
  "SetUpperNodeAddress addr st = st\<lparr>nd_upperNodeAddress := addr\<rparr>"

definition SetCNRSRoot :: "CybertwinNode \<Rightarrow> CybertwinNode" where
  "SetCNRSRoot st = st\<lparr>nd_isCNRSRoot := True\<rparr>"

definition AddLocalIp :: "Ipv4Address \<Rightarrow> CybertwinNode \<Rightarrow> CybertwinNode" where
  "AddLocalIp localIp st = st\<lparr>nd_localAddrList := nd_localAddrList st @ [localIp]\<rparr>"

definition AddGlobalIp :: "Ipv4Address \<Rightarrow> CybertwinNode \<Rightarrow> CybertwinNode" where
  "AddGlobalIp globalIp st = st\<lparr>nd_globalAddrList := nd_globalAddrList st @ [globalIp]\<rparr>"

definition AddInstalledApp :: "nat \<Rightarrow> int \<Rightarrow> CybertwinNode \<Rightarrow> CybertwinNode" where
  "AddInstalledApp app startTime st =
     st\<lparr>nd_installedApps := (nd_installedApps st)(app \<mapsto> startTime)\<rparr>"

text \<open>\<^verbatim>\<open>AddApplication\<close>: an application starts at time zero unless told otherwise.\<close>

definition AddApplication :: "application \<Rightarrow> CybertwinNode \<Rightarrow> nat \<times> CybertwinNode" where
  "AddApplication app st =
     (length (nd_applications st), st\<lparr>nd_applications := nd_applications st @ [(app, 0)]\<rparr>)"

definition StartAllAggregatedApps :: "CybertwinNode \<Rightarrow> CybertwinNode" where
  "StartAllAggregatedApps st = st\<lparr>nd_applications :=
     map (\<lambda>i. case nd_installedApps st i of
              None \<Rightarrow> nd_applications st ! i
            | Some startTime \<Rightarrow> (fst (nd_applications st ! i), startTime))
       [0..<length (nd_applications st)]\<rparr>"

definition InstallCNRSApp ::
  "(nat \<Rightarrow> Ipv4Address) \<Rightarrow> bool \<Rightarrow> int \<Rightarrow> CybertwinNode \<Rightarrow> CybertwinNode" where
  "InstallCNRSApp ifaceAddr garbage now st =
     (let (app, st) =
        (if \<not> m_initialized (nd_upperNodeAddress st) \<and> nd_parents st = [] then
           (NameResolutionService_new garbage, st)
         else
           let st = (if \<not> m_initialized (nd_upperNodeAddress st)
                     then st\<lparr>nd_upperNodeAddress := ifaceAddr (hd (nd_parents st))\<rparr> else st)
           in (NameResolutionService_super (nd_upperNodeAddress st) garbage, st))
      in st\<lparr>nd_applications := nd_applications st @ [(CNRS_App app, now)],
            nd_cybertwinCNRSApp := Some (length (nd_applications st))\<rparr>)"

text \<open>The manager is added to the node, but no member remembers it.\<close>

definition InstallCybertwinManagerApp ::
  "(nat \<Rightarrow> Ipv4Address) \<Rightarrow> Ipv4Address list \<Rightarrow> Ipv4Address list \<Rightarrow> int \<Rightarrow> CybertwinNode \<Rightarrow>
     CybertwinNode outcome" where
  "InstallCybertwinManagerApp ifaceAddr localIpList globalIpList now st =
     then_do
       (if \<not> m_initialized (nd_upperNodeAddress st) then
          require (nd_parents st \<noteq> []) AssertFailed
            (Inr (st\<lparr>nd_upperNodeAddress := ifaceAddr (hd (nd_parents st))\<rparr>))
        else Inr st)
       (\<lambda>st. Inr (st\<lparr>nd_applications := nd_applications st @
          [(Manager_App (CybertwinManager_new globalIpList), now)]\<rparr>))"

definition CoreServer_PowerOn ::
  "(nat \<Rightarrow> Ipv4Address) \<Rightarrow> bool \<Rightarrow> int \<Rightarrow> CybertwinNode \<Rightarrow> CybertwinNode outcome" where
  "CoreServer_PowerOn ifaceAddr garbage now st = Inr (InstallCNRSApp ifaceAddr garbage now st)"

definition EdgeServer_PowerOn ::
  "(nat \<Rightarrow> Ipv4Address) \<Rightarrow> bool \<Rightarrow> int \<Rightarrow> CybertwinNode \<Rightarrow> CybertwinNode outcome" where
  "EdgeServer_PowerOn ifaceAddr garbage now st =
     (if nd_parents st = [] then Inr st
      else
        let st = InstallCNRSApp ifaceAddr garbage now st
        in InstallCybertwinManagerApp ifaceAddr (nd_localAddrList st) (nd_globalAddrList st) now st)"

definition EndHost_PowerOn ::
  "CYBERTWINID_t \<Rightarrow> u16 \<Rightarrow> int \<Rightarrow> CybertwinNode \<Rightarrow> CybertwinNode" where
  "EndHost_PowerOn garbageId garbagePort now st =
     st\<lparr>nd_applications := nd_applications st @
          [(Daemon_App (CybertwinEndHostDaemon_new (nd_name st) (nd_upperNodeAddress st)
             garbageId garbagePort), now)],
        nd_cybertwinEndHostDaemon := Some (length (nd_applications st))\<rparr>"

text \<open>When the service starts it reads the root flag and the upper address of its node.\<close>

definition started_CNRS :: "CybertwinNode \<Rightarrow> NameResolutionService option" where
  "started_CNRS st =
     (case nd_cybertwinCNRSApp st of
        None \<Rightarrow> None
      | Some i \<Rightarrow>
          (case fst (nd_applications st ! i) of
             CNRS_App app \<Rightarrow> Some (InitSuperior (nd_isCNRSRoot st) (nd_upperNodeAddress st) app)
           | _ \<Rightarrow> None))"

section \<open>Installing applications\<close>

text \<open>
  The parameters of an application, as \<^verbatim>\<open>yaml-cpp\<close> converts them; a missing one makes the
  conversion throw.
\<close>

record AppParams =
  ap_startDelay :: "u32 option"
  ap_targetCybertwinId :: "CYBERTWINID_t option"
  ap_cybertwinId :: "CYBERTWINID_t option"
  ap_cybertwinPort :: "u16 option"
  ap_maxSize :: "string option"

definition InstallDownloadClient ::
  "u16 \<Rightarrow> CYBERTWINID_t \<Rightarrow> AppParams \<Rightarrow> CybertwinNode \<Rightarrow> CybertwinNode outcome" where
  "InstallDownloadClient garbagePort garbageId parameters node =
     from_option RuntimeError (ap_startDelay parameters) (\<lambda>startDelay.
     from_option RuntimeError (ap_targetCybertwinId parameters) (\<lambda>targetId.
       let downloadClient = (CybertwinAppDownloadClient_new garbagePort garbageId)
             \<lparr>dc_targetCybertwinId := targetId\<rparr>;
           (app, node) = AddApplication (DownloadClient_App downloadClient) node
       in Inr (AddInstalledApp app (seconds (uint startDelay)) node)))"

fun contains :: "string \<Rightarrow> string \<Rightarrow> bool" where
  "contains pat [] = (pat = [])"
| "contains pat (c # cs) = (take (length pat) (c # cs) = pat \<or> contains pat cs)"

text \<open>The products are computed in \<^verbatim>\<open>int\<close>; overflow is undefined.\<close>

definition int_times :: "int \<Rightarrow> int \<Rightarrow> int outcome" where
  "int_times a b = require (fits_int (a * b)) Undefined (Inr (a * b))"

definition max_size_bytes :: "string \<Rightarrow> u32 outcome" where
  "max_size_bytes maxSize =
     then_do (stoi maxSize) (\<lambda>n.
       then_do
         (if contains ''MB'' maxSize then then_do (int_times n 1024) (\<lambda>n. int_times n 1024)
          else if contains ''KB'' maxSize then int_times n 1024
          else Inr n)
         (\<lambda>n. Inr (word_of_int n)))"

definition InstallDownloadServer :: "AppParams \<Rightarrow> CybertwinNode \<Rightarrow> CybertwinNode outcome" where
  "InstallDownloadServer parameters node =
     from_option RuntimeError (ap_startDelay parameters) (\<lambda>startDelay.
     from_option RuntimeError (ap_cybertwinId parameters) (\<lambda>cybertwinId.
     from_option RuntimeError (ap_cybertwinPort parameters) (\<lambda>cybertwinPort.
     from_option RuntimeError (ap_maxSize parameters) (\<lambda>maxSize.
       let interfaces = map (\<lambda>ip. (ip, cybertwinPort)) (nd_globalAddrList node);
           downloadServer = (CybertwinAppDownloadServer_new cybertwinId interfaces)
             \<lparr>ds_cybertwinID := cybertwinId\<rparr>
       in then_do (max_size_bytes maxSize) (\<lambda>maxSizeBytes.
            let downloadServer = downloadServer\<lparr>ds_maxBytes := ucast maxSizeBytes\<rparr>;
                (app, node) = AddApplication (DownloadServer_App downloadServer) node
            in Inr (AddInstalledApp app (seconds (uint startDelay)) node))))))"

definition Helper_InstallApplications ::
  "u16 \<Rightarrow> CYBERTWINID_t \<Rightarrow> string \<Rightarrow> AppParams \<Rightarrow> CybertwinNode \<Rightarrow> CybertwinNode outcome" where
  "Helper_InstallApplications garbagePort garbageId appname parameters node =
     (if appname = ''download-client'' then InstallDownloadClient garbagePort garbageId parameters node
      else if appname = ''download-server'' then InstallDownloadServer parameters node
      else Inr node)"

section \<open>Lemmas\<close>

lemma InstallCNRSApp_started:
  assumes "nd_applications nd = []"
  shows "\<exists>s. started_CNRS (InstallCNRSApp ifaceAddr garbage now nd) = Some s \<and>
    nrs_isCNRSRoot s = nd_isCNRSRoot nd \<and>
    (\<not> nd_isCNRSRoot nd \<and> m_initialized (nd_upperNodeAddress nd) \<longrightarrow>
      nrs_superior s = nd_upperNodeAddress nd)"
  using assms by (cases "nd_isCNRSRoot nd")
    (auto simp: InstallCNRSApp_def started_CNRS_def InitSuperior_def Let_def)

lemma contains_skip: "c \<notin> set xs \<Longrightarrow> contains (c # pat) (xs @ ys) = contains (c # pat) ys"
  by (induction xs) auto

lemma stoi_suffix:
  assumes "n < 2 ^ 31" and "suffix = [] \<or> \<not> is_digit (hd suffix)"
  shows "stoi (to_string n @ suffix) = Inr (int n)"
proof -
  obtain c cs where s: "to_string n = c # cs" "is_digit c"
    using to_string_digits [of n] by (cases "to_string n") auto
  have "takeWhile is_digit suffix = []"
    using assms(2) by (cases suffix) auto
  then have "takeWhile is_digit (cs @ suffix) = cs"
    using to_string_digits [of n] s(1) by (simp add: takeWhile_append2)
  then have "leading_number (to_string n @ suffix) = Some (int n)"
    using s digit_not_special [OF s(2)] digits_value_to_string [of n] by (simp add: leading_number_def)
  with assms(1) show ?thesis
    by (simp add: stoi_def fits_int_def)
qed

section \<open>Properties\<close>

text \<open>
  The size of a download as the configuration writes it (a decimal number, with
  \<^verbatim>\<open>MB\<close> or \<^verbatim>\<open>KB\<close> behind it or not) is read as that many bytes; the products are
  computed in a signed 32-bit integer, so from 2048 MB or 2097152 KB on the result is undefined.
\<close>

theorem max_size_text:
  assumes "n < 2 ^ 31"
  shows "max_size_bytes (to_string n @ ''MB'') = (if n < 2048 then Inr (of_nat (n * 1048576)) else Inl Undefined) \<and>
    max_size_bytes (to_string n @ ''KB'') = (if n < 2097152 then Inr (of_nat (n * 1024)) else Inl Undefined) \<and>
    max_size_bytes (to_string n) = Inr (of_nat n)"
proof -
  have no: "CHR ''M'' \<notin> set (to_string n)" "CHR ''K'' \<notin> set (to_string n)"
    using to_string_digits [of n] by (auto simp: is_digit_def char_code_def)
  have nd: "\<not> is_digit (hd ''MB'')" "\<not> is_digit (hd ''KB'')"
    by (simp_all add: is_digit_def char_code_def)
  have "contains ''MB'' (to_string n @ ''MB'')" "\<not> contains ''MB'' (to_string n @ ''KB'')"
    "contains ''KB'' (to_string n @ ''KB'')" "\<not> contains ''MB'' (to_string n)" "\<not> contains ''KB'' (to_string n)"
    using contains_skip [OF no(1)] contains_skip [OF no(2)] contains_skip [OF no(1), of _ "[]"]
      contains_skip [OF no(2), of _ "[]"] by simp_all
  then show ?thesis
    using stoi_suffix [OF assms, of "''MB''"] stoi_suffix [OF assms, of "''KB''"]
      stoi_suffix [OF assms, of "[]"] nd
    by (auto simp: max_size_bytes_def int_times_def fits_int_def)
qed

theorem max_size_text_witness: "max_size_bytes (to_string 10 @ ''MB'') = Inr 10485760"
  using max_size_text [of 10] by simp

text \<open>
  The port configured for a download server has no effect: the installed server, once
  started, registers its identifier with port 80 at each global address of its node and listens
  there.
\<close>

theorem configured_port_ignored:
  assumes "InstallDownloadServer parameters node = Inr node'"
  shows "\<exists>server cybertwinId. ap_cybertwinId parameters = Some cybertwinId \<and>
    fst (last (nd_applications node')) = DownloadServer_App server \<and>
    (\<exists>server'. DS_StartApplication (nd_globalAddrList node) True fresh server =
      Inr (server', [APP_Insert cybertwinId (map (\<lambda>ip. (ip, 80)) (nd_globalAddrList node)),
        APP_Listen fresh 80]))"
  using assms
  by (auto simp: InstallDownloadServer_def Let_def AddApplication_def AddInstalledApp_def
      DS_StartApplication_def CybertwinAppDownloadServer_new_def)

definition example_params :: AppParams where
  "example_params = \<lparr>ap_startDelay = Some 1, ap_targetCybertwinId = None, ap_cybertwinId = Some 1000,
     ap_cybertwinPort = Some 1000, ap_maxSize = Some (to_string 10 @ ''MB'')\<rparr>"

theorem configured_port_ignored_witness:
  "\<exists>node' server server'.
    InstallDownloadServer example_params (AddGlobalIp (Ipv4Address_of 9) (CybertwinNode_new CoreServer False)) = Inr node' \<and>
    fst (last (nd_applications node')) = DownloadServer_App server \<and>
    DS_StartApplication [Ipv4Address_of 9] True 4 server =
      Inr (server', [APP_Insert 1000 [(Ipv4Address_of 9, 80)], APP_Listen 4 80])"
proof -
  let ?node = "AddGlobalIp (Ipv4Address_of 9) (CybertwinNode_new CoreServer False)"
  have "\<exists>node'. InstallDownloadServer example_params ?node = Inr node'"
    using stoi_suffix [of 10 "''MB''"] contains_skip [of "CHR ''M''" "to_string 10" "''B''" "''MB''"]
    by (simp add: InstallDownloadServer_def example_params_def AddApplication_def max_size_bytes_def
        int_times_def fits_int_def is_digit_def char_code_def to_string.simps)
  then obtain node' where "InstallDownloadServer example_params ?node = Inr node'"
    by blast
  with configured_port_ignored [OF this, of 4] show ?thesis
    by (simp add: AddGlobalIp_def CybertwinNode_new_def example_params_def)
qed

end
