(* ===== verification/Topology.thy ===== *)
theory Topology
  imports Nodes
begin

text \<open>
  The topology reader (\<^verbatim>\<open>topology-read/model/cybertwin-topology-reader.{h,cc}\<close>): it
  creates the nodes of the core cloud, the edge cloud and the access networks from the
  configuration, connects them by links with addresses of their own, chooses the root of the
  name resolution service and installs the applications.

  The configuration is the parsed YAML document.  Pointers to nodes are positions in the list
  of all nodes; the nodes that the LTE and UAN networks create are plain ns-3 nodes, not
  cybertwin nodes, and are not in that list.  Devices, positions and mobility are left out.
  The address generator of the simulation is part of the reader's state.
\<close>

section \<open>Configuration and state\<close>

datatype NodeType = HOST_SERVER | END_CLUSTER

record Link =
  lk_target :: string
  lk_data_rate :: string
  lk_delay :: string
  lk_network :: string

record Gateway =
  gw_name :: string
  gw_data_rate :: string
  gw_delay :: string
  gw_network :: string

record CloudNode =
  cn_name :: string
  cn_type :: string
  cn_connections :: "Link list"

record EndCluster =
  ec_name :: string
  ec_type :: string
  ec_num_nodes :: int
  ec_local_network :: string
  ec_network_type :: string
  ec_gateways :: "Gateway list"

record AppConfig =
  ac_name :: string
  ac_enabled :: bool
  ac_target_nodes :: "string list"
  ac_parameters :: AppParams

record NodeInfo =
  ni_node :: "nat option"
  ni_name :: string
  ni_type :: NodeType
  ni_links :: "Link list"

record CybertwinTopologyReader =
  tr_nodes :: "CybertwinNode list"
  tr_coreNodesList :: "NodeInfo list"
  tr_edgeNodesList :: "NodeInfo list"
  tr_coreNodes :: "nat list"
  tr_edgeNodes :: "nat list"
  tr_endNodes :: "nat list"
  tr_apNodes :: "nat list"
  tr_staNodes :: "nat list"
  tr_endhostNodes :: "nat list"
  tr_nodeInfoMap :: "string \<rightharpoonup> NodeInfo"
  tr_nodeName2Ptr :: "string \<rightharpoonup> nat"
  tr_links :: "string set"
  tr_generator :: Ipv4AddressGeneratorImpl

type_synonym tr_result = "CybertwinTopologyReader outcome"

definition reader_new :: "Ipv4AddressGeneratorImpl \<Rightarrow> CybertwinTopologyReader" where
  "reader_new gen = \<lparr>tr_nodes = [], tr_coreNodesList = [], tr_edgeNodesList = [], tr_coreNodes = [],
     tr_edgeNodes = [], tr_endNodes = [], tr_apNodes = [], tr_staNodes = [], tr_endhostNodes = [],
     tr_nodeInfoMap = Map.empty, tr_nodeName2Ptr = Map.empty, tr_links = {}, tr_generator = gen\<rparr>"

definition GetNodeType :: "string \<Rightarrow> NodeType" where
  "GetNodeType type =
     (if type = ''host_server'' then HOST_SERVER
      else if type = ''end_cluster'' then END_CLUSTER else HOST_SERVER)"

definition GetNodeByName :: "string \<Rightarrow> CybertwinTopologyReader \<Rightarrow> nat outcome" where
  "GetNodeByName nodeName st = from_option RuntimeError (tr_nodeName2Ptr st nodeName) Inr"

definition at_node ::
  "nat \<Rightarrow> (CybertwinNode \<Rightarrow> CybertwinNode) \<Rightarrow> CybertwinTopologyReader \<Rightarrow> CybertwinTopologyReader" where
  "at_node p f st = st\<lparr>tr_nodes := (tr_nodes st)[p := f (tr_nodes st ! p)]\<rparr>"

text \<open>The addresses of the two ends of a new link.\<close>

definition CreateP2PLink ::
  "string \<Rightarrow> CybertwinTopologyReader \<Rightarrow> (Ipv4Address \<times> Ipv4Address \<times> CybertwinTopologyReader) outcome" where
  "CreateP2PLink network st =
     then_do (AssignIPAddresses 2 network (tr_generator st))
       (\<lambda>(as, gen). Inr (as ! 0, as ! 1, st\<lparr>tr_generator := gen\<rparr>))"

section \<open>The clouds\<close>

definition CreateCloudNodeInfo :: "nat \<Rightarrow> CloudNode \<Rightarrow> NodeInfo" where
  "CreateCloudNodeInfo n node = \<lparr>ni_node = Some n, ni_name = cn_name node,
     ni_type = GetNodeType (cn_type node), ni_links = cn_connections node\<rparr>"

text \<open>
  Creating a cloud node: it joins the list of nodes, and the two maps point to it.  The root
  flag of a new node is not initialised (\<open>garbage\<close>).
\<close>

definition create_cloud_node ::
  "node_kind \<Rightarrow> bool \<Rightarrow> CloudNode \<Rightarrow> CybertwinTopologyReader \<Rightarrow> NodeInfo \<times> CybertwinTopologyReader" where
  "create_cloud_node kind garbage node st =
     (let n = length (tr_nodes st);
          nodeInfo = CreateCloudNodeInfo n node
      in (nodeInfo, st\<lparr>
           tr_nodes := tr_nodes st @ [(CybertwinNode_new kind garbage)\<lparr>nd_name := cn_name node\<rparr>],
           tr_nodeInfoMap := (tr_nodeInfoMap st)(cn_name node \<mapsto> nodeInfo),
           tr_nodeName2Ptr := (tr_nodeName2Ptr st)(cn_name node \<mapsto> n)\<rparr>))"

definition create_core_node :: "bool \<Rightarrow> CloudNode \<Rightarrow> CybertwinTopologyReader \<Rightarrow> tr_result" where
  "create_core_node garbage node st =
     (let (nodeInfo, st') = create_cloud_node CoreServer garbage node st
      in Inr (st'\<lparr>tr_coreNodesList := tr_coreNodesList st' @ [nodeInfo],
                  tr_coreNodes := tr_coreNodes st' @ [length (tr_nodes st)]\<rparr>))"

text \<open>
  The target of a link is looked up and used before the test whether it exists, and a target
  that is not a core server becomes a null pointer; links are remembered under the
  concatenation of the two names.
\<close>

definition core_link :: "NodeInfo \<Rightarrow> Link \<Rightarrow> CybertwinTopologyReader \<Rightarrow> tr_result" where
  "core_link nodeInfo link st =
     (let nodeName = ni_name nodeInfo; target = lk_target link
      in from_option NullPointer (tr_nodeInfoMap st target)
           (\<lambda>dst. if nodeName @ target \<in> tr_links st \<or> target @ nodeName \<in> tr_links st then Inr st
              else from_option NullPointer (ni_node nodeInfo)
                (\<lambda>coreServerSrc. from_option NullPointer (ni_node dst)
                (\<lambda>coreServerDst. require (nd_kind (tr_nodes st ! coreServerDst) = CoreServer) NullPointer
                (then_do (CreateP2PLink (lk_network link) st)
                (\<lambda>(a0, a1, st).
                   let st = at_node coreServerSrc (AddGlobalIp a0) st;
                       st = at_node coreServerDst (AddGlobalIp a1) st
                   in Inr (st\<lparr>tr_links := tr_links st \<union> {nodeName @ target, target @ nodeName}\<rparr>)))))))"

definition ParseCoreCloud :: "bool \<Rightarrow> CloudNode list \<Rightarrow> CybertwinTopologyReader \<Rightarrow> tr_result" where
  "ParseCoreCloud garbage coreCloudConfig st =
     then_do (each (create_core_node garbage) coreCloudConfig st)
       (\<lambda>st. each (\<lambda>nodeInfo. each (core_link nodeInfo) (ni_links nodeInfo)) (tr_coreNodesList st) st)"

definition edge_link :: "nat \<Rightarrow> Link \<Rightarrow> CybertwinTopologyReader \<Rightarrow> tr_result" where
  "edge_link edgeServer link st =
     (case tr_nodeInfoMap st (lk_target link) of
        None \<Rightarrow> Inr st
      | Some dst \<Rightarrow>
          from_option NullPointer (ni_node dst)
            (\<lambda>target. then_do (CreateP2PLink (lk_network link) st)
            (\<lambda>(a0, a1, st). Inr (at_node edgeServer
               (\<lambda>nd. AddGlobalIp a0 (SetUpperNodeAddress a1 (AddParent target nd))) st))))"

definition ParseEdge_node :: "bool \<Rightarrow> CloudNode \<Rightarrow> CybertwinTopologyReader \<Rightarrow> tr_result" where
  "ParseEdge_node garbage node st =
     (let (nodeInfo, st') = create_cloud_node EdgeServer garbage node st;
          st' = st'\<lparr>tr_edgeNodesList := tr_edgeNodesList st' @ [nodeInfo],
                    tr_edgeNodes := tr_edgeNodes st' @ [length (tr_nodes st)]\<rparr>
      in each (edge_link (length (tr_nodes st))) (ni_links nodeInfo) st')"

definition ParseEdgeCloud :: "bool \<Rightarrow> CloudNode list \<Rightarrow> CybertwinTopologyReader \<Rightarrow> tr_result" where
  "ParseEdgeCloud garbage edgeCloudConfig st = each (ParseEdge_node garbage) edgeCloudConfig st"

section \<open>The access networks\<close>

definition create_end_host ::
  "bool \<Rightarrow> string \<Rightarrow> nat \<Rightarrow> CybertwinTopologyReader \<Rightarrow> CybertwinTopologyReader" where
  "create_end_host garbage cluster i st =
     (let n = length (tr_nodes st); nodeName = cluster @ ''_'' @ to_string i
      in st\<lparr>tr_nodes := tr_nodes st @ [(CybertwinNode_new EndHost garbage)\<lparr>nd_name := nodeName\<rparr>],
            tr_endNodes := tr_endNodes st @ [n],
            tr_nodeName2Ptr := (tr_nodeName2Ptr st)(nodeName \<mapsto> n)\<rparr>)"

definition create_end_hosts ::
  "bool \<Rightarrow> EndCluster \<Rightarrow> CybertwinTopologyReader \<Rightarrow> CybertwinTopologyReader" where
  "create_end_hosts garbage cluster st =
     fold (create_end_host garbage (ec_name cluster)) [0..<nat (ec_num_nodes cluster)] st"

text \<open>Every end host gets its address in the local network of the cluster.\<close>

definition assign_local ::
  "nat list \<Rightarrow> string \<Rightarrow> CybertwinTopologyReader \<Rightarrow> tr_result" where
  "assign_local ps network st =
     then_do (AssignIPAddresses (length ps) network (tr_generator st))
       (\<lambda>(as, gen). Inr (fold (\<lambda>(p, a). at_node p (AddLocalIp a)) (zip ps as)
          (st\<lparr>tr_generator := gen\<rparr>)))"

text \<open>
  A network creation returns the end nodes (nothing for a plain node), whether there is a
  router, and the new state.
\<close>

type_synonym net_result = "(nat option list \<times> bool \<times> CybertwinTopologyReader) outcome"

definition new_positions :: "EndCluster \<Rightarrow> CybertwinTopologyReader \<Rightarrow> nat list" where
  "new_positions cluster st = [length (tr_nodes st)..<length (tr_nodes st) + nat (ec_num_nodes cluster)]"

definition CreateCsmaNetwork ::
  "bool \<Rightarrow> EndCluster \<Rightarrow> CybertwinTopologyReader \<Rightarrow> net_result" where
  "CreateCsmaNetwork garbage csma st =
     (let ps = new_positions csma st;
          st = create_end_hosts garbage csma st;
          st = st\<lparr>tr_endhostNodes := tr_endhostNodes st @ ps\<rparr>
      in then_do (assign_local ps (ec_local_network csma) st)
           (\<lambda>st. require (ps \<noteq> []) Undefined (Inr (map Some ps, True, st))))"

definition CreateWifiNetwork ::
  "bool \<Rightarrow> EndCluster \<Rightarrow> CybertwinTopologyReader \<Rightarrow> net_result" where
  "CreateWifiNetwork garbage wifi st =
     (let ps = new_positions wifi st;
          st = create_end_hosts garbage wifi st;
          st = st\<lparr>tr_apNodes := tr_apNodes st @ take 1 ps, tr_staNodes := tr_staNodes st @ drop 1 ps\<rparr>
      in require (ps \<noteq> []) Undefined
           (then_do (assign_local ps (ec_local_network wifi) st)
              (\<lambda>st. Inr (map Some ps, True, st))))"

text \<open>
  The EPC helper of the LTE module takes its addresses from the same generator; which ones is the
  parameter \<open>epc\<close>.  The router is the helper's gateway.
\<close>

definition CreateLteNetwork ::
  "(EndCluster \<Rightarrow> u32 list) \<Rightarrow> EndCluster \<Rightarrow> CybertwinTopologyReader \<Rightarrow> net_result" where
  "CreateLteNetwork epc lte st =
     then_do (each reserve_address (epc lte) (tr_generator st))
       (\<lambda>gen. Inr (replicate (nat (ec_num_nodes lte)) None, True, st\<lparr>tr_generator := gen\<rparr>))"

definition CreateUanNetwork :: "EndCluster \<Rightarrow> CybertwinTopologyReader \<Rightarrow> net_result" where
  "CreateUanNetwork uan st =
     then_do (AssignIPAddresses (1 + nat (ec_num_nodes uan)) (ec_local_network uan) (tr_generator st))
       (\<lambda>(_, gen). Inr (replicate (nat (ec_num_nodes uan)) None, True, st\<lparr>tr_generator := gen\<rparr>))"

definition CreateEndClusterNodeInfo :: "EndCluster \<Rightarrow> NodeInfo" where
  "CreateEndClusterNodeInfo node =
     \<lparr>ni_node = None, ni_name = ec_name node, ni_type = GetNodeType (ec_type node), ni_links = []\<rparr>"

definition create_network ::
  "(EndCluster \<Rightarrow> u32 list) \<Rightarrow> bool \<Rightarrow> EndCluster \<Rightarrow> CybertwinTopologyReader \<Rightarrow> net_result" where
  "create_network epc garbage node st =
     (if ec_network_type node = ''csma'' then CreateCsmaNetwork garbage node st
      else if ec_network_type node = ''wifi'' then CreateWifiNetwork garbage node st
      else if ec_network_type node = ''lte'' then CreateLteNetwork epc node st
      else if ec_network_type node = ''uan'' then CreateUanNetwork node st
      else Inr ([], False, st))"

definition configure_end_host ::
  "nat \<Rightarrow> Ipv4Address \<Rightarrow> nat option \<Rightarrow> CybertwinTopologyReader \<Rightarrow> tr_result" where
  "configure_end_host gateway upper endHost st =
     from_option NullPointer endHost
       (\<lambda>p. Inr (at_node p (\<lambda>nd. SetUpperNodeAddress upper (AddParent gateway nd)) st))"

definition ParseAccess_node ::
  "(EndCluster \<Rightarrow> u32 list) \<Rightarrow> bool \<Rightarrow> EndCluster \<Rightarrow> CybertwinTopologyReader \<Rightarrow> tr_result" where
  "ParseAccess_node epc garbage node st =
     (let st = st\<lparr>tr_nodeInfoMap := (tr_nodeInfoMap st)(ec_name node \<mapsto> CreateEndClusterNodeInfo node)\<rparr>
      in then_do (create_network epc garbage node st)
           (\<lambda>(endNodes, router, st).
              case ec_gateways node of
                [] \<Rightarrow> Inl AssertFailed
              | gateway # _ \<Rightarrow>
                  from_option NullPointer (tr_nodeInfoMap st (gw_name gateway))
                    (\<lambda>gw. from_option NullPointer (ni_node gw)
                    (\<lambda>g. require router NullPointer
                       (then_do (CreateP2PLink (gw_network gateway) st)
                       (\<lambda>(a0, a1, st). then_do (each (configure_end_host g a1) endNodes st)
                       (\<lambda>st. require (nd_kind (tr_nodes st ! g) = EdgeServer) NullPointer
                          (Inr (at_node g (AddGlobalIp a1) st)))))))))"

definition ParseAccessNetwork ::
  "(EndCluster \<Rightarrow> u32 list) \<Rightarrow> bool \<Rightarrow> EndCluster list \<Rightarrow> CybertwinTopologyReader \<Rightarrow> tr_result" where
  "ParseAccessNetwork epc garbage accessLayerConfig st = each (ParseAccess_node epc garbage) accessLayerConfig st"

section \<open>The root of the name resolution service\<close>

text \<open>A node that is not a core server casts to a null pointer.\<close>

definition core_by_name :: "string \<Rightarrow> CybertwinTopologyReader \<Rightarrow> nat outcome" where
  "core_by_name name st =
     then_do (GetNodeByName name st)
       (\<lambda>p. require (nd_kind (tr_nodes st ! p) = CoreServer) NullPointer (Inr p))"

definition set_upper ::
  "string \<Rightarrow> Ipv4Address \<Rightarrow> NodeInfo \<Rightarrow> CybertwinTopologyReader \<Rightarrow> tr_result" where
  "set_upper centralNode addr node st =
     (if ni_name node \<noteq> centralNode then
        then_do (core_by_name (ni_name node) st)
          (\<lambda>p. Inr (at_node p (SetUpperNodeAddress addr) st))
      else Inr st)"

definition ConfigCNRS :: "string \<Rightarrow> CybertwinTopologyReader \<Rightarrow> tr_result" where
  "ConfigCNRS centralNode st =
     then_do (core_by_name centralNode st)
       (\<lambda>coreServer.
          let st = at_node coreServer SetCNRSRoot st
          in case nd_globalAddrList (tr_nodes st ! coreServer) of
               [] \<Rightarrow> Inl AssertFailed
             | centralNodeAddress # _ \<Rightarrow>
                 each (set_upper centralNode centralNodeAddress) (tr_coreNodesList st) st)"

record TopologyConfig =
  tc_core_layer :: "CloudNode list"
  tc_edge_layer :: "CloudNode list"
  tc_access_layer :: "EndCluster list"
  tc_central_node :: string

definition Read ::
  "(EndCluster \<Rightarrow> u32 list) \<Rightarrow> bool \<Rightarrow> TopologyConfig \<Rightarrow> CybertwinTopologyReader \<Rightarrow> tr_result" where
  "Read epc garbage config st =
     then_do (ParseCoreCloud garbage (tc_core_layer config) st)
       (\<lambda>st. then_do (ParseEdgeCloud garbage (tc_edge_layer config) st)
       (\<lambda>st. then_do (ParseAccessNetwork epc garbage (tc_access_layer config) st)
          (ConfigCNRS (tc_central_node config))))"

section \<open>Applications\<close>

text \<open>Parameters of one application are installed on its target nodes in turn.\<close>

definition install_on ::
  "u16 \<Rightarrow> CYBERTWINID_t \<Rightarrow> AppConfig \<Rightarrow> nat \<Rightarrow> CybertwinTopologyReader \<Rightarrow> tr_result" where
  "install_on garbagePort garbageId app p st =
     then_do (Helper_InstallApplications garbagePort garbageId (ac_name app) (ac_parameters app) (tr_nodes st ! p))
       (\<lambda>nd. Inr (at_node p (\<lambda>_. nd) st))"

fun lookup_nodes :: "string list \<Rightarrow> CybertwinTopologyReader \<Rightarrow> nat list outcome" where
  "lookup_nodes [] st = Inr []"
| "lookup_nodes (nodeName # nodes) st =
     then_do (GetNodeByName nodeName st)
       (\<lambda>p. then_do (lookup_nodes nodes st) (\<lambda>ps. Inr (p # ps)))"

definition install_app ::
  "u16 \<Rightarrow> CYBERTWINID_t \<Rightarrow> AppConfig \<Rightarrow> CybertwinTopologyReader \<Rightarrow> tr_result" where
  "install_app garbagePort garbageId app st =
     (if \<not> ac_enabled app then Inr st
      else then_do (lookup_nodes (ac_target_nodes app) st)
             (\<lambda>targetNodes. each (install_on garbagePort garbageId app) targetNodes st))"

definition Reader_InstallApplications ::
  "u16 \<Rightarrow> CYBERTWINID_t \<Rightarrow> AppConfig list \<Rightarrow> CybertwinTopologyReader \<Rightarrow> tr_result" where
  "Reader_InstallApplications garbagePort garbageId applications st =
     each (install_app garbagePort garbageId) applications st"

section \<open>Well-formed topologies\<close>

text \<open>
  What holds of every node while the topology is built; that a name leads to the node of that
  name; that every reference leads to a node; and that no address is used twice.
\<close>

definition node_addresses :: "CybertwinNode \<Rightarrow> u32 list" where
  "node_addresses nd = map m_address (nd_globalAddrList nd @ nd_localAddrList nd)"

definition node_ok :: "bool \<Rightarrow> CybertwinNode \<Rightarrow> bool" where
  "node_ok garbage nd \<longleftrightarrow> (nd_isCNRSRoot nd \<longrightarrow> garbage) \<and> (\<forall>a \<in> set (nd_globalAddrList nd @ nd_localAddrList nd). m_initialized a) \<and>
     nd_applications nd = [] \<and> (nd_parents nd \<noteq> [] \<longrightarrow> m_initialized (nd_upperNodeAddress nd) \<and>
       (nd_kind nd = EdgeServer \<longrightarrow> nd_globalAddrList nd \<noteq> []))"

definition names_ok :: "CybertwinTopologyReader \<Rightarrow> bool" where
  "names_ok st \<longleftrightarrow> (\<forall>n p. tr_nodeName2Ptr st n = Some p \<longrightarrow>
     p < length (tr_nodes st) \<and> nd_name (tr_nodes st ! p) = n)"

definition refs_ok :: "CybertwinTopologyReader \<Rightarrow> bool" where
  "refs_ok st \<longleftrightarrow> (\<forall>n info p. tr_nodeInfoMap st n = Some info \<longrightarrow> ni_node info = Some p \<longrightarrow>
       p < length (tr_nodes st)) \<and>
     (\<forall>nd \<in> set (tr_nodes st). \<forall>p \<in> set (nd_parents nd). p < length (tr_nodes st))"

definition addresses :: "CybertwinTopologyReader \<Rightarrow> u32 set" where
  "addresses st = (\<Union>nd \<in> set (tr_nodes st). set (node_addresses nd))"

definition unique_addresses :: "CybertwinNode list \<Rightarrow> bool" where
  "unique_addresses nds \<longleftrightarrow> (\<forall>p < length nds. distinct (node_addresses (nds ! p))) \<and>
     (\<forall>p < length nds. \<forall>q < length nds. p \<noteq> q \<longrightarrow>
        set (node_addresses (nds ! p)) \<inter> set (node_addresses (nds ! q)) = {})"

definition reader_ok :: "bool \<Rightarrow> CybertwinTopologyReader \<Rightarrow> bool" where
  "reader_ok garbage st \<longleftrightarrow> names_ok st \<and> refs_ok st \<and> (\<forall>nd \<in> set (tr_nodes st). node_ok garbage nd) \<and>
     generator_live (tr_generator st) \<and> unique_addresses (tr_nodes st) \<and>
     addresses st \<subseteq> allocated (tr_generator st)"

lemma at_node_simps [simp]:
  "length (tr_nodes (at_node p f st)) = length (tr_nodes st)"
  "tr_nodeName2Ptr (at_node p f st) = tr_nodeName2Ptr st"
  "tr_nodeInfoMap (at_node p f st) = tr_nodeInfoMap st"
  "tr_coreNodesList (at_node p f st) = tr_coreNodesList st"
  "tr_generator (at_node p f st) = tr_generator st"
  by (simp_all add: at_node_def)

lemma nth_at_node:
  "q < length (tr_nodes st) \<Longrightarrow>
     tr_nodes (at_node p f st) ! q = (if q = p then f (tr_nodes st ! p) else tr_nodes st ! q)"
  by (simp add: at_node_def nth_list_update)

lemma at_node_beyond: "\<not> p < length (tr_nodes st) \<Longrightarrow> at_node p f st = st"
  by (cases st) (simp add: at_node_def list_update_beyond)

lemma set_at_node:
  "p < length (tr_nodes st) \<Longrightarrow>
     set (tr_nodes (at_node p f st)) \<subseteq> insert (f (tr_nodes st ! p)) (set (tr_nodes st))"
  by (simp add: at_node_def set_update_subset_insert)

lemma in_addresses: "p < length (tr_nodes st) \<Longrightarrow> x \<in> set (node_addresses (tr_nodes st ! p)) \<Longrightarrow> x \<in> addresses st"
  unfolding addresses_def using nth_mem by blast

lemma reader_ok_at_node:
  assumes "reader_ok garbage st" and "\<And>nd. nd_name (f nd) = nd_name nd"
    and "p < length (tr_nodes st) \<Longrightarrow> node_ok garbage (tr_nodes st ! p) \<Longrightarrow> node_ok garbage (f (tr_nodes st ! p))"
    and "\<And>nd. set (nd_parents (f nd)) \<subseteq> R \<union> set (nd_parents nd)" and "\<forall>r \<in> R. r < length (tr_nodes st)"
    and "\<And>nd. set (node_addresses (f nd)) \<subseteq> X \<union> set (node_addresses nd)"
    and "\<And>nd. distinct (node_addresses nd) \<Longrightarrow> X \<inter> set (node_addresses nd) = {} \<Longrightarrow> distinct (node_addresses (f nd))"
    and "X \<inter> addresses st = {}" and "X \<subseteq> allocated (tr_generator st)"
  shows "reader_ok garbage (at_node p f st)" and "addresses (at_node p f st) \<subseteq> X \<union> addresses st"
proof -
  have "reader_ok garbage (at_node p f st) \<and> addresses (at_node p f st) \<subseteq> X \<union> addresses st"
  proof (cases "p < length (tr_nodes st)")
    case True
    note sub = set_at_node [OF True, of f]
    have p_in: "tr_nodes st ! p \<in> set (tr_nodes st)"
      using True by simp
    have ok: "names_ok st" "refs_ok st" "\<forall>nd \<in> set (tr_nodes st). node_ok garbage nd"
      "generator_live (tr_generator st)" "unique_addresses (tr_nodes st)"
      "addresses st \<subseteq> allocated (tr_generator st)"
      using assms(1) by (simp_all add: reader_ok_def)
    have adr: "addresses (at_node p f st) \<subseteq> X \<union> addresses st"
      unfolding addresses_def using sub assms(6) p_in by blast
    have "names_ok (at_node p f st)"
      using ok(1) assms(2) by (auto simp: names_ok_def nth_at_node)
    moreover have "refs_ok (at_node p f st)"
    proof -
      have "\<forall>q \<in> set (nd_parents nd). q < length (tr_nodes st)"
        if "nd \<in> set (tr_nodes (at_node p f st))" for nd
        using that sub ok(2) p_in assms(4) [of "tr_nodes st ! p"] assms(5) unfolding refs_ok_def by blast
      with ok(2) show ?thesis
        by (simp add: refs_ok_def)
    qed
    moreover have "\<forall>nd \<in> set (tr_nodes (at_node p f st)). node_ok garbage nd"
      using ok(3) assms(3) [OF True] sub p_in by blast
    moreover have "unique_addresses (tr_nodes (at_node p f st))"
    proof -
      have off: "X \<inter> set (node_addresses (tr_nodes st ! q)) = {}" if "q < length (tr_nodes st)" for q
        using assms(8) in_addresses [OF that] by blast
      have d: "distinct (node_addresses (tr_nodes st ! q))" if "q < length (tr_nodes st)" for q
        using ok(5) that by (simp add: unique_addresses_def)
      have "set (node_addresses (f (tr_nodes st ! p))) \<inter> set (node_addresses (tr_nodes st ! q)) = {}"
        if "q < length (tr_nodes st)" "q \<noteq> p" for q
        using assms(6) [of "tr_nodes st ! p"] off [OF that(1)] ok(5) that True
        unfolding unique_addresses_def by blast
      then show ?thesis
        using ok(5) d off True assms(7) by (auto simp: unique_addresses_def nth_at_node)
    qed
    ultimately show ?thesis
      using ok(4,6) adr assms(9) by (auto simp: reader_ok_def)
  next
    case False
    then show ?thesis
      using assms(1) by (simp add: at_node_beyond)
  qed
  then show "reader_ok garbage (at_node p f st)" "addresses (at_node p f st) \<subseteq> X \<union> addresses st"
    by simp_all
qed

lemma reader_ok_frame [simp]:
  "reader_ok garbage (st\<lparr>tr_links := L\<rparr>) = reader_ok garbage st"
  "reader_ok garbage (st\<lparr>tr_coreNodesList := l, tr_coreNodes := ps\<rparr>) = reader_ok garbage st"
  "reader_ok garbage (st\<lparr>tr_edgeNodesList := l, tr_edgeNodes := ps\<rparr>) = reader_ok garbage st"
  "reader_ok garbage (st\<lparr>tr_endhostNodes := ps\<rparr>) = reader_ok garbage st"
  "reader_ok garbage (st\<lparr>tr_apNodes := ps, tr_staNodes := qs\<rparr>) = reader_ok garbage st"
  by (simp_all add: reader_ok_def names_ok_def refs_ok_def addresses_def)

lemma reader_ok_generator:
  assumes "reader_ok garbage st" and "generator_live gen" and "allocated (tr_generator st) \<subseteq> allocated gen"
  shows "reader_ok garbage (st\<lparr>tr_generator := gen\<rparr>)"
  using assms by (auto simp: reader_ok_def names_ok_def refs_ok_def addresses_def)

lemma node_ok_ops:
  "node_ok garbage nd \<Longrightarrow> m_initialized a \<Longrightarrow> node_ok garbage (AddGlobalIp a nd)"
  "node_ok garbage nd \<Longrightarrow> m_initialized a \<Longrightarrow> node_ok garbage (AddLocalIp a nd)"
  "node_ok garbage nd \<Longrightarrow> m_initialized a \<Longrightarrow> node_ok garbage (SetUpperNodeAddress a nd)"
  "node_ok garbage nd \<Longrightarrow> node_ok True (SetCNRSRoot nd)"
  by (auto simp: node_ok_def AddGlobalIp_def AddLocalIp_def SetUpperNodeAddress_def SetCNRSRoot_def)

lemma node_op_simps [simp]:
  "nd_name (AddGlobalIp a nd) = nd_name nd" "nd_name (AddLocalIp a nd) = nd_name nd"
  "nd_name (SetUpperNodeAddress a nd) = nd_name nd" "nd_name (SetCNRSRoot nd) = nd_name nd"
  "nd_name (AddParent r nd) = nd_name nd"
  "nd_parents (AddGlobalIp a nd) = nd_parents nd" "nd_parents (AddLocalIp a nd) = nd_parents nd"
  "nd_parents (SetUpperNodeAddress a nd) = nd_parents nd" "nd_parents (SetCNRSRoot nd) = nd_parents nd"
  "nd_kind (AddGlobalIp a nd) = nd_kind nd" "nd_kind (AddLocalIp a nd) = nd_kind nd"
  "nd_kind (SetUpperNodeAddress a nd) = nd_kind nd" "nd_kind (SetCNRSRoot nd) = nd_kind nd"
  "nd_kind (AddParent r nd) = nd_kind nd"
  "node_addresses (SetUpperNodeAddress a nd) = node_addresses nd"
  "node_addresses (SetCNRSRoot nd) = node_addresses nd"
  "node_addresses (AddParent r nd) = node_addresses nd"
  "set (node_addresses (AddGlobalIp a nd)) = insert (m_address a) (set (node_addresses nd))"
  "set (node_addresses (AddLocalIp a nd)) = insert (m_address a) (set (node_addresses nd))"
  "distinct (node_addresses (AddGlobalIp a nd)) \<longleftrightarrow> distinct (node_addresses nd) \<and> m_address a \<notin> set (node_addresses nd)"
  "distinct (node_addresses (AddLocalIp a nd)) \<longleftrightarrow> distinct (node_addresses nd) \<and> m_address a \<notin> set (node_addresses nd)"
  by (auto simp: AddGlobalIp_def AddLocalIp_def SetUpperNodeAddress_def SetCNRSRoot_def AddParent_def
      node_addresses_def)

lemma set_AddParent [simp]: "set (nd_parents (AddParent r nd)) = insert r (set (nd_parents nd))"
  by (auto simp: AddParent_def)

lemma AddParent_keeps [simp]:
  "nd_globalAddrList (AddParent r nd) = nd_globalAddrList nd"
  "nd_localAddrList (AddParent r nd) = nd_localAddrList nd"
  "nd_applications (AddParent r nd) = nd_applications nd"
  "nd_isCNRSRoot (AddParent r nd) = nd_isCNRSRoot nd"
  by (simp_all add: AddParent_def)

lemma node_ok_linked:
  "node_ok garbage nd \<Longrightarrow> m_initialized a0 \<Longrightarrow> m_initialized a1 \<Longrightarrow>
     node_ok garbage (AddGlobalIp a0 (SetUpperNodeAddress a1 (AddParent r nd)))"
  "node_ok garbage nd \<Longrightarrow> m_initialized a1 \<Longrightarrow> nd_kind nd \<noteq> EdgeServer \<Longrightarrow>
     node_ok garbage (SetUpperNodeAddress a1 (AddParent r nd))"
  by (auto simp: node_ok_def AddGlobalIp_def SetUpperNodeAddress_def)

text \<open>A fresh address is one the generator has handed out and no node has.\<close>

definition fresh_address :: "Ipv4Address \<Rightarrow> CybertwinTopologyReader \<Rightarrow> bool" where
  "fresh_address a st \<longleftrightarrow> m_initialized a \<and> m_address a \<in> allocated (tr_generator st) \<and>
     m_address a \<notin> addresses st"

lemma push_global:
  assumes "reader_ok garbage st" and "fresh_address a st"
  shows "reader_ok garbage (at_node p (AddGlobalIp a) st)"
    and "addresses (at_node p (AddGlobalIp a) st) \<subseteq> insert (m_address a) (addresses st)"
  using reader_ok_at_node [of garbage st "AddGlobalIp a" p "{}" "{m_address a}"] assms
  by (auto simp: fresh_address_def node_ok_ops)

lemma push_local:
  assumes "reader_ok garbage st" and "fresh_address a st"
  shows "reader_ok garbage (at_node p (AddLocalIp a) st)"
    and "addresses (at_node p (AddLocalIp a) st) \<subseteq> insert (m_address a) (addresses st)"
  using reader_ok_at_node [of garbage st "AddLocalIp a" p "{}" "{m_address a}"] assms
  by (auto simp: fresh_address_def node_ok_ops)

lemma reader_ok_SetUpper:
  assumes "reader_ok garbage st" and "m_initialized a"
  shows "reader_ok garbage (at_node p (SetUpperNodeAddress a) st)"
  using assms by (intro reader_ok_at_node(1) [where R = "{}" and X = "{}"]) (auto simp: node_ok_ops)

lemma reader_ok_SetRoot: "reader_ok True st \<Longrightarrow> reader_ok True (at_node p SetCNRSRoot st)"
  by (intro reader_ok_at_node(1) [where R = "{}" and X = "{}"]) (auto simp: node_ok_ops)

lemma fresh_address_mono:
  assumes "fresh_address b st" and "tr_generator st' = tr_generator st"
    and "addresses st' \<subseteq> insert x (addresses st)" and "m_address b \<noteq> x"
  shows "fresh_address b st'"
  using assms by (auto simp: fresh_address_def)

lemma push_locals:
  assumes "reader_ok garbage st" and "\<forall>a \<in> set as. fresh_address a st" and "distinct (map m_address as)"
  shows "reader_ok garbage (fold (\<lambda>(p, a). at_node p (AddLocalIp a)) (zip ps as) st)"
  using assms
proof (induction as arbitrary: ps st)
  case Nil
  then show ?case by simp
next
  case (Cons a as)
  show ?case
  proof (cases ps)
    case (Cons p ps')
    have "fresh_address a st"
      using Cons.prems(2) by simp
    note push = push_local [OF Cons.prems(1) this, of p]
    have "\<forall>b \<in> set as. fresh_address b (at_node p (AddLocalIp a) st)"
    proof
      fix b assume b: "b \<in> set as"
      with Cons.prems(3) have "m_address b \<noteq> m_address a"
        by (auto dest: sym)
      with b Cons.prems(2) show "fresh_address b (at_node p (AddLocalIp a) st)"
        by (intro fresh_address_mono [OF _ _ push(2)]) auto
    qed
    then show ?thesis
      using Cons.IH [OF push(1), of ps'] Cons.prems(3) \<open>ps = p # ps'\<close> by simp
  qed (use Cons.prems in simp)
qed

lemma CreateP2PLink_ok:
  assumes "reader_ok garbage st" and "CreateP2PLink network st = Inr (a0, a1, st')"
  shows "reader_ok garbage st'" and "fresh_address a0 st'" and "fresh_address a1 st'"
    and "m_address a0 \<noteq> m_address a1" and "\<exists>gen. st' = st\<lparr>tr_generator := gen\<rparr>"
proof -
  obtain as gen where run: "AssignIPAddresses 2 network (tr_generator st) = Inr (as, gen)"
    and st': "a0 = as ! 0" "a1 = as ! 1" "st' = st\<lparr>tr_generator := gen\<rparr>"
    using assms(2) by (auto simp: CreateP2PLink_def)
  have live: "generator_live (tr_generator st)" and sub: "addresses st \<subseteq> allocated (tr_generator st)"
    using assms(1) by (simp_all add: reader_ok_def)
  note new = AssignIPAddresses_fresh [OF live run]
  have as: "as = [a0, a1]"
    using new(1) st'(1,2) by (auto simp: length_Suc_conv numeral_2_eq_2)
  have adr: "addresses st' = addresses st"
    by (simp add: addresses_def st'(3))
  show "reader_ok garbage st'"
    unfolding st'(3) using reader_ok_generator [OF assms(1) new(3)] new(5) by auto
  show "fresh_address a0 st'" "fresh_address a1 st'"
    using new(4,5,6) sub adr unfolding fresh_address_def as st'(3) by auto
  show "m_address a0 \<noteq> m_address a1"
    using new(2) by (simp add: as)
  show "\<exists>gen. st' = st\<lparr>tr_generator := gen\<rparr>"
    using st'(3) by blast
qed

lemma core_link_cases:
  assumes "core_link nodeInfo link st = Inr st'"
  obtains "st' = st"
  | src dst a0 a1 st1 L where "CreateP2PLink (lk_network link) st = Inr (a0, a1, st1)"
    and "st' = (at_node dst (AddGlobalIp a1) (at_node src (AddGlobalIp a0) st1))\<lparr>tr_links := L\<rparr>"
proof -
  obtain dst where dst: "tr_nodeInfoMap st (lk_target link) = Some dst"
    using assms by (auto simp: core_link_def Let_def)
  show thesis
  proof (cases "ni_name nodeInfo @ lk_target link \<in> tr_links st \<or> lk_target link @ ni_name nodeInfo \<in> tr_links st")
    case True
    with dst assms that(1) show thesis by (auto simp: core_link_def Let_def)
  next
    case False
    with dst assms obtain s d a0 a1 st1 where "CreateP2PLink (lk_network link) st = Inr (a0, a1, st1)"
      "at_node d (AddGlobalIp a1) (at_node s (AddGlobalIp a0) st1)\<lparr>tr_links :=
         tr_links (at_node d (AddGlobalIp a1) (at_node s (AddGlobalIp a0) st1)) \<union>
           {ni_name nodeInfo @ lk_target link, lk_target link @ ni_name nodeInfo}\<rparr> = st'"
      by (auto simp: core_link_def Let_def split: prod.splits)
    then show thesis
      by (intro that(2)) auto
  qed
qed

lemma reader_ok_core_link:
  assumes "reader_ok garbage st" and "core_link nodeInfo link st = Inr st'"
  shows "reader_ok garbage st'"
  using assms(2)
proof (cases rule: core_link_cases)
  case (2 src dst a0 a1 st1 L)
  note p2p = CreateP2PLink_ok [OF assms(1) 2(1)]
  note push = push_global [OF p2p(1,2), of src]
  have "fresh_address a1 (at_node src (AddGlobalIp a0) st1)"
    using fresh_address_mono [OF p2p(3) _ push(2)] p2p(4) by simp
  from push_global(1) [OF push(1) this] show ?thesis
    unfolding 2(2) by simp
qed (use assms in simp)

text \<open>A new node has no addresses, parents or applications.\<close>

lemma reader_ok_new_node:
  assumes "reader_ok garbage st" and "nd = (CybertwinNode_new kind garbage)\<lparr>nd_name := name\<rparr>"
    and "tr_nodes st' = tr_nodes st @ [nd]"
    and "tr_nodeName2Ptr st' = (tr_nodeName2Ptr st)(name \<mapsto> length (tr_nodes st))"
    and "tr_nodeInfoMap st' = tr_nodeInfoMap st \<or>
      (\<exists>info. tr_nodeInfoMap st' = (tr_nodeInfoMap st)(name \<mapsto> info) \<and> ni_node info = Some (length (tr_nodes st)))"
    and "tr_generator st' = tr_generator st"
  shows "reader_ok garbage st'"
proof -
  have ok: "names_ok st" "refs_ok st" "\<forall>nd \<in> set (tr_nodes st). node_ok garbage nd"
    "generator_live (tr_generator st)" "unique_addresses (tr_nodes st)"
    "addresses st \<subseteq> allocated (tr_generator st)"
    using assms(1) by (simp_all add: reader_ok_def)
  have nd: "node_addresses nd = []" "nd_parents nd = []" "node_ok garbage nd" "nd_name nd = name"
    unfolding assms(2) by (simp_all add: node_addresses_def node_ok_def CybertwinNode_new_def)
  have "names_ok st'"
    using ok(1) nd(4) unfolding names_ok_def assms(3,4) by (simp add: nth_append less_SucI)
  moreover have "refs_ok st'"
    using ok(2) nd(2) assms(5) unfolding refs_ok_def assms(3)
    by (auto simp: less_SucI split: if_splits)
  moreover have "unique_addresses (tr_nodes st')"
    using ok(5) nd(1) unfolding unique_addresses_def assms(3) by (auto simp: nth_append less_Suc_eq)
  moreover have "addresses st' = addresses st"
    using nd(1) by (simp add: addresses_def assms(3))
  ultimately show ?thesis
    using ok nd(3) by (simp add: reader_ok_def assms(3,6))
qed

lemma reader_ok_create:
  assumes "reader_ok garbage st" and "create_cloud_node kind garbage node st = (nodeInfo, st')"
  shows "reader_ok garbage st'"
  using assms(2) by (intro reader_ok_new_node [OF assms(1) refl])
    (auto simp: create_cloud_node_def Let_def CreateCloudNodeInfo_def)

lemma reader_ok_core_node:
  assumes "reader_ok garbage st" and "create_core_node garbage node st = Inr st'"
  shows "reader_ok garbage st'"
proof -
  obtain nodeInfo st1 where st1: "create_cloud_node CoreServer garbage node st = (nodeInfo, st1)"
    by fastforce
  with assms reader_ok_create [OF assms(1) st1] show ?thesis
    by (auto simp: create_core_node_def)
qed

lemma reader_ok_core:
  assumes "reader_ok garbage st" and "ParseCoreCloud garbage core st = Inr st'"
  shows "reader_ok garbage st'"
proof -
  obtain st1 where st1: "each (create_core_node garbage) core st = Inr st1"
    "each (\<lambda>nodeInfo. each (core_link nodeInfo) (ni_links nodeInfo)) (tr_coreNodesList st1) st1 = Inr st'"
    using assms(2) by (auto simp: ParseCoreCloud_def)
  have "reader_ok garbage st1"
    using st1(1) assms(1) by (rule each_inv [where P = "reader_ok garbage"]) (rule reader_ok_core_node)
  with st1(2) show ?thesis
  proof (rule each_inv [where P = "reader_ok garbage"])
    fix nodeInfo st st'
    assume ok: "reader_ok garbage st" and run: "each (core_link nodeInfo) (ni_links nodeInfo) st = Inr st'"
    from run ok show "reader_ok garbage st'"
      by (rule each_inv [where P = "reader_ok garbage"]) (rule reader_ok_core_link)
  qed
qed

lemma edge_link_cases:
  assumes "edge_link e link st = Inr st'"
  obtains "st' = st" and "tr_nodeInfoMap st (lk_target link) = None"
  | dst target a0 a1 st1 where "tr_nodeInfoMap st (lk_target link) = Some dst" and "ni_node dst = Some target"
    and "CreateP2PLink (lk_network link) st = Inr (a0, a1, st1)"
    and "st' = at_node e (\<lambda>nd. AddGlobalIp a0 (SetUpperNodeAddress a1 (AddParent target nd))) st1"
  using assms that by (auto simp: edge_link_def split: option.splits prod.splits)

lemma reader_ok_edge_link:
  assumes "reader_ok garbage st" and "edge_link e link st = Inr st'"
  shows "reader_ok garbage st'"
  using assms(2)
proof (cases rule: edge_link_cases)
  case (2 dst target a0 a1 st1)
  note p2p = CreateP2PLink_ok [OF assms(1) 2(3)]
  have "target < length (tr_nodes st1)"
    using assms(1) 2(1,2) p2p(5) by (auto simp: reader_ok_def refs_ok_def)
  then show ?thesis
    unfolding 2(4) using p2p(1-3)
    by (intro reader_ok_at_node(1) [where R = "{target}" and X = "{m_address a0}"])
      (auto simp: fresh_address_def node_ok_linked)
qed (use assms in simp)

lemma reader_ok_edge_node:
  assumes "reader_ok garbage st" and "ParseEdge_node garbage node st = Inr st'"
  shows "reader_ok garbage st'"
proof -
  obtain nodeInfo st1 where st1: "create_cloud_node EdgeServer garbage node st = (nodeInfo, st1)"
    by fastforce
  let ?st1 = "st1\<lparr>tr_edgeNodesList := tr_edgeNodesList st1 @ [nodeInfo],
    tr_edgeNodes := tr_edgeNodes st1 @ [length (tr_nodes st)]\<rparr>"
  have run: "each (edge_link (length (tr_nodes st))) (ni_links nodeInfo) ?st1 = Inr st'"
    using assms(2) st1 by (simp add: ParseEdge_node_def)
  have "reader_ok garbage ?st1"
    using reader_ok_create [OF assms(1) st1] by simp
  with run show ?thesis
    by (rule each_inv [where P = "reader_ok garbage"]) (rule reader_ok_edge_link)
qed

lemma reader_ok_edge:
  assumes "reader_ok garbage st" and "ParseEdgeCloud garbage edge st = Inr st'"
  shows "reader_ok garbage st'"
  using assms(2) [unfolded ParseEdgeCloud_def] assms(1)
  by (rule each_inv [where P = "reader_ok garbage"]) (rule reader_ok_edge_node)

section \<open>Access networks keep the topology well formed\<close>

abbreviation kinds :: "CybertwinTopologyReader \<Rightarrow> node_kind list" where
  "kinds st \<equiv> map nd_kind (tr_nodes st)"

lemma kinds_at_node:
  assumes "\<And>nd. nd_kind (f nd) = nd_kind nd"
  shows "kinds (at_node p f st) = kinds st"
proof (cases "p < length (tr_nodes st)")
  case True
  with assms show ?thesis
    by (simp add: at_node_def map_update list_update_same_conv)
qed (simp add: at_node_beyond)

lemma create_end_hosts_ok:
  assumes "reader_ok garbage st"
  shows "reader_ok garbage (create_end_hosts garbage cluster st)"
    and "kinds (create_end_hosts garbage cluster st) =
      kinds st @ replicate (nat (ec_num_nodes cluster)) EndHost"
    and "tr_nodeInfoMap (create_end_hosts garbage cluster st) = tr_nodeInfoMap st"
proof -
  have "reader_ok garbage (fold (create_end_host garbage name) is st) \<and>
      kinds (fold (create_end_host garbage name) is st) = kinds st @ replicate (length is) EndHost \<and>
      tr_nodeInfoMap (fold (create_end_host garbage name) is st) = tr_nodeInfoMap st" if "reader_ok garbage st" for name "is" st
    using that
  proof (induction "is" arbitrary: st)
    case Nil
    then show ?case by simp
  next
    case (Cons i "is")
    have "reader_ok garbage (create_end_host garbage name i st)"
      by (rule reader_ok_new_node [OF Cons.prems refl]) (auto simp: create_end_host_def Let_def)
    from Cons.IH [OF this] show ?case
      by (simp add: create_end_host_def Let_def CybertwinNode_new_def replicate_app_Cons_same)
  qed
  from this [OF assms, of "ec_name cluster" "[0..<nat (ec_num_nodes cluster)]"]
  show "reader_ok garbage (create_end_hosts garbage cluster st)"
    and "kinds (create_end_hosts garbage cluster st) =
      kinds st @ replicate (nat (ec_num_nodes cluster)) EndHost"
    and "tr_nodeInfoMap (create_end_hosts garbage cluster st) = tr_nodeInfoMap st"
    by (simp_all add: create_end_hosts_def)
qed

lemma fold_at_node:
  assumes "\<And>x nd. nd_kind (f x nd) = nd_kind nd"
  shows "kinds (fold (\<lambda>(p, x). at_node p (f x)) xs st) = kinds st \<and>
    tr_nodeInfoMap (fold (\<lambda>(p, x). at_node p (f x)) xs st) = tr_nodeInfoMap st"
  using assms by (induction xs arbitrary: st) (auto simp: kinds_at_node)

lemma assign_local_ok:
  assumes "reader_ok garbage st" and "assign_local ps network st = Inr st'"
  shows "reader_ok garbage st'" and "kinds st' = kinds st" and "tr_nodeInfoMap st' = tr_nodeInfoMap st"
proof -
  obtain as gen where run: "AssignIPAddresses (length ps) network (tr_generator st) = Inr (as, gen)"
    and st': "st' = fold (\<lambda>(p, a). at_node p (AddLocalIp a)) (zip ps as) (st\<lparr>tr_generator := gen\<rparr>)"
    using assms(2) by (auto simp: assign_local_def)
  have live: "generator_live (tr_generator st)" and sub: "addresses st \<subseteq> allocated (tr_generator st)"
    using assms(1) by (simp_all add: reader_ok_def)
  note new = AssignIPAddresses_fresh [OF live run]
  have "reader_ok garbage (st\<lparr>tr_generator := gen\<rparr>)"
    using reader_ok_generator [OF assms(1) new(3)] new(5) by auto
  moreover have "\<forall>a \<in> set as. fresh_address a (st\<lparr>tr_generator := gen\<rparr>)"
  proof -
    have "addresses (st\<lparr>tr_generator := gen\<rparr>) = addresses st"
      by (simp add: addresses_def)
    then show ?thesis
      using new(4,5,6) sub unfolding fresh_address_def by auto
  qed
  ultimately show "reader_ok garbage st'"
    unfolding st' using new(2) by (rule push_locals)
  show "kinds st' = kinds st" "tr_nodeInfoMap st' = tr_nodeInfoMap st"
    unfolding st' using fold_at_node [of AddLocalIp "zip ps as" "st\<lparr>tr_generator := gen\<rparr>"] by simp_all
qed

text \<open>
  A network creation keeps the topology well formed, and the end nodes it returns are end hosts
  or nothing.
\<close>

definition network_made ::
  "bool \<Rightarrow> CybertwinTopologyReader \<Rightarrow> nat option list \<Rightarrow> CybertwinTopologyReader \<Rightarrow> bool" where
  "network_made garbage st endNodes st' \<longleftrightarrow> reader_ok garbage st' \<and> tr_nodeInfoMap st' = tr_nodeInfoMap st \<and>
     length (tr_nodes st) \<le> length (tr_nodes st') \<and>
     (\<forall>p. Some p \<in> set endNodes \<longrightarrow> p < length (tr_nodes st') \<and> nd_kind (tr_nodes st' ! p) = EndHost)"

lemma new_positions_kind:
  assumes "kinds st' = kinds st @ replicate (nat (ec_num_nodes cluster)) EndHost"
  shows "length (tr_nodes st) \<le> length (tr_nodes st') \<and>
    (\<forall>p \<in> set (new_positions cluster st). p < length (tr_nodes st') \<and> nd_kind (tr_nodes st' ! p) = EndHost)"
proof -
  have len: "length (tr_nodes st') = length (tr_nodes st) + nat (ec_num_nodes cluster)"
    using arg_cong [OF assms, of length] by simp
  have "nd_kind (tr_nodes st' ! p) = EndHost" if "p \<in> set (new_positions cluster st)" for p
  proof -
    have "nd_kind (tr_nodes st' ! p) = kinds st' ! p"
      using that len by (simp add: new_positions_def)
    moreover have "p - length (tr_nodes st) < nat (ec_num_nodes cluster)" "length (tr_nodes st) \<le> p"
      using that by (auto simp: new_positions_def)
    ultimately show ?thesis
      unfolding assms by (simp add: nth_append)
  qed
  with len show ?thesis
    by (simp add: new_positions_def)
qed

lemma create_network_ok:
  assumes "reader_ok garbage st" and "create_network epc garbage node st = Inr (endNodes, router, st')"
  shows "network_made garbage st endNodes st'"
proof -
  let ?st = "create_end_hosts garbage node st"
  note hosts = create_end_hosts_ok [OF assms(1), of node]
  have live: "generator_live (tr_generator st)"
    using assms(1) by (simp add: reader_ok_def)
  have made: "network_made garbage st (map Some (new_positions node st)) st1"
    if "assign_local ps net st2 = Inr st1" "reader_ok garbage st2" "kinds st2 = kinds ?st"
      "tr_nodeInfoMap st2 = tr_nodeInfoMap ?st" for ps net st1 st2
    using assign_local_ok [OF that(2,1)] that(3,4) hosts new_positions_kind [of st1 st node]
    by (auto simp: network_made_def)
  consider (csma) "CreateCsmaNetwork garbage node st = Inr (endNodes, router, st')"
    | (wifi) "CreateWifiNetwork garbage node st = Inr (endNodes, router, st')"
    | (lte) "CreateLteNetwork epc node st = Inr (endNodes, router, st')"
    | (uan) "CreateUanNetwork node st = Inr (endNodes, router, st')"
    | (other) "endNodes = []" "st' = st"
    using assms(2) by (auto simp: create_network_def split: if_splits)
  then show ?thesis
  proof cases
    case csma
    then show ?thesis
      using made hosts(1) by (auto simp: CreateCsmaNetwork_def Let_def)
  next
    case wifi
    then show ?thesis
      using made hosts(1) by (auto simp: CreateWifiNetwork_def Let_def)
  next
    case lte
    then obtain gen where gen: "each reserve_address (epc node) (tr_generator st) = Inr gen"
      "endNodes = replicate (nat (ec_num_nodes node)) None" "st' = st\<lparr>tr_generator := gen\<rparr>"
      by (auto simp: CreateLteNetwork_def)
    with generator.reserve_all [OF live gen(1)] reader_ok_generator [OF assms(1)] show ?thesis
      by (auto simp: network_made_def)
  next
    case uan
    then obtain as gen where gen:
      "AssignIPAddresses (1 + nat (ec_num_nodes node)) (ec_local_network node) (tr_generator st) = Inr (as, gen)"
      "endNodes = replicate (nat (ec_num_nodes node)) None" "st' = st\<lparr>tr_generator := gen\<rparr>"
      by (auto simp: CreateUanNetwork_def)
    with AssignIPAddresses_fresh [OF live gen(1)] reader_ok_generator [OF assms(1)] show ?thesis
      by (auto simp: network_made_def)
  qed (use assms(1) in \<open>simp add: network_made_def\<close>)
qed

lemma configure_end_host_Inr:
  "configure_end_host g a e st = Inr st' \<longleftrightarrow>
     (\<exists>p. e = Some p \<and> st' = at_node p (\<lambda>nd. SetUpperNodeAddress a (AddParent g nd)) st)"
  by (auto simp: configure_end_host_def)

lemma configure_end_hosts_ok:
  assumes "each (configure_end_host g a) endNodes st = Inr st'" and "reader_ok garbage st" and "m_initialized a"
    and "g < length (tr_nodes st)"
    and "\<forall>p. Some p \<in> set endNodes \<longrightarrow> p < length (tr_nodes st) \<and> nd_kind (tr_nodes st ! p) = EndHost"
  shows "reader_ok garbage st' \<and> kinds st' = kinds st \<and> addresses st' \<subseteq> addresses st \<and> tr_generator st' = tr_generator st"
  using assms
proof (induction endNodes arbitrary: st)
  case Nil
  then show ?case by simp
next
  case (Cons e es)
  then obtain p where p: "e = Some p" "each (configure_end_host g a) es
      (at_node p (\<lambda>nd. SetUpperNodeAddress a (AddParent g nd)) st) = Inr st'"
    by (auto simp: configure_end_host_Inr)
  let ?f = "\<lambda>nd. SetUpperNodeAddress a (AddParent g nd)"
  have kind: "nd_kind (tr_nodes st ! p) \<noteq> EdgeServer"
    using Cons.prems(5) p(1) by simp
  note step = reader_ok_at_node [of garbage st ?f p "{g}" "{}"]
  have ok: "reader_ok garbage (at_node p ?f st)" "addresses (at_node p ?f st) \<subseteq> addresses st"
    using step Cons.prems(2-4) kind by (auto simp: node_ok_linked)
  have same: "kinds (at_node p ?f st) = kinds st"
    by (rule kinds_at_node) simp
  have "nd_kind (tr_nodes (at_node p ?f st) ! q) = nd_kind (tr_nodes st ! q)" if "q < length (tr_nodes st)" for q
    using that by (simp add: nth_at_node)
  then have "\<forall>q. Some q \<in> set es \<longrightarrow> q < length (tr_nodes (at_node p ?f st)) \<and>
      nd_kind (tr_nodes (at_node p ?f st) ! q) = EndHost"
    using Cons.prems(5) by simp
  with Cons.IH [OF p(2) ok(1) Cons.prems(3)] Cons.prems(4) same ok(2) show ?case by auto
qed

lemma ParseAccess_nodeE:
  assumes "ParseAccess_node epc garbage node st = Inr st'"
  obtains endNodes router st1 gateway rest gw g a0 a1 st2 st3 where
    "create_network epc garbage node (st\<lparr>tr_nodeInfoMap := (tr_nodeInfoMap st)(ec_name node \<mapsto>
       CreateEndClusterNodeInfo node)\<rparr>) = Inr (endNodes, router, st1)" and router
    and "ec_gateways node = gateway # rest" and "tr_nodeInfoMap st1 (gw_name gateway) = Some gw"
    and "ni_node gw = Some g" and "CreateP2PLink (gw_network gateway) st1 = Inr (a0, a1, st2)"
    and "each (configure_end_host g a1) endNodes st2 = Inr st3"
    and "st' = at_node g (AddGlobalIp a1) st3"
proof -
  obtain gateway rest where "ec_gateways node = gateway # rest"
    using assms by (cases "ec_gateways node") (auto simp: ParseAccess_node_def Let_def)
  with assms that show thesis
    by (auto simp: ParseAccess_node_def Let_def)
qed

lemma reader_ok_access_node:
  assumes "reader_ok garbage st" and "ParseAccess_node epc garbage node st = Inr st'"
  shows "reader_ok garbage st'"
  using assms(2)
proof (cases rule: ParseAccess_nodeE)
  case (1 endNodes router st1 gateway rest gw g a0 a1 st2 st3)
  have "reader_ok garbage (st\<lparr>tr_nodeInfoMap := (tr_nodeInfoMap st)(ec_name node \<mapsto> CreateEndClusterNodeInfo node)\<rparr>)"
    using assms(1) by (auto simp: reader_ok_def names_ok_def refs_ok_def addresses_def CreateEndClusterNodeInfo_def)
  note made = create_network_ok [OF this 1(1), unfolded network_made_def]
  then have ok1: "reader_ok garbage st1"
    by simp
  note p2p = CreateP2PLink_ok [OF ok1 1(6)]
  obtain gen where st2: "st2 = st1\<lparr>tr_generator := gen\<rparr>"
    using p2p(5) by blast
  have g: "g < length (tr_nodes st2)"
    using ok1 1(4,5) by (auto simp: reader_ok_def refs_ok_def st2)
  have "reader_ok garbage st3 \<and> kinds st3 = kinds st2 \<and> addresses st3 \<subseteq> addresses st2 \<and>
      tr_generator st3 = tr_generator st2"
    using configure_end_hosts_ok [OF 1(7) p2p(1)] p2p(3) g made by (auto simp: st2 fresh_address_def)
  then have "reader_ok garbage st3" "fresh_address a1 st3"
    using p2p(3) by (auto simp: fresh_address_def)
  from push_global(1) [OF this] show ?thesis
    unfolding 1(8) .
qed

lemma reader_ok_access:
  assumes "reader_ok garbage st" and "ParseAccessNetwork epc garbage access st = Inr st'"
  shows "reader_ok garbage st'"
  using assms(2) [unfolded ParseAccessNetwork_def] assms(1)
  by (rule each_inv [where P = "reader_ok garbage"]) (rule reader_ok_access_node)

section \<open>The service hierarchy\<close>

lemma names_at_node:
  assumes "names_ok st" and "\<And>nd. nd_name (f nd) = nd_name nd"
  shows "names_ok (at_node p f st)"
  using assms by (auto simp: names_ok_def nth_at_node)

lemma set_upper_cases:
  assumes "set_upper central addr info st = Inr st'"
  obtains "ni_name info = central" and "st' = st"
  | p where "ni_name info \<noteq> central" and "tr_nodeName2Ptr st (ni_name info) = Some p"
    and "st' = at_node p (SetUpperNodeAddress addr) st"
  using assms that by (auto simp: set_upper_def core_by_name_def GetNodeByName_def split: if_splits)

text \<open>What the loop over the core nodes does to each node.\<close>

lemma set_upper_all:
  assumes "names_ok st" and "each (set_upper central addr) infos st = Inr st'"
  shows "length (tr_nodes st') = length (tr_nodes st) \<and>
    tr_nodeName2Ptr st' = tr_nodeName2Ptr st \<and>
    (\<forall>info \<in> set infos. ni_name info \<noteq> central \<longrightarrow> tr_nodeName2Ptr st (ni_name info) \<noteq> None) \<and>
    (\<forall>q < length (tr_nodes st). tr_nodes st' ! q =
      (if \<exists>info \<in> set infos. ni_name info \<noteq> central \<and> tr_nodeName2Ptr st (ni_name info) = Some q
       then SetUpperNodeAddress addr (tr_nodes st ! q) else tr_nodes st ! q))"
  using assms
proof (induction infos arbitrary: st)
  case Nil
  then show ?case by simp
next
  case (Cons info infos)
  from Cons.prems(2) obtain st1 where st1: "set_upper central addr info st = Inr st1"
    and rest: "each (set_upper central addr) infos st1 = Inr st'"
    by auto
  from st1 show ?case
  proof (cases rule: set_upper_cases)
    case 1
    with Cons.IH [OF Cons.prems(1)] rest show ?thesis by auto
  next
    case (2 p)
    have "names_ok st1"
      unfolding 2(3) using Cons.prems(1) by (rule names_at_node) (simp add: SetUpperNodeAddress_def)
    from Cons.IH [OF this rest] show ?thesis
      using 2 by (auto simp: nth_at_node SetUpperNodeAddress_def)
  qed
qed

lemma ConfigCNRS_nodes:
  assumes "reader_ok garbage st" and "ConfigCNRS central st = Inr st'"
  obtains c a where "tr_nodeName2Ptr st' = tr_nodeName2Ptr st"
    and "tr_nodeName2Ptr st central = Some c" and "c < length (tr_nodes st)"
    and "length (tr_nodes st') = length (tr_nodes st)" and "nd_kind (tr_nodes st ! c) = CoreServer"
    and "a \<in> set (nd_globalAddrList (tr_nodes st ! c))"
    and "tr_nodes st' ! c = SetCNRSRoot (tr_nodes st ! c)"
    and "\<And>info. info \<in> set (tr_coreNodesList st) \<Longrightarrow> ni_name info \<noteq> central \<Longrightarrow>
      \<exists>p. tr_nodeName2Ptr st (ni_name info) = Some p \<and> p < length (tr_nodes st) \<and>
        tr_nodes st' ! p = SetUpperNodeAddress a (tr_nodes st ! p)"
    and "\<And>q. q < length (tr_nodes st) \<Longrightarrow> q \<noteq> c \<Longrightarrow>
      tr_nodes st' ! q = tr_nodes st ! q \<or> tr_nodes st' ! q = SetUpperNodeAddress a (tr_nodes st ! q)"
proof -
  have keep: "tr_coreNodesList (at_node p f st) = tr_coreNodesList st" for p f
    by (simp add: at_node_def)
  from assms(2) obtain c where c: "tr_nodeName2Ptr st central = Some c"
    and kind: "nd_kind (tr_nodes st ! c) = CoreServer"
    and body: "(case nd_globalAddrList (tr_nodes (at_node c SetCNRSRoot st) ! c) of [] \<Rightarrow> Inl AssertFailed
      | a # _ \<Rightarrow> each (set_upper central a) (tr_coreNodesList (at_node c SetCNRSRoot st))
          (at_node c SetCNRSRoot st)) = Inr st'"
    by (auto simp: ConfigCNRS_def core_by_name_def GetNodeByName_def Let_def)
  from body obtain a rest
    where a: "nd_globalAddrList (tr_nodes (at_node c SetCNRSRoot st) ! c) = a # rest"
    and run: "each (set_upper central a) (tr_coreNodesList st) (at_node c SetCNRSRoot st) = Inr st'"
    by (cases "nd_globalAddrList (tr_nodes (at_node c SetCNRSRoot st) ! c)") (simp_all add: keep)
  have names: "names_ok st"
    using assms(1) by (simp add: reader_ok_def)
  then have clen: "c < length (tr_nodes st)"
    using c by (simp add: names_ok_def)
  have only: "tr_nodeName2Ptr st n = Some c \<Longrightarrow> n = central" for n
    using names c by (metis names_ok_def)
  have "names_ok (at_node c SetCNRSRoot st)"
    using names by (rule names_at_node) (simp add: SetCNRSRoot_def)
  note all = set_upper_all [OF this run]
  show thesis
  proof (rule that)
    show "tr_nodeName2Ptr st' = tr_nodeName2Ptr st"
      using all by simp
    show "tr_nodeName2Ptr st central = Some c" "c < length (tr_nodes st)"
      "nd_kind (tr_nodes st ! c) = CoreServer"
      by fact+
    show "length (tr_nodes st') = length (tr_nodes st)"
      using all by simp
    show "a \<in> set (nd_globalAddrList (tr_nodes st ! c))"
      using a clen by (simp add: nth_at_node SetCNRSRoot_def)
    show "tr_nodes st' ! c = SetCNRSRoot (tr_nodes st ! c)"
      using all clen only by (auto simp: nth_at_node)
    show "\<exists>p. tr_nodeName2Ptr st (ni_name info) = Some p \<and> p < length (tr_nodes st) \<and>
        tr_nodes st' ! p = SetUpperNodeAddress a (tr_nodes st ! p)"
      if "info \<in> set (tr_coreNodesList st)" "ni_name info \<noteq> central" for info
    proof -
      from that obtain p where p: "tr_nodeName2Ptr st (ni_name info) = Some p"
        using all by fastforce
      then have "p < length (tr_nodes st)" "p \<noteq> c"
        using names only that(2) by (auto simp: names_ok_def)
      with all p that show ?thesis by (auto simp: nth_at_node)
    qed
    show "tr_nodes st' ! q = tr_nodes st ! q \<or> tr_nodes st' ! q = SetUpperNodeAddress a (tr_nodes st ! q)"
      if "q < length (tr_nodes st)" "q \<noteq> c" for q
      using all that by (simp add: nth_at_node)
  qed
qed


lemma reader_ok_mono: "reader_ok garbage st \<Longrightarrow> reader_ok True st"
  by (auto simp: reader_ok_def node_ok_def)

lemma reader_ok_config:
  assumes "reader_ok garbage st" and "ConfigCNRS central st = Inr st'"
  shows "reader_ok True st'"
proof -
  obtain c where c: "tr_nodeName2Ptr st central = Some c"
    using assms(2) by (auto simp: ConfigCNRS_def core_by_name_def GetNodeByName_def)
  let ?st = "at_node c SetCNRSRoot st"
  have ok: "reader_ok True ?st"
    using reader_ok_SetRoot reader_ok_mono assms(1) by blast
  have "c < length (tr_nodes ?st)"
    using assms(1) c by (auto simp: reader_ok_def names_ok_def)
  then have init: "\<forall>a \<in> set (nd_globalAddrList (tr_nodes ?st ! c)). m_initialized a"
    using ok nth_mem by (fastforce simp: reader_ok_def node_ok_def)
  obtain a rest where a: "nd_globalAddrList (tr_nodes ?st ! c) = a # rest"
    and run: "each (set_upper central a) (tr_coreNodesList ?st) ?st = Inr st'"
    using assms(2) c
    by (cases "nd_globalAddrList (tr_nodes ?st ! c)")
      (auto simp: ConfigCNRS_def core_by_name_def GetNodeByName_def Let_def)
  show ?thesis
  proof (rule each_inv [where P = "reader_ok True", OF run ok])
    fix info st st'
    assume "reader_ok True st" and "set_upper central a info st = Inr st'"
    then show "reader_ok True st'"
      using init a by (auto elim!: set_upper_cases intro: reader_ok_SetUpper)
  qed
qed

lemma reader_ok_new: "generator_live gen \<Longrightarrow> reader_ok garbage (reader_new gen)"
  by (simp add: reader_ok_def reader_new_def names_ok_def refs_ok_def unique_addresses_def addresses_def)

text \<open>The stages of \<^verbatim>\<open>Read\<close> and what holds between them.\<close>

lemma Read_stages:
  assumes "generator_live gen" and "Read epc garbage config (reader_new gen) = Inr st"
  obtains st1 st2 st3 where "ParseCoreCloud garbage (tc_core_layer config) (reader_new gen) = Inr st1"
    and "ParseEdgeCloud garbage (tc_edge_layer config) st1 = Inr st2"
    and "ParseAccessNetwork epc garbage (tc_access_layer config) st2 = Inr st3"
    and "ConfigCNRS (tc_central_node config) st3 = Inr st"
    and "reader_ok garbage st1" and "reader_ok garbage st2" and "reader_ok garbage st3" and "reader_ok True st"
proof -
  obtain st1 st2 st3 where *: "ParseCoreCloud garbage (tc_core_layer config) (reader_new gen) = Inr st1"
    "ParseEdgeCloud garbage (tc_edge_layer config) st1 = Inr st2"
    "ParseAccessNetwork epc garbage (tc_access_layer config) st2 = Inr st3"
    "ConfigCNRS (tc_central_node config) st3 = Inr st"
    using assms(2) by (auto simp: Read_def)
  have "reader_ok garbage st1"
    using reader_ok_core [OF reader_ok_new [OF assms(1)] *(1)] .
  moreover from this have "reader_ok garbage st2"
    using reader_ok_edge *(2) by blast
  moreover from this have "reader_ok garbage st3"
    using reader_ok_access *(3) by blast
  moreover from this have "reader_ok True st"
    using reader_ok_config *(4) by blast
  ultimately show thesis
    using * that by blast
qed

text \<open>The core nodes keep their names, and the later stages keep the list of core nodes.\<close>

lemma core_names:
  assumes "ParseCoreCloud garbage core (reader_new gen) = Inr st"
  shows "map ni_name (tr_coreNodesList st) = map cn_name core"
proof -
  let ?P = "\<lambda>st. map ni_name (tr_coreNodesList st) = map cn_name core"
  obtain st1 where st1: "each (create_core_node garbage) core (reader_new gen) = Inr st1"
    "each (\<lambda>nodeInfo. each (core_link nodeInfo) (ni_links nodeInfo)) (tr_coreNodesList st1) st1 = Inr st"
    using assms by (auto simp: ParseCoreCloud_def)
  have "map ni_name (tr_coreNodesList st') = map ni_name (tr_coreNodesList st) @ map cn_name core"
    if "each (create_core_node garbage) core st = Inr st'" for st st'
    using that by (induction core arbitrary: st)
      (auto simp: create_core_node_def create_cloud_node_def CreateCloudNodeInfo_def Let_def)
  from this [OF st1(1)] have "?P st1"
    by (simp add: reader_new_def)
  moreover have keep: "tr_coreNodesList s' = tr_coreNodesList s" if "core_link i l s = Inr s'" for i l s s'
    using that by (cases rule: core_link_cases) (auto simp: CreateP2PLink_def)
  ultimately show ?thesis
    by (intro each_inv [where P = ?P, OF st1(2)]) (auto elim: each_inv [where P = ?P] simp: keep)
qed

lemma each_same:
  assumes "each f xs st = Inr st'" and "\<And>x s s'. f x s = Inr s' \<Longrightarrow> g s' = g s"
  shows "g st' = g st"
  using assms by (induction xs arbitrary: st) auto

lemma edge_keeps_core_list:
  assumes "ParseEdgeCloud garbage edge st = Inr st'"
  shows "tr_coreNodesList st' = tr_coreNodesList st"
proof -
  have link: "tr_coreNodesList s' = tr_coreNodesList s" if "edge_link e l s = Inr s'" for e l s s'
    using that by (cases rule: edge_link_cases) (auto simp: CreateP2PLink_def)
  have "tr_coreNodesList s' = tr_coreNodesList s" if "ParseEdge_node garbage node s = Inr s'" for node s s'
    using that each_same [of "edge_link (length (tr_nodes s))" _ _ _ tr_coreNodesList, OF _ link]
    by (auto simp: ParseEdge_node_def create_cloud_node_def Let_def)
  then show ?thesis
    using assms each_same [of "ParseEdge_node garbage" edge st st' tr_coreNodesList]
    by (simp add: ParseEdgeCloud_def)
qed

lemma create_network_keeps_core_list:
  assumes "create_network epc garbage node st = Inr (endNodes, router, st')"
  shows "tr_coreNodesList st' = tr_coreNodesList st"
proof -
  have hosts: "tr_coreNodesList (create_end_hosts garbage c s) = tr_coreNodesList s" for c s
  proof -
    have "tr_coreNodesList (fold (create_end_host garbage n) is s) = tr_coreNodesList s" for n "is" s
      by (induction "is" arbitrary: s) (auto simp: create_end_host_def Let_def)
    then show ?thesis by (simp add: create_end_hosts_def)
  qed
  have "tr_coreNodesList (fold (\<lambda>(p, a). at_node p (AddLocalIp a)) xs s) = tr_coreNodesList s" for xs s
    by (induction xs arbitrary: s) auto
  then have "tr_coreNodesList s' = tr_coreNodesList s" if "assign_local ps net s = Inr s'" for ps net s s'
    using that by (auto simp: assign_local_def)
  with assms hosts show ?thesis
    by (fastforce simp: create_network_def CreateCsmaNetwork_def CreateWifiNetwork_def CreateLteNetwork_def
        CreateUanNetwork_def Let_def split: if_splits prod.splits)
qed

lemma access_keeps_core_list:
  assumes "ParseAccessNetwork epc garbage access st = Inr st'"
  shows "tr_coreNodesList st' = tr_coreNodesList st"
proof -
  have conf: "tr_coreNodesList s' = tr_coreNodesList s" if "configure_end_host g a e s = Inr s'" for g a e s s'
    using that by (auto simp: configure_end_host_Inr)
  have "tr_coreNodesList s' = tr_coreNodesList s" if "ParseAccess_node epc garbage node s = Inr s'" for node s s'
    using that
  proof (cases rule: ParseAccess_nodeE)
    case (1 endNodes router st1 gateway rest gw g a0 a1 st2 st3)
    have "tr_coreNodesList st3 = tr_coreNodesList st2"
      using each_same [OF 1(7), of tr_coreNodesList] conf by blast
    with create_network_keeps_core_list [OF 1(1)] 1(6,8) show ?thesis
      by (auto simp: CreateP2PLink_def)
  qed
  then show ?thesis
    using assms each_same [of "ParseAccess_node epc garbage" access st st' tr_coreNodesList]
    by (simp add: ParseAccessNetwork_def)
qed

section \<open>An example\<close>

abbreviation net24 :: "u32 \<Rightarrow> string" where
  "net24 net \<equiv> dotted net @ ''/'' @ to_string 24"

definition example_link :: "string \<Rightarrow> u32 \<Rightarrow> Link" where
  "example_link target net =
     \<lparr>lk_target = target, lk_data_rate = ''1Gbps'', lk_delay = ''1ms'', lk_network = net24 net\<rparr>"

definition example_config :: TopologyConfig where
  "example_config = \<lparr>
     tc_core_layer =
       [\<lparr>cn_name = ''c1'', cn_type = ''host_server'', cn_connections = [example_link ''c2'' 0x0A000000]\<rparr>,
        \<lparr>cn_name = ''c2'', cn_type = ''host_server'', cn_connections = []\<rparr>],
     tc_edge_layer =
       [\<lparr>cn_name = ''e1'', cn_type = ''host_server'', cn_connections = [example_link ''c1'' 0x0A000100]\<rparr>],
     tc_access_layer =
       [\<lparr>ec_name = ''lan'', ec_type = ''end_cluster'', ec_num_nodes = 2, ec_local_network = net24 0xC0A80000,
         ec_network_type = ''csma'', ec_gateways =
           [\<lparr>gw_name = ''e1'', gw_data_rate = ''1Gbps'', gw_delay = ''1ms'', gw_network = net24 0x0A000200\<rparr>]\<rparr>],
     tc_central_node = ''c1''\<rparr>"

text \<open>The next network is assigned when its number is new.\<close>

lemma net24_step:
  assumes "generator_live gen" and "\<forall>a \<in> allocated gen. a AND prefix_mask 24 \<in> S" and "net \<notin> S"
    and "net AND NOT (prefix_mask 24) = 0"
  obtains x y gen' where "AssignIPAddresses 2 (net24 net) gen = Inr ([x, y], gen')" and "generator_live gen'"
    and "\<forall>a \<in> allocated gen'. a AND prefix_mask 24 \<in> insert net S"
proof -
  obtain as gen' where run: "AssignIPAddresses 2 (net24 net) gen = Inr (as, gen')"
    using AssignIPAddresses_room [of 24 gen net 2] assms by auto
  note fresh = AssignIPAddresses_fresh [OF assms(1) run]
  obtain x y where as: "as = [x, y]"
    using fresh(1) by (auto simp: length_Suc_conv numeral_2_eq_2)
  have "\<forall>a \<in> set as. host_of net (prefix_mask 24) a"
    using AssignIPAddresses_in_network [OF _ _ assms(1) run] by simp
  then have "\<forall>a \<in> allocated gen'. a AND prefix_mask 24 \<in> insert net S"
    using fresh(5) assms(2) by (auto simp: host_of_def)
  with run fresh(3) as that show thesis by blast
qed

lemma example_read_ok: "\<exists>st. Read (\<lambda>_. []) False example_config (reader_new Generator_Reset) = Inr st \<and>
    nd_kind (tr_nodes st ! 2) = EdgeServer \<and> nd_parents (tr_nodes st ! 2) \<noteq> [] \<and> length (tr_nodes st) = 5"
proof -
  obtain x0 y0 g1 where n1: "AssignIPAddresses 2 (net24 0x0A000000) Generator_Reset = Inr ([x0, y0], g1)"
    "generator_live g1" "\<forall>a \<in> allocated g1. a AND prefix_mask 24 \<in> {0x0A000000}"
    by (rule net24_step [of Generator_Reset "{}" "0x0A000000"]) (simp_all add: Generator_Reset_live)
  obtain x1 y1 g2 where n2: "AssignIPAddresses 2 (net24 0x0A000100) g1 = Inr ([x1, y1], g2)"
    "generator_live g2" "\<forall>a \<in> allocated g2. a AND prefix_mask 24 \<in> {0x0A000100, 0x0A000000}"
    by (rule net24_step [OF n1(2,3), of "0x0A000100"]) simp_all
  obtain x2 y2 g3 where n3: "AssignIPAddresses 2 (net24 0xC0A80000) g2 = Inr ([x2, y2], g3)"
    "generator_live g3" "\<forall>a \<in> allocated g3. a AND prefix_mask 24 \<in> {0xC0A80000, 0x0A000100, 0x0A000000}"
    by (rule net24_step [OF n2(2,3), of "0xC0A80000"]) simp_all
  obtain x3 y3 g4 where n4: "AssignIPAddresses 2 (net24 0x0A000200) g3 = Inr ([x3, y3], g4)"
    by (rule net24_step [OF n3(2,3), of "0x0A000200"]) simp_all
  let ?core = "tc_core_layer example_config" and ?edge = "tc_edge_layer example_config"
    and ?access = "tc_access_layer example_config"
  show ?thesis
    using n1(1) n2(1) n3(1) n4
    by (simp add: Read_def ParseCoreCloud_def create_core_node_def create_cloud_node_def CreateCloudNodeInfo_def
        core_link_def CreateP2PLink_def ParseEdgeCloud_def ParseEdge_node_def edge_link_def
        ParseAccessNetwork_def ParseAccess_node_def create_network_def CreateCsmaNetwork_def
        create_end_hosts_def create_end_host_def assign_local_def configure_end_host_def new_positions_def
        CreateEndClusterNodeInfo_def ConfigCNRS_def core_by_name_def set_upper_def GetNodeByName_def
        at_node_def CybertwinNode_new_def reader_new_def example_config_def example_link_def Let_def
        AddGlobalIp_def AddLocalIp_def SetUpperNodeAddress_def AddParent_def SetCNRSRoot_def numeral_2_eq_2)
qed

section \<open>Properties\<close>

text \<open>
  C12: A topology that was read is well formed: a name leads to the node of that name, every
  parent of a node and every node of the information map is a node of the topology, every
  address is initialised, and a node with a parent knows an upper address.
\<close>

theorem Read_well_formed:
  assumes "generator_live gen" and "Read epc garbage config (reader_new gen) = Inr st"
  shows "names_ok st \<and> refs_ok st \<and> (\<forall>nd \<in> set (tr_nodes st). node_ok True nd)"
  by (rule Read_stages [OF assms]) (simp add: reader_ok_def)

theorem Read_well_formed_witness:
  "\<exists>st. Read (\<lambda>_. []) False example_config (reader_new Generator_Reset) = Inr st \<and>
     names_ok st \<and> refs_ok st \<and> (\<forall>nd \<in> set (tr_nodes st). node_ok True nd)"
  using example_read_ok Read_well_formed [OF Generator_Reset_live(1)] by blast

text \<open>
  C13: No two interfaces of a topology share an address: the addresses of a node are different,
  those of different nodes have none in common, and all of them were reserved at the address
  generator.
\<close>

theorem topology_addresses_unique:
  assumes "generator_live gen" and "Read epc garbage config (reader_new gen) = Inr st"
    and "p < length (tr_nodes st)" and "q < length (tr_nodes st)"
  shows "distinct (node_addresses (tr_nodes st ! p)) \<and>
    (p \<noteq> q \<longrightarrow> set (node_addresses (tr_nodes st ! p)) \<inter> set (node_addresses (tr_nodes st ! q)) = {}) \<and>
    set (node_addresses (tr_nodes st ! p)) \<subseteq> allocated (tr_generator st)"
proof -
  have ok: "unique_addresses (tr_nodes st)" "addresses st \<subseteq> allocated (tr_generator st)"
    by (rule Read_stages [OF assms(1,2)], simp add: reader_ok_def)+
  then show ?thesis
    using assms(3,4) in_addresses [OF assms(3)] by (auto simp: unique_addresses_def)
qed

theorem topology_addresses_unique_witness:
  "\<exists>st. Read (\<lambda>_. []) False example_config (reader_new Generator_Reset) = Inr st \<and>
     set (node_addresses (tr_nodes st ! 2)) \<inter> set (node_addresses (tr_nodes st ! 0)) = {}"
proof -
  obtain st where st: "Read (\<lambda>_. []) False example_config (reader_new Generator_Reset) = Inr st"
    "length (tr_nodes st) = 5"
    using example_read_ok by blast
  with topology_addresses_unique [OF Generator_Reset_live(1) st(1), of 2 0] show ?thesis by auto
qed

text \<open>
  The core servers form a star of name resolution services: once the topology is read and
  the nodes are powered on, the service of the configured central node is the root, and the
  service of every other core node is not a root and has one of the central node's addresses as
  its superior.
\<close>

theorem cnrs_star:
  assumes "generator_live gen" and "Read epc False config (reader_new gen) = Inr st"
    and "name \<in> cn_name ` set (tc_core_layer config)" and "name \<noteq> tc_central_node config"
  shows "\<exists>c p root leaf. tr_nodeName2Ptr st (tc_central_node config) = Some c \<and>
    tr_nodeName2Ptr st name = Some p \<and>
    (\<exists>nd. CoreServer_PowerOn ifaceAddr g1 now (tr_nodes st ! c) = Inr nd \<and> started_CNRS nd = Some root) \<and>
    (\<exists>nd. CoreServer_PowerOn ifaceAddr g2 now (tr_nodes st ! p) = Inr nd \<and> started_CNRS nd = Some leaf) \<and>
    nrs_isCNRSRoot root \<and> \<not> nrs_isCNRSRoot leaf \<and>
    nrs_superior leaf \<in> set (nd_globalAddrList (tr_nodes st ! c))"
proof -
  obtain st1 st2 st3 where st: "ParseCoreCloud False (tc_core_layer config) (reader_new gen) = Inr st1"
    "ParseEdgeCloud False (tc_edge_layer config) st1 = Inr st2"
    "ParseAccessNetwork epc False (tc_access_layer config) st2 = Inr st3"
    "ConfigCNRS (tc_central_node config) st3 = Inr st" "reader_ok False st3"
    by (rule Read_stages [OF assms(1,2)])
  have "name \<in> ni_name ` set (tr_coreNodesList st3)"
    using core_names [OF st(1)] edge_keeps_core_list [OF st(2)] access_keeps_core_list [OF st(3)] assms(3)
    by (metis image_set)
  then obtain info where info: "info \<in> set (tr_coreNodesList st3)" "ni_name info = name"
    by blast
  obtain c a where c: "tr_nodeName2Ptr st = tr_nodeName2Ptr st3"
    "tr_nodeName2Ptr st3 (tc_central_node config) = Some c" "c < length (tr_nodes st3)"
    "a \<in> set (nd_globalAddrList (tr_nodes st3 ! c))" "tr_nodes st ! c = SetCNRSRoot (tr_nodes st3 ! c)"
    and others: "\<And>info. info \<in> set (tr_coreNodesList st3) \<Longrightarrow> ni_name info \<noteq> tc_central_node config \<Longrightarrow>
      \<exists>p. tr_nodeName2Ptr st3 (ni_name info) = Some p \<and> p < length (tr_nodes st3) \<and>
        tr_nodes st ! p = SetUpperNodeAddress a (tr_nodes st3 ! p)"
    by (rule ConfigCNRS_nodes [OF st(5,4)]) blast
  obtain p where p: "tr_nodeName2Ptr st3 name = Some p" "p < length (tr_nodes st3)"
    "tr_nodes st ! p = SetUpperNodeAddress a (tr_nodes st3 ! p)"
    using others [OF info(1)] info(2) assms(4) by blast
  have ok: "node_ok False (tr_nodes st3 ! c)" "node_ok False (tr_nodes st3 ! p)"
    using st(5) c(3) p(2) by (simp_all add: reader_ok_def)
  obtain root where "started_CNRS (InstallCNRSApp ifaceAddr g1 now (tr_nodes st ! c)) = Some root"
    "nrs_isCNRSRoot root"
    using InstallCNRSApp_started [of "tr_nodes st ! c" ifaceAddr g1 now] ok(1)
    unfolding c(5) by (auto simp: node_ok_def SetCNRSRoot_def)
  moreover obtain leaf where "started_CNRS (InstallCNRSApp ifaceAddr g2 now (tr_nodes st ! p)) = Some leaf"
    "\<not> nrs_isCNRSRoot leaf" "nrs_superior leaf = a"
    using InstallCNRSApp_started [of "tr_nodes st ! p" ifaceAddr g2 now] ok c(4)
    unfolding p(3) by (auto simp: node_ok_def SetUpperNodeAddress_def)
  moreover have "a \<in> set (nd_globalAddrList (tr_nodes st ! c))"
    using c(4,5) by (simp add: SetCNRSRoot_def)
  ultimately show ?thesis
    using c(1,2) p(1) by (auto simp: CoreServer_PowerOn_def)
qed

theorem cnrs_star_witness:
  "\<exists>st c p root leaf. Read (\<lambda>_. []) False example_config (reader_new Generator_Reset) = Inr st \<and>
    tr_nodeName2Ptr st ''c1'' = Some c \<and> tr_nodeName2Ptr st ''c2'' = Some p \<and>
    started_CNRS (InstallCNRSApp (\<lambda>_. Ipv4Address_default) False 0 (tr_nodes st ! c)) = Some root \<and>
    started_CNRS (InstallCNRSApp (\<lambda>_. Ipv4Address_default) False 0 (tr_nodes st ! p)) = Some leaf \<and>
    nrs_isCNRSRoot root \<and> \<not> nrs_isCNRSRoot leaf"
proof -
  obtain st where st: "Read (\<lambda>_. []) False example_config (reader_new Generator_Reset) = Inr st"
    using example_read_ok by blast
  from cnrs_star [OF Generator_Reset_live(1) st, of "''c2''" "\<lambda>_. Ipv4Address_default" False 0 False]
  show ?thesis
    using st by (auto simp: example_config_def CoreServer_PowerOn_def)
qed

text \<open>
  Every edge server that a topology connects to a core node powers on completely: its name
  resolution service starts as a non-root with an initialised superior, and its cybertwin manager
  has at least one global address to give out.
\<close>

theorem edge_server_powers_on:
  assumes "generator_live gen" and "Read epc False config (reader_new gen) = Inr st"
    and "q < length (tr_nodes st)" and "nd_kind (tr_nodes st ! q) = EdgeServer"
    and "nd_parents (tr_nodes st ! q) \<noteq> []"
  shows "\<exists>nd s m. EdgeServer_PowerOn ifaceAddr g now (tr_nodes st ! q) = Inr nd \<and>
    started_CNRS nd = Some s \<and> \<not> nrs_isCNRSRoot s \<and> m_initialized (nrs_superior s) \<and>
    Manager_App m \<in> fst ` set (nd_applications nd) \<and> mgr_globalIpv4AddrList m \<noteq> []"
proof -
  obtain st1 st2 st3 where st: "ConfigCNRS (tc_central_node config) st3 = Inr st" "reader_ok False st3"
    "reader_ok True st"
    by (rule Read_stages [OF assms(1,2)])
  have ok: "node_ok True (tr_nodes st ! q)"
    using st(3) assms(3) by (simp add: reader_ok_def)
  have "\<not> nd_isCNRSRoot (tr_nodes st ! q)"
  proof (rule ConfigCNRS_nodes [OF st(2,1)])
    fix c a
    assume len: "length (tr_nodes st) = length (tr_nodes st3)"
      and kind: "nd_kind (tr_nodes st3 ! c) = CoreServer"
      and c: "tr_nodes st ! c = SetCNRSRoot (tr_nodes st3 ! c)"
      and rest: "\<And>q. q < length (tr_nodes st3) \<Longrightarrow> q \<noteq> c \<Longrightarrow> tr_nodes st ! q = tr_nodes st3 ! q \<or>
        tr_nodes st ! q = SetUpperNodeAddress a (tr_nodes st3 ! q)"
    have "q \<noteq> c"
      using assms(4) kind c by auto
    moreover have "node_ok False (tr_nodes st3 ! q)"
      using st(2) assms(3) len by (simp add: reader_ok_def)
    ultimately show ?thesis
      using rest [of q] assms(3) len by (auto simp: node_ok_def SetUpperNodeAddress_def)
  qed
  with ok assms(4,5) show ?thesis
    by (auto simp: EdgeServer_PowerOn_def InstallCNRSApp_def InstallCybertwinManagerApp_def node_ok_def
        started_CNRS_def InitSuperior_def CybertwinManager_new_def Let_def)
qed

theorem edge_server_powers_on_witness:
  "\<exists>st nd s. Read (\<lambda>_. []) False example_config (reader_new Generator_Reset) = Inr st \<and>
    EdgeServer_PowerOn (\<lambda>_. Ipv4Address_default) False 0 (tr_nodes st ! 2) = Inr nd \<and>
    started_CNRS nd = Some s \<and> m_initialized (nrs_superior s)"
proof -
  obtain st where st: "Read (\<lambda>_. []) False example_config (reader_new Generator_Reset) = Inr st"
    "nd_kind (tr_nodes st ! 2) = EdgeServer" "nd_parents (tr_nodes st ! 2) \<noteq> []" "2 < length (tr_nodes st)"
    using example_read_ok by auto
  from edge_server_powers_on [OF Generator_Reset_live(1) st(1,4,2,3)] st(1) show ?thesis by blast
qed

text \<open>
  Only CSMA and WiFi access networks work: a cluster of any other type with at least one node
  is never connected, because its nodes are not cybertwin end hosts (LTE, UAN) or it has no router.
\<close>

theorem access_network_unsupported:
  assumes "ec_network_type node \<noteq> ''csma''" and "ec_network_type node \<noteq> ''wifi''" and "0 < ec_num_nodes node"
  shows "\<nexists>st'. ParseAccess_node epc garbage node st = Inr st'"
proof
  assume "\<exists>st'. ParseAccess_node epc garbage node st = Inr st'"
  then obtain st' where "ParseAccess_node epc garbage node st = Inr st'"
    by blast
  then show False
  proof (cases rule: ParseAccess_nodeE)
    case (1 endNodes router st1 gateway rest gw g a0 a1 st2 st3)
    have "None \<in> set endNodes"
      using 1(1,2) assms by (auto simp: create_network_def CreateLteNetwork_def CreateUanNetwork_def
          split: if_splits)
    moreover have "None \<notin> set endNodes"
      using 1(7) by (induction endNodes arbitrary: st2) (auto simp: configure_end_host_Inr)
    ultimately show False by simp
  qed
qed

theorem access_network_unsupported_witness:
  "\<nexists>st'. ParseAccess_node (\<lambda>_. []) False \<lparr>ec_name = ''ue'', ec_type = ''end_cluster'', ec_num_nodes = 1,
     ec_local_network = net24 0, ec_network_type = ''lte'', ec_gateways = []\<rparr> (reader_new Generator_Reset) = Inr st'"
  by (rule access_network_unsupported) simp_all

text \<open>
  Links are remembered by the concatenation of the two names: after a link has been made, a link
  between two other nodes whose names concatenate to the same text is skipped without notice.
\<close>

theorem link_name_collision:
  assumes "core_link n1 l1 st = Inr st1" and "ni_name n1 @ lk_target l1 \<notin> tr_links st"
    and "lk_target l1 @ ni_name n1 \<notin> tr_links st"
    and "ni_name n2 @ lk_target l2 = ni_name n1 @ lk_target l1"
    and "tr_nodeInfoMap st1 (lk_target l2) = Some dst"
  shows "core_link n2 l2 st1 = Inr st1"
proof -
  have "ni_name n1 @ lk_target l1 \<in> tr_links st1"
    using assms(1-3) by (auto simp: core_link_def Let_def CreateP2PLink_def at_node_def)
  with assms(4,5) show ?thesis
    by (simp add: core_link_def Let_def)
qed

end
