(* ===== verification/Schedulers.thy ===== *)
theory Schedulers
  imports FISim_Prelude "HOL-Library.Multiset"
begin

text \<open>
  The event schedulers of \<^verbatim>\<open>core/model\<close>: \<^verbatim>\<open>list-scheduler.cc\<close>,
  \<^verbatim>\<open>map-scheduler.cc\<close>, \<^verbatim>\<open>heap-scheduler.cc\<close> and
  \<^verbatim>\<open>priority-queue-scheduler.cc\<close>.  A scheduler holds pending events and gives out the
  earliest one; events of the same time leave in the order of their identifiers.

  The locale \<open>event_queue\<close> states what insertion and removal of the earliest event promise;
  \<open>event_scheduler\<close> adds the removal of a given event.  The list, the map and the priority
  queue satisfy both.  The heap satisfies the first only: its \<^verbatim>\<open>Remove\<close> does not restore
  the order of the heap.
\<close>

section \<open>Events\<close>

record EventKey =
  m_ts :: u64
  m_uid :: u32
  m_context :: u32

record Event =
  ev_impl :: "nat option"
  ev_key :: EventKey

abbreviation uid :: "Event \<Rightarrow> u32" where
  "uid ev \<equiv> m_uid (ev_key ev)"

abbreviation uids :: "Event set \<Rightarrow> u32 set" where
  "uids es \<equiv> uid ` es"

definition key_less :: "EventKey \<Rightarrow> EventKey \<Rightarrow> bool" where
  "key_less a b = (if m_ts a < m_ts b then True
     else if m_ts a = m_ts b \<and> m_uid a < m_uid b then True else False)"

definition event_less :: "Event \<Rightarrow> Event \<Rightarrow> bool" where
  "event_less a b = key_less (ev_key a) (ev_key b)"

definition event_eq :: "Event \<Rightarrow> Event \<Rightarrow> bool" where
  "event_eq a b = (uid a = uid b)"

section \<open>ListScheduler\<close>

type_synonym ListScheduler = "Event list"

fun ListScheduler_Insert :: "Event \<Rightarrow> ListScheduler \<Rightarrow> ListScheduler" where
  "ListScheduler_Insert ev [] = [ev]"
| "ListScheduler_Insert ev (e # es) =
     (if key_less (ev_key ev) (ev_key e) then ev # e # es else e # ListScheduler_Insert ev es)"

definition ListScheduler_IsEmpty :: "ListScheduler \<Rightarrow> bool" where
  "ListScheduler_IsEmpty es = (es = [])"

text \<open>The first element of an empty list is undefined.\<close>

definition ListScheduler_PeekNext :: "ListScheduler \<Rightarrow> Event outcome" where
  "ListScheduler_PeekNext es = (case es of [] \<Rightarrow> Inl Undefined | e # _ \<Rightarrow> Inr e)"

definition ListScheduler_RemoveNext :: "ListScheduler \<Rightarrow> (Event \<times> ListScheduler) outcome" where
  "ListScheduler_RemoveNext es = (case es of [] \<Rightarrow> Inl Undefined | e # es \<Rightarrow> Inr (e, es))"

fun ListScheduler_Remove :: "Event \<Rightarrow> ListScheduler \<Rightarrow> ListScheduler outcome" where
  "ListScheduler_Remove ev [] = Inl AssertFailed"
| "ListScheduler_Remove ev (e # es) =
     (if uid e = uid ev then require (ev_impl ev = ev_impl e) AssertFailed (Inr es)
      else then_do (ListScheduler_Remove ev es) (\<lambda>es. Inr (e # es)))"

section \<open>MapScheduler\<close>

text \<open>
  A \<^verbatim>\<open>std::map\<close> keeps its entries in the order of the keys, and two keys are the same
  when neither is smaller.
\<close>

type_synonym MapScheduler = "(EventKey \<times> nat option) list"

fun std_map_insert :: "EventKey \<Rightarrow> nat option \<Rightarrow> MapScheduler \<Rightarrow> bool \<times> MapScheduler" where
  "std_map_insert k v [] = (True, [(k, v)])"
| "std_map_insert k v (e # es) =
     (if key_less k (fst e) then (True, (k, v) # e # es)
      else if key_less (fst e) k then let (b, es) = std_map_insert k v es in (b, e # es)
      else (False, e # es))"

fun std_map_take :: "EventKey \<Rightarrow> MapScheduler \<Rightarrow> (nat option \<times> MapScheduler) option" where
  "std_map_take k [] = None"
| "std_map_take k (e # es) =
     (if \<not> key_less k (fst e) \<and> \<not> key_less (fst e) k then Some (snd e, es)
      else map_option (\<lambda>(v, es). (v, e # es)) (std_map_take k es))"

definition map_event :: "EventKey \<times> nat option \<Rightarrow> Event" where
  "map_event e = \<lparr>ev_impl = snd e, ev_key = fst e\<rparr>"

definition MapScheduler_Insert :: "Event \<Rightarrow> MapScheduler \<Rightarrow> MapScheduler outcome" where
  "MapScheduler_Insert ev m =
     (let (inserted, m) = std_map_insert (ev_key ev) (ev_impl ev) m
      in require inserted AssertFailed (Inr m))"

definition MapScheduler_IsEmpty :: "MapScheduler \<Rightarrow> bool" where
  "MapScheduler_IsEmpty m = (m = [])"

definition MapScheduler_PeekNext :: "MapScheduler \<Rightarrow> Event outcome" where
  "MapScheduler_PeekNext m = (case m of [] \<Rightarrow> Inl AssertFailed | e # _ \<Rightarrow> Inr (map_event e))"

definition MapScheduler_RemoveNext :: "MapScheduler \<Rightarrow> (Event \<times> MapScheduler) outcome" where
  "MapScheduler_RemoveNext m =
     (case m of [] \<Rightarrow> Inl AssertFailed | e # es \<Rightarrow> Inr (map_event e, es))"

text \<open>An event that is not in the map leads to a dereference of the end iterator.\<close>

definition MapScheduler_Remove :: "Event \<Rightarrow> MapScheduler \<Rightarrow> MapScheduler outcome" where
  "MapScheduler_Remove ev m =
     from_option Undefined (std_map_take (ev_key ev) m)
       (\<lambda>(v, m). require (v = ev_impl ev) AssertFailed (Inr m))"

section \<open>HeapScheduler\<close>

text \<open>The first element of the vector is not used, so that indices start at one.\<close>

type_synonym HeapScheduler = "Event list"

definition HeapScheduler_new :: HeapScheduler where
  "HeapScheduler_new = [\<lparr>ev_impl = None, ev_key = \<lparr>m_ts = 0, m_uid = 0, m_context = 0\<rparr>\<rparr>]"

definition Parent :: "nat \<Rightarrow> nat" where "Parent i = i div 2"
definition LeftChild :: "nat \<Rightarrow> nat" where "LeftChild i = i * 2"
definition RightChild :: "nat \<Rightarrow> nat" where "RightChild i = i * 2 + 1"
definition Root :: nat where "Root = 1"

definition IsRoot :: "nat \<Rightarrow> bool" where "IsRoot i = (i = Root)"

definition Last :: "HeapScheduler \<Rightarrow> nat" where "Last h = length h - 1"

definition IsBottom :: "nat \<Rightarrow> HeapScheduler \<Rightarrow> bool" where "IsBottom i h = (length h \<le> i)"

definition Exch :: "nat \<Rightarrow> nat \<Rightarrow> HeapScheduler \<Rightarrow> HeapScheduler outcome" where
  "Exch a b h = require (b < length h \<and> a < length h) AssertFailed (Inr (h[a := h ! b, b := h ! a]))"

definition IsLessStrictly :: "nat \<Rightarrow> nat \<Rightarrow> HeapScheduler \<Rightarrow> bool" where
  "IsLessStrictly a b h = event_less (h ! a) (h ! b)"

definition Smallest :: "nat \<Rightarrow> nat \<Rightarrow> HeapScheduler \<Rightarrow> nat" where
  "Smallest a b h = (if IsLessStrictly a b h then a else b)"

definition HeapScheduler_IsEmpty :: "HeapScheduler \<Rightarrow> bool" where
  "HeapScheduler_IsEmpty h = (length h = 1)"

lemma key_less_irrefl [simp]: "\<not> key_less k k"
  by (simp add: key_less_def)

lemma event_less_irrefl [simp]: "\<not> event_less e e"
  by (simp add: event_less_def)

lemma Exch_Inr: "Exch a b h = Inr h' \<longleftrightarrow> a < length h \<and> b < length h \<and> h' = h[a := h ! b, b := h ! a]"
  by (auto simp: Exch_def)

function BottomUp_from :: "nat \<Rightarrow> HeapScheduler \<Rightarrow> HeapScheduler outcome" where
  "BottomUp_from index h =
     (if \<not> IsRoot index \<and> IsLessStrictly index (Parent index) h
      then case Exch index (Parent index) h of Inl e \<Rightarrow> Inl e | Inr h \<Rightarrow> BottomUp_from (Parent index) h
      else Inr h)"
  by auto
termination
  by (relation "measure fst") (auto simp: Parent_def IsLessStrictly_def intro!: div_less_dividend gr0I)

definition BottomUp :: "HeapScheduler \<Rightarrow> HeapScheduler outcome" where
  "BottomUp h = BottomUp_from (Last h) h"

text \<open>
  At index zero the loop would exchange the element with itself for ever; the callers start at
  one or above.
\<close>

function TopDown :: "nat \<Rightarrow> HeapScheduler \<Rightarrow> HeapScheduler outcome" where
  "TopDown index h =
     (if index = 0 then Inl Unfinished
      else if \<not> IsBottom (RightChild index) h then
        let tmp = Smallest (LeftChild index) (RightChild index) h
        in if IsLessStrictly index tmp h then Inr h
           else (case Exch index tmp h of Inl e \<Rightarrow> Inl e | Inr h \<Rightarrow> TopDown tmp h)
      else if IsBottom index h then Inr h
      else if IsBottom (LeftChild index) h then Inr h
      else if IsLessStrictly index (LeftChild index) h then Inr h
      else Exch index (LeftChild index) h)"
  by auto
termination
  by (relation "measure (\<lambda>(index, h). length h - index)")
    (auto simp: Exch_Inr Smallest_def LeftChild_def RightChild_def IsBottom_def)

declare BottomUp_from.simps [simp del] TopDown.simps [simp del]

definition HeapScheduler_Insert :: "Event \<Rightarrow> HeapScheduler \<Rightarrow> HeapScheduler outcome" where
  "HeapScheduler_Insert ev h = BottomUp (h @ [ev])"

definition HeapScheduler_PeekNext :: "HeapScheduler \<Rightarrow> Event outcome" where
  "HeapScheduler_PeekNext h = require (Root < length h) Undefined (Inr (h ! Root))"

definition HeapScheduler_RemoveNext :: "HeapScheduler \<Rightarrow> (Event \<times> HeapScheduler) outcome" where
  "HeapScheduler_RemoveNext h =
     require (Root < length h) Undefined
       (let next = h ! Root
        in then_do (Exch Root (Last h) h)
             (\<lambda>h. then_do (TopDown Root (butlast h)) (\<lambda>h. Inr (next, h))))"

text \<open>The search for an identifier runs over the used part of the vector.\<close>

fun find_uid :: "u32 \<Rightarrow> nat \<Rightarrow> Event list \<Rightarrow> nat option" where
  "find_uid u i [] = None"
| "find_uid u i (e # es) = (if u = uid e then Some i else find_uid u (i + 1) es)"

definition HeapScheduler_Remove :: "Event \<Rightarrow> HeapScheduler \<Rightarrow> HeapScheduler outcome" where
  "HeapScheduler_Remove ev h =
     from_option AssertFailed (find_uid (uid ev) 1 (tl h))
       (\<lambda>i. require (ev_impl (h ! i) = ev_impl ev) AssertFailed
          (then_do (Exch i (Last h) h) (\<lambda>h. TopDown i (butlast h))))"

section \<open>PriorityQueueScheduler\<close>

text \<open>
  The content of a \<^verbatim>\<open>std::priority_queue\<close> as a list; its top is an element with no
  smaller one, here the first such element.
\<close>

type_synonym PriorityQueueScheduler = "Event list"

fun pq_top :: "Event \<Rightarrow> Event list \<Rightarrow> Event" where
  "pq_top e [] = e"
| "pq_top e (x # xs) = pq_top (if event_less x e then x else e) xs"

definition PriorityQueueScheduler_Insert ::
  "Event \<Rightarrow> PriorityQueueScheduler \<Rightarrow> PriorityQueueScheduler" where
  "PriorityQueueScheduler_Insert ev q = q @ [ev]"

definition PriorityQueueScheduler_IsEmpty :: "PriorityQueueScheduler \<Rightarrow> bool" where
  "PriorityQueueScheduler_IsEmpty q = (q = [])"

definition PriorityQueueScheduler_PeekNext :: "PriorityQueueScheduler \<Rightarrow> Event outcome" where
  "PriorityQueueScheduler_PeekNext q =
     (case q of [] \<Rightarrow> Inl Undefined | e # es \<Rightarrow> Inr (pq_top e es))"

definition PriorityQueueScheduler_RemoveNext ::
  "PriorityQueueScheduler \<Rightarrow> (Event \<times> PriorityQueueScheduler) outcome" where
  "PriorityQueueScheduler_RemoveNext q =
     (case q of [] \<Rightarrow> Inl Undefined
      | e # es \<Rightarrow> let ev = pq_top e es in Inr (ev, remove1 ev q))"

text \<open>Unlike the others, this scheduler ignores the removal of an event it does not hold.\<close>

fun PriorityQueueScheduler_Remove ::
  "Event \<Rightarrow> PriorityQueueScheduler \<Rightarrow> PriorityQueueScheduler" where
  "PriorityQueueScheduler_Remove ev [] = []"
| "PriorityQueueScheduler_Remove ev (e # es) =
     (if event_eq e ev then es else e # PriorityQueueScheduler_Remove ev es)"

section \<open>The contract\<close>

text \<open>The order of events as numbers.\<close>

definition rank :: "Event \<Rightarrow> nat" where
  "rank ev = unat (m_ts (ev_key ev)) * 2 ^ 32 + unat (uid ev)"

lemma rank_less: "event_less a b \<longleftrightarrow> rank a < rank b"
proof -
  have "unat (uid a) < 2 ^ 32" "unat (uid b) < 2 ^ 32"
    using unsigned_less [of "uid a"] unsigned_less [of "uid b"] by simp_all
  then show ?thesis
    by (auto simp: event_less_def key_less_def rank_def word_less_nat_alt word_unat_eq_iff)
qed

lemma rank_eq: "rank a = rank b \<longleftrightarrow> m_ts (ev_key a) = m_ts (ev_key b) \<and> uid a = uid b"
proof -
  have "rank a = rank b \<longleftrightarrow> \<not> event_less a b \<and> \<not> event_less b a"
    by (auto simp: rank_less)
  then show ?thesis
    by (auto simp: event_less_def key_less_def not_less split: if_splits)
qed

lemma key_less_rank: "key_less (ev_key a) (ev_key b) \<longleftrightarrow> rank a < rank b"
  using rank_less by (simp add: event_less_def)

lemma rank_ts: "rank a \<le> rank b \<Longrightarrow> m_ts (ev_key a) \<le> m_ts (ev_key b)"
  using rank_less [of b a] by (auto simp: event_less_def key_less_def not_less split: if_splits)

lemma rank_inj_on: "inj_on uid es \<Longrightarrow> inj_on rank es"
  by (auto simp: inj_on_def rank_eq)

text \<open>Emptying a queue, as \<^verbatim>\<open>DefaultSimulatorImpl\<close> does it; \<open>n\<close> bounds the removals.\<close>

fun drain :: "('s \<Rightarrow> bool) \<Rightarrow> ('s \<Rightarrow> (Event \<times> 's) outcome) \<Rightarrow> nat \<Rightarrow> 's \<Rightarrow> Event list outcome" where
  "drain is_empty remove_next 0 s = (if is_empty s then Inr [] else Inl Unfinished)"
| "drain is_empty remove_next (Suc n) s =
     (if is_empty s then Inr []
      else then_do (remove_next s)
        (\<lambda>(ev, s). then_do (drain is_empty remove_next n s) (\<lambda>evs. Inr (ev # evs))))"

text \<open>A history of a queue: insertions, and removals of the next event while there is one.\<close>

datatype queue_op = Op_Insert Event | Op_Next

fun run_ops :: "(Event \<Rightarrow> 's \<Rightarrow> 's outcome) \<Rightarrow> ('s \<Rightarrow> bool) \<Rightarrow> ('s \<Rightarrow> (Event \<times> 's) outcome) \<Rightarrow>
  queue_op list \<Rightarrow> 's \<Rightarrow> Event list outcome" where
  "run_ops ins is_empty remove_next [] s = Inr []"
| "run_ops ins is_empty remove_next (Op_Insert ev # ops) s =
     then_do (ins ev s) (run_ops ins is_empty remove_next ops)"
| "run_ops ins is_empty remove_next (Op_Next # ops) s =
     (if is_empty s then run_ops ins is_empty remove_next ops s
      else then_do (remove_next s)
        (\<lambda>(ev, s). then_do (run_ops ins is_empty remove_next ops s) (\<lambda>evs. Inr (ev # evs))))"

fun inserted :: "queue_op list \<Rightarrow> Event list" where
  "inserted [] = []"
| "inserted (Op_Insert ev # ops) = ev # inserted ops"
| "inserted (Op_Next # ops) = inserted ops"

text \<open>
  A queue of events: what is inserted under a fresh identifier is there, and what is removed
  is the earliest.
\<close>

locale event_queue =
  fixes ok :: "'s \<Rightarrow> bool"
    and content :: "'s \<Rightarrow> Event set"
    and new :: 's
    and insert_event :: "Event \<Rightarrow> 's \<Rightarrow> 's outcome"
    and is_empty :: "'s \<Rightarrow> bool"
    and peek :: "'s \<Rightarrow> Event outcome"
    and remove_next :: "'s \<Rightarrow> (Event \<times> 's) outcome"
  assumes content_ok: "ok s \<Longrightarrow> finite (content s) \<and> inj_on uid (content s)"
    and new_ok: "ok new \<and> content new = {}"
    and insert_ok: "ok s \<Longrightarrow> uid ev \<notin> uids (content s) \<Longrightarrow>
      \<exists>s'. insert_event ev s = Inr s' \<and> ok s' \<and> content s' = insert ev (content s)"
    and empty_ok: "ok s \<Longrightarrow> is_empty s \<longleftrightarrow> content s = {}"
    and remove_next_ok: "ok s \<Longrightarrow> content s \<noteq> {} \<Longrightarrow>
      \<exists>ev s'. remove_next s = Inr (ev, s') \<and> peek s = Inr ev \<and> ok s' \<and> ev \<in> content s \<and>
        (\<forall>e \<in> content s. rank ev \<le> rank e) \<and> content s' = content s - {ev}"
begin

lemma next_unique:
  assumes "ok s" and "remove_next s = Inr (ev, s')" and "content s \<noteq> {}"
  shows "ok s' \<and> peek s = Inr ev \<and> ev \<in> content s \<and> (\<forall>e \<in> content s. rank ev \<le> rank e) \<and>
    content s' = content s - {ev}"
  using remove_next_ok [OF assms(1,3)] assms(2) by auto

lemma insert_all:
  assumes "ok s" and "distinct (map uid evs)" and "uid ` set evs \<inter> uids (content s) = {}"
  shows "\<exists>s'. each insert_event evs s = Inr s' \<and> ok s' \<and> content s' = set evs \<union> content s"
  using assms
proof (induction evs arbitrary: s)
  case Nil
  then show ?case by simp
next
  case (Cons ev evs)
  then obtain s1 where s1: "insert_event ev s = Inr s1" "ok s1" "content s1 = insert ev (content s)"
    using insert_ok [of s ev] by auto
  moreover have "uid ` set evs \<inter> uids (content s1) = {}"
    using Cons.prems s1 by auto
  ultimately show ?case
    using Cons.IH [of s1] Cons.prems by auto
qed

lemma drain_sorted:
  assumes "ok s" and "card (content s) \<le> n"
  shows "\<exists>evs. drain is_empty remove_next n s = Inr evs \<and> set evs = content s \<and>
    sorted (map rank evs) \<and> distinct evs"
  using assms
proof (induction n arbitrary: s)
  case 0
  then have "content s = {}"
    using content_ok [of s] by simp
  with 0 show ?case
    using empty_ok by simp
next
  case (Suc n)
  show ?case
  proof (cases "content s = {}")
    case True
    with Suc show ?thesis
      using empty_ok by simp
  next
    case False
    then obtain ev s' where s': "remove_next s = Inr (ev, s')" "ok s'" "ev \<in> content s"
      "\<forall>e \<in> content s. rank ev \<le> rank e" "content s' = content s - {ev}"
      using remove_next_ok Suc.prems(1) by blast
    then have "card (content s') \<le> n"
      using Suc.prems content_ok by simp
    with Suc.IH s' obtain evs where "drain is_empty remove_next n s' = Inr evs"
      "set evs = content s'" "sorted (map rank evs)" "distinct evs"
      by blast
    with s' False show ?thesis
      using empty_ok Suc.prems(1) by auto
  qed
qed

end

locale event_scheduler = event_queue +
  fixes remove :: "Event \<Rightarrow> 's \<Rightarrow> 's outcome"
  assumes remove_ok: "ok s \<Longrightarrow> ev \<in> content s \<Longrightarrow>
    \<exists>s'. remove ev s = Inr s' \<and> ok s' \<and> content s' = content s - {ev}"

text \<open>Two queues with the same content cannot be told apart.\<close>

locale queue_pair =
  left: event_queue ok1 content1 new1 insert1 is_empty1 peek1 remove_next1 +
  right: event_queue ok2 content2 new2 insert2 is_empty2 peek2 remove_next2
  for ok1 :: "'s \<Rightarrow> bool" and content1 new1 insert1 is_empty1 peek1 remove_next1
    and ok2 :: "'t \<Rightarrow> bool" and content2 new2 insert2 is_empty2 peek2 remove_next2
begin

lemma same_next:
  assumes "ok1 s" and "ok2 t" and "content1 s = content2 t" and "content1 s \<noteq> {}"
  shows "\<exists>ev s' t'. remove_next1 s = Inr (ev, s') \<and> remove_next2 t = Inr (ev, t') \<and>
    ok1 s' \<and> ok2 t' \<and> content1 s' = content2 t' \<and> content1 s' \<subseteq> content1 s"
proof -
  obtain ev s' where s': "remove_next1 s = Inr (ev, s')" "ok1 s'" "ev \<in> content1 s"
    "\<forall>e \<in> content1 s. rank ev \<le> rank e" "content1 s' = content1 s - {ev}"
    using left.remove_next_ok [OF assms(1,4)] by blast
  obtain ev' t' where t': "remove_next2 t = Inr (ev', t')" "ok2 t'" "ev' \<in> content2 t"
    "\<forall>e \<in> content2 t. rank ev' \<le> rank e" "content2 t' = content2 t - {ev'}"
    using right.remove_next_ok [OF assms(2)] assms(3,4) by auto
  have "rank ev = rank ev'"
    using s' t' assms(3) by (simp add: antisym)
  then have "ev = ev'"
    using left.content_ok [OF assms(1)] s'(3) t'(3) assms(3)
    by (auto dest!: rank_inj_on inj_onD)
  with s' t' assms(3) show ?thesis by auto
qed

lemma same_run:
  assumes "ok1 s" and "ok2 t" and "content1 s = content2 t"
    and "distinct (map uid (inserted ops))" and "uid ` set (inserted ops) \<inter> uids (content1 s) = {}"
  shows "\<exists>evs. run_ops insert1 is_empty1 remove_next1 ops s = Inr evs \<and>
    run_ops insert2 is_empty2 remove_next2 ops t = Inr evs"
  using assms
proof (induction ops arbitrary: s t rule: inserted.induct)
  case 1
  then show ?case by simp
next
  case (2 ev ops)
  then obtain s' t' where "insert1 ev s = Inr s'" "ok1 s'" "content1 s' = insert ev (content1 s)"
    "insert2 ev t = Inr t'" "ok2 t'" "content2 t' = insert ev (content2 t)"
    using left.insert_ok [of s ev] right.insert_ok [of t ev] by auto
  with 2 show ?case by auto
next
  case (3 ops)
  show ?case
  proof (cases "content1 s = {}")
    case True
    with 3 show ?thesis
      using left.empty_ok right.empty_ok by simp
  next
    case False
    with same_next 3 obtain ev s' t' where nx: "remove_next1 s = Inr (ev, s')"
      "remove_next2 t = Inr (ev, t')" "ok1 s'" "ok2 t'" "content1 s' = content2 t'"
      "content1 s' \<subseteq> content1 s"
      by blast
    then have "uid ` set (inserted ops) \<inter> uids (content1 s') = {}"
      using 3(6) by auto
    from "3.IH" [OF nx(3,4,5) _ this] "3.prems"(4)
    obtain evs where "run_ops insert1 is_empty1 remove_next1 ops s' = Inr evs"
      "run_ops insert2 is_empty2 remove_next2 ops t' = Inr evs"
      by auto
    moreover have "\<not> is_empty1 s" "\<not> is_empty2 t"
      using False 3(2-4) left.empty_ok right.empty_ok by simp_all
    ultimately show ?thesis
      using nx(1,2) by simp
  qed
qed

end

section \<open>The list and the map\<close>

definition list_ok :: "Event list \<Rightarrow> bool" where
  "list_ok es \<longleftrightarrow> sorted (map rank es) \<and> distinct (map uid es)"

abbreviation List_insert :: "Event \<Rightarrow> ListScheduler \<Rightarrow> ListScheduler outcome" where
  "List_insert ev es \<equiv> Inr (ListScheduler_Insert ev es)"

lemma set_ListScheduler_Insert [simp]: "set (ListScheduler_Insert ev es) = insert ev (set es)"
  by (induction es) auto

lemma ListScheduler_Insert_ok:
  "list_ok es \<Longrightarrow> uid ev \<notin> uids (set es) \<Longrightarrow> list_ok (ListScheduler_Insert ev es)"
  by (induction es) (auto simp: list_ok_def key_less_rank)

lemma list_ok_remove1: "list_ok es \<Longrightarrow> list_ok (remove1 ev es) \<and> set (remove1 ev es) = set es - {ev}"
  by (auto simp: list_ok_def sorted_map_remove1 distinct_map set_remove1_eq
      intro: inj_on_subset dest: notin_set_remove1)

lemma list_ok_Cons: "list_ok (e # es) \<Longrightarrow> list_ok es \<and> set es = set (e # es) - {e} \<and> (\<forall>x \<in> set es. rank e \<le> rank x)"
  by (auto simp: list_ok_def)

lemma ListScheduler_Remove_remove1:
  "inj_on uid (set es) \<Longrightarrow> ev \<in> set es \<Longrightarrow> ListScheduler_Remove ev es = Inr (remove1 ev es)"
  by (induction es) (auto simp: inj_on_def)

interpretation list_sched: event_scheduler list_ok set "[]" List_insert ListScheduler_IsEmpty
  ListScheduler_PeekNext ListScheduler_RemoveNext ListScheduler_Remove
proof unfold_locales
  fix s :: ListScheduler and ev
  show "finite (set s) \<and> inj_on uid (set s)" if "list_ok s"
    using that by (simp add: list_ok_def distinct_map)
  show "list_ok [] \<and> set [] = ({} :: Event set)"
    by (simp add: list_ok_def)
  show "\<exists>s'. List_insert ev s = Inr s' \<and> list_ok s' \<and> set s' = insert ev (set s)"
    if "list_ok s" "uid ev \<notin> uids (set s)"
    using that by (simp add: ListScheduler_Insert_ok)
  show "ListScheduler_IsEmpty s \<longleftrightarrow> set s = {}" if "list_ok s"
    by (simp add: ListScheduler_IsEmpty_def)
  show "\<exists>ev s'. ListScheduler_RemoveNext s = Inr (ev, s') \<and> ListScheduler_PeekNext s = Inr ev \<and>
    list_ok s' \<and> ev \<in> set s \<and> (\<forall>e \<in> set s. rank ev \<le> rank e) \<and> set s' = set s - {ev}"
    if "list_ok s" "set s \<noteq> {}"
  proof -
    from that(2) obtain e es where "s = e # es"
      by (cases s) auto
    with list_ok_Cons [of e es] that(1) show ?thesis
      by (simp add: ListScheduler_RemoveNext_def ListScheduler_PeekNext_def)
  qed
  show "\<exists>s'. ListScheduler_Remove ev s = Inr s' \<and> list_ok s' \<and> set s' = set s - {ev}"
    if "list_ok s" "ev \<in> set s"
    using that list_ok_remove1 [of s ev] ListScheduler_Remove_remove1 [of s ev]
    by (auto simp: list_ok_def distinct_map)
qed

text \<open>The map is the sorted list of its entries.\<close>

abbreviation map_events :: "MapScheduler \<Rightarrow> Event list" where
  "map_events \<equiv> map map_event"

lemma map_event_simps [simp]:
  "ev_key (map_event e) = fst e" "ev_impl (map_event e) = snd e"
  "map_event (ev_key ev, ev_impl ev) = ev"
  by (simp_all add: map_event_def)

lemma key_less_event:
  "key_less (ev_key ev) (fst e) \<longleftrightarrow> rank ev < rank (map_event e)"
  "key_less (fst e) (ev_key ev) \<longleftrightarrow> rank (map_event e) < rank ev"
  using key_less_rank [of ev "map_event e"] key_less_rank [of "map_event e" ev] by simp_all

lemma std_map_insert_list:
  "uid ev \<notin> uids (set (map_events m)) \<Longrightarrow>
     \<exists>m'. std_map_insert (ev_key ev) (ev_impl ev) m = (True, m') \<and>
       map_events m' = ListScheduler_Insert ev (map_events m)"
proof (induction m)
  case Nil
  then show ?case by simp
next
  case (Cons e m)
  then have "rank ev \<noteq> rank (map_event e)"
    by (auto simp: rank_eq)
  with Cons show ?case
    by (auto simp: key_less_event)
qed

lemma std_map_take_list:
  assumes "inj_on uid (set (map_events m))" and "ev \<in> set (map_events m)"
  shows "\<exists>m'. std_map_take (ev_key ev) m = Some (ev_impl ev, m') \<and>
    map_events m' = remove1 ev (map_events m)"
  using assms
proof (induction m)
  case Nil
  then show ?case by simp
next
  case (Cons e m)
  show ?case
  proof (cases "map_event e = ev")
    case True
    then show ?thesis
      by (auto simp: key_less_event)
  next
    case False
    then have "uid ev \<noteq> uid (map_event e)"
      using inj_onD [OF Cons.prems(1), of ev "map_event e"] Cons.prems(2) by auto
    then have "rank ev \<noteq> rank (map_event e)"
      by (auto simp: rank_eq)
    moreover have "inj_on uid (set (map_events m))"
      using Cons.prems(1) by (rule inj_on_subset) auto
    moreover have "ev \<in> set (map_events m)"
      using Cons.prems(2) False by (simp del: set_map)
    ultimately show ?thesis
      using Cons.IH False by (auto simp: key_less_event simp del: set_map)
  qed
qed

interpretation map_sched: event_scheduler "\<lambda>m. list_ok (map_events m)" "\<lambda>m. set (map_events m)" "[]"
  MapScheduler_Insert MapScheduler_IsEmpty MapScheduler_PeekNext MapScheduler_RemoveNext
  MapScheduler_Remove
proof unfold_locales
  fix s :: MapScheduler and ev
  show "finite (set (map_events s)) \<and> inj_on uid (set (map_events s))" if "list_ok (map_events s)"
    using list_sched.content_ok [OF that] .
  show "list_ok (map_events []) \<and> set (map_events []) = {}"
    by (simp add: list_ok_def)
  show "\<exists>s'. MapScheduler_Insert ev s = Inr s' \<and> list_ok (map_events s') \<and>
      set (map_events s') = insert ev (set (map_events s))"
    if "list_ok (map_events s)" "uid ev \<notin> uids (set (map_events s))"
    using std_map_insert_list [OF that(2)] ListScheduler_Insert_ok [OF that]
    by (auto simp: MapScheduler_Insert_def simp del: set_map)
  show "MapScheduler_IsEmpty s \<longleftrightarrow> set (map_events s) = {}" if "list_ok (map_events s)"
    by (simp add: MapScheduler_IsEmpty_def)
  show "\<exists>ev s'. MapScheduler_RemoveNext s = Inr (ev, s') \<and> MapScheduler_PeekNext s = Inr ev \<and>
    list_ok (map_events s') \<and> ev \<in> set (map_events s) \<and>
    (\<forall>e \<in> set (map_events s). rank ev \<le> rank e) \<and> set (map_events s') = set (map_events s) - {ev}"
    if "list_ok (map_events s)" "set (map_events s) \<noteq> {}"
  proof -
    from that(2) obtain e es where "s = e # es"
      by (cases s) auto
    with list_ok_Cons [of "map_event e" "map_events es"] that(1) show ?thesis
      by (simp add: MapScheduler_RemoveNext_def MapScheduler_PeekNext_def)
  qed
  show "\<exists>s'. MapScheduler_Remove ev s = Inr s' \<and> list_ok (map_events s') \<and>
      set (map_events s') = set (map_events s) - {ev}"
    if "list_ok (map_events s)" "ev \<in> set (map_events s)"
    using std_map_take_list [of s ev] list_ok_remove1 [OF that(1), of ev] list_sched.content_ok [OF that(1)] that(2)
    by (auto simp: MapScheduler_Remove_def simp del: set_map)
qed

section \<open>The priority queue\<close>

abbreviation PQ_insert :: "Event \<Rightarrow> PriorityQueueScheduler \<Rightarrow> PriorityQueueScheduler outcome" where
  "PQ_insert ev q \<equiv> Inr (PriorityQueueScheduler_Insert ev q)"

abbreviation PQ_remove :: "Event \<Rightarrow> PriorityQueueScheduler \<Rightarrow> PriorityQueueScheduler outcome" where
  "PQ_remove ev q \<equiv> Inr (PriorityQueueScheduler_Remove ev q)"

lemma pq_top_least: "pq_top e es \<in> set (e # es) \<and> (\<forall>x \<in> set (e # es). rank (pq_top e es) \<le> rank x)"
proof (induction es arbitrary: e)
  case Nil
  then show ?case by simp
next
  case (Cons x xs)
  from Cons [of "if event_less x e then x else e"] show ?case
    by (auto simp: rank_less split: if_splits)
qed

lemma PriorityQueueScheduler_Remove_remove1:
  "inj_on uid (set q) \<Longrightarrow> ev \<in> set q \<Longrightarrow> PriorityQueueScheduler_Remove ev q = remove1 ev q"
  by (induction q) (auto simp: inj_on_def event_eq_def)

lemma distinct_uid_remove1:
  "distinct (map uid q) \<Longrightarrow> distinct (map uid (remove1 ev q)) \<and> set (remove1 ev q) = set q - {ev}"
  by (auto simp: distinct_map set_remove1_eq intro: inj_on_subset dest: notin_set_remove1)

interpretation pq_sched: event_scheduler "\<lambda>q. distinct (map uid q)" set "[]" PQ_insert
  PriorityQueueScheduler_IsEmpty PriorityQueueScheduler_PeekNext PriorityQueueScheduler_RemoveNext PQ_remove
proof unfold_locales
  fix s :: PriorityQueueScheduler and ev
  show "finite (set s) \<and> inj_on uid (set s)" if "distinct (map uid s)"
    using that by (simp add: distinct_map)
  show "distinct (map uid []) \<and> set [] = ({} :: Event set)"
    by simp
  show "\<exists>s'. PQ_insert ev s = Inr s' \<and> distinct (map uid s') \<and> set s' = insert ev (set s)"
    if "distinct (map uid s)" "uid ev \<notin> uids (set s)"
    using that by (auto simp: PriorityQueueScheduler_Insert_def)
  show "PriorityQueueScheduler_IsEmpty s \<longleftrightarrow> set s = {}" if "distinct (map uid s)"
    by (simp add: PriorityQueueScheduler_IsEmpty_def)
  show "\<exists>ev s'. PriorityQueueScheduler_RemoveNext s = Inr (ev, s') \<and>
    PriorityQueueScheduler_PeekNext s = Inr ev \<and> distinct (map uid s') \<and> ev \<in> set s \<and>
    (\<forall>e \<in> set s. rank ev \<le> rank e) \<and> set s' = set s - {ev}"
    if "distinct (map uid s)" "set s \<noteq> {}"
  proof -
    from that(2) obtain e es where s: "s = e # es"
      by (cases s) auto
    with pq_top_least [of e es] distinct_uid_remove1 [OF that(1)] show ?thesis
      by (simp add: PriorityQueueScheduler_RemoveNext_def PriorityQueueScheduler_PeekNext_def Let_def)
  qed
  show "\<exists>s'. PQ_remove ev s = Inr s' \<and> distinct (map uid s') \<and> set s' = set s - {ev}"
    if "distinct (map uid s)" "ev \<in> set s"
    using that distinct_uid_remove1 [OF that(1)] PriorityQueueScheduler_Remove_remove1 [of s ev]
    by (simp add: distinct_map)
qed

section \<open>The heap\<close>

definition heap_ordered :: "HeapScheduler \<Rightarrow> bool" where
  "heap_ordered h \<longleftrightarrow> (\<forall>i. 2 \<le> i \<longrightarrow> i < length h \<longrightarrow> rank (h ! (i div 2)) \<le> rank (h ! i))"

text \<open>The order up to one element: too small for its place, or too large.\<close>

definition up_defect :: "nat \<Rightarrow> HeapScheduler \<Rightarrow> bool" where
  "up_defect k h \<longleftrightarrow> (\<forall>i. 2 \<le> i \<longrightarrow> i < length h \<longrightarrow>
     (i \<noteq> k \<longrightarrow> rank (h ! (i div 2)) \<le> rank (h ! i)) \<and>
     (2 \<le> k \<and> i div 2 = k \<longrightarrow> rank (h ! (k div 2)) \<le> rank (h ! i)))"

definition down_defect :: "nat \<Rightarrow> HeapScheduler \<Rightarrow> bool" where
  "down_defect k h \<longleftrightarrow> (\<forall>i. 2 \<le> i \<longrightarrow> i < length h \<longrightarrow>
     (i div 2 \<noteq> k \<longrightarrow> rank (h ! (i div 2)) \<le> rank (h ! i)) \<and>
     (2 \<le> k \<and> i div 2 = k \<longrightarrow> rank (h ! (k div 2)) \<le> rank (h ! i)))"

lemma nth_exchange:
  "a < length h \<Longrightarrow> b < length h \<Longrightarrow>
     h[a := h ! b, b := h ! a] ! i = (if i = a then h ! b else if i = b then h ! a else h ! i)"
  by (cases "i = a"; cases "i = b") simp_all

lemma mset_tl_exchange:
  assumes "0 < a" "a < length h" "0 < b" "b < length h"
  shows "mset (tl (h[a := h ! b, b := h ! a])) = mset (tl h)"
proof -
  obtain d t a' b' where "h = d # t" "a = Suc a'" "b = Suc b'"
    using assms by (metis gr0_conv_Suc length_0_conv list.exhaust not_less_zero)
  with assms show ?thesis
    using mset_swap [of b' t a'] by simp
qed

lemma BottomUp_from_ok:
  assumes "0 < k" and "k < length h" and "up_defect k h"
  shows "\<exists>h'. BottomUp_from k h = Inr h' \<and> heap_ordered h' \<and> length h' = length h \<and>
    mset (tl h') = mset (tl h)"
  using assms
proof (induction k h rule: BottomUp_from.induct)
  case (1 k h)
  let ?p = "k div 2"
  show ?case
  proof (cases "\<not> IsRoot k \<and> IsLessStrictly k (Parent k) h")
    case False
    then have "k = 1 \<or> rank (h ! ?p) \<le> rank (h ! k)"
      by (auto simp: IsRoot_def Root_def IsLessStrictly_def Parent_def rank_less)
    then have "heap_ordered h"
      using 1(4) by (auto simp: heap_ordered_def up_defect_def)
    then show ?thesis
      using False by (subst BottomUp_from.simps) auto
  next
    case True
    then have k: "2 \<le> k" "rank (h ! k) < rank (h ! ?p)"
      using 1(2) by (auto simp: IsRoot_def Root_def IsLessStrictly_def Parent_def rank_less)
    let ?h = "h[k := h ! ?p, ?p := h ! k]"
    have p: "0 < ?p" "?p < length h" "?p \<noteq> k"
      using k(1) 1(3) by auto
    have ex: "Exch k (Parent k) h = Inr ?h"
      using 1(3) p by (simp add: Exch_Inr Parent_def)
    have nth: "?h ! j = (if j = k then h ! ?p else if j = ?p then h ! k else h ! j)" for j
      using nth_exchange [of k h ?p j] 1(3) p by simp
    have "up_defect ?p ?h"
      unfolding up_defect_def
    proof (intro allI impI conjI)
      fix i
      assume i: "2 \<le> i" "i < length ?h"
      let ?o = "\<lambda>i. rank (h ! (i div 2)) \<le> rank (h ! i)"
      have old: "i \<noteq> k \<Longrightarrow> ?o i" "i div 2 = k \<Longrightarrow> rank (h ! ?p) \<le> rank (h ! i)"
        using 1(4) i k(1) by (auto simp: up_defect_def)
      show "rank (?h ! (i div 2)) \<le> rank (?h ! i)" if "i \<noteq> ?p"
        using old k i p that unfolding nth by auto
      show "rank (?h ! (?p div 2)) \<le> rank (?h ! i)" if c: "2 \<le> ?p \<and> i div 2 = ?p"
      proof -
        have "?o ?p"
          using 1(4) c p by (simp add: up_defect_def)
        moreover have "i \<noteq> ?p" "?p div 2 \<noteq> ?p" "?p div 2 \<noteq> k"
          using c p by auto
        ultimately show ?thesis
          using old k i p c unfolding nth by auto
      qed
    qed
    with 1(1) [OF True ex] p have "\<exists>h'. BottomUp_from (Parent k) ?h = Inr h' \<and> heap_ordered h' \<and>
        length h' = length h \<and> mset (tl h') = mset (tl ?h)"
      by (simp add: Parent_def)
    then show ?thesis
      using True ex mset_tl_exchange [OF 1(2,3) p(1,2)] by (subst BottomUp_from.simps) auto
  qed
qed

lemma down_defect_ordered:
  assumes "down_defect k h"
    and "\<And>i. 2 \<le> i \<Longrightarrow> i < length h \<Longrightarrow> i div 2 = k \<Longrightarrow> rank (h ! k) \<le> rank (h ! i)"
  shows "heap_ordered h"
  using assms by (auto simp: down_defect_def heap_ordered_def)

lemma down_defect_exchange:
  assumes "down_defect k h" and "0 < k" and "c < length h" and "c div 2 = k"
    and "\<And>i. 2 \<le> i \<Longrightarrow> i < length h \<Longrightarrow> i div 2 = k \<Longrightarrow> rank (h ! c) \<le> rank (h ! i)"
    and "rank (h ! c) \<le> rank (h ! k)"
  shows "down_defect c (h[k := h ! c, c := h ! k])"
proof -
  let ?h = "h[k := h ! c, c := h ! k]"
  have k: "k < c" "k < length h" "2 \<le> c"
    using assms(2-4) by auto
  have nth: "?h ! j = (if j = k then h ! c else if j = c then h ! k else h ! j)" for j
    using nth_exchange [of k h c j] k assms(3) by simp
  show ?thesis
    unfolding down_defect_def
  proof (intro allI impI conjI)
    fix i
    assume i: "2 \<le> i" "i < length ?h"
    have old: "i div 2 \<noteq> k \<Longrightarrow> rank (h ! (i div 2)) \<le> rank (h ! i)"
      "2 \<le> k \<Longrightarrow> rank (h ! (k div 2)) \<le> rank (h ! c)"
      using assms(1,3,4) i k(3) by (auto simp: down_defect_def)
    show "rank (?h ! (i div 2)) \<le> rank (?h ! i)" if "i div 2 \<noteq> c"
    proof (cases "i = k")
      case True
      with i have "i div 2 \<noteq> k" "2 \<le> k"
        by auto
      with True old k show ?thesis
        using that unfolding nth by auto
    next
      case False
      with that old assms(4,5,6) i k show ?thesis
        unfolding nth by auto
    qed
    show "rank (?h ! (c div 2)) \<le> rank (?h ! i)" if "2 \<le> c \<and> i div 2 = c"
    proof -
      have "i \<noteq> k" "i \<noteq> c" "i div 2 \<noteq> k"
        using that k by auto
      then show ?thesis
        using old that assms(4) k unfolding nth by auto
    qed
  qed
qed

lemma children: "i div 2 = k \<longleftrightarrow> i = LeftChild k \<or> i = RightChild k" for k :: nat
  by (auto simp: LeftChild_def RightChild_def)

lemma TopDown_ok:
  assumes "0 < k" and "down_defect k h"
  shows "\<exists>h'. TopDown k h = Inr h' \<and> heap_ordered h' \<and> length h' = length h \<and>
    mset (tl h') = mset (tl h)"
  using assms
proof (induction k h rule: TopDown.induct)
  case (1 k h)
  let ?c = "Smallest (LeftChild k) (RightChild k) h"
  have lr: "LeftChild k < RightChild k" "2 \<le> LeftChild k" "k < LeftChild k"
    using 1(2) by (auto simp: LeftChild_def RightChild_def)
  show ?case
  proof (cases "IsBottom (RightChild k) h")
    case False
    have c: "?c < length h" "?c div 2 = k" "0 < ?c"
      "\<And>i. i div 2 = k \<Longrightarrow> rank (h ! ?c) \<le> rank (h ! i)"
      using False lr by (auto simp: Smallest_def IsBottom_def children IsLessStrictly_def rank_less)
    show ?thesis
    proof (cases "IsLessStrictly k ?c h")
      case True
      then have "heap_ordered h"
        using 1(3) c(4) by (intro down_defect_ordered [of k])
          (auto simp: IsLessStrictly_def rank_less intro: less_imp_le order.trans)
      then show ?thesis
        using 1(2) False True by (subst TopDown.simps) (simp add: Let_def)
    next
      case stop: False
      let ?h = "h[k := h ! ?c, ?c := h ! k]"
      have ex: "Exch k ?c h = Inr ?h" and k: "k < length h"
        using c lr False by (auto simp: Exch_Inr IsBottom_def)
      have "down_defect ?c ?h"
        using 1(2,3) c stop
        by (intro down_defect_exchange) (auto simp: IsLessStrictly_def rank_less)
      with 1(1) [OF _ _ refl stop ex] False 1(2) c(3)
      obtain h' where "TopDown ?c ?h = Inr h'" "heap_ordered h'" "length h' = length h"
        "mset (tl h') = mset (tl ?h)"
        by auto
      then show ?thesis
        using 1(2) False stop ex mset_tl_exchange [OF 1(2) k c(3,1)]
        by (subst TopDown.simps) (simp add: Let_def)
    qed
  next
    case bottom: True
    show ?thesis
    proof (cases "\<not> IsBottom (LeftChild k) h \<and> \<not> IsLessStrictly k (LeftChild k) h")
      case True
      let ?h = "h[k := h ! LeftChild k, LeftChild k := h ! k]"
      have l: "LeftChild k < length h" "k < length h" "\<not> IsBottom k h" "0 < LeftChild k"
        using True lr by (auto simp: IsBottom_def)
      have "down_defect (LeftChild k) ?h"
        using 1(2,3) True bottom l
        by (intro down_defect_exchange)
          (auto simp: children IsBottom_def IsLessStrictly_def rank_less)
      moreover have "i div 2 \<noteq> LeftChild k" if "i < length h" for i
        using that bottom 1(2) by (auto simp: IsBottom_def LeftChild_def RightChild_def)
      ultimately have "heap_ordered ?h"
        by (intro down_defect_ordered) auto
      then show ?thesis
        using 1(2) bottom True l mset_tl_exchange [OF 1(2) l(2,4,1)]
        by (subst TopDown.simps) (simp add: Exch_Inr)
    next
      case False
      then have "heap_ordered h"
        using 1(3) bottom by (intro down_defect_ordered [of k])
          (auto simp: children IsBottom_def IsLessStrictly_def rank_less)
      then show ?thesis
        using 1(2) bottom False by (subst TopDown.simps) auto
    qed
  qed
qed

definition heap_ok :: "HeapScheduler \<Rightarrow> bool" where
  "heap_ok h \<longleftrightarrow> h \<noteq> [] \<and> heap_ordered h \<and> distinct (map uid (tl h))"

abbreviation heap_content :: "HeapScheduler \<Rightarrow> Event set" where
  "heap_content h \<equiv> set (tl h)"

lemma mset_uid_distinct: "mset xs = mset ys \<Longrightarrow> distinct (map uid xs) = distinct (map uid ys)"
  by (metis mset_eq_imp_distinct_iff mset_map)

lemma heap_ordered_root:
  assumes "heap_ordered h" and "0 < i" and "i < length h"
  shows "rank (h ! 1) \<le> rank (h ! i)"
  using assms(2,3)
proof (induction i rule: less_induct)
  case (less i)
  show ?case
  proof (cases "i = 1")
    case False
    then have "2 \<le> i" "0 < i div 2" "i div 2 < i"
      using less.prems by auto
    moreover have "rank (h ! (i div 2)) \<le> rank (h ! i)"
      using assms(1) less.prems \<open>2 \<le> i\<close> by (simp add: heap_ordered_def)
    moreover have "i div 2 < length h"
      using less.prems by simp
    ultimately show ?thesis
      using less.IH [of "i div 2"] by simp
  qed simp
qed

lemma HeapScheduler_Insert_ok:
  assumes "heap_ok h" and "uid ev \<notin> uids (heap_content h)"
  shows "\<exists>h'. HeapScheduler_Insert ev h = Inr h' \<and> heap_ok h' \<and> heap_content h' = insert ev (heap_content h)"
proof -
  have "up_defect (length h) (h @ [ev])"
    using assms(1) by (auto simp: up_defect_def heap_ok_def heap_ordered_def nth_append)
  then obtain h' where h': "BottomUp_from (length h) (h @ [ev]) = Inr h'" "heap_ordered h'"
    "length h' = length h + 1" "mset (tl h') = mset (tl (h @ [ev]))"
    using BottomUp_from_ok [of "length h" "h @ [ev]"] assms(1) by (auto simp: heap_ok_def)
  moreover have "distinct (map uid (tl h'))"
    using mset_uid_distinct [OF h'(4)] assms by (auto simp: heap_ok_def)
  moreover have "heap_content h' = insert ev (heap_content h)"
    using mset_eq_setD [OF h'(4)] assms(1) by (simp add: heap_ok_def)
  ultimately show ?thesis
    by (auto simp: HeapScheduler_Insert_def BottomUp_def Last_def heap_ok_def)
qed

text \<open>What is left when the last element takes the place of element \<open>i\<close>.\<close>

lemma replace_by_last:
  assumes "heap_ok h" and "0 < i" and "i < length h"
    and "i \<noteq> length h - 1 \<Longrightarrow> 2 \<le> i \<Longrightarrow> rank (h ! (i div 2)) \<le> rank (last h)"
  shows "\<exists>h'. then_do (Exch i (Last h) h) (\<lambda>h. TopDown i (butlast h)) = Inr h' \<and> heap_ok h' \<and>
    heap_content h' = heap_content h - {h ! i}"
proof -
  let ?n = "length h - 1"
  let ?h = "butlast (h[i := h ! ?n, ?n := h ! i])"
  have h: "h \<noteq> []" "?n < length h" "heap_ordered h" "distinct (map uid (tl h))" "last h = h ! ?n"
    using assms(1,3) by (auto simp: heap_ok_def last_conv_nth)
  have nth: "?h ! j = (if j = i then h ! ?n else h ! j)" if "j < length ?h" for j
    using that h(2) assms(3) nth_exchange [of i h ?n j] by (auto simp: nth_butlast)
  have "down_defect i ?h"
    unfolding down_defect_def
  proof (intro allI impI conjI)
    fix j
    assume j: "2 \<le> j" "j < length ?h"
    have old: "rank (h ! (j div 2)) \<le> rank (h ! j)"
      using h(3) j by (simp add: heap_ordered_def)
    show "rank (?h ! (j div 2)) \<le> rank (?h ! j)" if "j div 2 \<noteq> i"
      using old j that assms(4) h(5) nth by auto
    show "rank (?h ! (i div 2)) \<le> rank (?h ! j)" if c: "2 \<le> i \<and> j div 2 = i"
    proof -
      have "rank (h ! (i div 2)) \<le> rank (h ! i)"
        using h(3) assms(3) c by (simp add: heap_ordered_def)
      moreover have "i div 2 < i" "i < j"
        using c by auto
      ultimately show ?thesis
        using old j c nth [of "i div 2"] nth [of j] by auto
    qed
  qed
  from TopDown_ok [OF assms(2) this] obtain h' where h': "TopDown i ?h = Inr h'" "heap_ordered h'"
    "length h' = length ?h" "mset (tl h') = mset (tl ?h)"
    by blast
  let ?k = "h[i := h ! ?n, ?n := h ! i]"
  have "last ?k = h ! i"
    using h(1,2) by (simp add: last_conv_nth)
  then have "?k = ?h @ [h ! i]"
    using h(1) append_butlast_last_id [of ?k] by simp
  moreover have "?h \<noteq> []"
    using assms(2,3) by (auto simp flip: length_greater_0_conv)
  ultimately have "tl ?k = tl ?h @ [h ! i]"
    by (metis tl_append2)
  then have m: "mset (tl h) = add_mset (h ! i) (mset (tl h'))"
    using mset_tl_exchange [OF assms(2,3) _ h(2)] assms(2,3) h'(4) by auto
  then have "distinct (map uid (h ! i # tl h'))"
    using mset_uid_distinct [of "tl h" "h ! i # tl h'"] h(4) by simp
  moreover have "heap_content h = insert (h ! i) (heap_content h')"
    using mset_eq_setD [of "tl h" "h ! i # tl h'"] m by simp
  moreover have "h' \<noteq> []"
    using h'(3) assms(2,3) by auto
  ultimately show ?thesis
    using h' assms(3) h(2) by (auto simp: Exch_def Last_def heap_ok_def)
qed

interpretation heap_queue: event_queue heap_ok heap_content HeapScheduler_new HeapScheduler_Insert
  HeapScheduler_IsEmpty HeapScheduler_PeekNext HeapScheduler_RemoveNext
proof unfold_locales
  fix s :: HeapScheduler and ev
  show "finite (heap_content s) \<and> inj_on uid (heap_content s)" if "heap_ok s"
    using that by (simp add: heap_ok_def distinct_map)
  show "heap_ok HeapScheduler_new \<and> heap_content HeapScheduler_new = {}"
    by (simp add: heap_ok_def heap_ordered_def HeapScheduler_new_def)
  show "\<exists>s'. HeapScheduler_Insert ev s = Inr s' \<and> heap_ok s' \<and> heap_content s' = insert ev (heap_content s)"
    if "heap_ok s" "uid ev \<notin> uids (heap_content s)"
    using that by (rule HeapScheduler_Insert_ok)
  show "HeapScheduler_IsEmpty s \<longleftrightarrow> heap_content s = {}" if "heap_ok s"
    using that by (cases s) (auto simp: heap_ok_def HeapScheduler_IsEmpty_def)
  show "\<exists>ev s'. HeapScheduler_RemoveNext s = Inr (ev, s') \<and> HeapScheduler_PeekNext s = Inr ev \<and>
    heap_ok s' \<and> ev \<in> heap_content s \<and> (\<forall>e \<in> heap_content s. rank ev \<le> rank e) \<and>
    heap_content s' = heap_content s - {ev}"
    if "heap_ok s" "heap_content s \<noteq> {}"
  proof -
    have len: "1 < length s"
      using that(2) by (cases s) auto
    with replace_by_last [OF that(1), of 1] obtain s' where "then_do (Exch 1 (Last s) s) (\<lambda>h. TopDown 1 (butlast h)) = Inr s'"
      "heap_ok s'" "heap_content s' = heap_content s - {s ! 1}"
      by auto
    moreover have "rank (s ! 1) \<le> rank e" if e: "e \<in> heap_content s" for e
    proof -
      obtain i where "i < length (tl s)" "e = tl s ! i"
        using e by (auto simp: in_set_conv_nth)
      then have "e = s ! Suc i" "Suc i < length s"
        by (simp_all add: nth_tl)
      with heap_ordered_root show ?thesis
        using \<open>heap_ok s\<close> by (simp add: heap_ok_def)
    qed
    moreover have "s ! 1 \<in> heap_content s"
      using len by (cases s) auto
    ultimately show ?thesis
      using len by (auto simp: HeapScheduler_RemoveNext_def HeapScheduler_PeekNext_def Root_def)
  qed
qed

interpretation heap_list: queue_pair heap_ok heap_content HeapScheduler_new HeapScheduler_Insert
  HeapScheduler_IsEmpty HeapScheduler_PeekNext HeapScheduler_RemoveNext
  "\<lambda>m. list_ok (map_events m)" "\<lambda>m. set (map_events m)" "[]" MapScheduler_Insert MapScheduler_IsEmpty
  MapScheduler_PeekNext MapScheduler_RemoveNext
  by unfold_locales

section \<open>Properties\<close>

text \<open>
  The heap scheduler sorts: events with different identifiers that are inserted in any order
  come out by time, and at the same time by identifier, until the heap is empty.
\<close>

theorem heap_sorts:
  assumes "distinct (map uid evs)"
  shows "\<exists>h. each HeapScheduler_Insert evs HeapScheduler_new = Inr h \<and>
    drain HeapScheduler_IsEmpty HeapScheduler_RemoveNext (length evs) h = Inr (sort_key rank evs)"
proof -
  obtain h where h: "each HeapScheduler_Insert evs HeapScheduler_new = Inr h" "heap_ok h"
    "heap_content h = set evs"
    using heap_queue.insert_all [of HeapScheduler_new evs] heap_queue.new_ok assms by auto
  have ranks: "distinct (map rank evs)"
    using assms by (auto simp: distinct_map rank_inj_on)
  then have "card (heap_content h) \<le> length evs"
    using h(3) by (simp add: card_length)
  then obtain out where out: "drain HeapScheduler_IsEmpty HeapScheduler_RemoveNext (length evs) h = Inr out"
    "set out = set evs" "sorted (map rank out)" "distinct out"
    using heap_queue.drain_sorted [OF h(2), of "length evs"] h(3) by auto
  have "out = sort_key rank evs"
    using out(2-4) ranks by (intro map_sorted_distinct_set_unique [of rank]) (auto simp: distinct_map)
  with h out show ?thesis by simp
qed

definition mk_event :: "u64 \<Rightarrow> u32 \<Rightarrow> Event" where
  "mk_event ts u = \<lparr>ev_impl = Some (unat u), ev_key = \<lparr>m_ts = ts, m_uid = u, m_context = 0\<rparr>\<rparr>"

theorem heap_sorts_witness:
  "\<exists>h. each HeapScheduler_Insert [mk_event 9 4, mk_event 3 6, mk_event 3 5] HeapScheduler_new = Inr h \<and>
    drain HeapScheduler_IsEmpty HeapScheduler_RemoveNext 3 h = Inr [mk_event 3 5, mk_event 3 6, mk_event 9 4]"
proof -
  have "sort_key rank [mk_event 9 4, mk_event 3 6, mk_event 3 5] = [mk_event 3 5, mk_event 3 6, mk_event 9 4]"
    by (simp add: mk_event_def rank_def)
  moreover have "distinct (map uid [mk_event 9 4, mk_event 3 6, mk_event 3 5])"
    by (simp add: mk_event_def)
  moreover have "length [mk_event 9 4, mk_event 3 6, mk_event 3 5] = 3"
    by simp
  ultimately show ?thesis
    using heap_sorts [of "[mk_event 9 4, mk_event 3 6, mk_event 3 5]"] by metis
qed

text \<open>
  C10: The choice between the heap and the default scheduler, the map, does not change a run:
  over any history of insertions of fresh events and removals of the next event, both give out
  the same events in the same order.
\<close>

theorem heap_equals_map:
  assumes "distinct (map uid (inserted ops))"
  shows "\<exists>evs. run_ops HeapScheduler_Insert HeapScheduler_IsEmpty HeapScheduler_RemoveNext ops HeapScheduler_new
      = Inr evs \<and>
    run_ops MapScheduler_Insert MapScheduler_IsEmpty MapScheduler_RemoveNext ops [] = Inr evs"
  using assms heap_list.same_run [of HeapScheduler_new "[]" ops] heap_queue.new_ok map_sched.new_ok by simp

theorem heap_equals_map_witness:
  "\<exists>evs. run_ops HeapScheduler_Insert HeapScheduler_IsEmpty HeapScheduler_RemoveNext
      [Op_Insert (mk_event 9 4), Op_Insert (mk_event 3 5), Op_Next, Op_Next, Op_Next] HeapScheduler_new = Inr evs \<and>
    run_ops MapScheduler_Insert MapScheduler_IsEmpty MapScheduler_RemoveNext
      [Op_Insert (mk_event 9 4), Op_Insert (mk_event 3 5), Op_Next, Op_Next, Op_Next] [] = Inr evs"
  by (rule heap_equals_map) (simp add: mk_event_def)

lemma find_uid_nth:
  "ev \<in> set es \<Longrightarrow> inj_on uid (set es) \<Longrightarrow> \<exists>i. find_uid (uid ev) k es = Some (k + i) \<and> i < length es \<and> es ! i = ev"
proof (induction es arbitrary: k)
  case Nil
  then show ?case by simp
next
  case (Cons e es)
  show ?case
  proof (cases "uid e = uid ev")
    case True
    then have "e = ev"
      using inj_onD [OF Cons.prems(2)] Cons.prems(1) by auto
    with True show ?thesis by auto
  next
    case False
    then have "ev \<in> set es"
      using Cons.prems(1) by auto
    with Cons.IH [of "k + 1"] Cons.prems(2) obtain i where
      "find_uid (uid ev) (k + 1) es = Some (k + 1 + i)" "i < length es" "es ! i = ev"
      by auto
    with False show ?thesis
      by (intro exI [where x = "Suc i"]) auto
  qed
qed

text \<open>
  Removing an event from the heap is right only when the element that fills the gap is not
  smaller than the parent of the gap, for nothing moves it up.  The removal then takes out
  exactly the given event and keeps the order.
\<close>

theorem heap_remove_ok:
  assumes "heap_ok h" and "i < length h" and "0 < i"
    and "i = 1 \<or> rank (h ! Parent i) \<le> rank (last h)"
  shows "\<exists>h'. HeapScheduler_Remove (h ! i) h = Inr h' \<and> heap_ok h' \<and> heap_content h' = heap_content h - {h ! i}"
proof -
  have inj: "inj_on uid (heap_content h)" and h: "h \<noteq> []"
    using assms(1) by (auto simp: heap_ok_def distinct_map)
  have nth: "tl h ! (i - 1) = h ! i" "i - 1 < length (tl h)"
    using assms(2,3) by (auto simp: nth_tl)
  then have "h ! i \<in> heap_content h"
    by (metis nth_mem)
  from find_uid_nth [OF this inj, of 1] obtain j where j: "find_uid (uid (h ! i)) 1 (tl h) = Some (1 + j)"
    "j < length (tl h)" "tl h ! j = h ! i"
    by blast
  have "distinct (tl h)"
    using assms(1) by (simp add: heap_ok_def distinct_map)
  then have "1 + j = i"
    using j nth assms(3) nth_eq_iff_index_eq [of "tl h" j "i - 1"] by auto
  with j(1) replace_by_last [OF assms(1,3,2)] assms(4) show ?thesis
    by (auto simp: HeapScheduler_Remove_def Parent_def)
qed

text \<open>
  Otherwise the order is lost: in the heap of these seven events, \<^verbatim>\<open>Remove\<close> of the
  event at time 11 puts the event at time 4 below the one at time 10, and the simulator gets
  time 10 before time 4.
\<close>

definition heap_example :: "Event list" where
  "heap_example = [mk_event 1 4, mk_event 10 5, mk_event 2 6, mk_event 11 7, mk_event 12 8,
     mk_event 100 9, mk_event 4 10]"

theorem heap_remove_breaks_order:
  "then_do (each HeapScheduler_Insert heap_example HeapScheduler_new)
     (\<lambda>h. then_do (HeapScheduler_Remove (mk_event 11 7) h)
     (\<lambda>h. then_do (drain HeapScheduler_IsEmpty HeapScheduler_RemoveNext 6 h)
     (\<lambda>evs. Inr (map (\<lambda>ev. m_ts (ev_key ev)) evs)))) = Inr [1, 2, 10, 4, 12, 100]"
  by code_simp

end
