(* ===== verification/Simulator.thy ===== *)
theory Simulator
  imports Schedulers
begin

text \<open>
  The event loop, \<^verbatim>\<open>core/model/default-simulator-impl.cc\<close>, with the event identifiers of
  \<^verbatim>\<open>event-id.cc\<close> and the events of \<^verbatim>\<open>event-impl.cc\<close>.

  An \<^verbatim>\<open>EventImpl\<close> is an address; its cancellation flag is kept in the simulator's state,
  since the identifiers and the scheduler share the object.  What an event does when it is
  invoked is a parameter, \<open>notify\<close>: it maps the state of the program and of the simulator to
  new ones.  The simulator calls its scheduler through a pointer to the base class, which here is
  a sum over the scheduler classes.
\<close>

section \<open>The scheduler behind the pointer\<close>

datatype Scheduler =
    List_Scheduler ListScheduler
  | Map_Scheduler MapScheduler
  | Heap_Scheduler HeapScheduler
  | PriorityQueue_Scheduler PriorityQueueScheduler

fun Scheduler_Insert :: "Event \<Rightarrow> Scheduler \<Rightarrow> Scheduler outcome" where
  "Scheduler_Insert ev (List_Scheduler s) = Inr (List_Scheduler (ListScheduler_Insert ev s))"
| "Scheduler_Insert ev (Map_Scheduler s) = then_do (MapScheduler_Insert ev s) (\<lambda>s. Inr (Map_Scheduler s))"
| "Scheduler_Insert ev (Heap_Scheduler s) = then_do (HeapScheduler_Insert ev s) (\<lambda>s. Inr (Heap_Scheduler s))"
| "Scheduler_Insert ev (PriorityQueue_Scheduler s) =
     Inr (PriorityQueue_Scheduler (PriorityQueueScheduler_Insert ev s))"

fun Scheduler_IsEmpty :: "Scheduler \<Rightarrow> bool" where
  "Scheduler_IsEmpty (List_Scheduler s) = ListScheduler_IsEmpty s"
| "Scheduler_IsEmpty (Map_Scheduler s) = MapScheduler_IsEmpty s"
| "Scheduler_IsEmpty (Heap_Scheduler s) = HeapScheduler_IsEmpty s"
| "Scheduler_IsEmpty (PriorityQueue_Scheduler s) = PriorityQueueScheduler_IsEmpty s"

fun Scheduler_PeekNext :: "Scheduler \<Rightarrow> Event outcome" where
  "Scheduler_PeekNext (List_Scheduler s) = ListScheduler_PeekNext s"
| "Scheduler_PeekNext (Map_Scheduler s) = MapScheduler_PeekNext s"
| "Scheduler_PeekNext (Heap_Scheduler s) = HeapScheduler_PeekNext s"
| "Scheduler_PeekNext (PriorityQueue_Scheduler s) = PriorityQueueScheduler_PeekNext s"

fun Scheduler_RemoveNext :: "Scheduler \<Rightarrow> (Event \<times> Scheduler) outcome" where
  "Scheduler_RemoveNext (List_Scheduler s) =
     then_do (ListScheduler_RemoveNext s) (\<lambda>(ev, s). Inr (ev, List_Scheduler s))"
| "Scheduler_RemoveNext (Map_Scheduler s) =
     then_do (MapScheduler_RemoveNext s) (\<lambda>(ev, s). Inr (ev, Map_Scheduler s))"
| "Scheduler_RemoveNext (Heap_Scheduler s) =
     then_do (HeapScheduler_RemoveNext s) (\<lambda>(ev, s). Inr (ev, Heap_Scheduler s))"
| "Scheduler_RemoveNext (PriorityQueue_Scheduler s) =
     then_do (PriorityQueueScheduler_RemoveNext s) (\<lambda>(ev, s). Inr (ev, PriorityQueue_Scheduler s))"

fun Scheduler_Remove :: "Event \<Rightarrow> Scheduler \<Rightarrow> Scheduler outcome" where
  "Scheduler_Remove ev (List_Scheduler s) = then_do (ListScheduler_Remove ev s) (\<lambda>s. Inr (List_Scheduler s))"
| "Scheduler_Remove ev (Map_Scheduler s) = then_do (MapScheduler_Remove ev s) (\<lambda>s. Inr (Map_Scheduler s))"
| "Scheduler_Remove ev (Heap_Scheduler s) = then_do (HeapScheduler_Remove ev s) (\<lambda>s. Inr (Heap_Scheduler s))"
| "Scheduler_Remove ev (PriorityQueue_Scheduler s) =
     Inr (PriorityQueue_Scheduler (PriorityQueueScheduler_Remove ev s))"

fun scheduler_size :: "Scheduler \<Rightarrow> nat" where
  "scheduler_size (List_Scheduler s) = length s"
| "scheduler_size (Map_Scheduler s) = length s"
| "scheduler_size (Heap_Scheduler s) = length s"
| "scheduler_size (PriorityQueue_Scheduler s) = length s"

lemma TopDown_length: "TopDown k h = Inr h' \<Longrightarrow> length h' = length h"
proof (induction k h rule: TopDown.induct)
  case (1 k h)
  from 1(2) show ?case
    using 1(1) by (auto simp: TopDown.simps [of k h] Let_def Exch_Inr split: if_splits sum.splits)
qed

lemma PriorityQueue_RemoveNext_length:
  "PriorityQueueScheduler_RemoveNext q = Inr (ev, q') \<Longrightarrow> length q' < length q"
proof (cases q)
  case (Cons e es)
  moreover assume "PriorityQueueScheduler_RemoveNext q = Inr (ev, q')"
  ultimately have "q' = remove1 (pq_top e es) q" "pq_top e es \<in> set q"
    using pq_top_least [of e es] by (auto simp: PriorityQueueScheduler_RemoveNext_def Let_def)
  then show ?thesis
    using Cons by (simp add: length_remove1 del: remove1.simps)
qed (simp add: PriorityQueueScheduler_RemoveNext_def)

lemma RemoveNext_smaller: "Scheduler_RemoveNext s = Inr (ev, s') \<Longrightarrow> scheduler_size s' < scheduler_size s"
  by (cases s) (auto simp: ListScheduler_RemoveNext_def MapScheduler_RemoveNext_def
      HeapScheduler_RemoveNext_def Let_def Root_def Exch_Inr
      dest!: TopDown_length PriorityQueue_RemoveNext_length split: list.splits)

section \<open>State\<close>

record EventId =
  id_impl :: "nat option"
  id_ts :: u64
  id_context :: u32
  id_uid :: u32

abbreviation UID_INVALID :: u32 where "UID_INVALID \<equiv> 0"
abbreviation UID_DESTROY :: u32 where "UID_DESTROY \<equiv> 2"
abbreviation UID_VALID :: u32 where "UID_VALID \<equiv> 4"

record EventWithContext =
  ec_context :: u32
  ec_timestamp :: u64
  ec_event :: nat

record DefaultSimulatorImpl =
  sim_eventsWithContext :: "EventWithContext list"
  sim_eventsWithContextEmpty :: bool
  sim_destroyEvents :: "EventId list"
  sim_stop :: bool
  sim_events :: "Scheduler option"
  sim_uid :: u32
  sim_currentUid :: u32
  sim_currentTs :: u64
  sim_currentContext :: u32
  sim_eventCount :: u64
  sim_unscheduledEvents :: int
  sim_mainThreadId :: nat
  sim_cancelled :: "nat \<Rightarrow> bool"

definition NO_CONTEXT :: u32 where "NO_CONTEXT = 0xffffffff"

definition DefaultSimulatorImpl_new :: "nat \<Rightarrow> DefaultSimulatorImpl" where
  "DefaultSimulatorImpl_new thread =
     \<lparr>sim_eventsWithContext = [], sim_eventsWithContextEmpty = True, sim_destroyEvents = [],
      sim_stop = False, sim_events = None, sim_uid = UID_VALID, sim_currentUid = UID_INVALID,
      sim_currentTs = 0, sim_currentContext = NO_CONTEXT, sim_eventCount = 0,
      sim_unscheduledEvents = 0, sim_mainThreadId = thread, sim_cancelled = (\<lambda>_. False)\<rparr>"

section \<open>Scheduling\<close>

definition insert_pending :: "Event \<Rightarrow> DefaultSimulatorImpl \<Rightarrow> DefaultSimulatorImpl outcome" where
  "insert_pending ev st =
     from_option NullPointer (sim_events st)
       (\<lambda>s. then_do (Scheduler_Insert ev s)
       (\<lambda>s. Inr (st\<lparr>sim_uid := sim_uid st + 1, sim_unscheduledEvents := sim_unscheduledEvents st + 1,
                    sim_events := Some s\<rparr>)))"

text \<open>
  \<^verbatim>\<open>Time\<close> is a signed 64-bit count; the sum of the delay and the current time must fit.
\<close>

definition absolute_time :: "int \<Rightarrow> DefaultSimulatorImpl \<Rightarrow> u64 outcome" where
  "absolute_time delay st =
     (let t = delay + sint (sim_currentTs st)
      in require (- (2 ^ 63) \<le> t \<and> t < 2 ^ 63) Undefined (Inr (word_of_int t)))"

definition Schedule :: "nat \<Rightarrow> int \<Rightarrow> nat \<Rightarrow> DefaultSimulatorImpl \<Rightarrow> (EventId \<times> DefaultSimulatorImpl) outcome" where
  "Schedule thread delay event st =
     require (sim_mainThreadId st = thread) AssertFailed
       (require (0 \<le> delay) AssertFailed
       (then_do (absolute_time delay st)
       (\<lambda>ts. let ev = \<lparr>ev_impl = Some event,
                 ev_key = \<lparr>m_ts = ts, m_uid = sim_uid st, m_context = sim_currentContext st\<rparr>\<rparr>
        in then_do (insert_pending ev st)
             (\<lambda>st'. Inr (\<lparr>id_impl = Some event, id_ts = ts, id_context = sim_currentContext st,
                         id_uid = sim_uid st\<rparr>, st')))))"

text \<open>Another thread leaves the event in a list that the main thread empties later.\<close>

definition ScheduleWithContext ::
  "nat \<Rightarrow> u32 \<Rightarrow> int \<Rightarrow> nat \<Rightarrow> DefaultSimulatorImpl \<Rightarrow> DefaultSimulatorImpl outcome" where
  "ScheduleWithContext thread context delay event st =
     (if sim_mainThreadId st = thread then
        then_do (absolute_time delay st)
          (\<lambda>ts. insert_pending \<lparr>ev_impl = Some event,
              ev_key = \<lparr>m_ts = ts, m_uid = sim_uid st, m_context = context\<rparr>\<rparr> st)
      else Inr (st\<lparr>sim_eventsWithContext := sim_eventsWithContext st @
             [\<lparr>ec_context = context, ec_timestamp = word_of_int delay, ec_event = event\<rparr>],
           sim_eventsWithContextEmpty := False\<rparr>))"

definition ScheduleNow :: "nat \<Rightarrow> nat \<Rightarrow> DefaultSimulatorImpl \<Rightarrow> (EventId \<times> DefaultSimulatorImpl) outcome" where
  "ScheduleNow thread event st =
     require (sim_mainThreadId st = thread) AssertFailed (Schedule thread 0 event st)"

definition ScheduleDestroy :: "nat \<Rightarrow> nat \<Rightarrow> DefaultSimulatorImpl \<Rightarrow> (EventId \<times> DefaultSimulatorImpl) outcome" where
  "ScheduleDestroy thread event st =
     require (sim_mainThreadId st = thread) AssertFailed
       (let ident = \<lparr>id_impl = Some event, id_ts = sim_currentTs st, id_context = 0xffffffff, id_uid = 2\<rparr>
        in Inr (ident, st\<lparr>sim_destroyEvents := sim_destroyEvents st @ [ident], sim_uid := sim_uid st + 1\<rparr>))"

definition Stop :: "DefaultSimulatorImpl \<Rightarrow> DefaultSimulatorImpl" where
  "Stop st = st\<lparr>sim_stop := True\<rparr>"

text \<open>\<open>stopEvent\<close> is the event that calls \<^verbatim>\<open>Simulator::Stop\<close>.\<close>

definition Stop_after :: "nat \<Rightarrow> nat \<Rightarrow> int \<Rightarrow> DefaultSimulatorImpl \<Rightarrow> DefaultSimulatorImpl outcome" where
  "Stop_after thread stopEvent delay st =
     then_do (Schedule thread delay stopEvent st) (\<lambda>(_, st). Inr st)"

section \<open>Cancelling and removing\<close>

definition is_cancelled :: "nat option \<Rightarrow> DefaultSimulatorImpl \<Rightarrow> bool" where
  "is_cancelled impl st = (case impl of None \<Rightarrow> True | Some i \<Rightarrow> sim_cancelled st i)"

definition IsExpired :: "EventId \<Rightarrow> DefaultSimulatorImpl \<Rightarrow> bool" where
  "IsExpired ident st =
     (if id_uid ident = UID_DESTROY then
        is_cancelled (id_impl ident) st \<or> ident \<notin> set (sim_destroyEvents st)
      else id_impl ident = None \<or> id_ts ident < sim_currentTs st \<or>
        (id_ts ident = sim_currentTs st \<and> id_uid ident \<le> sim_currentUid st) \<or>
        is_cancelled (id_impl ident) st)"

definition Cancel :: "EventId \<Rightarrow> DefaultSimulatorImpl \<Rightarrow> DefaultSimulatorImpl" where
  "Cancel ident st =
     (if \<not> IsExpired ident st then
        (case id_impl ident of
           None \<Rightarrow> st | Some i \<Rightarrow> st\<lparr>sim_cancelled := (sim_cancelled st)(i := True)\<rparr>)
      else st)"

definition event_of :: "EventId \<Rightarrow> Event" where
  "event_of ident = \<lparr>ev_impl = id_impl ident,
     ev_key = \<lparr>m_ts = id_ts ident, m_uid = id_uid ident, m_context = id_context ident\<rparr>\<rparr>"

definition Simulator_Remove :: "EventId \<Rightarrow> DefaultSimulatorImpl \<Rightarrow> DefaultSimulatorImpl outcome" where
  "Simulator_Remove ident st =
     (if id_uid ident = UID_DESTROY then
        Inr (st\<lparr>sim_destroyEvents := remove1 ident (sim_destroyEvents st)\<rparr>)
      else if IsExpired ident st then Inr st
      else
        from_option NullPointer (sim_events st)
          (\<lambda>s. then_do (Scheduler_Remove (event_of ident) s)
          (\<lambda>s. from_option NullPointer (id_impl ident)
          (\<lambda>i. Inr (st\<lparr>sim_events := Some s, sim_cancelled := (sim_cancelled st)(i := True),
                       sim_unscheduledEvents := sim_unscheduledEvents st - 1\<rparr>)))))"

definition GetDelayLeft :: "EventId \<Rightarrow> DefaultSimulatorImpl \<Rightarrow> int" where
  "GetDelayLeft ident st = (if IsExpired ident st then 0 else sint (id_ts ident - sim_currentTs st))"

section \<open>Running\<close>

definition insert_with_context ::
  "EventWithContext \<Rightarrow> DefaultSimulatorImpl \<Rightarrow> DefaultSimulatorImpl outcome" where
  "insert_with_context event st =
     insert_pending \<lparr>ev_impl = Some (ec_event event),
       ev_key = \<lparr>m_ts = sim_currentTs st + ec_timestamp event, m_uid = sim_uid st,
         m_context = ec_context event\<rparr>\<rparr> st"

definition ProcessEventsWithContext :: "DefaultSimulatorImpl \<Rightarrow> DefaultSimulatorImpl outcome" where
  "ProcessEventsWithContext st =
     (if sim_eventsWithContextEmpty st then Inr st
      else each insert_with_context (sim_eventsWithContext st)
             (st\<lparr>sim_eventsWithContext := [], sim_eventsWithContextEmpty := True\<rparr>))"

text \<open>The part of \<^verbatim>\<open>ProcessOneEvent\<close> before the event is invoked.\<close>

definition take_event :: "DefaultSimulatorImpl \<Rightarrow> (Event \<times> DefaultSimulatorImpl) outcome" where
  "take_event st =
     from_option NullPointer (sim_events st)
       (\<lambda>s. then_do (Scheduler_RemoveNext s)
       (\<lambda>(ev, s). require (sim_currentTs st \<le> m_ts (ev_key ev)) AssertFailed
          (Inr (ev, st\<lparr>sim_events := Some s,
             sim_unscheduledEvents := sim_unscheduledEvents st - 1,
             sim_eventCount := sim_eventCount st + 1,
             sim_currentTs := m_ts (ev_key ev),
             sim_currentContext := m_context (ev_key ev),
             sim_currentUid := uid ev\<rparr>))))"

type_synonym 'w notify = "nat \<Rightarrow> 'w \<times> DefaultSimulatorImpl \<Rightarrow> ('w \<times> DefaultSimulatorImpl) outcome"

definition Invoke :: "'w notify \<Rightarrow> nat \<Rightarrow> 'w \<times> DefaultSimulatorImpl \<Rightarrow> ('w \<times> DefaultSimulatorImpl) outcome" where
  "Invoke notify impl ws = (if sim_cancelled (snd ws) impl then Inr ws else notify impl ws)"

definition ProcessOneEvent :: "'w notify \<Rightarrow> 'w \<times> DefaultSimulatorImpl \<Rightarrow> ('w \<times> DefaultSimulatorImpl) outcome" where
  "ProcessOneEvent notify ws =
     then_do (take_event (snd ws))
       (\<lambda>(ev, st). from_option NullPointer (ev_impl ev)
       (\<lambda>impl. then_do (Invoke notify impl (fst ws, st))
       (\<lambda>(w, st). then_do (ProcessEventsWithContext st) (\<lambda>st. Inr (w, st)))))"

definition no_events :: "DefaultSimulatorImpl \<Rightarrow> bool outcome" where
  "no_events st = from_option NullPointer (sim_events st) (\<lambda>s. Inr (Scheduler_IsEmpty s))"

definition IsFinished :: "DefaultSimulatorImpl \<Rightarrow> bool outcome" where
  "IsFinished st = then_do (no_events st) (\<lambda>empty. Inr (empty \<or> sim_stop st))"

text \<open>A simulation may run for ever; then the loop has no value.\<close>

partial_function (option) Run_loop ::
  "'w notify \<Rightarrow> 'w \<times> DefaultSimulatorImpl \<Rightarrow> ('w \<times> DefaultSimulatorImpl) outcome option" where
  "Run_loop notify ws =
     (case IsFinished (snd ws) of
        Inl e \<Rightarrow> Some (Inl e)
      | Inr finished \<Rightarrow>
          (if finished then Some (Inr ws)
           else (case ProcessOneEvent notify ws of
                   Inl e \<Rightarrow> Some (Inl e)
                 | Inr ws \<Rightarrow> Run_loop notify ws)))"

definition Run ::
  "'w notify \<Rightarrow> nat \<Rightarrow> 'w \<times> DefaultSimulatorImpl \<Rightarrow> ('w \<times> DefaultSimulatorImpl) outcome option" where
  "Run notify thread ws =
     (case ProcessEventsWithContext ((snd ws)\<lparr>sim_mainThreadId := thread\<rparr>) of
        Inl e \<Rightarrow> Some (Inl e)
      | Inr st \<Rightarrow>
          map_option
            (\<lambda>result. then_do result
               (\<lambda>ws. then_do (no_events (snd ws))
               (\<lambda>empty. require (\<not> empty \<or> sim_unscheduledEvents (snd ws) = 0) AssertFailed (Inr ws))))
            (Run_loop notify (fst ws, st\<lparr>sim_stop := False\<rparr>)))"

partial_function (option) Destroy ::
  "'w notify \<Rightarrow> 'w \<times> DefaultSimulatorImpl \<Rightarrow> ('w \<times> DefaultSimulatorImpl) outcome option" where
  "Destroy notify ws =
     (case sim_destroyEvents (snd ws) of
        [] \<Rightarrow> Some (Inr ws)
      | ident # rest \<Rightarrow>
          (case id_impl ident of
             None \<Rightarrow> Some (Inl NullPointer)
           | Some impl \<Rightarrow>
               (case Invoke notify impl (fst ws, (snd ws)\<lparr>sim_destroyEvents := rest\<rparr>) of
                  Inl e \<Rightarrow> Some (Inl e)
                | Inr ws \<Rightarrow> Destroy notify ws)))"

function move_events :: "Scheduler \<Rightarrow> Scheduler \<Rightarrow> Scheduler outcome" where
  "move_events source target =
     (if Scheduler_IsEmpty source then Inr target
      else case Scheduler_RemoveNext source of
             Inl e \<Rightarrow> Inl e
           | Inr (ev, source) \<Rightarrow>
               (case Scheduler_Insert ev target of Inl e \<Rightarrow> Inl e | Inr target \<Rightarrow> move_events source target))"
  by auto
termination
  by (relation "measure (\<lambda>(source, _). scheduler_size source)") (auto simp: RemoveNext_smaller)

declare move_events.simps [simp del]

definition SetScheduler :: "Scheduler \<Rightarrow> DefaultSimulatorImpl \<Rightarrow> DefaultSimulatorImpl outcome" where
  "SetScheduler scheduler st =
     then_do (case sim_events st of None \<Rightarrow> Inr scheduler | Some s \<Rightarrow> move_events s scheduler)
       (\<lambda>s. Inr (st\<lparr>sim_events := Some s\<rparr>))"

section \<open>The scheduler keeps its contract\<close>

fun scheduler_ok :: "Scheduler \<Rightarrow> bool" where
  "scheduler_ok (List_Scheduler s) = list_ok s"
| "scheduler_ok (Map_Scheduler s) = list_ok (map_events s)"
| "scheduler_ok (Heap_Scheduler s) = heap_ok s"
| "scheduler_ok (PriorityQueue_Scheduler s) = distinct (map uid s)"

fun scheduler_content :: "Scheduler \<Rightarrow> Event set" where
  "scheduler_content (List_Scheduler s) = set s"
| "scheduler_content (Map_Scheduler s) = set (map_events s)"
| "scheduler_content (Heap_Scheduler s) = heap_content s"
| "scheduler_content (PriorityQueue_Scheduler s) = set s"

definition is_heap :: "Scheduler \<Rightarrow> bool" where
  "is_heap s \<longleftrightarrow> (\<exists>h. s = Heap_Scheduler h)"

lemma then_do_ex: "m = Inr x \<Longrightarrow> k x = Inr y \<Longrightarrow> then_do m k = Inr y"
  by simp

interpretation scheduler: event_queue scheduler_ok scheduler_content "Map_Scheduler []"
  Scheduler_Insert Scheduler_IsEmpty Scheduler_PeekNext Scheduler_RemoveNext
proof unfold_locales
  fix s :: Scheduler and ev
  show "finite (scheduler_content s) \<and> inj_on uid (scheduler_content s)" if "scheduler_ok s"
    using that list_sched.content_ok map_sched.content_ok heap_queue.content_ok pq_sched.content_ok
    by (cases s) simp_all
  show "scheduler_ok (Map_Scheduler []) \<and> scheduler_content (Map_Scheduler []) = {}"
    using map_sched.new_ok by simp
  show "\<exists>s'. Scheduler_Insert ev s = Inr s' \<and> scheduler_ok s' \<and>
      scheduler_content s' = insert ev (scheduler_content s)"
    if "scheduler_ok s" "uid ev \<notin> uids (scheduler_content s)"
  proof (cases s)
    case (List_Scheduler x)
    with list_sched.insert_ok [of x ev] that show ?thesis by auto
  next
    case (Map_Scheduler x)
    with map_sched.insert_ok [of x ev] that show ?thesis by (auto simp del: set_map intro: exI [where x = "Map_Scheduler _"])
  next
    case (Heap_Scheduler x)
    with heap_queue.insert_ok [of x ev] that show ?thesis by (auto intro: exI [where x = "Heap_Scheduler _"])
  next
    case (PriorityQueue_Scheduler x)
    with pq_sched.insert_ok [of x ev] that show ?thesis by auto
  qed
  show "Scheduler_IsEmpty s \<longleftrightarrow> scheduler_content s = {}" if "scheduler_ok s"
    using that list_sched.empty_ok map_sched.empty_ok heap_queue.empty_ok pq_sched.empty_ok
    by (cases s) simp_all
  show "\<exists>ev s'. Scheduler_RemoveNext s = Inr (ev, s') \<and> Scheduler_PeekNext s = Inr ev \<and>
    scheduler_ok s' \<and> ev \<in> scheduler_content s \<and> (\<forall>e \<in> scheduler_content s. rank ev \<le> rank e) \<and>
    scheduler_content s' = scheduler_content s - {ev}"
    if "scheduler_ok s" "scheduler_content s \<noteq> {}"
  proof (cases s)
    case (List_Scheduler x)
    with list_sched.remove_next_ok [of x] that obtain ev x' where "ListScheduler_RemoveNext x = Inr (ev, x')"
      "ListScheduler_PeekNext x = Inr ev" "list_ok x'" "ev \<in> set x" "\<forall>e \<in> set x. rank ev \<le> rank e"
      "set x' = set x - {ev}"
      by (auto simp del: set_map)
    with List_Scheduler show ?thesis
      by (intro exI [of _ ev] exI [of _ "List_Scheduler x'"]) (simp del: set_map)
  next
    case (Map_Scheduler x)
    with map_sched.remove_next_ok [of x] that obtain ev x' where "MapScheduler_RemoveNext x = Inr (ev, x')"
      "MapScheduler_PeekNext x = Inr ev" "list_ok (map_events x')" "ev \<in> set (map_events x)" "\<forall>e \<in> set (map_events x). rank ev \<le> rank e"
      "set (map_events x') = set (map_events x) - {ev}"
      by (auto simp del: set_map)
    with Map_Scheduler show ?thesis
      by (intro exI [of _ ev] exI [of _ "Map_Scheduler x'"]) (simp del: set_map)
  next
    case (Heap_Scheduler x)
    with heap_queue.remove_next_ok [of x] that obtain ev x' where "HeapScheduler_RemoveNext x = Inr (ev, x')"
      "HeapScheduler_PeekNext x = Inr ev" "heap_ok x'" "ev \<in> heap_content x" "\<forall>e \<in> heap_content x. rank ev \<le> rank e"
      "heap_content x' = heap_content x - {ev}"
      by (auto simp del: set_map)
    with Heap_Scheduler show ?thesis
      by (intro exI [of _ ev] exI [of _ "Heap_Scheduler x'"]) (simp del: set_map)
  next
    case (PriorityQueue_Scheduler x)
    with pq_sched.remove_next_ok [of x] that obtain ev x' where "PriorityQueueScheduler_RemoveNext x = Inr (ev, x')"
      "PriorityQueueScheduler_PeekNext x = Inr ev" "distinct (map uid x')" "ev \<in> set x" "\<forall>e \<in> set x. rank ev \<le> rank e"
      "set x' = set x - {ev}"
      by (auto simp del: set_map)
    with PriorityQueue_Scheduler show ?thesis
      by (intro exI [of _ ev] exI [of _ "PriorityQueue_Scheduler x'"]) (simp del: set_map)
  qed
qed

interpretation removable: event_scheduler "\<lambda>s. scheduler_ok s \<and> \<not> is_heap s" scheduler_content
  "Map_Scheduler []" Scheduler_Insert Scheduler_IsEmpty Scheduler_PeekNext Scheduler_RemoveNext
  Scheduler_Remove
proof unfold_locales
  fix s :: Scheduler and ev
  have keep: "Scheduler_Insert ev s = Inr s' \<Longrightarrow> is_heap s' = is_heap s"
    "Scheduler_RemoveNext s = Inr (ev, s') \<Longrightarrow> is_heap s' = is_heap s" for s' ev
    by (cases s; auto simp: is_heap_def)+
  show "finite (scheduler_content s) \<and> inj_on uid (scheduler_content s)" if "scheduler_ok s \<and> \<not> is_heap s"
    using that scheduler.content_ok by simp
  show "(scheduler_ok (Map_Scheduler []) \<and> \<not> is_heap (Map_Scheduler [])) \<and>
      scheduler_content (Map_Scheduler []) = {}"
    using scheduler.new_ok by (simp add: is_heap_def)
  show "\<exists>s'. Scheduler_Insert ev s = Inr s' \<and> (scheduler_ok s' \<and> \<not> is_heap s') \<and>
      scheduler_content s' = insert ev (scheduler_content s)"
    if "scheduler_ok s \<and> \<not> is_heap s" "uid ev \<notin> uids (scheduler_content s)"
    using scheduler.insert_ok that keep by blast
  show "Scheduler_IsEmpty s \<longleftrightarrow> scheduler_content s = {}" if "scheduler_ok s \<and> \<not> is_heap s"
    using that scheduler.empty_ok by simp
  show "\<exists>ev s'. Scheduler_RemoveNext s = Inr (ev, s') \<and> Scheduler_PeekNext s = Inr ev \<and>
    (scheduler_ok s' \<and> \<not> is_heap s') \<and> ev \<in> scheduler_content s \<and>
    (\<forall>e \<in> scheduler_content s. rank ev \<le> rank e) \<and> scheduler_content s' = scheduler_content s - {ev}"
    if "scheduler_ok s \<and> \<not> is_heap s" "scheduler_content s \<noteq> {}"
    using scheduler.remove_next_ok that keep by blast
  show "\<exists>s'. Scheduler_Remove ev s = Inr s' \<and> (scheduler_ok s' \<and> \<not> is_heap s') \<and>
      scheduler_content s' = scheduler_content s - {ev}"
    if "scheduler_ok s \<and> \<not> is_heap s" "ev \<in> scheduler_content s"
  proof (cases s)
    case (List_Scheduler x)
    with list_sched.remove_ok [of x ev] that show ?thesis by (auto simp: is_heap_def)
  next
    case (Map_Scheduler x)
    with map_sched.remove_ok [of x ev] that show ?thesis by (auto simp: is_heap_def simp del: set_map)
  next
    case (Heap_Scheduler x)
    with that show ?thesis by (simp add: is_heap_def)
  next
    case (PriorityQueue_Scheduler x)
    with pq_sched.remove_ok [of x ev] that show ?thesis by (auto simp: is_heap_def)
  qed
qed

section \<open>Reachable states\<close>

definition pending_ok :: "DefaultSimulatorImpl \<Rightarrow> Event \<Rightarrow> bool" where
  "pending_ok st e \<longleftrightarrow> ev_impl e \<noteq> None \<and> sim_currentTs st \<le> m_ts (ev_key e) \<and>
     (m_ts (ev_key e) = sim_currentTs st \<longrightarrow> sim_currentUid st < uid e) \<and>
     UID_VALID \<le> uid e \<and> uid e < sim_uid st \<and> 0 \<le> sint (m_ts (ev_key e))"

definition past :: "DefaultSimulatorImpl \<Rightarrow> EventId \<Rightarrow> bool" where
  "past st ident \<longleftrightarrow> id_ts ident < sim_currentTs st \<or>
     id_ts ident = sim_currentTs st \<and> id_uid ident \<le> sim_currentUid st"

definition issued_ok :: "DefaultSimulatorImpl \<Rightarrow> Event set \<Rightarrow> EventId \<Rightarrow> bool" where
  "issued_ok st es ident \<longleftrightarrow> id_impl ident \<noteq> None \<and> UID_VALID \<le> id_uid ident \<and>
     (event_of ident \<in> es \<or> past st ident \<or> is_cancelled (id_impl ident) st)"

definition clock_ok :: "DefaultSimulatorImpl \<Rightarrow> bool" where
  "clock_ok st \<longleftrightarrow> sim_currentUid st < sim_uid st \<and> UID_VALID \<le> sim_uid st \<and> 0 \<le> sint (sim_currentTs st)"

text \<open>
  The invariant relates the simulator to the identifiers it has issued: every one of them is
  pending, past or cancelled.
\<close>

fun sim_inv :: "DefaultSimulatorImpl \<times> EventId set \<Rightarrow> bool" where
  "sim_inv (st, issued) \<longleftrightarrow> (\<exists>s. sim_events st = Some s \<and> scheduler_ok s \<and> \<not> is_heap s \<and> clock_ok st \<and>
     (\<forall>e \<in> scheduler_content s. pending_ok st e) \<and>
     sim_unscheduledEvents st = int (card (scheduler_content s)) \<and>
     (\<forall>ident \<in> issued. issued_ok st (scheduler_content s) ident))"

definition room :: "DefaultSimulatorImpl \<Rightarrow> bool" where
  "room st \<longleftrightarrow> unat (sim_uid st) + length (sim_eventsWithContext st) < 2 ^ 32 \<and>
     (\<forall>e \<in> set (sim_eventsWithContext st). unat (sim_currentTs st) + unat (ec_timestamp e) < 2 ^ 63)"

text \<open>
  The steps of a simulation.  Identifiers are only obtained from the simulator, the counter of
  identifiers does not wrap, and times stay within 63 bits.
\<close>

inductive client_call :: "DefaultSimulatorImpl \<times> EventId set \<Rightarrow> DefaultSimulatorImpl \<times> EventId set \<Rightarrow> bool" where
  call_Schedule: "Schedule thread delay event st = Inr (ident, st') \<Longrightarrow> sim_uid st + 1 \<noteq> 0 \<Longrightarrow>
    client_call (st, issued) (st', insert ident issued)"
| call_ScheduleWithContext: "ScheduleWithContext thread context delay event st = Inr st' \<Longrightarrow>
    sim_uid st + 1 \<noteq> 0 \<Longrightarrow> 0 \<le> delay \<Longrightarrow> client_call (st, issued) (st', issued)"
| call_ScheduleDestroy: "ScheduleDestroy thread event st = Inr (ident, st') \<Longrightarrow> sim_uid st + 1 \<noteq> 0 \<Longrightarrow>
    client_call (st, issued) (st', issued)"
| call_Stop: "client_call (st, issued) (Stop st, issued)"
| call_Cancel: "client_call (st, issued) (Cancel ident st, issued)"
| call_Remove: "Simulator_Remove ident st = Inr st' \<Longrightarrow> ident \<in> issued \<or> id_uid ident = UID_DESTROY \<Longrightarrow>
    client_call (st, issued) (st', issued)"

inductive sim_step :: "DefaultSimulatorImpl \<times> EventId set \<Rightarrow> DefaultSimulatorImpl \<times> EventId set \<Rightarrow> bool" where
  step_call: "client_call x y \<Longrightarrow> sim_step x y"
| step_take: "take_event st = Inr (ev, st') \<Longrightarrow> sim_step (st, issued) (st', issued)"
| step_flush: "ProcessEventsWithContext st = Inr st' \<Longrightarrow> room st \<Longrightarrow> sim_step (st, issued) (st', issued)"

lemma sint64: "sint (t::u64) = (if uint t < 2 ^ 63 then uint t else uint t - 2 ^ 64)"
proof -
  have s: "sint t = (uint t + 2 ^ 63) mod 2 ^ 64 - 2 ^ 63"
    using int_word_sint [where 'a = 64, of "uint t"] by simp
  have u: "0 \<le> uint t" "uint t < 2 ^ 64"
    using unsigned_less [of t] by (simp_all add: unsigned_greater_eq)
  show ?thesis
  proof (cases "uint t < 2 ^ 63")
    case True
    then have "(uint t + 2 ^ 63) mod 2 ^ 64 = uint t + 2 ^ 63"
      using u by (intro mod_pos_pos_trivial) simp_all
    with True s show ?thesis by simp
  next
    case False
    have "(uint t + 2 ^ 63) mod 2 ^ 64 = (uint t - 2 ^ 63 + 2 ^ 64) mod 2 ^ 64"
      by (simp add: add.commute)
    also have "\<dots> = (uint t - 2 ^ 63) mod 2 ^ 64"
      by (rule mod_add_self2)
    also have "\<dots> = uint t - 2 ^ 63"
      using u False by (intro mod_pos_pos_trivial) simp_all
    finally show ?thesis
      using False s by simp
  qed
qed

lemma uint64_of: "0 \<le> x \<Longrightarrow> x < 2 ^ 63 \<Longrightarrow> uint (word_of_int x :: u64) = x"
  by (simp add: uint_word_of_int)

lemma nonneg_time: "0 \<le> sint (t::u64) \<longleftrightarrow> uint t < 2 ^ 63"
proof -
  have "uint t < 2 ^ 64"
    using uint_bounded [of t] by simp
  then show ?thesis
    by (auto simp: sint64)
qed

lemma nonneg_time_nat: "unat (t::u64) < 2 ^ 63 \<Longrightarrow> 0 \<le> sint t"
proof -
  assume "unat t < 2 ^ 63"
  then have "int (unat t) < int (2 ^ 63)"
    by (simp only: of_nat_less_iff)
  then have "int (unat t) < 2 ^ 63"
    by simp
  moreover have "int (unat t) = uint t"
    by simp
  ultimately have "uint t < 2 ^ 63"
    by metis
  then show ?thesis
    by (simp only: nonneg_time)
qed

lemma u32_next:
  assumes "(u::u32) + 1 \<noteq> 0"
  shows "u < u + 1" and "v < u \<Longrightarrow> v < u + 1" and "v \<le> u \<Longrightarrow> v < u + 1"
proof -
  have "unat (u + 1) = Suc (unat u)"
    using unatSuc [of u] assms by (simp add: add.commute)
  then show "u < u + 1" and "v < u \<Longrightarrow> v < u + 1" and "v \<le> u \<Longrightarrow> v < u + 1"
    by (simp_all add: word_less_nat_alt word_le_nat_alt)
qed

lemma insert_pending_inv:
  assumes "sim_inv (st, issued)" and "insert_pending ev st = Inr st'" and "sim_uid st + 1 \<noteq> 0"
    and "uid ev = sim_uid st" and "sim_currentTs st \<le> m_ts (ev_key ev)" and "0 \<le> sint (m_ts (ev_key ev))"
    and "ev_impl ev \<noteq> None"
  shows "sim_inv (st', issued) \<and> (\<exists>s. sim_events st' = Some s \<and> ev \<in> scheduler_content s)"
proof -
  obtain s where s: "sim_events st = Some s" "scheduler_ok s" "\<not> is_heap s" "clock_ok st"
    "\<forall>e \<in> scheduler_content s. pending_ok st e" "sim_unscheduledEvents st = int (card (scheduler_content s))"
    "\<forall>ident \<in> issued. issued_ok st (scheduler_content s) ident"
    using assms(1) by auto
  then have fresh: "uid ev \<notin> uids (scheduler_content s)"
    using assms(4) by (auto simp: pending_ok_def)
  then obtain s' where s': "Scheduler_Insert ev s = Inr s'" "scheduler_ok s'" "\<not> is_heap s'"
    "scheduler_content s' = insert ev (scheduler_content s)"
    using removable.insert_ok [of s ev] s(2,3) by auto
  have st': "st' = st\<lparr>sim_uid := sim_uid st + 1, sim_unscheduledEvents := sim_unscheduledEvents st + 1,
      sim_events := Some s'\<rparr>"
    using assms(2) s(1) s'(1) by (simp add: insert_pending_def)
  have "finite (scheduler_content s)" "ev \<notin> scheduler_content s"
    using scheduler.content_ok [OF s(2)] fresh by auto
  then have "card (scheduler_content s') = Suc (card (scheduler_content s))"
    by (simp add: s'(4))
  moreover have "clock_ok st'"
    using s(4) u32_next [OF assms(3)] by (auto simp: st' clock_ok_def intro: less_imp_le order.strict_trans2)
  moreover have "pending_ok st' e" if "e \<in> scheduler_content s'" for e
    using that s(4,5) assms(4-7) u32_next [OF assms(3)]
    by (auto simp: st' s'(4) pending_ok_def clock_ok_def)
  moreover have "issued_ok st' (scheduler_content s') ident" if "ident \<in> issued" for ident
    using that s(7) by (auto simp: st' s'(4) issued_ok_def past_def is_cancelled_def split: option.splits)
  ultimately show ?thesis
    using s'(2,3,4) s(6) by (simp add: st')
qed

lemma absolute_time_ok:
  assumes "absolute_time delay st = Inr ts" and "0 \<le> delay" and "0 \<le> sint (sim_currentTs st)"
  shows "sim_currentTs st \<le> ts \<and> 0 \<le> sint ts"
proof -
  let ?t = "delay + uint (sim_currentTs st)"
  have cur: "sint (sim_currentTs st) = uint (sim_currentTs st)"
    using assms(3) nonneg_time [of "sim_currentTs st"] by (simp add: sint64)
  then have t: "ts = word_of_int ?t" "0 \<le> ?t" "?t < 2 ^ 63"
    using assms by (auto simp: absolute_time_def Let_def)
  have "uint ts = ?t"
    unfolding t(1) using t(2,3) by (rule uint64_of)
  then show ?thesis
    using t assms(2) by (simp add: nonneg_time word_le_def)
qed

lemma Schedule_inv:
  assumes "sim_inv (st, issued)" and "Schedule thread delay event st = Inr (ident, st')"
    and "sim_uid st + 1 \<noteq> 0"
  shows "sim_inv (st', insert ident issued)"
proof -
  obtain ts where ts: "absolute_time delay st = Inr ts" "0 \<le> delay"
    "ident = \<lparr>id_impl = Some event, id_ts = ts, id_context = sim_currentContext st, id_uid = sim_uid st\<rparr>"
    "insert_pending (event_of ident) st = Inr st'"
    using assms(2) by (auto simp: Schedule_def Let_def event_of_def)
  have clock: "clock_ok st"
    using assms(1) by auto
  then have now: "sim_currentTs st \<le> ts" "0 \<le> sint ts"
    using absolute_time_ok [OF ts(1,2)] by (simp_all add: clock_ok_def)
  have "sim_inv (st', issued) \<and> (\<exists>s. sim_events st' = Some s \<and> event_of ident \<in> scheduler_content s)"
    by (rule insert_pending_inv [OF assms(1) ts(4) assms(3)]) (use now in \<open>simp_all add: event_of_def ts(3)\<close>)
  moreover have "id_impl ident \<noteq> None" "UID_VALID \<le> id_uid ident"
    using clock ts(3) by (simp_all add: clock_ok_def)
  ultimately show ?thesis
    by (auto simp: issued_ok_def)
qed

lemma content_card:
  assumes "scheduler_ok s" and "ev \<in> scheduler_content s"
    and "scheduler_content s' = scheduler_content s - {ev}"
  shows "card (scheduler_content s) = Suc (card (scheduler_content s'))"
  using assms scheduler.content_ok card.remove [of "scheduler_content s" ev] by simp

lemma frame_inv:
  assumes "sim_inv (st, issued)" and "sim_events st' = sim_events st"
    and "sim_currentTs st' = sim_currentTs st" and "sim_currentUid st' = sim_currentUid st"
    and "sim_uid st \<le> sim_uid st'" and "sim_unscheduledEvents st' = sim_unscheduledEvents st"
    and "\<And>i. sim_cancelled st i \<Longrightarrow> sim_cancelled st' i"
  shows "sim_inv (st', issued)"
proof -
  obtain s where s: "sim_events st = Some s" "scheduler_ok s" "\<not> is_heap s" "clock_ok st"
    "\<forall>e \<in> scheduler_content s. pending_ok st e" "sim_unscheduledEvents st = int (card (scheduler_content s))"
    "\<forall>ident \<in> issued. issued_ok st (scheduler_content s) ident"
    using assms(1) by auto
  have "clock_ok st'"
    using s(4) assms(3-5) by (auto simp: clock_ok_def)
  moreover have "\<forall>e \<in> scheduler_content s. pending_ok st' e"
    using s(5) assms(3-5) by (auto simp: pending_ok_def)
  moreover have "issued_ok st' (scheduler_content s) ident" if "ident \<in> issued" for ident
    using that s(7) assms(3,4,7) by (auto simp: issued_ok_def past_def is_cancelled_def split: option.splits)
  ultimately show ?thesis
    using s assms(2,6) by simp
qed

lemma ScheduleWithContext_inv:
  assumes "sim_inv (st, issued)" and "ScheduleWithContext thread context delay event st = Inr st'"
    and "sim_uid st + 1 \<noteq> 0" and "0 \<le> delay"
  shows "sim_inv (st', issued)"
proof (cases "sim_mainThreadId st = thread")
  case True
  then obtain ts where ts: "absolute_time delay st = Inr ts"
    "insert_pending \<lparr>ev_impl = Some event,
       ev_key = \<lparr>m_ts = ts, m_uid = sim_uid st, m_context = context\<rparr>\<rparr> st = Inr st'"
    using assms(2) by (auto simp: ScheduleWithContext_def)
  have "clock_ok st"
    using assms(1) by auto
  then have "sim_currentTs st \<le> ts" "0 \<le> sint ts"
    using absolute_time_ok [OF ts(1) assms(4)] by (simp_all add: clock_ok_def)
  with insert_pending_inv [OF assms(1) ts(2) assms(3)] show ?thesis
    by simp
next
  case False
  then show ?thesis
    using assms(2) by (intro frame_inv [OF assms(1)]) (auto simp: ScheduleWithContext_def)
qed

lemma ScheduleDestroy_inv:
  assumes "sim_inv (st, issued)" and "ScheduleDestroy thread event st = Inr (ident, st')"
    and "sim_uid st + 1 \<noteq> 0"
  shows "sim_inv (st', issued)"
  using assms(2) u32_next(1) [OF assms(3)]
  by (intro frame_inv [OF assms(1)]) (auto simp: ScheduleDestroy_def Let_def)

lemma Stop_inv: "sim_inv (st, issued) \<Longrightarrow> sim_inv (Stop st, issued)"
  by (erule frame_inv) (simp_all add: Stop_def)

lemma Cancel_inv: "sim_inv (st, issued) \<Longrightarrow> sim_inv (Cancel ident st, issued)"
  by (erule frame_inv) (auto simp: Cancel_def split: option.splits)

lemma not_expired_pending:
  assumes "sim_inv (st, issued)" and "ident \<in> issued" and "\<not> IsExpired ident st"
  shows "\<exists>s. sim_events st = Some s \<and> event_of ident \<in> scheduler_content s"
  using assms by (fastforce simp: issued_ok_def past_def IsExpired_def split: if_splits)

lemma Remove_inv:
  assumes "sim_inv (st, issued)" and "Simulator_Remove ident st = Inr st'"
    and "ident \<in> issued \<or> id_uid ident = UID_DESTROY"
  shows "sim_inv (st', issued)"
proof (cases "id_uid ident = UID_DESTROY \<or> IsExpired ident st")
  case True
  then show ?thesis
    using assms(2) by (intro frame_inv [OF assms(1)]) (auto simp: Simulator_Remove_def split: if_splits)
next
  case False
  obtain s where s: "sim_events st = Some s" "scheduler_ok s" "\<not> is_heap s" "clock_ok st"
    "\<forall>e \<in> scheduler_content s. pending_ok st e" "sim_unscheduledEvents st = int (card (scheduler_content s))"
    "\<forall>ident \<in> issued. issued_ok st (scheduler_content s) ident"
    using assms(1) by auto
  have ev: "event_of ident \<in> scheduler_content s"
    using not_expired_pending [OF assms(1)] assms(3) False s(1) by auto
  then obtain s' where s': "Scheduler_Remove (event_of ident) s = Inr s'" "scheduler_ok s'" "\<not> is_heap s'"
    "scheduler_content s' = scheduler_content s - {event_of ident}"
    using removable.remove_ok [of s "event_of ident"] s(2,3) by auto
  obtain i where i: "id_impl ident = Some i"
    "st' = st\<lparr>sim_events := Some s', sim_cancelled := (sim_cancelled st)(i := True),
       sim_unscheduledEvents := sim_unscheduledEvents st - 1\<rparr>"
    using assms(2) False s(1) s'(1) by (auto simp: Simulator_Remove_def)
  have "card (scheduler_content s) = Suc (card (scheduler_content s'))"
    by (rule content_card [OF s(2) ev s'(4)])
  moreover have "clock_ok st'"
    using s(4) by (simp add: i(2) clock_ok_def)
  moreover have "\<forall>e \<in> scheduler_content s'. pending_ok st' e"
    using s(5) s'(4) by (auto simp: i(2) pending_ok_def)
  moreover have "issued_ok st' (scheduler_content s') x" if "x \<in> issued" for x
  proof -
    have "id_impl x = Some i" if "event_of x = event_of ident"
      using that i(1) by (simp add: event_of_def)
    then show ?thesis
      using that s(7) s'(4) by (auto simp: i(2) issued_ok_def past_def is_cancelled_def split: option.splits)
  qed
  ultimately show ?thesis
    using s'(2,3) s(6) by (simp add: i(2))
qed

lemma take_event_cases:
  assumes "sim_inv (st, issued)" and "take_event st = Inr (ev, st')"
  obtains s s' where "sim_events st = Some s" "Scheduler_RemoveNext s = Inr (ev, s')"
    "scheduler_ok s'" "\<not> is_heap s'" "ev \<in> scheduler_content s" "\<forall>e \<in> scheduler_content s. rank ev \<le> rank e"
    "scheduler_content s' = scheduler_content s - {ev}"
    "st' = st\<lparr>sim_events := Some s', sim_unscheduledEvents := sim_unscheduledEvents st - 1,
      sim_eventCount := sim_eventCount st + 1, sim_currentTs := m_ts (ev_key ev),
      sim_currentContext := m_context (ev_key ev), sim_currentUid := uid ev\<rparr>"
proof -
  obtain s where s: "sim_events st = Some s" "scheduler_ok s" "\<not> is_heap s"
    using assms(1) by auto
  with assms(2) obtain s' where s': "Scheduler_RemoveNext s = Inr (ev, s')"
    "st' = st\<lparr>sim_events := Some s', sim_unscheduledEvents := sim_unscheduledEvents st - 1,
      sim_eventCount := sim_eventCount st + 1, sim_currentTs := m_ts (ev_key ev),
      sim_currentContext := m_context (ev_key ev), sim_currentUid := uid ev\<rparr>"
    by (auto simp: take_event_def)
  have "scheduler_content s \<noteq> {}"
  proof
    assume "scheduler_content s = {}"
    then show False
      using s'(1) s(3) by (cases s) (auto simp: is_heap_def ListScheduler_RemoveNext_def
          MapScheduler_RemoveNext_def PriorityQueueScheduler_RemoveNext_def)
  qed
  with removable.next_unique [of s ev s'] s s' that show thesis
    by auto
qed

lemma take_event_inv:
  assumes "sim_inv (st, issued)" and "take_event st = Inr (ev, st')"
  shows "sim_inv (st', issued)"
  using assms
proof (cases rule: take_event_cases)
  case (1 s s')
  have s: "scheduler_ok s" "clock_ok st"
    "\<forall>e \<in> scheduler_content s. pending_ok st e" "sim_unscheduledEvents st = int (card (scheduler_content s))"
    "\<forall>ident \<in> issued. issued_ok st (scheduler_content s) ident"
    using assms(1) 1(1) by auto
  have ev: "pending_ok st ev"
    using s(3) 1(5) by simp
  have "card (scheduler_content s) = Suc (card (scheduler_content s'))"
    by (rule content_card [OF s(1) 1(5,7)])
  moreover have "clock_ok st'"
    using s(2) ev by (simp add: 1(8) clock_ok_def pending_ok_def)
  moreover have "pending_ok st' e" if e: "e \<in> scheduler_content s'" for e
  proof -
    have "uid e \<noteq> uid ev"
      using e 1(5,7) scheduler.content_ok [OF s(1)] by (auto dest: inj_onD)
    moreover have "rank ev \<le> rank e" "pending_ok st e"
      using e 1(6,7) s(3) by auto
    moreover have "\<not> event_less e ev"
      using \<open>rank ev \<le> rank e\<close> by (simp add: rank_less)
    ultimately show ?thesis
      by (auto simp: 1(8) pending_ok_def event_less_def key_less_def rank_ts split: if_splits)
  qed
  moreover have "issued_ok st' (scheduler_content s') x" if "x \<in> issued" for x
  proof -
    have "past st' x" if "past st x \<or> event_of x = ev"
      using that ev by (auto simp: 1(8) past_def pending_ok_def event_of_def)
    then show ?thesis
      using that s(5) 1(7) by (auto simp: 1(8) issued_ok_def is_cancelled_def split: option.splits)
  qed
  ultimately show ?thesis
    using 1(3,4) s(4) by (simp add: 1(8))
qed

lemma insert_with_context_inv:
  assumes "each insert_with_context es st = Inr st'" and "sim_inv (st, issued)"
    and "unat (sim_uid st) + length es < 2 ^ 32"
    and "\<forall>e \<in> set es. unat (sim_currentTs st) + unat (ec_timestamp e) < 2 ^ 63"
  shows "sim_inv (st', issued)"
  using assms
proof (induction es arbitrary: st)
  case Nil
  then show ?case by simp
next
  case (Cons e es)
  let ?ts = "sim_currentTs st + ec_timestamp e"
  obtain st1 where st1: "insert_with_context e st = Inr st1" "each insert_with_context es st1 = Inr st'"
    using Cons.prems(1) by auto
  have "unat (sim_uid st + 1) = unat (sim_uid st) + 1"
    using Cons.prems(3) by (simp add: unat_word_ariths)
  then have u: "sim_uid st + 1 \<noteq> 0" "unat (sim_uid st + 1) + length es < 2 ^ 32"
    using Cons.prems(3) by auto
  have ts: "unat ?ts = unat (sim_currentTs st) + unat (ec_timestamp e)"
    using Cons.prems(4) by (simp add: unat_word_ariths)
  then have "sim_currentTs st \<le> ?ts"
    by (simp add: word_le_nat_alt)
  moreover have "0 \<le> sint ?ts"
    using ts Cons.prems(4) by (intro nonneg_time_nat) simp
  ultimately have now: "sim_currentTs st \<le> ?ts" "0 \<le> sint ?ts" .
  have "sim_inv (st1, issued)"
    using insert_pending_inv [OF Cons.prems(2) st1(1) [unfolded insert_with_context_def] u(1)] now
    by (simp del: sim_inv.simps)
  moreover have "sim_uid st1 = sim_uid st + 1" "sim_currentTs st1 = sim_currentTs st"
    using st1(1) by (auto simp: insert_with_context_def insert_pending_def)
  ultimately show ?case
    using Cons.IH [OF st1(2)] Cons.prems(4) u(2) by simp
qed

lemma flush_inv:
  assumes "sim_inv (st, issued)" and "ProcessEventsWithContext st = Inr st'" and "room st"
  shows "sim_inv (st', issued)"
proof (cases "sim_eventsWithContextEmpty st")
  case True
  with assms show ?thesis
    by (simp add: ProcessEventsWithContext_def)
next
  case False
  let ?st = "st\<lparr>sim_eventsWithContext := [], sim_eventsWithContextEmpty := True\<rparr>"
  have "sim_inv (?st, issued)"
    by (rule frame_inv [OF assms(1)]) simp_all
  moreover have "each insert_with_context (sim_eventsWithContext st) ?st = Inr st'"
    using False assms(2) by (simp add: ProcessEventsWithContext_def)
  ultimately show ?thesis
    using assms(3) insert_with_context_inv [of "sim_eventsWithContext st" ?st st' issued]
    by (simp add: room_def del: sim_inv.simps)
qed

lemma client_call_inv: "client_call x y \<Longrightarrow> sim_inv x \<Longrightarrow> sim_inv y"
proof (induction rule: client_call.induct)
  case (call_Schedule thread delay event st ident st' issued)
  then show ?case using Schedule_inv by blast
next
  case (call_ScheduleWithContext thread node delay event st st' issued)
  then show ?case using ScheduleWithContext_inv by blast
next
  case (call_ScheduleDestroy thread event st ident st' issued)
  then show ?case using ScheduleDestroy_inv by blast
next
  case (call_Stop st issued)
  then show ?case using Stop_inv by blast
next
  case (call_Cancel st issued ident)
  then show ?case using Cancel_inv by blast
next
  case (call_Remove ident st st' issued)
  then show ?case using Remove_inv by blast
qed

definition sim_initial :: "DefaultSimulatorImpl \<times> EventId set \<Rightarrow> bool" where
  "sim_initial x \<longleftrightarrow> (\<exists>thread s. SetScheduler s (DefaultSimulatorImpl_new thread) = Inr (fst x) \<and>
     s \<in> {List_Scheduler [], Map_Scheduler [], PriorityQueue_Scheduler []} \<and> snd x = {})"

interpretation simulation: invariant_system sim_initial sim_step sim_inv
proof unfold_locales
  fix x assume "sim_initial x"
  then obtain thread s st where x: "SetScheduler s (DefaultSimulatorImpl_new thread) = Inr st" "x = (st, {})"
    and s: "s \<in> {List_Scheduler [], Map_Scheduler [], PriorityQueue_Scheduler []}"
    unfolding sim_initial_def by (metis prod.collapse)
  have st: "x = ((DefaultSimulatorImpl_new thread)\<lparr>sim_events := Some s\<rparr>, {})"
    using x by (simp add: SetScheduler_def DefaultSimulatorImpl_new_def)
  have "scheduler_ok s" "\<not> is_heap s" "scheduler_content s = {}"
    using s by (auto simp: is_heap_def list_ok_def)
  then show "sim_inv x"
    unfolding st sim_inv.simps
    by (intro exI [of _ s]) (simp add: clock_ok_def DefaultSimulatorImpl_new_def)
next
  fix x y assume "sim_step x y" and inv: "sim_inv x"
  then show "sim_inv y"
  proof cases
    case step_call
    with inv client_call_inv show ?thesis by blast
  next
    case step_take
    with inv show ?thesis using take_event_inv by blast
  next
    case step_flush
    with inv show ?thesis using flush_inv by blast
  qed
qed

abbreviation sim_reachable :: "DefaultSimulatorImpl \<times> EventId set \<Rightarrow> bool" where
  "sim_reachable \<equiv> reaches sim_initial sim_step"

section \<open>Runs\<close>

text \<open>
  A program is well behaved when its events, invoked in a state that satisfies its own invariant
  \<open>prog\<close>, return, act on the simulator through calls only, and draw every identifier they
  use from a finite supply \<open>left\<close>.
\<close>

definition well_behaved ::
  "'w notify \<Rightarrow> ('w \<Rightarrow> DefaultSimulatorImpl \<Rightarrow> bool) \<Rightarrow> ('w \<Rightarrow> nat) \<Rightarrow> bool" where
  "well_behaved notify prog left \<longleftrightarrow>
     (\<forall>w st issued ev st1 i. sim_inv (st, issued) \<and> prog w st \<and> take_event st = Inr (ev, st1) \<and>
        ev_impl ev = Some i \<longrightarrow>
      (\<exists>w' st' issued'. Invoke notify i (w, st1) = Inr (w', st') \<and> client_call\<^sup>*\<^sup>* (st1, issued) (st', issued') \<and>
         prog w' st' \<and> sim_eventsWithContextEmpty st' \<and>
         left w' + unat (sim_uid st') \<le> left w + unat (sim_uid st1)))"

text \<open>The first \<open>n\<close> events of a run.\<close>

fun executed :: "'w notify \<Rightarrow> nat \<Rightarrow> 'w \<times> DefaultSimulatorImpl \<Rightarrow> Event list" where
  "executed notify 0 ws = []"
| "executed notify (Suc n) ws =
     (case IsFinished (snd ws) of
        Inl e \<Rightarrow> []
      | Inr finished \<Rightarrow>
          if finished then []
          else (case take_event (snd ws) of
                  Inl e \<Rightarrow> []
                | Inr (ev, _) \<Rightarrow> ev # (case ProcessOneEvent notify ws of
                                     Inl e \<Rightarrow> [] | Inr ws \<Rightarrow> executed notify n ws)))"

lemma insert_pending_uid: "insert_pending ev st = Inr st' \<Longrightarrow>
  sim_uid st' = sim_uid st + 1 \<and> sim_unscheduledEvents st' = sim_unscheduledEvents st + 1 \<and>
  sim_currentTs st' = sim_currentTs st \<and> sim_currentUid st' = sim_currentUid st"
  by (auto simp: insert_pending_def)

lemma client_call_effect:
  assumes "client_call x y"
  shows "sim_currentTs (fst y) = sim_currentTs (fst x) \<and> sim_currentUid (fst y) = sim_currentUid (fst x) \<and>
    sim_unscheduledEvents (fst y) - int (unat (sim_uid (fst y))) \<le>
      sim_unscheduledEvents (fst x) - int (unat (sim_uid (fst x)))"
proof -
  have u: "uint (u + 1) = uint u + 1" if "u + 1 \<noteq> 0" for u :: u32
  proof -
    have "unat (u + 1) = unat u + 1"
      using that unatSuc [of u] by (simp add: add.commute)
    then have "int (unat (u + 1)) = int (unat u) + 1"
      by (simp only: of_nat_add of_nat_1)
    then show ?thesis by simp
  qed
  show ?thesis
    using assms
    by (induction rule: client_call.induct)
      (auto simp: Schedule_def ScheduleWithContext_def ScheduleDestroy_def Stop_def Cancel_def
        Simulator_Remove_def Let_def u dest!: insert_pending_uid split: if_splits option.splits)
qed

lemma client_calls_effect:
  assumes "client_call\<^sup>*\<^sup>* x y"
  shows "sim_currentTs (fst y) = sim_currentTs (fst x) \<and> sim_currentUid (fst y) = sim_currentUid (fst x) \<and>
    sim_unscheduledEvents (fst y) - int (unat (sim_uid (fst y))) \<le>
      sim_unscheduledEvents (fst x) - int (unat (sim_uid (fst x)))"
  using assms by (induction rule: rtranclp_induct) (use client_call_effect in fastforce)+

lemma client_calls_inv: "client_call\<^sup>*\<^sup>* x y \<Longrightarrow> sim_inv x \<Longrightarrow> sim_inv y"
  by (induction rule: rtranclp_induct) (auto intro: client_call_inv simp del: sim_inv.simps)

lemma take_event_succeeds:
  assumes "sim_inv (st, issued)" and "IsFinished st = Inr False"
  shows "\<exists>ev st' i. take_event st = Inr (ev, st') \<and> sim_currentTs st \<le> m_ts (ev_key ev) \<and>
    (m_ts (ev_key ev) = sim_currentTs st \<longrightarrow> sim_currentUid st < uid ev) \<and> ev_impl ev = Some i \<and>
    sim_currentTs st' = m_ts (ev_key ev) \<and> sim_currentUid st' = uid ev \<and> sim_uid st' = sim_uid st \<and>
    sim_unscheduledEvents st' = sim_unscheduledEvents st - 1"
proof -
  obtain s where s: "sim_events st = Some s" "scheduler_ok s" "\<forall>e \<in> scheduler_content s. pending_ok st e"
    using assms(1) by auto
  then have "scheduler_content s \<noteq> {}"
    using assms(2) scheduler.empty_ok [OF s(2)] by (auto simp: IsFinished_def no_events_def)
  then obtain ev s' where ev: "Scheduler_RemoveNext s = Inr (ev, s')" "ev \<in> scheduler_content s"
    using scheduler.remove_next_ok [OF s(2)] by blast
  then have "pending_ok st ev"
    using s(3) by blast
  then show ?thesis
    using ev s(1) by (auto simp: take_event_def pending_ok_def)
qed

definition after :: "DefaultSimulatorImpl \<Rightarrow> Event \<Rightarrow> bool" where
  "after st ev \<longleftrightarrow> sim_currentTs st < m_ts (ev_key ev) \<or>
     sim_currentTs st = m_ts (ev_key ev) \<and> sim_currentUid st < uid ev"

lemma after_less:
  assumes "sim_currentTs st = m_ts (ev_key ev)" and "sim_currentUid st = uid ev"
  shows "after st e \<longleftrightarrow> event_less ev e"
  using assms by (auto simp: after_def event_less_def key_less_def)

lemma one_event:
  assumes "well_behaved notify prog left" and "sim_inv (st, issued)" and "prog w st"
    and "IsFinished st = Inr False"
  shows "\<exists>ev st1 w' st' issued'. take_event st = Inr (ev, st1) \<and> ProcessOneEvent notify (w, st) = Inr (w', st') \<and>
    sim_inv (st', issued') \<and> prog w' st' \<and> after st ev \<and>
    sim_currentTs st' = m_ts (ev_key ev) \<and> sim_currentUid st' = uid ev \<and>
    int (left w') + sim_unscheduledEvents st' < int (left w) + sim_unscheduledEvents st"
proof -
  obtain ev st1 i where ev: "take_event st = Inr (ev, st1)" "sim_currentTs st \<le> m_ts (ev_key ev)"
    "m_ts (ev_key ev) = sim_currentTs st \<longrightarrow> sim_currentUid st < uid ev" "ev_impl ev = Some i"
    "sim_currentTs st1 = m_ts (ev_key ev)" "sim_currentUid st1 = uid ev"
    "sim_unscheduledEvents st1 = sim_unscheduledEvents st - 1"
    using take_event_succeeds [OF assms(2,4)] by blast
  then obtain w' st' issued' where st': "Invoke notify i (w, st1) = Inr (w', st')"
    "client_call\<^sup>*\<^sup>* (st1, issued) (st', issued')" "prog w' st'" "sim_eventsWithContextEmpty st'"
    "left w' + unat (sim_uid st') \<le> left w + unat (sim_uid st1)"
    using assms(1-3) unfolding well_behaved_def by blast
  have "sim_inv (st1, issued)"
    by (rule take_event_inv [OF assms(2) ev(1)])
  then have "sim_inv (st', issued')"
    by (rule client_calls_inv [OF st'(2)])
  moreover have "after st ev"
    using ev(2,3) by (auto simp: after_def)
  moreover have "ProcessOneEvent notify (w, st) = Inr (w', st')"
    using ev(1,4) st'(1,4) by (simp add: ProcessOneEvent_def ProcessEventsWithContext_def)
  moreover have "int (left w') + int (unat (sim_uid st')) \<le> int (left w) + int (unat (sim_uid st1))"
    using st'(5) by linarith
  ultimately show ?thesis
    using client_calls_effect [OF st'(2)] ev st'(3) by (auto simp del: sim_inv.simps)
qed

lemma IsFinished_cases: "sim_inv (st, issued) \<Longrightarrow> IsFinished st = Inr True \<or> IsFinished st = Inr False"
  by (auto simp: IsFinished_def no_events_def)

lemma unscheduled_nonneg: "sim_inv (st, issued) \<Longrightarrow> 0 \<le> sim_unscheduledEvents st"
  by auto

lemma Run_loop_returns:
  assumes "well_behaved notify prog left" and "sim_inv (st, issued)" and "prog w st"
  shows "\<exists>w' st' issued'. Run_loop notify (w, st) = Some (Inr (w', st')) \<and> sim_inv (st', issued') \<and>
    prog w' st' \<and> IsFinished st' = Inr True"
  using assms(2,3)
proof (induction "nat (int (left w) + sim_unscheduledEvents st)" arbitrary: w st issued rule: less_induct)
  case less
  show ?case
  proof (cases "IsFinished st = Inr True")
    case True
    then have "Run_loop notify (w, st) = Some (Inr (w, st))"
      by (subst Run_loop.simps) simp
    with less.prems True show ?thesis by blast
  next
    case False
    then have running: "IsFinished st = Inr False"
      using IsFinished_cases [OF less.prems(1)] by blast
    from one_event [OF assms(1) less.prems this] obtain w1 st1 issued1 where
      step: "ProcessOneEvent notify (w, st) = Inr (w1, st1)" "sim_inv (st1, issued1)" "prog w1 st1"
      "int (left w1) + sim_unscheduledEvents st1 < int (left w) + sim_unscheduledEvents st"
      by blast
    then have "nat (int (left w1) + sim_unscheduledEvents st1) < nat (int (left w) + sim_unscheduledEvents st)"
      using unscheduled_nonneg [OF step(2)] by linarith
    from less.hyps [OF this step(2,3)] show ?thesis
      using running step(1) by (subst Run_loop.simps) simp
  qed
qed

lemma executed_sorted:
  assumes "well_behaved notify prog left" and "sim_inv (st, issued)" and "prog w st"
  shows "sorted_wrt event_less (executed notify n (w, st)) \<and> (\<forall>e \<in> set (executed notify n (w, st)). after st e)"
  using assms(2,3)
proof (induction n arbitrary: w st issued)
  case 0
  then show ?case by simp
next
  case (Suc n)
  show ?case
  proof (cases "IsFinished st = Inr False")
    case True
    from one_event [OF assms(1) Suc.prems this] obtain ev st0 w1 st1 issued1 where
      step: "take_event st = Inr (ev, st0)" "ProcessOneEvent notify (w, st) = Inr (w1, st1)"
      "sim_inv (st1, issued1)" "prog w1 st1" "after st ev"
      "sim_currentTs st1 = m_ts (ev_key ev)" "sim_currentUid st1 = uid ev"
      by blast
    have rest: "sorted_wrt event_less (executed notify n (w1, st1))"
      "\<forall>e \<in> set (executed notify n (w1, st1)). event_less ev e"
      using Suc.IH [OF step(3,4)] after_less [OF step(6,7)] by simp_all
    moreover have "after st e" if "event_less ev e" for e
      using step(5) that by (auto simp: after_def event_less_def key_less_def split: if_splits)
    ultimately show ?thesis
      using True step(1,2,5) by simp
  next
    case False
    then show ?thesis
      using IsFinished_cases [OF Suc.prems(1)] by auto
  qed
qed

section \<open>Properties\<close>

definition timer :: "nat \<times> DefaultSimulatorImpl \<Rightarrow> (nat \<times> DefaultSimulatorImpl) outcome" where
  "timer ws = (if fst ws = 0 then Inr ws
     else then_do (ScheduleNow 0 7 (snd ws)) (\<lambda>(_, st). Inr (fst ws - 1, st)))"

text \<open>
  The example program: one event that schedules itself again for the present time as long as its
  count lasts.
\<close>

definition timer_ok :: "nat \<Rightarrow> DefaultSimulatorImpl \<Rightarrow> bool" where
  "timer_ok n st \<longleftrightarrow> sim_mainThreadId st = 0 \<and> sim_eventsWithContextEmpty st \<and> unat (sim_uid st) + n < 2 ^ 32"

lemma u32_Suc: "unat (u::u32) + n < 2 ^ 32 \<Longrightarrow> 0 < n \<Longrightarrow> unat (u + 1) = unat u + 1 \<and> u + 1 \<noteq> 0"
  by (auto simp: unat_word_ariths simp flip: unat_eq_0 dest: arg_cong [where f = unat])

lemma ScheduleNow_succeeds:
  assumes "sim_inv (st, issued)" and "sim_uid st + 1 \<noteq> 0" and "sim_mainThreadId st = thread"
  shows "\<exists>ident st'. ScheduleNow thread event st = Inr (ident, st') \<and> Schedule thread 0 event st = Inr (ident, st') \<and>
    sim_uid st' = sim_uid st + 1 \<and> sim_mainThreadId st' = thread \<and>
    sim_eventsWithContextEmpty st' = sim_eventsWithContextEmpty st"
proof -
  obtain s where s: "sim_events st = Some s" "scheduler_ok s" "clock_ok st"
    "\<forall>e \<in> scheduler_content s. pending_ok st e"
    using assms(1) by auto
  let ?t = "sim_currentTs st"
  have "uint ?t < 2 ^ 63" "sint ?t = uint ?t"
    using s(3) nonneg_time [of ?t] by (simp_all add: clock_ok_def sint64)
  moreover have "- (2 ^ 63) \<le> uint ?t"
    by (rule order.trans [of _ 0]) simp_all
  ultimately have time: "absolute_time 0 st = Inr ?t"
    by (simp add: absolute_time_def)
  let ?ev = "\<lparr>ev_impl = Some event, ev_key = \<lparr>m_ts = ?t, m_uid = sim_uid st, m_context = sim_currentContext st\<rparr>\<rparr>"
  have "uid ?ev \<notin> uids (scheduler_content s)"
    using s(4) by (auto simp: pending_ok_def)
  then obtain s' where "Scheduler_Insert ?ev s = Inr s'"
    using scheduler.insert_ok [OF s(2)] by blast
  with s(1) time assms(3) show ?thesis
    by (auto simp: ScheduleNow_def Schedule_def insert_pending_def)
qed

lemma timer_well_behaved: "well_behaved (\<lambda>_. timer) timer_ok (\<lambda>n. n)"
  unfolding well_behaved_def
proof (intro allI impI, elim conjE)
  fix n st issued ev st1 i
  assume inv: "sim_inv (st, issued)" and ok: "timer_ok n st" and take: "take_event st = Inr (ev, st1)"
  have inv1: "sim_inv (st1, issued)"
    by (rule take_event_inv [OF inv take])
  have st1: "timer_ok n st1"
    using ok take by (auto simp: take_event_def timer_ok_def)
  show "\<exists>w' st' issued'. Invoke (\<lambda>_. timer) i (n, st1) = Inr (w', st') \<and>
      client_call\<^sup>*\<^sup>* (st1, issued) (st', issued') \<and> timer_ok w' st' \<and> sim_eventsWithContextEmpty st' \<and>
      w' + unat (sim_uid st') \<le> n + unat (sim_uid st1)"
  proof (cases "sim_cancelled st1 i \<or> n = 0")
    case True
    then show ?thesis
      using st1 by (intro exI [of _ n] exI [of _ st1] exI [of _ issued])
        (auto simp: Invoke_def timer_def timer_ok_def)
  next
    case False
    then have u: "unat (sim_uid st1 + 1) = unat (sim_uid st1) + 1" "sim_uid st1 + 1 \<noteq> 0"
      using u32_Suc [of "sim_uid st1" n] st1 by (auto simp: timer_ok_def)
    have "sim_mainThreadId st1 = 0"
      using st1 by (simp add: timer_ok_def)
    from ScheduleNow_succeeds [OF inv1 u(2) this, of 7] obtain ident st' where
      st': "ScheduleNow 0 7 st1 = Inr (ident, st')" "Schedule 0 0 7 st1 = Inr (ident, st')"
      "sim_uid st' = sim_uid st1 + 1" "sim_mainThreadId st' = 0"
      "sim_eventsWithContextEmpty st' = sim_eventsWithContextEmpty st1"
      by blast
    have "client_call\<^sup>*\<^sup>* (st1, issued) (st', insert ident issued)"
      using call_Schedule [OF st'(2) u(2)] by blast
    then show ?thesis
      using False st1 st' u by (intro exI [of _ "n - 1"] exI [of _ st'] exI [of _ "insert ident issued"])
        (auto simp: Invoke_def timer_def timer_ok_def)
  qed
qed

text \<open>
  C9: A simulation of a well behaved program ends: \<^verbatim>\<open>Run\<close> returns, none of its assertions
  fails, the one on the number of unscheduled events included, and it leaves the loop because
  it was stopped or because no event is pending.
\<close>

theorem Run_ends:
  assumes "well_behaved notify prog left" and "sim_reachable (st, issued)"
    and "sim_eventsWithContextEmpty st" and "prog w (st\<lparr>sim_mainThreadId := thread, sim_stop := False\<rparr>)"
  shows "\<exists>w' st'. Run notify thread (w, st) = Some (Inr (w', st')) \<and> prog w' st' \<and>
    (sim_stop st' \<or> no_events st' = Inr True)"
proof -
  let ?st = "st\<lparr>sim_mainThreadId := thread, sim_stop := False\<rparr>"
  have "sim_inv (st, issued)"
    by (rule simulation.reaches_inv [OF assms(2)])
  then have "sim_inv (?st, issued)"
    by (rule frame_inv) simp_all
  from Run_loop_returns [OF assms(1) this assms(4)] obtain w' st' issued' where
    run: "Run_loop notify (w, ?st) = Some (Inr (w', st'))" "sim_inv (st', issued')" "prog w' st'"
    "IsFinished st' = Inr True"
    by blast
  obtain s where s: "sim_events st' = Some s" "scheduler_ok s"
    "sim_unscheduledEvents st' = int (card (scheduler_content s))"
    using run(2) by auto
  then have "no_events st' = Inr (scheduler_content s = {})"
    using scheduler.empty_ok by (simp add: no_events_def)
  with run s(3) assms(3) show ?thesis
    by (auto simp: Run_def ProcessEventsWithContext_def IsFinished_def)
qed

definition example_sim :: DefaultSimulatorImpl where
  "example_sim = (DefaultSimulatorImpl_new 0)\<lparr>sim_events := Some (Map_Scheduler [])\<rparr>"

lemma example_sim_initial: "sim_reachable (example_sim, {})"
  by (rule reaches_initial) (auto simp: sim_initial_def example_sim_def SetScheduler_def DefaultSimulatorImpl_new_def)

definition example_started :: "EventId \<times> DefaultSimulatorImpl" where
  "example_started = (\<lparr>id_impl = Some 7, id_ts = 5, id_context = NO_CONTEXT, id_uid = 4\<rparr>,
     example_sim\<lparr>sim_uid := 5, sim_unscheduledEvents := 1,
       sim_events := Some (Map_Scheduler [(\<lparr>m_ts = 5, m_uid = 4, m_context = NO_CONTEXT\<rparr>, Some 7)])\<rparr>)"

lemma example_started_eq: "Schedule 0 5 7 example_sim = Inr example_started"
  by (simp add: Schedule_def example_sim_def DefaultSimulatorImpl_new_def absolute_time_def Let_def
      insert_pending_def MapScheduler_Insert_def example_started_def)

lemma example_started_reachable: "sim_reachable (snd example_started, {fst example_started})"
proof (rule reaches_step [OF example_sim_initial])
  have "Schedule 0 5 7 example_sim = Inr (fst example_started, snd example_started)"
    by (simp add: example_started_eq)
  moreover have "sim_uid example_sim + 1 \<noteq> 0"
    by (simp add: example_sim_def DefaultSimulatorImpl_new_def)
  ultimately show "sim_step (example_sim, {}) (snd example_started, {fst example_started})"
    by (intro step_call call_Schedule)
qed

lemma example_started_timer: "timer_ok 3 ((snd example_started)\<lparr>sim_mainThreadId := 0, sim_stop := False\<rparr>)"
  by (simp add: example_started_def timer_ok_def example_sim_def DefaultSimulatorImpl_new_def)

theorem Run_ends_witness:
  "\<exists>w' st'. Run (\<lambda>_. timer) 0 (3, snd example_started) = Some (Inr (w', st')) \<and> timer_ok w' st' \<and>
    (sim_stop st' \<or> no_events st' = Inr True)"
  by (rule Run_ends [OF timer_well_behaved example_started_reachable _ example_started_timer])
    (simp add: example_started_def example_sim_def DefaultSimulatorImpl_new_def)





lemma move_events_ok:
  assumes "scheduler_ok source" and "scheduler_ok target"
    and "uids (scheduler_content source) \<inter> uids (scheduler_content target) = {}"
  shows "\<exists>s. move_events source target = Inr s \<and> scheduler_ok s \<and>
    scheduler_content s = scheduler_content source \<union> scheduler_content target"
  using assms
proof (induction source target rule: move_events.induct)
  case (1 source target)
  show ?case
  proof (cases "Scheduler_IsEmpty source")
    case True
    then show ?thesis
      using 1(3,4) scheduler.empty_ok [OF 1(2)] by (subst move_events.simps) simp
  next
    case False
    then obtain ev source' where nx: "Scheduler_RemoveNext source = Inr (ev, source')"
      "scheduler_ok source'" "ev \<in> scheduler_content source"
      "scheduler_content source' = scheduler_content source - {ev}"
      using scheduler.empty_ok [OF 1(2)] scheduler.remove_next_ok [OF 1(2)] by blast
    then have "uid ev \<notin> uids (scheduler_content target)"
      using 1(4) by auto
    then obtain target' where ins: "Scheduler_Insert ev target = Inr target'" "scheduler_ok target'"
      "scheduler_content target' = insert ev (scheduler_content target)"
      using scheduler.insert_ok [OF 1(3)] by blast
    have "uids (scheduler_content source') \<inter> uids (scheduler_content target') = {}"
      using 1(4) nx(3,4) ins(3) scheduler.content_ok [OF 1(2)] by (auto dest: inj_onD)
    from 1(1) [OF False nx(1) refl ins(1) nx(2) ins(2) this] obtain s where
      "move_events source' target' = Inr s" "scheduler_ok s"
      "scheduler_content s = scheduler_content source' \<union> scheduler_content target'"
      by blast
    then show ?thesis
      using False nx ins by (subst move_events.simps) auto
  qed
qed

text \<open>
  The scheduler can be changed at any time, also in the middle of a simulation: whatever the
  classes of the two schedulers, exactly the pending events are in the new one, and the rest of
  the simulator is not touched.
\<close>

theorem SetScheduler_keeps_events:
  assumes "sim_events st = Some s" and "scheduler_ok s"
    and "new \<in> {List_Scheduler [], Map_Scheduler [], Heap_Scheduler HeapScheduler_new, PriorityQueue_Scheduler []}"
  shows "\<exists>s'. SetScheduler new st = Inr (st\<lparr>sim_events := Some s'\<rparr>) \<and> scheduler_ok s' \<and>
    scheduler_content s' = scheduler_content s"
proof -
  have "scheduler_ok new \<and> scheduler_content new = {}"
    using assms(3) heap_queue.new_ok by (auto simp: list_ok_def)
  with move_events_ok [OF assms(2), of new] assms(1) show ?thesis
    by (auto simp: SetScheduler_def)
qed

theorem SetScheduler_keeps_events_witness:
  "\<exists>s'. SetScheduler (Heap_Scheduler HeapScheduler_new) (snd example_started) =
      Inr ((snd example_started)\<lparr>sim_events := Some s'\<rparr>) \<and> scheduler_ok s' \<and>
    scheduler_content s' = {event_of (fst example_started)}"
  using SetScheduler_keeps_events [of "snd example_started" _ "Heap_Scheduler HeapScheduler_new"]
  by (simp add: example_started_def event_of_def map_event_def list_ok_def)

text \<open>
  The counter of identifiers has 32 bits.  When it wraps, of two events scheduled for the same
  time the second, whose identifier is 0, precedes the first.
\<close>

theorem uid_wrap_reorders:
  assumes "sim_uid st = 0xffffffff" and "Schedule thread delay a st = Inr (ida, st1)"
    and "Schedule thread delay b st1 = Inr (idb, st2)"
  shows "id_ts idb = id_ts ida \<and> id_uid idb = 0 \<and> event_less (event_of idb) (event_of ida)"
  using assms by (auto simp: Schedule_def Let_def insert_pending_def absolute_time_def event_less_def
      key_less_def event_of_def)

theorem uid_wrap_reorders_witness:
  "\<exists>ida st1 idb st2. Schedule 0 5 7 (example_sim\<lparr>sim_uid := 0xffffffff\<rparr>) = Inr (ida, st1) \<and>
    Schedule 0 5 8 st1 = Inr (idb, st2) \<and> event_less (event_of idb) (event_of ida)"
proof -
  obtain ida st1 idb st2 where "Schedule 0 5 7 (example_sim\<lparr>sim_uid := 0xffffffff\<rparr>) = Inr (ida, st1)"
    "Schedule 0 5 8 st1 = Inr (idb, st2)"
    by (simp add: Schedule_def example_sim_def DefaultSimulatorImpl_new_def absolute_time_def Let_def
      insert_pending_def MapScheduler_Insert_def key_less_def)
  with uid_wrap_reorders [OF _ this] show ?thesis by auto
qed

text \<open>
  Unlike \<^verbatim>\<open>Schedule\<close>, \<^verbatim>\<open>ScheduleWithContext\<close> accepts a negative delay; the event lies
  in the past, and the simulation is aborted when it is taken.
\<close>

theorem negative_delay_aborts:
  assumes "sim_events st = Some (Map_Scheduler [])" and "delay < 0" and "0 \<le> delay + sint (sim_currentTs st)"
    and "ScheduleWithContext (sim_mainThreadId st) context delay event st = Inr st'"
  shows "take_event st' = Inl AssertFailed"
proof -
  let ?t = "delay + sint (sim_currentTs st)"
  have "0 \<le> sint (sim_currentTs st)"
    using assms(2,3) by simp
  then have cur: "sint (sim_currentTs st) = uint (sim_currentTs st)"
    using nonneg_time [of "sim_currentTs st"] by (simp add: sint64)
  have "?t < 2 ^ 63"
    using assms(4) by (auto simp: ScheduleWithContext_def absolute_time_def Let_def)
  then have "uint (word_of_int ?t :: u64) = ?t"
    using assms(3) by (intro uint64_of) simp_all
  then have "(word_of_int ?t :: u64) < sim_currentTs st"
    using assms(2) cur by (simp only: word_less_def)
  then show ?thesis
    using assms(1,4) by (auto simp: ScheduleWithContext_def absolute_time_def Let_def insert_pending_def
        MapScheduler_Insert_def take_event_def MapScheduler_RemoveNext_def map_event_def require_def split: if_splits)
qed

end
