(* ===== verification/Stream_Socket.thy ===== *)
theory Stream_Socket
  imports Tags Headers
begin

text \<open>
  What an application's \<^verbatim>\<open>Socket::Send\<close> means for the bytes it hands over: the
  transmit buffer of a TCP socket (\<^verbatim>\<open>tcp-tx-buffer.cc\<close>), the call itself
  (\<^verbatim>\<open>tcp-socket-base.cc\<close>), and the contract \<open>stream_socket\<close> a sender relies on.
  The TCP socket interprets it.

  A packet travels with its packet tags.  An answer of \<^verbatim>\<open>Send\<close> is a 32-bit
  \<^verbatim>\<open>int\<close>, kept as the word with its bits.  How the buffer is emptied by the network, and
  the figure \<^verbatim>\<open>AvailableWindow\<close> gives, are left open.
\<close>

section \<open>Fragments\<close>

type_synonym tagged = "packet \<times> tag_list"

definition RemoveAtEnd :: "nat \<Rightarrow> packet \<Rightarrow> packet" where
  "RemoveAtEnd n p = Packet (take (length (pk_real p) - (n - pk_zero p)) (pk_real p)) (pk_zero p - n)"

text \<open>A fragment keeps the packet tags.\<close>

definition CreateFragment :: "nat \<Rightarrow> nat \<Rightarrow> tagged \<Rightarrow> tagged" where
  "CreateFragment start len p =
     (RemoveAtEnd (GetSize (fst p) - (start + len)) (RemoveAtStart start (fst p)), snd p)"

lemma length_pk_bytes [simp]: "length (pk_bytes p) = GetSize p"
  by (simp add: pk_bytes_def GetSize_def)

lemma pk_bytes_RemoveAtStart: "pk_bytes (RemoveAtStart n p) = drop n (pk_bytes p)"
  by (simp add: pk_bytes_def RemoveAtStart_def)

lemma GetSize_RemoveAtStart [simp]: "GetSize (RemoveAtStart n p) = GetSize p - n"
  by (simp add: GetSize_def RemoveAtStart_def)

lemma pk_bytes_RemoveAtEnd: "pk_bytes (RemoveAtEnd n p) = take (GetSize p - n) (pk_bytes p)"
proof (cases "n \<le> pk_zero p")
  case True
  then show ?thesis
    by (simp add: pk_bytes_def RemoveAtEnd_def GetSize_def)
next
  case False
  then show ?thesis
    by (simp add: pk_bytes_def RemoveAtEnd_def GetSize_def)
qed

lemma pk_bytes_CreateFragment:
  assumes "start + len = GetSize (fst p)"
  shows "pk_bytes (fst (CreateFragment start len p)) = drop start (pk_bytes (fst p))"
  using assms by (simp add: CreateFragment_def pk_bytes_RemoveAtEnd pk_bytes_RemoveAtStart)

lemma GetSize_CreateFragment:
  assumes "start + len = GetSize (fst p)"
  shows "GetSize (fst (CreateFragment start len p)) = len"
  using arg_cong [OF pk_bytes_CreateFragment [OF assms], of length] assms by simp

section \<open>Transmit buffer\<close>

record TcpTxBuffer =
  tb_maxBuffer :: u32
  tb_size :: u32
  tb_appList :: "tagged list"
  tb_firstByteSeq :: u32

definition TcpTxBuffer_new :: "u32 \<Rightarrow> TcpTxBuffer" where
  "TcpTxBuffer_new n = \<lparr>tb_maxBuffer = 32768, tb_size = 0, tb_appList = [], tb_firstByteSeq = n\<rparr>"

definition Available :: "TcpTxBuffer \<Rightarrow> u32" where
  "Available b = tb_maxBuffer b - tb_size b"

definition TailSequence :: "TcpTxBuffer \<Rightarrow> u32" where
  "TailSequence b = tb_firstByteSeq b + tb_size b"

definition packet_size :: "tagged \<Rightarrow> u32" where
  "packet_size p = of_nat (GetSize (fst p))"

definition TcpTxBuffer_Add :: "tagged \<Rightarrow> TcpTxBuffer \<Rightarrow> bool \<times> TcpTxBuffer" where
  "TcpTxBuffer_Add p b =
     (if packet_size p \<le> Available b then
        (True, if 0 < packet_size p
               then b\<lparr>tb_appList := tb_appList b @ [p], tb_size := tb_size b + packet_size p\<rparr> else b)
      else (False, b))"

section \<open>Sending on a TCP socket\<close>

datatype TcpStates_t = CLOSED | LISTEN | SYN_SENT | SYN_RCVD | ESTABLISHED | CLOSE_WAIT | LAST_ACK
  | FIN_WAIT_1 | FIN_WAIT_2 | CLOSING | TIME_WAIT | LAST_STATE

datatype SocketErrno = ERROR_NOTERROR | ERROR_ISCONN | ERROR_NOTCONN | ERROR_MSGSIZE | ERROR_AGAIN
  | ERROR_SHUTDOWN | ERROR_OPNOTSUPP | ERROR_AFNOSUPPORT | ERROR_INVAL | ERROR_BADF
  | ERROR_NOROUTETOHOST | ERROR_NODEV | ERROR_ADDRNOTAVAIL | ERROR_ADDRINUSE

record TcpSocket =
  ts_state :: TcpStates_t
  ts_shutdownSend :: bool
  ts_txBuffer :: TcpTxBuffer
  ts_errno :: SocketErrno
  ts_availableWindow :: u32
  ts_sendPending :: bool

text \<open>
  \<^verbatim>\<open>Send\<close> with no flags, as \<^verbatim>\<open>Socket::Send(Ptr<Packet>)\<close> calls it.  The rate
  estimate it updates for the congestion control is left out; \<open>ts_sendPending\<close> is whether the
  event that submits the data to the network is scheduled.
\<close>

definition TcpSocket_Send :: "tagged \<Rightarrow> TcpSocket \<Rightarrow> u32 \<times> TcpSocket" where
  "TcpSocket_Send p s =
     (if ts_state s = ESTABLISHED \<or> ts_state s = SYN_SENT \<or> ts_state s = CLOSE_WAIT then
        let (added, b) = TcpTxBuffer_Add p (ts_txBuffer s);
            s = s\<lparr>ts_txBuffer := b\<rparr>
        in if \<not> added then (-1, s\<lparr>ts_errno := ERROR_MSGSIZE\<rparr>)
           else if ts_shutdownSend s then (-1, s\<lparr>ts_errno := ERROR_SHUTDOWN\<rparr>)
           else (packet_size p,
             if (ts_state s = ESTABLISHED \<or> ts_state s = CLOSE_WAIT) \<and> 0 < ts_availableWindow s
             then s\<lparr>ts_sendPending := True\<rparr> else s)
      else (-1, s\<lparr>ts_errno := ERROR_NOTCONN\<rparr>))"

section \<open>The contract of a sender\<close>

text \<open>The bytes of a packet that an answer says were taken.\<close>

definition answered :: "tagged \<times> u32 \<Rightarrow> u8 list" where
  "answered pr = (if snd pr = -1 then [] else take (unat (snd pr)) (pk_bytes (fst (fst pr))))"

definition log_bytes :: "(tagged \<times> u32) list \<Rightarrow> u8 list" where
  "log_bytes log = concat (map answered log)"

lemma log_bytes_simps [simp]:
  "log_bytes [] = []"
  "log_bytes (log @ log') = log_bytes log @ log_bytes log'"
  "log_bytes [pr] = answered pr"
  by (simp_all add: log_bytes_def)

text \<open>The sizes for which an answer cannot be mistaken for \<open>-1\<close>.\<close>

definition sendable :: "tagged \<Rightarrow> bool" where
  "sendable p \<longleftrightarrow> 0 < GetSize (fst p) \<and> GetSize (fst p) < 2 ^ 31"

locale stream_socket =
  fixes send :: "tagged \<Rightarrow> 'w \<Rightarrow> u32 \<times> 'w"
    and ok :: "'w \<Rightarrow> bool"
    and taken :: "'w \<Rightarrow> u8 list"
  assumes send_ok: "ok w \<Longrightarrow> sendable p \<Longrightarrow> send p w = (r, w') \<Longrightarrow> ok w'"
    and send_answer: "ok w \<Longrightarrow> sendable p \<Longrightarrow> send p w = (r, w') \<Longrightarrow>
      r = -1 \<or> (0 < unat r \<and> unat r \<le> GetSize (fst p))"
    and send_taken: "ok w \<Longrightarrow> sendable p \<Longrightarrow> send p w = (r, w') \<Longrightarrow>
      taken w' = taken w @ answered (p, r)"

text \<open>A socket with room for a number of bytes, that takes a packet for which there is room whole.\<close>

locale buffered_socket = stream_socket +
  fixes room :: "'w \<Rightarrow> nat"
  assumes send_room: "ok w \<Longrightarrow> sendable p \<Longrightarrow> send p w = (r, w') \<Longrightarrow>
      room w = room w' + (if r = -1 then 0 else unat r)"
    and send_whole: "ok w \<Longrightarrow> sendable p \<Longrightarrow> GetSize (fst p) \<le> room w \<Longrightarrow>
      send p w = (r, w') \<Longrightarrow> r = packet_size p"

definition tcp_ok :: "TcpSocket \<Rightarrow> bool" where
  "tcp_ok s \<longleftrightarrow> \<not> ts_shutdownSend s \<and> ts_state s \<in> {ESTABLISHED, SYN_SENT, CLOSE_WAIT} \<and>
     tb_size (ts_txBuffer s) \<le> tb_maxBuffer (ts_txBuffer s)"

definition tcp_taken :: "TcpSocket \<Rightarrow> u8 list" where
  "tcp_taken s = concat (map (\<lambda>p. pk_bytes (fst p)) (tb_appList (ts_txBuffer s)))"

definition tcp_room :: "TcpSocket \<Rightarrow> nat" where
  "tcp_room s = unat (Available (ts_txBuffer s))"

lemma unat_packet_size: "sendable p \<Longrightarrow> unat (packet_size p) = GetSize (fst p)"
  by (simp add: packet_size_def sendable_def unat_of_nat)

lemma packet_size_not_minus: "sendable p \<Longrightarrow> packet_size p \<noteq> -1"
proof
  assume p: "sendable p" "packet_size p = -1"
  moreover have "unat (-1 :: u32) = 2 ^ 32 - 1"
    by (simp add: unsigned_minus_1_eq_mask mask_eq_exp_minus_1)
  ultimately have "unat (packet_size p) = 2 ^ 32 - 1"
    by simp
  with p(1) show False
    by (simp only: unat_packet_size) (simp add: sendable_def)
qed

lemma answered_whole: "sendable p \<Longrightarrow> answered (p, packet_size p) = pk_bytes (fst p)"
  by (simp add: answered_def packet_size_not_minus unat_packet_size)

lemma answered_refused [simp]: "answered (p, -1) = []"
  by (simp add: answered_def)

lemma Available_Add:
  assumes "tb_size b \<le> tb_maxBuffer b" and "n \<le> Available b"
  shows "tb_size b + n \<le> tb_maxBuffer b"
    and "unat (tb_maxBuffer b - (tb_size b + n)) = unat (Available b) - unat n"
proof -
  have size: "unat (tb_size b) \<le> unat (tb_maxBuffer b)"
    using assms(1) by (simp add: word_le_nat_alt)
  have room: "unat (Available b) = unat (tb_maxBuffer b) - unat (tb_size b)"
    using assms(1) by (simp add: Available_def unat_sub)
  have n: "unat n \<le> unat (tb_maxBuffer b) - unat (tb_size b)"
    using assms(2) room by (simp add: word_le_nat_alt)
  have "unat (tb_size b) + unat n < 2 ^ 32"
    using n size unsigned_less [of "tb_maxBuffer b", where 'a = nat] by simp
  then have sum: "unat (tb_size b + n) = unat (tb_size b) + unat n"
    by (simp add: unat_word_ariths)
  with n size show le: "tb_size b + n \<le> tb_maxBuffer b"
    by (simp add: word_le_nat_alt)
  then show "unat (tb_maxBuffer b - (tb_size b + n)) = unat (Available b) - unat n"
    by (simp add: unat_sub sum room)
qed

text \<open>A socket on which one may send takes a packet whole or not at all.\<close>

lemma TcpSocket_Send_cases:
  assumes "tcp_ok s" and "sendable p" and "TcpSocket_Send p s = (r, s')"
  obtains "r = packet_size p" "GetSize (fst p) \<le> tcp_room s" "tcp_ok s'"
      "tcp_taken s' = tcp_taken s @ pk_bytes (fst p)" "tcp_room s' = tcp_room s - GetSize (fst p)"
  | "r = -1" "tcp_room s < GetSize (fst p)" "tcp_ok s'" "tcp_taken s' = tcp_taken s"
      "tcp_room s' = tcp_room s"
proof (cases "packet_size p \<le> Available (ts_txBuffer s)")
  case True
  have n: "unat (packet_size p) = GetSize (fst p)" "0 < packet_size p"
    using assms(2) unat_packet_size [OF assms(2)]
    by (simp_all add: word_less_nat_alt sendable_def)
  note size = Available_Add [of "ts_txBuffer s", OF _ True]
  have s': "ts_txBuffer s' = (ts_txBuffer s)\<lparr>tb_appList := tb_appList (ts_txBuffer s) @ [p],
      tb_size := tb_size (ts_txBuffer s) + packet_size p\<rparr>" "ts_shutdownSend s' = ts_shutdownSend s"
    "ts_state s' = ts_state s" and r: "r = packet_size p"
    using assms True n(2) by (auto simp: TcpSocket_Send_def TcpTxBuffer_Add_def tcp_ok_def Let_def split: if_splits)
  show ?thesis
  proof (rule that(1) [OF r])
    show "GetSize (fst p) \<le> tcp_room s"
      using True n(1) by (simp add: tcp_room_def word_le_nat_alt)
    show "tcp_ok s'"
      using assms(1) size(1) by (simp add: tcp_ok_def s')
    show "tcp_taken s' = tcp_taken s @ pk_bytes (fst p)"
      by (simp add: tcp_taken_def s')
    show "tcp_room s' = tcp_room s - GetSize (fst p)"
      using assms(1) size(2) n(1) by (simp add: tcp_room_def tcp_ok_def s' Available_def)
  qed
next
  case False
  then have s': "s' = s\<lparr>ts_errno := ERROR_MSGSIZE\<rparr>" "r = -1"
    using assms by (auto simp: TcpSocket_Send_def TcpTxBuffer_Add_def tcp_ok_def)
  show ?thesis
  proof (rule that(2) [OF s'(2)])
    show "tcp_room s < GetSize (fst p)"
      using False unat_packet_size [OF assms(2)] by (simp add: tcp_room_def word_le_nat_alt)
  qed (use assms(1) in \<open>simp_all add: s' tcp_ok_def tcp_taken_def tcp_room_def\<close>)
qed

interpretation tcp: buffered_socket TcpSocket_Send tcp_ok tcp_taken tcp_room
proof
  fix w w' :: TcpSocket and p :: tagged and r :: u32
  assume w: "tcp_ok w" "sendable p" "TcpSocket_Send p w = (r, w')"
  note cases = TcpSocket_Send_cases [OF w] and p = unat_packet_size [OF w(2)]
    packet_size_not_minus [OF w(2)] answered_whole [OF w(2)]
  show "tcp_ok w'"
    by (rule cases)
  show "r = -1 \<or> 0 < unat r \<and> unat r \<le> GetSize (fst p)"
    by (rule cases) (use p(1) w(2) in \<open>auto simp: sendable_def\<close>)
  show "tcp_taken w' = tcp_taken w @ answered (p, r)"
    by (rule cases) (use p(3) in auto)
  show "tcp_room w = tcp_room w' + (if r = -1 then 0 else unat r)"
    by (rule cases) (use p(1,2) in auto)
  show "r = packet_size p" if "GetSize (fst p) \<le> tcp_room w"
    by (rule cases) (use that in auto)
qed

text \<open>
  Once the send side is shut down the contract is lost: the packet stays in the buffer although
  the answer says it was refused.
\<close>

lemma shutdown_send_keeps_packet:
  assumes "ts_state s = ESTABLISHED" and "ts_shutdownSend s" and "sendable p"
    and "packet_size p \<le> Available (ts_txBuffer s)"
  shows "\<exists>s'. TcpSocket_Send p s = (-1, s') \<and> tcp_taken s' = tcp_taken s @ pk_bytes (fst p)"
proof -
  have "0 < packet_size p"
    using assms(3) unat_packet_size [OF assms(3)] by (simp add: word_less_nat_alt sendable_def)
  with assms show ?thesis
    by (simp add: TcpSocket_Send_def TcpTxBuffer_Add_def tcp_taken_def)
qed

end
