(* ===== verification/Client.thy ===== *)
theory Client
  imports Stream_Socket Applications
begin

text \<open>
  The client side of the earlier design (\<^verbatim>\<open>cybertwin-client.{h,cc}\<close>) and its helper
  (\<^verbatim>\<open>cybertwin-helper.cc\<close>): the application that connects a host to its cybertwin
  and hands the socket to the other clients of the node, and the bulk client that sends a given
  number of bytes over it.

  Sockets are numbers.  The socket a bulk client writes to is the argument \<open>send\<close> with its state
  \<open>w\<close>; what a handler sends is recorded with the answers.
\<close>

section \<open>CybertwinBulkClient\<close>

record CybertwinClient =
  cc_socket :: "nat option"
  cc_localCuid :: CYBERTWINID_t
  cc_peerCuid :: CYBERTWINID_t

record CybertwinBulkClient = CybertwinClient +
  cb_maxBytes :: u64
  cb_sentBytes :: u64
  cb_packetSize :: u32
  cb_unsentPacket :: "tagged option"

datatype cb_event = CB_WaitForConnection | CB_SendData

type_synonym send_log = "(tagged \<times> u32) list"

text \<open>The counter is not initialised by the constructor.\<close>

definition CybertwinBulkClient_new :: "u64 \<Rightarrow> CybertwinBulkClient" where
  "CybertwinBulkClient_new garbage = \<lparr>cc_socket = None, cc_localCuid = 0, cc_peerCuid = 0,
     cb_maxBytes = 0, cb_sentBytes = garbage, cb_packetSize = 516, cb_unsentPacket = None\<rparr>"

definition more_to_send :: "CybertwinBulkClient \<Rightarrow> bool" where
  "more_to_send st \<longleftrightarrow>
     cc_socket st \<noteq> None \<and> (cb_maxBytes st = 0 \<or> cb_sentBytes st < cb_maxBytes st)"

definition bulk_header :: "CybertwinBulkClient \<Rightarrow> u64 \<Rightarrow> CybertwinHeader" where
  "bulk_header st toSend = CybertwinHeader_new\<lparr>ch_cybertwin := cc_localCuid st,
     ch_peer := cc_peerCuid st, ch_size := ucast toSend, ch_command := CYBERTWIN_HEADER_DATA\<rparr>"

text \<open>The packet one iteration of the loop sends, and the size it is compared with.\<close>

definition next_packet :: "CybertwinBulkClient \<Rightarrow> (tagged \<times> u64) outcome" where
  "next_packet st =
     (let toSend = ucast (cb_packetSize st);
          toSend = (if 0 < cb_maxBytes st then min toSend (cb_maxBytes st - cb_sentBytes st) else toSend)
      in case cb_unsentPacket st of
           Some p \<Rightarrow> Inr (p, of_nat (GetSize (fst p)))
         | None \<Rightarrow>
             let header = bulk_header st toSend;
                 idTag = \<lparr>tag_cuid = cc_localCuid st\<rparr>
             in require (\<not> toSend < of_nat (CybertwinHeader_GetSerializedSize header)) FatalError
                  (from_option BadBuffer
                     (AddHeader (replicate (CybertwinHeader_GetSerializedSize header) 0)
                        (CybertwinHeader_Serialize header)
                        (Create_Packet (unat (ucast (toSend -
                           of_nat (CybertwinHeader_GetSerializedSize header)) :: u32))))
                     (\<lambda>packet. from_option BadBuffer
                        (PacketTagList_Add ''ns3::CybertwinTag''
                           (replicate (CybertwinTag_GetSerializedSize idTag) 0)
                           (CybertwinTag_Serialize idTag) [])
                        (\<lambda>tags. Inr ((packet, tags), toSend)))))"

text \<open>
  What the answer of \<^verbatim>\<open>Send\<close> does; the flag tells whether the loop goes on.  The counter
  grows by the sign-extended answer.
\<close>

definition after_send :: "tagged \<Rightarrow> u64 \<Rightarrow> u32 \<Rightarrow> CybertwinBulkClient \<Rightarrow> (bool \<times> CybertwinBulkClient) outcome" where
  "after_send p toSend actual st =
     (if ucast actual = toSend then
        Inr (True, st\<lparr>cb_sentBytes := cb_sentBytes st + scast actual, cb_unsentPacket := None\<rparr>)
      else if actual = -1 then Inr (False, st\<lparr>cb_unsentPacket := Some p\<rparr>)
      else if 0 <s actual \<and> ucast actual < toSend then
        Inr (False, st\<lparr>cb_sentBytes := cb_sentBytes st + scast actual,
          cb_unsentPacket := Some (CreateFragment (unat actual) (unat (toSend - ucast actual)) p)\<rparr>)
      else Inl FatalError)"

text \<open>Without a limit the loop goes on as long as the socket takes packets: it may not end.\<close>

partial_function (option) BulkClient_SendData_loop ::
  "(tagged \<Rightarrow> 'w \<Rightarrow> u32 \<times> 'w) \<Rightarrow> CybertwinBulkClient \<Rightarrow> 'w \<Rightarrow> send_log \<Rightarrow>
     (CybertwinBulkClient \<times> 'w \<times> send_log) outcome option" where
  "BulkClient_SendData_loop send st w log =
     (if \<not> more_to_send st then Some (Inr (st, w, log))
      else case next_packet st of
             Inl e \<Rightarrow> Some (Inl e)
           | Inr (p, toSend) \<Rightarrow>
               (case send p w of
                  (actual, w) \<Rightarrow>
                    (case after_send p toSend actual st of
                       Inl e \<Rightarrow> Some (Inl e)
                     | Inr (again, st) \<Rightarrow>
                         (if again then BulkClient_SendData_loop send st w (log @ [(p, actual)])
                          else Some (Inr (st, w, log @ [(p, actual)]))))))"

definition BulkClient_SendData ::
  "(tagged \<Rightarrow> 'w \<Rightarrow> u32 \<times> 'w) \<Rightarrow> CybertwinBulkClient \<Rightarrow> 'w \<Rightarrow>
     (CybertwinBulkClient \<times> 'w \<times> send_log \<times> cb_event app_action list) outcome option" where
  "BulkClient_SendData send st w = map_option (\<lambda>res. then_do res (\<lambda>(st, w, log).
     Inr (st, w, log, case cc_socket st of
       None \<Rightarrow> [] | Some _ \<Rightarrow> [APP_Schedule (milliseconds 10) CB_SendData])))
     (BulkClient_SendData_loop send st w [])"

definition WaitForConnection ::
  "(tagged \<Rightarrow> 'w \<Rightarrow> u32 \<times> 'w) \<Rightarrow> CybertwinBulkClient \<Rightarrow> 'w \<Rightarrow>
     (CybertwinBulkClient \<times> 'w \<times> send_log \<times> cb_event app_action list) outcome option" where
  "WaitForConnection send st w =
     (case cc_socket st of
        Some _ \<Rightarrow> BulkClient_SendData send st w
      | None \<Rightarrow> Some (Inr (st, w, [], [APP_Schedule (milliseconds 100) CB_WaitForConnection])))"

definition CB_StartApplication ::
  "(tagged \<Rightarrow> 'w \<Rightarrow> u32 \<times> 'w) \<Rightarrow> CybertwinBulkClient \<Rightarrow> 'w \<Rightarrow>
     (CybertwinBulkClient \<times> 'w \<times> send_log \<times> cb_event app_action list) outcome option" where
  "CB_StartApplication send st w = WaitForConnection send st w"

definition CB_StopApplication :: "CybertwinBulkClient \<Rightarrow> CybertwinBulkClient" where
  "CB_StopApplication st = st"

definition CB_DoDispose :: "CybertwinBulkClient \<Rightarrow> CybertwinBulkClient \<times> cb_event app_action list" where
  "CB_DoDispose st =
     (st\<lparr>cc_socket := None\<rparr>, case cc_socket st of None \<Rightarrow> [] | Some s \<Rightarrow> [APP_Close s])"

text \<open>
  The handler runs again every ten milliseconds; in between the network changes the socket.
  \<open>ws\<close> are the states in which the successive runs find it.
\<close>

fun SendData_events ::
  "(tagged \<Rightarrow> 'w \<Rightarrow> u32 \<times> 'w) \<Rightarrow> 'w list \<Rightarrow> CybertwinBulkClient \<Rightarrow>
     (CybertwinBulkClient \<times> send_log) outcome option" where
  "SendData_events send [] st = Some (Inr (st, []))"
| "SendData_events send (w # ws) st =
     (case BulkClient_SendData send st w of
        None \<Rightarrow> None
      | Some (Inl e) \<Rightarrow> Some (Inl e)
      | Some (Inr (st, _, log, _)) \<Rightarrow>
          map_option (\<lambda>res. then_do res (\<lambda>(st, log'). Inr (st, log @ log'))) (SendData_events send ws st))"

section \<open>The bytes a bulk client has to send\<close>

text \<open>
  The reference: packets of the configured size, each with its header, until the limit is
  reached; the last one carries what is left.
\<close>

definition frame :: "CybertwinBulkClient \<Rightarrow> nat \<Rightarrow> u8 list" where
  "frame st n = CybertwinHeader_img (bulk_header st (of_nat n)) @ replicate (n - 24) 0"

definition frame_size :: "CybertwinBulkClient \<Rightarrow> nat \<Rightarrow> nat" where
  "frame_size st k =
     min (unat (cb_packetSize st)) (unat (cb_maxBytes st) - k * unat (cb_packetSize st))"

definition frames :: "CybertwinBulkClient \<Rightarrow> nat \<Rightarrow> u8 list" where
  "frames st k = concat (map (\<lambda>j. frame st (frame_size st j)) [0..<k])"

definition bulk_frames :: "CybertwinBulkClient \<Rightarrow> nat" where
  "bulk_frames st = packets_needed (unat (cb_maxBytes st)) (unat (cb_packetSize st))"

definition bulk_stream :: "CybertwinBulkClient \<Rightarrow> u8 list" where
  "bulk_stream st = frames st (bulk_frames st)"

lemma length_header [simp]: "length (CybertwinHeader_img h) = 24"
  using cyb.len_img [of h] by (simp add: CybertwinHeader_GetSerializedSize_def)

lemma length_frame [simp]: "24 \<le> n \<Longrightarrow> length (frame st n) = n"
  by (simp add: frame_def)

lemma frames_Suc [simp]: "frames st (Suc k) = frames st k @ frame st (frame_size st k)"
  by (simp add: frames_def)

lemma frames_0 [simp]: "frames st 0 = []"
  by (simp add: frames_def)

lemma needed_iff:
  assumes "0 < s"
  shows "k < packets_needed m s \<longleftrightarrow> k * s < (m :: nat)"
proof -
  have "k < (m + s - 1) div s \<longleftrightarrow> Suc k * s \<le> m + s - 1"
    using assms by (simp only: Suc_le_eq [symmetric] less_eq_div_iff_mult_less_eq)
  also have "\<dots> \<longleftrightarrow> k * s < m"
    using assms by auto
  finally show ?thesis
    by (simp add: packets_needed_def)
qed

lemma bulk_frames_iff:
  "0 < unat (cb_packetSize st) \<Longrightarrow>
     k < bulk_frames st \<longleftrightarrow> k * unat (cb_packetSize st) < unat (cb_maxBytes st)"
  by (simp add: bulk_frames_def needed_iff)

lemma length_frames:
  assumes "0 < unat (cb_packetSize st)" and "k \<le> bulk_frames st" and "\<forall>j < k. 24 \<le> frame_size st j"
  shows "length (frames st k) = min (k * unat (cb_packetSize st)) (unat (cb_maxBytes st))"
  using assms(2,3)
proof (induction k)
  case 0
  then show ?case by simp
next
  case (Suc k)
  then have "k * unat (cb_packetSize st) < unat (cb_maxBytes st)"
    using bulk_frames_iff [OF assms(1), of k] by (simp add: Suc_le_eq)
  moreover have "length (frames st (Suc k)) = length (frames st k) + frame_size st k"
    using Suc.prems(2) by simp
  moreover have "length (frames st k) = min (k * unat (cb_packetSize st)) (unat (cb_maxBytes st))"
    using Suc by simp
  ultimately show ?case
    by (simp add: frame_size_def del: frames_Suc)
qed

lemma frames_prefix:
  assumes "k \<le> n"
  shows "\<exists>rest. frames st n = frames st k @ rest"
proof -
  have "[0..<n] = [0..<k] @ [k..<n]"
    using assms upt_add_eq_append [of 0 k "n - k"] by simp
  then show ?thesis
    by (simp add: frames_def)
qed

lemma frames_cong:
  assumes "cc_localCuid st' = cc_localCuid st" and "cc_peerCuid st' = cc_peerCuid st"
    and "cb_maxBytes st' = cb_maxBytes st" and "cb_packetSize st' = cb_packetSize st"
  shows "frame st' = frame st" and "frame_size st' = frame_size st" and "frames st' = frames st"
    and "bulk_frames st' = bulk_frames st" and "bulk_stream st' = bulk_stream st"
proof -
  show f: "frame st' = frame st"
    by (rule ext) (simp add: frame_def bulk_header_def assms)
  show s: "frame_size st' = frame_size st"
    by (rule ext) (simp add: frame_size_def assms)
  show g: "frames st' = frames st"
    by (rule ext) (simp add: frames_def f s)
  show n: "bulk_frames st' = bulk_frames st"
    by (simp add: bulk_frames_def assms)
  show "bulk_stream st' = bulk_stream st"
    by (simp add: bulk_stream_def g n)
qed

section \<open>One iteration\<close>

definition unsent_bytes :: "CybertwinBulkClient \<Rightarrow> u8 list" where
  "unsent_bytes st = (case cb_unsentPacket st of None \<Rightarrow> [] | Some p \<Rightarrow> pk_bytes (fst p))"

text \<open>
  \<open>out\<close> is what the socket has taken so far: it is counted, and together with the cached packet
  it is a number of whole frames.
\<close>

definition bulk_inv :: "CybertwinBulkClient \<Rightarrow> u8 list \<Rightarrow> bool" where
  "bulk_inv st out \<longleftrightarrow>
     0 < cb_maxBytes st \<and> 24 \<le> unat (cb_packetSize st) \<and> unat (cb_packetSize st) < 2 ^ 31 \<and>
     length out = unat (cb_sentBytes st) \<and>
     (\<forall>p. cb_unsentPacket st = Some p \<longrightarrow>
        0 < GetSize (fst p) \<and> GetSize (fst p) \<le> unat (cb_packetSize st)) \<and>
     (\<exists>k \<le> bulk_frames st. (\<forall>j < k. 24 \<le> frame_size st j) \<and> out @ unsent_bytes st = frames st k)"

lemma small_answer:
  fixes r :: u32
  assumes "0 < unat r" and "unat r < 2 ^ 31"
  shows "(scast r :: u64) = of_nat (unat r)" and "0 <s r"
proof -
  have u: "uint r < 2 ^ 31"
    using iffD2 [OF of_nat_less_iff assms(2), where 'a1 = int] by simp
  have "sint r = signed_take_bit 31 (uint r)"
    by (simp add: sint_uint)
  also have "\<dots> = uint r"
    by (rule signed_take_bit_int_eq_self) (use u in \<open>auto intro: order_trans [of _ 0]\<close>)
  finally have r: "sint r = uint r" .
  then show "(scast r :: u64) = of_nat (unat r)"
    by (simp add: scast_eq)
  show "0 <s r"
    using iffD2 [OF of_nat_less_iff assms(1), where 'a1 = int] by (simp add: word_sless_alt r)
qed


lemma unat_ucast64 [simp]: "unat (ucast (r :: u32) :: u64) = unat r"
proof -
  have "unat r < 2 ^ 32"
    using unsigned_less [of r, where 'a = nat] by simp
  then have "unat r < 2 ^ 64"
    by simp
  then show ?thesis
    by (simp add: unsigned_ucast_eq take_bit_nat_eq_self)
qed

lemma after_send_whole:
  assumes "sendable p" and "unat r = GetSize (fst p)"
  shows "after_send p (of_nat (GetSize (fst p))) r st =
    Inr (True, st\<lparr>cb_sentBytes := cb_sentBytes st + of_nat (GetSize (fst p)), cb_unsentPacket := None\<rparr>)"
proof -
  have "(ucast r :: u64) = of_nat (GetSize (fst p))"
    using assms(2) by (metis unat_ucast64 word_of_nat_eq_iff of_nat_unat ucast_id)
  then show ?thesis
    using small_answer(1) [of r] assms by (simp add: after_send_def sendable_def)
qed

lemma unat_u64_small: "n < 2 ^ 31 \<Longrightarrow> unat (of_nat n :: u64) = n"
  by (simp add: unat_of_nat)

lemma after_send_refused:
  assumes "sendable p"
  shows "after_send p (of_nat (GetSize (fst p))) (-1) st = Inr (False, st\<lparr>cb_unsentPacket := Some p\<rparr>)"
proof -
  have "unat (ucast (-1 :: u32) :: u64) \<noteq> unat (of_nat (GetSize (fst p)) :: u64)"
    using assms unat_u64_small [of "GetSize (fst p)"]
    by (simp only: unat_ucast64 sendable_def) (simp add: unsigned_minus_1_eq_mask mask_eq_exp_minus_1)
  then have "(ucast (-1 :: u32) :: u64) \<noteq> of_nat (GetSize (fst p))"
    by metis
  then show ?thesis
    by (simp add: after_send_def)
qed

lemma after_send_part:
  assumes "sendable p" and "0 < unat r" and "unat r < GetSize (fst p)"
  shows "after_send p (of_nat (GetSize (fst p))) r st =
    Inr (False, st\<lparr>cb_sentBytes := cb_sentBytes st + of_nat (unat r),
      cb_unsentPacket := Some (CreateFragment (unat r) (GetSize (fst p) - unat r) p)\<rparr>)"
proof -
  have size: "unat (of_nat (GetSize (fst p)) :: u64) = GetSize (fst p)"
    using assms(1) by (simp add: sendable_def unat_u64_small)
  have lt: "(ucast r :: u64) < of_nat (GetSize (fst p))"
    using assms(3) by (simp add: word_less_nat_alt size)
  then have "unat (of_nat (GetSize (fst p)) - ucast r :: u64) = GetSize (fst p) - unat r"
    by (simp add: unat_sub size order_less_imp_le)
  moreover have "r \<noteq> -1"
    using assms by (auto simp: sendable_def unsigned_minus_1_eq_mask mask_eq_exp_minus_1)
  moreover have "(ucast r :: u64) \<noteq> of_nat (GetSize (fst p))"
    using lt by simp
  moreover have "(scast r :: u64) = of_nat (unat r)" "0 <s r"
    using small_answer [of r] assms by (simp_all add: sendable_def)
  ultimately show ?thesis
    using lt by (simp only: after_send_def if_True if_False simp_thms)
qed

text \<open>A new packet is the next frame; there is none if what is left is less than a header.\<close>

definition to_send :: "CybertwinBulkClient \<Rightarrow> u64" where
  "to_send st = (if 0 < cb_maxBytes st
     then min (ucast (cb_packetSize st)) (cb_maxBytes st - cb_sentBytes st) else ucast (cb_packetSize st))"

lemma unat_min: "unat (min a b) = min (unat a) (unat (b :: 'a::len word))"
  by (simp add: min_def word_le_nat_alt)

lemma to_send_le: "unat (to_send st) \<le> unat (cb_packetSize st)"
  by (simp add: to_send_def unat_min)

lemma idTag_added:
  "PacketTagList_Add ''ns3::CybertwinTag''
     (replicate (CybertwinTag_GetSerializedSize t) 0) (CybertwinTag_Serialize t) [] =
   Some [(''ns3::CybertwinTag'', le64 (tag_cuid t))]"
  by (subst cyt.Add_img) (simp_all add: CybertwinTag_GetSerializedSize_def)

lemma next_packet_new:
  assumes "cb_unsentPacket st = None"
  shows "next_packet st =
    (if unat (to_send st) < 24 then Inl FatalError
     else Inr ((Packet (CybertwinHeader_img (bulk_header st (to_send st))) (unat (to_send st) - 24),
                [(''ns3::CybertwinTag'', le64 (cc_localCuid st))]), to_send st))"
proof (cases "unat (to_send st) < 24")
  case True
  then have "to_send st < 24"
    by (simp add: word_less_nat_alt)
  with assms True show ?thesis
    by (simp add: next_packet_def to_send_def [symmetric] Let_def CybertwinHeader_GetSerializedSize_def)
next
  case False
  then have ge: "\<not> to_send st < 24" "24 \<le> to_send st"
    by (simp_all add: word_less_nat_alt word_le_nat_alt)
  have small: "unat (to_send st - 24) < 2 ^ 32"
    using to_send_le [of st] unsigned_less [of "cb_packetSize st", where 'a = nat] ge(2)
    by (simp add: unat_sub)
  have "unat (ucast (to_send st - 24) :: u32) = unat (to_send st) - 24"
    using small ge(2) by (simp add: unsigned_ucast_eq take_bit_nat_eq_self unat_sub)
  moreover have "AddHeader (replicate 24 0) (CybertwinHeader_Serialize h) (Create_Packet n) =
      Some (Packet (CybertwinHeader_img h) n)" for h n
    using cyb.AddHeader_img [of "replicate 24 0" h "Create_Packet n"]
    by (simp add: CybertwinHeader_GetSerializedSize_def Create_Packet_def)
  ultimately show ?thesis
    using assms False ge(1) idTag_added [of "\<lparr>tag_cuid = cc_localCuid st\<rparr>"]
    by (simp add: next_packet_def to_send_def [symmetric] Let_def CybertwinHeader_GetSerializedSize_def)
qed

lemma next_packet_cached:
  "cb_unsentPacket st = Some p \<Longrightarrow> next_packet st = Inr (p, of_nat (GetSize (fst p)))"
  by (simp add: next_packet_def Let_def)

lemma new_frame:
  assumes "bulk_inv st out" and "more_to_send st" and "cb_unsentPacket st = None"
  obtains k where "k < bulk_frames st" "\<forall>j < k. 24 \<le> frame_size st j" "out = frames st k"
    "unat (to_send st) = frame_size st k"
proof -
  from assms obtain k where k: "k \<le> bulk_frames st" "\<forall>j < k. 24 \<le> frame_size st j" "out = frames st k"
    by (auto simp: bulk_inv_def unsent_bytes_def)
  have lt: "cb_sentBytes st < cb_maxBytes st" and ps: "0 < unat (cb_packetSize st)"
    and max: "0 < cb_maxBytes st" and out: "length out = unat (cb_sentBytes st)"
    using assms by (auto simp: bulk_inv_def more_to_send_def)
  have "length out = min (k * unat (cb_packetSize st)) (unat (cb_maxBytes st))"
    using length_frames [OF ps k(1,2)] k(3) by simp
  with lt out have S: "unat (cb_sentBytes st) = k * unat (cb_packetSize st)"
    by (simp add: word_less_nat_alt min_def split: if_splits)
  with lt have "k < bulk_frames st"
    by (simp add: bulk_frames_iff [OF ps] word_less_nat_alt)
  moreover have "unat (to_send st) = frame_size st k"
    using max lt by (simp add: to_send_def unat_min frame_size_def unat_sub S order_less_imp_le)
  ultimately show ?thesis
    using that k by blast
qed

lemma next_packet_sound:
  assumes "bulk_inv st out" and "more_to_send st" and "next_packet st = Inr (p, n)"
  shows "sendable p" and "n = of_nat (GetSize (fst p))"
    and "GetSize (fst p) \<le> unat (cb_packetSize st)"
    and "\<exists>k \<le> bulk_frames st. (\<forall>j < k. 24 \<le> frame_size st j) \<and> out @ pk_bytes (fst p) = frames st k"
proof -
  have ps: "unat (cb_packetSize st) < 2 ^ 31"
    using assms(1) by (simp add: bulk_inv_def)
  have "n = of_nat (GetSize (fst p)) \<and> 0 < GetSize (fst p) \<and> GetSize (fst p) \<le> unat (cb_packetSize st) \<and>
    (\<exists>k \<le> bulk_frames st. (\<forall>j < k. 24 \<le> frame_size st j) \<and> out @ pk_bytes (fst p) = frames st k)"
  proof (cases "cb_unsentPacket st")
    case None
    from new_frame [OF assms(1,2) None] obtain k where k: "k < bulk_frames st"
      "\<forall>j < k. 24 \<le> frame_size st j" "out = frames st k" "unat (to_send st) = frame_size st k"
      by blast
    from assms(3) None k(4) have ge: "24 \<le> frame_size st k" and n: "n = to_send st"
      and p: "fst p = Packet (CybertwinHeader_img (bulk_header st (to_send st))) (frame_size st k - 24)"
      by (auto simp: next_packet_new split: if_splits)
    have "to_send st = of_nat (frame_size st k)"
      using k(4) by (metis of_nat_unat ucast_id)
    with ge p have "GetSize (fst p) = frame_size st k" "pk_bytes (fst p) = frame st (frame_size st k)"
      by (simp_all add: GetSize_def pk_bytes_def frame_def)
    moreover have "\<forall>j < Suc k. 24 \<le> frame_size st j"
      using k(2) ge by (auto simp: less_Suc_eq)
    ultimately show ?thesis
      using k ge n to_send_le [of st] \<open>to_send st = _\<close>
      by (intro conjI exI [of _ "Suc k"]) auto
  next
    case (Some q)
    with assms show ?thesis
      by (auto simp: next_packet_cached bulk_inv_def unsent_bytes_def)
  qed
  then show "sendable p" and "n = of_nat (GetSize (fst p))"
    and "GetSize (fst p) \<le> unat (cb_packetSize st)"
    and "\<exists>k \<le> bulk_frames st. (\<forall>j < k. 24 \<le> frame_size st j) \<and> out @ pk_bytes (fst p) = frames st k"
    using ps by (auto simp: sendable_def)
qed

section \<open>Every byte once and in order\<close>

definition same_job :: "CybertwinBulkClient \<Rightarrow> CybertwinBulkClient \<Rightarrow> bool" where
  "same_job st st' \<longleftrightarrow> cc_socket st' = cc_socket st \<and> cc_localCuid st' = cc_localCuid st \<and>
     cc_peerCuid st' = cc_peerCuid st \<and> cb_maxBytes st' = cb_maxBytes st \<and>
     cb_packetSize st' = cb_packetSize st"

lemma same_job_refl [simp]: "same_job st st"
  by (simp add: same_job_def)

lemma same_job_trans: "same_job st st' \<Longrightarrow> same_job st' st'' \<Longrightarrow> same_job st st''"
  by (simp add: same_job_def)

lemma same_job_frames:
  assumes "same_job st st'"
  shows "frame_size st' = frame_size st" and "frames st' = frames st"
    and "bulk_frames st' = bulk_frames st" and "bulk_stream st' = bulk_stream st"
  using assms frames_cong [of st' st] by (simp_all add: same_job_def)

text \<open>A limit is suitable if no packet is shorter than its header.\<close>

definition tail_ok :: "CybertwinBulkClient \<Rightarrow> bool" where
  "tail_ok st \<longleftrightarrow> (let m = unat (cb_maxBytes st) mod unat (cb_packetSize st) in m = 0 \<or> 24 \<le> m)"

lemma same_job_tail: "same_job st st' \<Longrightarrow> tail_ok st' = tail_ok st"
  by (simp add: same_job_def tail_ok_def)

lemma tail_ok_frames:
  assumes "tail_ok st" and "24 \<le> unat (cb_packetSize st)" and "k < bulk_frames st"
  shows "24 \<le> frame_size st k"
proof (rule ccontr)
  let ?s = "unat (cb_packetSize st)" and ?m = "unat (cb_maxBytes st)"
  assume "\<not> 24 \<le> frame_size st k"
  with assms(2) have short: "?m - k * ?s < 24"
    by (auto simp: frame_size_def)
  have lt: "k * ?s < ?m"
    using assms(2,3) bulk_frames_iff [of st k] by simp
  have "?m = (?m - k * ?s) + k * ?s"
    using lt by simp
  then have "?m mod ?s = (?m - k * ?s) mod ?s"
    by (metis mod_mult_self1 mult.commute)
  also have "\<dots> = ?m - k * ?s"
    using short assms(2) by simp
  finally show False
    using short lt assms(1) by (simp add: tail_ok_def)
qed

lemma bulk_inv_send:
  assumes "bulk_inv st out" and "more_to_send st" and "next_packet st = Inr (p, n)"
    and "r = -1 \<or> (0 < unat r \<and> unat r \<le> GetSize (fst p))"
  obtains again st' where "after_send p n r st = Inr (again, st')" "same_job st st'"
    "bulk_inv st' (out @ answered (p, r))" "again \<longleftrightarrow> unat r = GetSize (fst p)"
    "cb_unsentPacket st' = None \<longleftrightarrow> again"
proof -
  note p = next_packet_sound [OF assms(1-3)]
  from p(4) obtain k where k: "k \<le> bulk_frames st" "\<forall>j < k. 24 \<le> frame_size st j"
    "out @ pk_bytes (fst p) = frames st k"
    by blast
  from assms(1) have inv: "0 < cb_maxBytes st" "24 \<le> unat (cb_packetSize st)"
    "unat (cb_packetSize st) < 2 ^ 31" "length out = unat (cb_sentBytes st)"
    by (auto simp: bulk_inv_def)
  have len: "length out + GetSize (fst p) \<le> unat (cb_maxBytes st)"
  proof -
    have "length (frames st k) \<le> unat (cb_maxBytes st)"
      using length_frames [OF _ k(1,2)] inv(2) by simp
    then show ?thesis
      by (simp flip: k(3))
  qed
  have flen: "length (frames st k) = length out + GetSize (fst p)"
    by (simp flip: k(3))
  have sum: "unat (cb_sentBytes st + of_nat m) = length out + m" if "m \<le> GetSize (fst p)" for m
  proof -
    have "unat (of_nat m :: u64) = m"
      using that p(1) by (intro unat_u64_small) (simp add: sendable_def)
    moreover have "length out + m < 2 ^ 64"
      using that len unsigned_less [of "cb_maxBytes st", where 'a = nat] by simp
    ultimately show ?thesis
      using inv(4) by (simp add: unat_word_ariths)
  qed
  consider "unat r = GetSize (fst p)" "r \<noteq> -1" | "r = -1" "unat r \<noteq> GetSize (fst p)"
    | "0 < unat r" "unat r < GetSize (fst p)" "r \<noteq> -1"
    using assms(4) p(1) by (force simp: sendable_def unsigned_minus_1_eq_mask mask_eq_exp_minus_1)
  then show ?thesis
  proof cases
    case 1
    let ?st = "st\<lparr>cb_sentBytes := cb_sentBytes st + of_nat (GetSize (fst p)), cb_unsentPacket := None\<rparr>"
    have job: "same_job st ?st"
      by (simp add: same_job_def)
    have "bulk_inv ?st (out @ answered (p, r))"
      using inv k flen sum [OF order_refl] 1
      by (auto simp: bulk_inv_def same_job_frames [OF job] unsent_bytes_def answered_def)
    with 1 job show ?thesis
      using after_send_whole [OF p(1) 1(1)] p(2) by (intro that [of True ?st]) auto
  next
    case 2
    let ?st = "st\<lparr>cb_unsentPacket := Some p\<rparr>"
    have job: "same_job st ?st"
      by (simp add: same_job_def)
    have "bulk_inv ?st (out @ answered (p, r))"
      using inv k p(1,3) 2
      by (auto simp: bulk_inv_def same_job_frames [OF job] unsent_bytes_def sendable_def)
    with 2 job show ?thesis
      using after_send_refused [OF p(1)] p(2) by (intro that [of False ?st]) auto
  next
    case 3
    let ?q = "CreateFragment (unat r) (GetSize (fst p) - unat r) p"
    let ?st = "st\<lparr>cb_sentBytes := cb_sentBytes st + of_nat (unat r), cb_unsentPacket := Some ?q\<rparr>"
    have job: "same_job st ?st"
      by (simp add: same_job_def)
    have q: "pk_bytes (fst ?q) = drop (unat r) (pk_bytes (fst p))"
      "GetSize (fst ?q) = GetSize (fst p) - unat r"
      using 3 by (simp_all add: pk_bytes_CreateFragment GetSize_CreateFragment)
    have "bulk_inv ?st (out @ answered (p, r))"
      unfolding bulk_inv_def same_job_frames [OF job]
      using inv k p(3) sum [of "unat r"] 3 q
      by (auto simp: unsent_bytes_def answered_def simp del: of_nat_unat)
    with 3 job show ?thesis
      using after_send_part [OF p(1) 3(1,2)] p(2) by (intro that [of False ?st]) auto
  qed
qed


lemma bulk_inv_bounds:
  assumes "bulk_inv st out"
  shows "\<exists>rest. bulk_stream st = out @ rest" and "length out = unat (cb_sentBytes st)"
    and "cb_sentBytes st \<le> cb_maxBytes st"
proof -
  from assms obtain k where k: "k \<le> bulk_frames st" "\<forall>j < k. 24 \<le> frame_size st j"
    "out @ unsent_bytes st = frames st k"
    by (auto simp: bulk_inv_def)
  from frames_prefix [OF k(1), of st] k(3) [symmetric] show "\<exists>rest. bulk_stream st = out @ rest"
    by (auto simp: bulk_stream_def)
  show len: "length out = unat (cb_sentBytes st)"
    using assms by (simp add: bulk_inv_def)
  have "length (frames st k) \<le> unat (cb_maxBytes st)"
    using length_frames [OF _ k(1,2)] assms by (simp add: bulk_inv_def)
  then show "cb_sentBytes st \<le> cb_maxBytes st"
    by (simp add: word_le_nat_alt len flip: k(3))
qed

text \<open>When the limit is reached everything has been taken.\<close>

lemma bulk_inv_complete:
  assumes "bulk_inv st out" and "tail_ok st" and "cb_sentBytes st = cb_maxBytes st"
  shows "out = bulk_stream st"
proof -
  from bulk_inv_bounds(1) [OF assms(1)] obtain rest where rest: "bulk_stream st = out @ rest"
    by blast
  from assms(1) have ps: "24 \<le> unat (cb_packetSize st)"
    by (simp add: bulk_inv_def)
  have "length (bulk_stream st) = min (bulk_frames st * unat (cb_packetSize st)) (unat (cb_maxBytes st))"
    unfolding bulk_stream_def
    using ps assms(2) by (intro length_frames) (auto intro: tail_ok_frames)
  then have "length (bulk_stream st) \<le> length out"
    using bulk_inv_bounds(2) [OF assms(1)] assms(3) by simp
  with rest show ?thesis
    by simp
qed

lemma bulk_inv_start:
  assumes "0 < cb_maxBytes st" and "24 \<le> unat (cb_packetSize st)" and "unat (cb_packetSize st) < 2 ^ 31"
    and "cb_sentBytes st = 0" and "cb_unsentPacket st = None"
  shows "bulk_inv st []"
  using assms by (auto simp: bulk_inv_def unsent_bytes_def intro: exI [of _ 0])

lemma log_bytes_Cons [simp]: "log_bytes (pr # l) = answered pr @ log_bytes l"
  by (simp add: log_bytes_def)

text \<open>What a run of the loop gives: an abort on a packet shorter than its header, or the log.\<close>

definition run_ok :: "('w \<Rightarrow> bool) \<Rightarrow> ('w \<Rightarrow> u8 list) \<Rightarrow> CybertwinBulkClient \<Rightarrow> 'w \<Rightarrow> u8 list \<Rightarrow> send_log \<Rightarrow>
    (CybertwinBulkClient \<times> 'w \<times> send_log) outcome \<Rightarrow> bool" where
  "run_ok ok taken st w out log res \<longleftrightarrow>
     (case res of
        Inl e \<Rightarrow> e = FatalError \<and> \<not> tail_ok st
      | Inr (st', w', log') \<Rightarrow>
          (\<exists>l. log' = log @ l \<and> bulk_inv st' (out @ log_bytes l) \<and> same_job st st' \<and> ok w' \<and>
             taken w' = taken w @ log_bytes l))"

lemma run_ok_next:
  assumes "run_ok ok taken st' w' (out @ answered pr) (log @ [pr]) res"
    and "same_job st st'" and "taken w' = taken w @ answered pr"
  shows "run_ok ok taken st w out log res"
proof (cases res)
  case (Inl e)
  with assms show ?thesis
    by (simp add: run_ok_def same_job_tail)
next
  case (Inr x)
  obtain st2 w2 log2 where x: "x = (st2, w2, log2)"
    by (cases x)
  from assms(1) Inr x obtain l where "log2 = log @ [pr] @ l" "bulk_inv st2 (out @ answered pr @ log_bytes l)"
    "same_job st' st2" "ok w2" "taken w2 = taken w' @ log_bytes l"
    by (auto simp: run_ok_def)
  with assms(2,3) Inr x show ?thesis
    by (auto simp: run_ok_def intro!: exI [of _ "[pr] @ l"] elim: same_job_trans)
qed

lemma next_packet_Inl:
  assumes "bulk_inv st out" and "more_to_send st" and "next_packet st = Inl e"
  shows "e = FatalError \<and> \<not> tail_ok st"
proof (cases "cb_unsentPacket st")
  case None
  from new_frame [OF assms(1,2) None] obtain k where k: "k < bulk_frames st"
    "unat (to_send st) = frame_size st k"
    by blast
  with assms(1,3) None tail_ok_frames [of st k] show ?thesis
    by (auto simp: next_packet_new bulk_inv_def split: if_splits)
next
  case (Some p)
  with assms(3) show ?thesis
    by (simp add: next_packet_cached)
qed

lemma remaining_shrinks: "s' = s + g \<Longrightarrow> s < m \<Longrightarrow> 0 < g \<Longrightarrow> m - s' < m - (s :: nat)"
  by simp

context stream_socket
begin

lemma loop_sound:
  assumes "bulk_inv st out" and "ok w"
  shows "\<exists>res. BulkClient_SendData_loop send st w log = Some res \<and> run_ok ok taken st w out log res"
  using assms
proof (induction "unat (cb_maxBytes st) - unat (cb_sentBytes st)" arbitrary: st w out log rule: less_induct)
  case less
  show ?case
  proof (cases "more_to_send st")
    case False
    with less.prems show ?thesis
      by (subst BulkClient_SendData_loop.simps) (auto simp: run_ok_def)
  next
    case more: True
    show ?thesis
    proof (cases "next_packet st")
      case (Inl e)
      with more next_packet_Inl [OF less.prems(1) more Inl] show ?thesis
        by (subst BulkClient_SendData_loop.simps) (simp add: run_ok_def)
    next
      case (Inr pn)
      obtain p n where pn: "pn = (p, n)" by (cases pn)
      obtain r w' where r: "send p w = (r, w')" by (cases "send p w")
      note next_p = Inr [unfolded pn]
      note p = next_packet_sound [OF less.prems(1) more next_p]
      from send_ok [OF less.prems(2) p(1) r] send_answer [OF less.prems(2) p(1) r]
        send_taken [OF less.prems(2) p(1) r]
      have w': "ok w'" "r = -1 \<or> (0 < unat r \<and> unat r \<le> GetSize (fst p))"
        "taken w' = taken w @ answered (p, r)" .
      obtain again st' where st': "after_send p n r st = Inr (again, st')" "same_job st st'"
        "bulk_inv st' (out @ answered (p, r))" "again \<longleftrightarrow> unat r = GetSize (fst p)"
        "cb_unsentPacket st' = None \<longleftrightarrow> again"
        by (rule bulk_inv_send [OF less.prems(1) more next_p w'(2)])
      show ?thesis
      proof (cases again)
        case False
        have "BulkClient_SendData_loop send st w log = Some (Inr (st', w', log @ [(p, r)]))"
          using more next_p r st'(1) False by (subst BulkClient_SendData_loop.simps) simp
        with st' w' show ?thesis
          by (auto simp: run_ok_def)
      next
        case True
        have step: "BulkClient_SendData_loop send st w log = BulkClient_SendData_loop send st' w' (log @ [(p, r)])"
          using more next_p r st'(1) True by (subst BulkClient_SendData_loop.simps) simp
        have "r \<noteq> -1"
          using True st'(4) p(1)
          by (auto simp: sendable_def unsigned_minus_1_eq_mask mask_eq_exp_minus_1)
        then have "length (out @ answered (p, r)) = length out + GetSize (fst p)"
          using True st'(4) by (simp add: answered_def)
        then have "unat (cb_sentBytes st') = unat (cb_sentBytes st) + GetSize (fst p)"
          using bulk_inv_bounds(2) [OF st'(3)] bulk_inv_bounds(2) [OF less.prems(1)] by simp
        moreover have "unat (cb_sentBytes st) < unat (cb_maxBytes st)"
          using more less.prems(1) by (auto simp: more_to_send_def bulk_inv_def word_less_nat_alt)
        moreover have "0 < GetSize (fst p)"
          using p(1) by (simp add: sendable_def)
        ultimately have "unat (cb_maxBytes st) - unat (cb_sentBytes st') <
            unat (cb_maxBytes st) - unat (cb_sentBytes st)"
          by (rule remaining_shrinks)
        then have "unat (cb_maxBytes st') - unat (cb_sentBytes st') <
            unat (cb_maxBytes st) - unat (cb_sentBytes st)"
          using st'(2) by (simp add: same_job_def)
        from less.hyps [OF this st'(3) w'(1)] obtain res where
          "BulkClient_SendData_loop send st' w' (log @ [(p, r)]) = Some res"
          and rest: "run_ok ok taken st' w' (out @ answered (p, r)) (log @ [(p, r)]) res"
          by blast
        moreover have "run_ok ok taken st w out log res"
          by (rule run_ok_next [where pr = "(p, r)"]) (fact rest st'(2) w'(3))+
        ultimately show ?thesis
          using step by simp
      qed
    qed
  qed
qed

lemma events_sound:
  assumes "bulk_inv st out" and "\<forall>w \<in> set ws. ok w"
  shows "\<exists>res. SendData_events send ws st = Some res \<and>
    (case res of Inl e \<Rightarrow> e = FatalError \<and> \<not> tail_ok st
     | Inr (st', log) \<Rightarrow> bulk_inv st' (out @ log_bytes log) \<and> same_job st st')"
  using assms
proof (induction ws arbitrary: st out)
  case Nil
  then show ?case by simp
next
  case (Cons w ws)
  from loop_sound [OF Cons.prems(1), of w "[]"] Cons.prems(2) obtain res where
    res: "BulkClient_SendData_loop send st w [] = Some res" "run_ok ok taken st w out [] res"
    by auto
  show ?case
  proof (cases res)
    case (Inl e)
    with res show ?thesis
      by (simp add: BulkClient_SendData_def run_ok_def)
  next
    case (Inr x)
    obtain st' w' log where x: "x = (st', w', log)" by (cases x)
    from res(2) Inr x have st': "bulk_inv st' (out @ log_bytes log)" "same_job st st'"
      by (auto simp: run_ok_def)
    from Cons.IH [OF st'(1)] Cons.prems(2) obtain res' where
      "SendData_events send ws st' = Some res'"
      "case res' of Inl e \<Rightarrow> e = FatalError \<and> \<not> tail_ok st'
       | Inr (st'', log') \<Rightarrow> bulk_inv st'' ((out @ log_bytes log) @ log_bytes log') \<and> same_job st' st''"
      by auto
    with res(1) Inr x st'(2) show ?thesis
      by (auto simp: BulkClient_SendData_def same_job_tail split: sum.splits prod.splits intro: same_job_trans)
  qed
qed

end


section \<open>Progress\<close>

lemma run_ok_sent:
  assumes "bulk_inv st out" and "run_ok ok taken st w out log (Inr (st', w', log'))"
  shows "unat (cb_sentBytes st) \<le> unat (cb_sentBytes st')"
  using assms by (auto simp: run_ok_def dest!: bulk_inv_bounds(2))

lemma frame_boundary:
  assumes "bulk_inv st out" and "bulk_inv st' out'" and "same_job st st'" and "cb_unsentPacket st' = None"
    and "unat (cb_sentBytes st) < unat (cb_sentBytes st')"
    and "min (unat (cb_maxBytes st)) (i * unat (cb_packetSize st)) \<le> unat (cb_sentBytes st)"
  shows "min (unat (cb_maxBytes st)) (Suc i * unat (cb_packetSize st)) \<le> unat (cb_sentBytes st')"
proof -
  let ?s = "unat (cb_packetSize st)" and ?m = "unat (cb_maxBytes st)"
  from assms(2-4) obtain k where k: "k \<le> bulk_frames st" "\<forall>j < k. 24 \<le> frame_size st j"
    "out' = frames st k"
    by (auto simp: bulk_inv_def unsent_bytes_def same_job_frames)
  have "0 < ?s"
    using assms(1) by (simp add: bulk_inv_def)
  then have sent': "unat (cb_sentBytes st') = min (k * ?s) ?m"
    using length_frames [OF _ k(1,2)] bulk_inv_bounds(2) [OF assms(2)] k(3) by simp
  show ?thesis
  proof (cases "i < k")
    case True
    then have "Suc i * ?s \<le> k * ?s"
      by (intro mult_right_mono) auto
    then show ?thesis
      by (simp add: sent' min_def)
  next
    case False
    then have "k * ?s \<le> i * ?s"
      by (intro mult_right_mono) auto
    moreover have "unat (cb_sentBytes st) < k * ?s" "unat (cb_sentBytes st) < ?m"
      using assms(5) sent' by simp_all
    ultimately have False
      using assms(6) by (simp only: min_le_iff_disj) linarith
    then show ?thesis ..
  qed
qed

context buffered_socket
begin

lemma loop_progress:
  assumes "bulk_inv st out" and "ok w" and "more_to_send st" and "unat (cb_packetSize st) \<le> room w"
    and "BulkClient_SendData_loop send st w log = Some (Inr (st', w', log'))"
    and "min (unat (cb_maxBytes st)) (i * unat (cb_packetSize st)) \<le> unat (cb_sentBytes st)"
  shows "min (unat (cb_maxBytes st)) (Suc i * unat (cb_packetSize st)) \<le> unat (cb_sentBytes st')"
proof (cases "next_packet st")
  case (Inl e)
  with assms(3,5) show ?thesis
    by (subst (asm) BulkClient_SendData_loop.simps) simp
next
  case (Inr pn)
  obtain p n where pn: "pn = (p, n)" by (cases pn)
  obtain r w1 where r: "send p w = (r, w1)" by (cases "send p w")
  note next_p = Inr [unfolded pn]
  note p = next_packet_sound [OF assms(1,3) next_p]
  have whole: "r = packet_size p"
    using send_whole [OF assms(2) p(1) _ r] p(3) assms(4) by simp
  then have size: "unat r = GetSize (fst p)"
    by (simp add: unat_packet_size [OF p(1)])
  then have ans: "r = -1 \<or> (0 < unat r \<and> unat r \<le> GetSize (fst p))"
    using p(1) by (simp add: sendable_def)
  obtain again st1 where st1: "after_send p n r st = Inr (again, st1)" "same_job st st1"
    "bulk_inv st1 (out @ answered (p, r))" "again \<longleftrightarrow> unat r = GetSize (fst p)"
    "cb_unsentPacket st1 = None \<longleftrightarrow> again"
    by (rule bulk_inv_send [OF assms(1,3) next_p ans])
  have "unat (cb_sentBytes st) < unat (cb_sentBytes st1)"
    using bulk_inv_bounds(2) [OF st1(3)] bulk_inv_bounds(2) [OF assms(1)] p(1)
    by (simp add: whole answered_whole [OF p(1)]) (simp add: sendable_def)
  then have "min (unat (cb_maxBytes st)) (Suc i * unat (cb_packetSize st)) \<le> unat (cb_sentBytes st1)"
    using frame_boundary [OF assms(1) st1(3,2) _ _ assms(6)] st1(4,5) size by simp
  moreover have step: "BulkClient_SendData_loop send st1 w1 (log @ [(p, r)]) = Some (Inr (st', w', log'))"
    using assms(3,5) next_p r st1(1,4) size by (subst (asm) BulkClient_SendData_loop.simps) simp
  then have "unat (cb_sentBytes st1) \<le> unat (cb_sentBytes st')"
    using loop_sound [OF st1(3) send_ok [OF assms(2) p(1) r], of "log @ [(p, r)]"]
      run_ok_sent [OF st1(3)] by auto
  ultimately show ?thesis
    by linarith
qed

lemma events_progress:
  assumes "bulk_inv st out" and "\<forall>w \<in> set ws. ok w \<and> unat (cb_packetSize st) \<le> room w"
    and "cc_socket st \<noteq> None"
    and "SendData_events send ws st = Some (Inr (st', log))"
    and "min (unat (cb_maxBytes st)) (i * unat (cb_packetSize st)) \<le> unat (cb_sentBytes st)"
  shows "min (unat (cb_maxBytes st)) ((i + length ws) * unat (cb_packetSize st)) \<le> unat (cb_sentBytes st')"
  using assms
proof (induction ws arbitrary: st out log i)
  case Nil
  then show ?case by simp
next
  case (Cons w ws)
  from loop_sound [OF Cons.prems(1), of w "[]"] Cons.prems(2) obtain res where
    res: "BulkClient_SendData_loop send st w [] = Some res" "run_ok ok taken st w out [] res"
    by auto
  from res(1) Cons.prems(4) obtain st1 w1 log1 where x: "res = Inr (st1, w1, log1)"
    by (cases res) (auto simp: BulkClient_SendData_def)
  from res(1) Cons.prems(4) x obtain log2 where rest: "SendData_events send ws st1 = Some (Inr (st', log2))"
    by (auto simp: BulkClient_SendData_def split: sum.splits)
  from res(2) x have st1: "bulk_inv st1 (out @ log_bytes log1)" "same_job st st1"
    by (auto simp: run_ok_def)
  have "min (unat (cb_maxBytes st)) (Suc i * unat (cb_packetSize st)) \<le> unat (cb_sentBytes st1)"
  proof (cases "more_to_send st")
    case True
    with loop_progress [OF Cons.prems(1) _ True _ _ Cons.prems(5)] Cons.prems(2) res(1) x show ?thesis
      by auto
  next
    case False
    with Cons.prems(1,3) have "unat (cb_maxBytes st) \<le> unat (cb_sentBytes st)"
      by (auto simp: more_to_send_def bulk_inv_def word_le_nat_alt not_less)
    moreover have "unat (cb_sentBytes st) \<le> unat (cb_sentBytes st1)"
      using run_ok_sent [OF Cons.prems(1)] res(2) x by simp
    ultimately show ?thesis
      by simp
  qed
  then have "min (unat (cb_maxBytes st1)) ((Suc i + length ws) * unat (cb_packetSize st1)) \<le>
      unat (cb_sentBytes st')"
    using Cons.IH [OF st1(1) _ _ rest, of "Suc i"] Cons.prems(2,3) st1(2) by (simp add: same_job_def)
  with st1(2) show ?case
    by (simp add: same_job_def)
qed

lemma events_complete:
  assumes "bulk_inv st out" and "\<forall>w \<in> set ws. ok w \<and> unat (cb_packetSize st) \<le> room w"
    and "cc_socket st \<noteq> None" and "tail_ok st" and "bulk_frames st \<le> length ws"
  shows "\<exists>st' log. SendData_events send ws st = Some (Inr (st', log)) \<and>
    out @ log_bytes log = bulk_stream st \<and> cb_sentBytes st' = cb_maxBytes st"
proof -
  from events_sound [OF assms(1), of ws] assms(2) obtain res where
    res: "SendData_events send ws st = Some res"
      "case res of Inl e \<Rightarrow> e = FatalError \<and> \<not> tail_ok st
       | Inr (st', log) \<Rightarrow> bulk_inv st' (out @ log_bytes log) \<and> same_job st st'"
    by blast
  with assms(4) obtain st' log where
    st': "SendData_events send ws st = Some (Inr (st', log))" "bulk_inv st' (out @ log_bytes log)"
      "same_job st st'"
    by (cases res) auto
  have "unat (cb_maxBytes st) \<le> length ws * unat (cb_packetSize st)"
    using assms(1,5) bulk_frames_iff [of st "length ws"] by (auto simp: bulk_inv_def not_less)
  with events_progress [OF assms(1-3) st'(1), of 0] have "unat (cb_maxBytes st) \<le> unat (cb_sentBytes st')"
    by simp
  with bulk_inv_bounds(3) [OF st'(2)] st'(3) have "cb_sentBytes st' = cb_maxBytes st"
    by (simp add: same_job_def word_le_nat_alt word_unat_eq_iff)
  with bulk_inv_complete [OF st'(2)] st' assms(4) show ?thesis
    by (auto simp: same_job_frames same_job_tail) (simp add: same_job_def)
qed

end

section \<open>The handler returns\<close>

text \<open>
  A buffer of bounded size ends the loop even when there is no limit: every packet it takes
  leaves less room.
\<close>

context buffered_socket
begin

lemma loop_returns:
  assumes "ok w" and "unat (cb_packetSize st) < 2 ^ 31"
    and "\<And>p. cb_unsentPacket st = Some p \<Longrightarrow> sendable p"
  shows "\<exists>res. BulkClient_SendData_loop send st w log = Some res"
  using assms
proof (induction "room w" arbitrary: st w log rule: less_induct)
  case less
  show ?case
  proof (cases "more_to_send st \<and> (\<exists>pn. next_packet st = Inr pn)")
    case False
    then show ?thesis
      by (subst BulkClient_SendData_loop.simps) (auto split: sum.splits)
  next
    case True
    then obtain p n where next_p: "next_packet st = Inr (p, n)" and more: "more_to_send st"
      by auto
    have p: "sendable p" "n = of_nat (GetSize (fst p))"
    proof -
      have "sendable p \<and> n = of_nat (GetSize (fst p))"
      proof (cases "cb_unsentPacket st")
        case None
        with next_p have "GetSize (fst p) = unat n" "n = to_send st" "24 \<le> unat n"
          by (auto simp: next_packet_new GetSize_def split: if_splits)
        with to_send_le [of st] less.prems(2) show ?thesis
          by (auto simp: sendable_def)
      next
        case (Some q)
        with next_p less.prems(3) show ?thesis
          by (auto simp: next_packet_cached)
      qed
      then show "sendable p" "n = of_nat (GetSize (fst p))"
        by simp_all
    qed
    obtain r w' where r: "send p w = (r, w')" by (cases "send p w")
    note w' = send_ok [OF less.prems(1) p(1) r] send_answer [OF less.prems(1) p(1) r]
      send_room [OF less.prems(1) p(1) r]
    have loop: "BulkClient_SendData_loop send st w log =
        (case after_send p n r st of
           Inl e \<Rightarrow> Some (Inl e)
         | Inr (again, st) \<Rightarrow> if again then BulkClient_SendData_loop send st w' (log @ [(p, r)])
             else Some (Inr (st, w', log @ [(p, r)])))"
      using more next_p r by (subst BulkClient_SendData_loop.simps) simp
    show ?thesis
    proof (cases "unat r = GetSize (fst p)")
      case True
      let ?st = "st\<lparr>cb_sentBytes := cb_sentBytes st + of_nat (GetSize (fst p)), cb_unsentPacket := None\<rparr>"
      have "r \<noteq> -1"
        using True p(1) by (auto simp: sendable_def unsigned_minus_1_eq_mask mask_eq_exp_minus_1)
      with w'(3) True p(1) have "room w' < room w"
        by (simp add: sendable_def)
      from less.hyps [OF this w'(1), of ?st "log @ [(p, r)]"] less.prems(2) show ?thesis
        using loop after_send_whole [OF p(1) True, of st] p(2) by auto
    next
      case False
      then have "r = -1 \<or> (0 < unat r \<and> unat r < GetSize (fst p))"
        using w'(2) by auto
      with loop p show ?thesis
        using after_send_refused [OF p(1), of st] after_send_part [OF p(1), of r st] by auto
    qed
  qed
qed

end

section \<open>Properties\<close>


definition example_bulk_client :: CybertwinBulkClient where
  "example_bulk_client = (CybertwinBulkClient_new 0)\<lparr>cc_socket := Some 7, cb_maxBytes := 100, cb_packetSize := 40\<rparr>"

text \<open>A socket that takes at most 25 bytes of a packet.\<close>

definition slow_send :: "tagged \<Rightarrow> u8 list \<Rightarrow> u32 \<times> u8 list" where
  "slow_send p w = (if 2 ^ 31 \<le> GetSize (fst p) then (-1, w)
     else (of_nat (min 25 (GetSize (fst p))), w @ take 25 (pk_bytes (fst p))))"

lemma slow_socket: "stream_socket slow_send (\<lambda>_. True) (\<lambda>w. w)"
proof
  fix p :: tagged and w w' :: "u8 list" and r :: u32
  assume p: "sendable p" "slow_send p w = (r, w')"
  then have w': "r = of_nat (min 25 (GetSize (fst p)))" "w' = w @ take 25 (pk_bytes (fst p))"
    by (auto simp: slow_send_def sendable_def)
  have r: "unat r = min 25 (GetSize (fst p))"
    unfolding w'(1) by (rule unat_of_nat_u32) simp
  then show "r = -1 \<or> (0 < unat r \<and> unat r \<le> GetSize (fst p))"
    using p(1) by (simp add: sendable_def)
  have "r \<noteq> -1"
    using r by (auto simp: unsigned_minus_1_eq_mask mask_eq_exp_minus_1)
  moreover have "take (min 25 (GetSize (fst p))) (pk_bytes (fst p)) = take 25 (pk_bytes (fst p))"
    by (simp add: min_def)
  ultimately show "w' = w @ answered (p, r)"
    by (simp add: answered_def r w'(2))
qed simp

lemma example_bulk_ok:
  "0 < cb_maxBytes example_bulk_client" "24 \<le> unat (cb_packetSize example_bulk_client)"
  "unat (cb_packetSize example_bulk_client) < 2 ^ 31" "cb_sentBytes example_bulk_client = 0"
  "cb_unsentPacket example_bulk_client = None" "cc_socket example_bulk_client \<noteq> None"
  by (simp_all add: example_bulk_client_def CybertwinBulkClient_new_def)

lemma example_bulk_tail: "tail_ok (example_bulk_client\<lparr>cb_maxBytes := 104\<rparr>)"
  by (simp add: example_bulk_client_def CybertwinBulkClient_new_def tail_ok_def)


text \<open>
  Over a TCP socket whose buffer has room for a packet each time the handler runs, the bulk
  client has sent all its packets, and nothing else, after as many runs as there are packets.
\<close>

theorem bulk_client_completes:
  assumes "\<forall>s \<in> set ws. tcp_ok s \<and> unat (cb_packetSize st) \<le> tcp_room s"
    and "0 < cb_maxBytes st" and "24 \<le> unat (cb_packetSize st)" and "unat (cb_packetSize st) < 2 ^ 31"
    and "cb_sentBytes st = 0" and "cb_unsentPacket st = None" and "tail_ok st"
    and "cc_socket st \<noteq> None"
    and "packets_needed (unat (cb_maxBytes st)) (unat (cb_packetSize st)) \<le> length ws"
  shows "\<exists>st' log. SendData_events TcpSocket_Send ws st = Some (Inr (st', log)) \<and>
    log_bytes log = bulk_stream st \<and> cb_sentBytes st' = cb_maxBytes st"
  using tcp.events_complete [OF bulk_inv_start [OF assms(2-6)] assms(1,8,7)] assms(9)
  by (simp add: bulk_frames_def)

definition example_tcp :: TcpSocket where
  "example_tcp = \<lparr>ts_state = ESTABLISHED, ts_shutdownSend = False, ts_txBuffer = TcpTxBuffer_new 1,
     ts_errno = ERROR_NOTERROR, ts_availableWindow = 1000, ts_sendPending = False\<rparr>"

lemma example_tcp_ok: "tcp_ok example_tcp" "tcp_room example_tcp = 32768"
  by (simp_all add: example_tcp_def tcp_ok_def tcp_room_def Available_def TcpTxBuffer_new_def)

theorem bulk_client_completes_witness:
  "\<exists>st' log. SendData_events TcpSocket_Send (replicate 3 example_tcp)
       (example_bulk_client\<lparr>cb_maxBytes := 104\<rparr>) = Some (Inr (st', log)) \<and>
    log_bytes log = bulk_stream (example_bulk_client\<lparr>cb_maxBytes := 104\<rparr>) \<and> cb_sentBytes st' = 104"
  using bulk_client_completes [of "replicate 3 example_tcp" "example_bulk_client\<lparr>cb_maxBytes := 104\<rparr>",
      OF _ _ _ _ _ _ example_bulk_tail] example_tcp_ok
  by (simp add: example_bulk_client_def CybertwinBulkClient_new_def packets_needed_def)

text \<open>
  C33: over a TCP socket on which one may send the bulk client's handler always returns, with or
  without a limit.
\<close>

theorem bulk_client_returns:
  assumes "tcp_ok s" and "unat (cb_packetSize st) < 2 ^ 31"
    and "\<And>p. cb_unsentPacket st = Some p \<Longrightarrow> sendable p"
  shows "\<exists>res. BulkClient_SendData TcpSocket_Send st s = Some res"
  using tcp.loop_returns [OF assms, of "[]"] by (auto simp: BulkClient_SendData_def)

theorem bulk_client_returns_witness:
  "\<exists>res. BulkClient_SendData TcpSocket_Send (example_bulk_client\<lparr>cb_maxBytes := 0\<rparr>) example_tcp = Some res"
  using bulk_client_returns [OF example_tcp_ok(1), of "example_bulk_client\<lparr>cb_maxBytes := 0\<rparr>"]
  by (simp add: example_bulk_client_def CybertwinBulkClient_new_def)

text \<open>
  a packet size that the attribute accepts but that is below the 24 bytes of the header
  aborts the simulation at the first packet, and so does a rest of less than 24 bytes.
\<close>

theorem short_packet_aborts:
  assumes "more_to_send st" and "cb_unsentPacket st = None"
    and "unat (cb_packetSize st) < 24 \<or>
      0 < cb_maxBytes st \<and> unat (cb_maxBytes st) - unat (cb_sentBytes st) < 24"
  shows "BulkClient_SendData send st w = Some (Inl FatalError)"
proof -
  have "unat (to_send st) < 24"
    using assms(1,3)
    by (auto simp: to_send_def unat_min more_to_send_def unat_sub order_less_imp_le)
  then have "BulkClient_SendData_loop send st w [] = Some (Inl FatalError)"
    using assms(1,2) by (subst BulkClient_SendData_loop.simps) (simp add: next_packet_new)
  then show ?thesis
    by (simp add: BulkClient_SendData_def)
qed

theorem short_packet_aborts_witness:
  "BulkClient_SendData TcpSocket_Send (example_bulk_client\<lparr>cb_packetSize := 21\<rparr>) example_tcp = Some (Inl FatalError)"
  by (rule short_packet_aborts)
    (simp_all add: example_bulk_client_def CybertwinBulkClient_new_def more_to_send_def)

text \<open>A counter that starts at the limit or above sends nothing, and the handler keeps running.\<close>

lemma garbage_counter_silent:
  assumes "0 < cb_maxBytes st" and "cb_maxBytes st \<le> cb_sentBytes st" and "cc_socket st = Some s"
  shows "BulkClient_SendData send st w = Some (Inr (st, w, [], [APP_Schedule (milliseconds 10) CB_SendData]))"
proof -
  have "\<not> more_to_send st"
    using assms by (auto simp: more_to_send_def)
  then have "BulkClient_SendData_loop send st w [] = Some (Inr (st, w, []))"
    by (subst BulkClient_SendData_loop.simps) simp
  with assms(3) show ?thesis
    by (simp add: BulkClient_SendData_def)
qed

text \<open>
  With no limit and a socket that takes everything the loop has no end; a buffer of bounded size
  is what makes it return.
\<close>

lemma unlimited_endless:
  assumes "BulkClient_SendData_loop send st w log = Some res" and "\<And>p w. fst (send p w) = packet_size p"
    and "cb_maxBytes st = 0" and "cc_socket st \<noteq> None" and "cb_unsentPacket st = None"
    and "24 \<le> unat (cb_packetSize st)" and "unat (cb_packetSize st) < 2 ^ 31"
  shows False
  using assms
proof (induction send st w log res rule: BulkClient_SendData_loop.raw_induct [rotated, consumes 1, case_names loop])
  case (loop f send st w log res)
  have more: "more_to_send st"
    using loop.prems by (simp add: more_to_send_def)
  let ?p = "(Packet (CybertwinHeader_img (bulk_header st (to_send st))) (unat (to_send st) - 24),
    [(''ns3::CybertwinTag'', le64 (cc_localCuid st))])"
  let ?st = "st\<lparr>cb_sentBytes := cb_sentBytes st + of_nat (GetSize (fst ?p)), cb_unsentPacket := None\<rparr>"
  have n: "unat (to_send st) = unat (cb_packetSize st)"
    using loop.prems by (simp add: to_send_def)
  then have size: "GetSize (fst ?p) = unat (to_send st)"
    using loop.prems by (simp add: GetSize_def)
  have of_size: "of_nat (GetSize (fst ?p)) = to_send st"
    unfolding size by simp
  have p: "sendable ?p"
    using loop.prems n size by (simp add: sendable_def)
  have next_p: "next_packet st = Inr (?p, to_send st)"
    using loop.prems n by (simp add: next_packet_new)
  obtain r w' where r: "send ?p w = (r, w')" by (cases "send ?p w")
  with loop.prems(1) [of ?p w] have "r = packet_size ?p"
    by simp
  then have "after_send ?p (of_nat (GetSize (fst ?p))) r st = Inr (True, ?st)"
    by (intro after_send_whole p) (simp only: unat_packet_size [OF p])
  then have "after_send ?p (to_send st) r st = Inr (True, ?st)"
    by (simp only: of_size)
  with loop.hyps more next_p r have "f send ?st w' (log @ [(?p, r)]) = Some res"
    by simp
  from loop.IH [OF this loop.prems(1)] loop.prems show ?case
    by simp
qed

end
