(* ===== verification/Client_Connection.thy ===== *)
theory Client_Connection
  imports Client
begin

text \<open>
  The application that connects a host to its cybertwin (\<^verbatim>\<open>CybertwinConnClient\<close> of
  \<^verbatim>\<open>cybertwin-client.cc\<close>), the clients of a node, and the helper that installs them
  (\<^verbatim>\<open>cybertwin-helper.cc\<close>).

  It connects to the controller of the edge server, sends its certificate, learns the port of
  its cybertwin, connects to it and hands the socket to the other clients of the node.  What
  \<^verbatim>\<open>Bind\<close> and \<^verbatim>\<open>Connect\<close> return and the packets a socket has ready are
  arguments; a handler that creates a socket takes its number.
\<close>

section \<open>Addresses and callbacks\<close>

datatype Address = Addr_V4 Ipv4Address | Addr_V6 "u8 list" | Addr_Other

definition DoSocketMethod :: "(Address \<Rightarrow> u16 \<Rightarrow> int) \<Rightarrow> Address \<Rightarrow> u16 \<Rightarrow> unit outcome" where
  "DoSocketMethod Method address port =
     (case address of
        Addr_Other \<Rightarrow> Inl FatalError
      | _ \<Rightarrow> require (Method address port \<noteq> -1) FatalError (Inr ()))"

datatype cn_callback =
    ControllerConnectSucceededCallback
  | ControllerConnectFailedCallback
  | RecvFromControllerCallback
  | CybertwinConnectSucceededCallback
  | CybertwinConnectFailedCallback
  | CybertwinCloseSucceededCallback
  | CybertwinCloseFailedCallback
  | RecvPacketCallback

datatype cn_event = CN_Authenticate | CN_ConnectCybertwin

datatype cn_action =
    CN_Bind nat Address u16
  | CN_Connect nat Address u16
  | CN_SetConnectCallback nat cn_callback cn_callback
  | CN_SetCloseCallbacks nat "cn_callback option" "cn_callback option"
  | CN_SetRecvCallback nat cn_callback
  | CN_Send nat tagged
  | CN_Close nat
  | CN_ScheduleNow cn_event

section \<open>CybertwinConnClient\<close>

record CybertwinConnClient = CybertwinClient +
  cn_localAddr :: Address
  cn_localPort :: u16
  cn_edgeAddr :: Address
  cn_edgePort :: u16
  cn_ctrlSocket :: "nat option"
  cn_cybertwinPort :: u16
  cn_cert :: CybertwinCertTag

type_synonym cn_result = "(CybertwinConnClient \<times> cn_action list) outcome"

definition CybertwinConnClient_new :: "u16 \<Rightarrow> CybertwinConnClient" where
  "CybertwinConnClient_new garbage = \<lparr>cc_socket = None, cc_localCuid = 0, cc_peerCuid = 0,
     cn_localAddr = Addr_Other, cn_localPort = 80, cn_edgeAddr = Addr_Other, cn_edgePort = 443,
     cn_ctrlSocket = None, cn_cybertwinPort = garbage, cn_cert = CybertwinCertTag_new\<rparr>"

definition CN_StartApplication ::
  "(Address \<Rightarrow> u16 \<Rightarrow> int) \<Rightarrow> (Address \<Rightarrow> u16 \<Rightarrow> int) \<Rightarrow> nat \<Rightarrow> CybertwinConnClient \<Rightarrow> cn_result" where
  "CN_StartApplication bindRet connectRet fresh st =
     (case cn_ctrlSocket st of
        Some _ \<Rightarrow> Inr (st, [])
      | None \<Rightarrow>
          then_do (DoSocketMethod bindRet (cn_localAddr st) (cn_localPort st)) (\<lambda>_.
          then_do (DoSocketMethod connectRet (cn_edgeAddr st) (cn_edgePort st)) (\<lambda>_.
            Inr (st\<lparr>cn_ctrlSocket := Some fresh\<rparr>,
              [CN_Bind fresh (cn_localAddr st) (cn_localPort st),
               CN_SetConnectCallback fresh ControllerConnectSucceededCallback
                 ControllerConnectFailedCallback,
               CN_Connect fresh (cn_edgeAddr st) (cn_edgePort st)]))))"

definition control_packet :: "CybertwinHeader \<Rightarrow> packet outcome" where
  "control_packet ctrlHeader =
     from_option BadBuffer
       (AddHeader (replicate (CybertwinHeader_GetSerializedSize ctrlHeader) 0)
          (CybertwinHeader_Serialize ctrlHeader) (Create_Packet 0)) Inr"

definition DisconnectCybertwin :: "CybertwinConnClient \<Rightarrow> cn_result" where
  "DisconnectCybertwin st =
     then_do (control_packet (CybertwinHeader_new\<lparr>ch_command := HOST_DISCONNECT,
         ch_cybertwin := cc_localCuid st\<rparr>)) (\<lambda>connPacket.
       from_option NullPointer (cn_ctrlSocket st) (\<lambda>ctrl. Inr (st, [CN_Send ctrl (connPacket, [])])))"

definition CN_StopApplication :: "CybertwinConnClient \<Rightarrow> cn_result" where
  "CN_StopApplication st =
     then_do
       (case cc_socket st of
          None \<Rightarrow> Inr (st, [])
        | Some s \<Rightarrow> then_do (DisconnectCybertwin st) (\<lambda>(st, acts). Inr (st, acts @ [CN_Close s])))
       (\<lambda>(st, acts). Inr (st, acts @
          (case cn_ctrlSocket st of None \<Rightarrow> [] | Some c \<Rightarrow> [CN_Close c])))"

definition CN_DoDispose :: "bool \<Rightarrow> CybertwinConnClient \<Rightarrow> cn_result" where
  "CN_DoDispose isFinished st =
     then_do (if isFinished then Inr (st, []) else CN_StopApplication st)
       (\<lambda>(st, acts). Inr (st\<lparr>cn_ctrlSocket := None, cc_socket := None\<rparr>, acts))"

definition SetCertificate :: "CybertwinCertTag \<Rightarrow> CybertwinConnClient \<Rightarrow> CybertwinConnClient" where
  "SetCertificate cert st = st\<lparr>cn_cert := cert\<rparr>"

definition ControllerConnectSucceeded :: "nat \<Rightarrow> CybertwinConnClient \<Rightarrow> cn_result" where
  "ControllerConnectSucceeded socket st =
     from_option NullPointer (cn_ctrlSocket st) (\<lambda>ctrl.
       Inr (st, [CN_SetRecvCallback ctrl RecvFromControllerCallback, CN_ScheduleNow CN_Authenticate]))"

text \<open>The packets that are ready on the controller's socket.\<close>

fun RecvFromController :: "packet list \<Rightarrow> CybertwinConnClient \<Rightarrow> cn_result" where
  "RecvFromController [] st = Inr (st, [])"
| "RecvFromController (packet # packets) st =
     (if GetSize packet = 0 then Inr (st, [])
      else from_option BadBuffer (PeekHeader (CybertwinHeader_Deserialize CybertwinHeader_new) packet)
        (\<lambda>(header, _). require (\<not> isDataPacket header) AssertFailed
          (if ch_command header = CYBERTWIN_CONNECT_SUCCESS then
             then_do (RecvFromController packets (st\<lparr>cn_cybertwinPort := ch_cybertwinPort header\<rparr>))
               (\<lambda>(st, acts). Inr (st, CN_ScheduleNow CN_ConnectCybertwin # acts))
           else RecvFromController packets st)))"

definition CN_Authenticate_handler :: "CybertwinConnClient \<Rightarrow> cn_result" where
  "CN_Authenticate_handler st =
     from_option BadBuffer
       (PacketTagList_Add ''ns3::CybertwinCertTag''
          (replicate (CybertwinCertTag_GetSerializedSize (cn_cert st)) 0)
          (CybertwinCertTag_Serialize (cn_cert st)) []) (\<lambda>tags.
     then_do (control_packet (CybertwinHeader_new\<lparr>ch_command := HOST_CONNECT,
         ch_cybertwin := cc_localCuid st\<rparr>)) (\<lambda>authPacket.
     from_option NullPointer (cn_ctrlSocket st) (\<lambda>ctrl.
       Inr (st, [CN_Send ctrl (authPacket, tags)]))))"

text \<open>
  The second argument of \<^verbatim>\<open>SetConnectCallback\<close> is the callback for a failed close.
\<close>

definition CN_ConnectCybertwin_handler ::
  "(Address \<Rightarrow> u16 \<Rightarrow> int) \<Rightarrow> (Address \<Rightarrow> u16 \<Rightarrow> int) \<Rightarrow> nat \<Rightarrow> CybertwinConnClient \<Rightarrow> cn_result" where
  "CN_ConnectCybertwin_handler bindRet connectRet fresh st =
     then_do
       (case cc_socket st of
          Some s \<Rightarrow> Inr (st, s, [])
        | None \<Rightarrow>
            then_do (DoSocketMethod bindRet (cn_localAddr st) (cn_localPort st + 1)) (\<lambda>_.
              Inr (st\<lparr>cc_socket := Some fresh\<rparr>, fresh,
                [CN_Bind fresh (cn_localAddr st) (cn_localPort st + 1)])))
       (\<lambda>(st, s, acts).
          then_do (DoSocketMethod connectRet (cn_edgeAddr st) (cn_cybertwinPort st)) (\<lambda>_.
            Inr (st, acts @
              [CN_SetConnectCallback s CybertwinConnectSucceededCallback CybertwinCloseFailedCallback,
               CN_SetCloseCallbacks s (Some CybertwinCloseSucceededCallback)
                 (Some CybertwinCloseFailedCallback),
               CN_Connect s (cn_edgeAddr st) (cn_cybertwinPort st)])))"

definition CybertwinCloseSucceeded :: "nat \<Rightarrow> CybertwinConnClient \<Rightarrow> cn_result" where
  "CybertwinCloseSucceeded socket st =
     Inr (st\<lparr>cc_socket := None\<rparr>, [CN_SetCloseCallbacks socket None None])"

text \<open>The callbacks for failures only log.\<close>

definition failed_callback :: "nat \<Rightarrow> CybertwinConnClient \<Rightarrow> cn_result" where
  "failed_callback socket st = Inr (st, [])"

text \<open>\<^verbatim>\<open>RecvPacket\<close> of the base class reads the headers of what arrives and drops it.\<close>

fun RecvPacket :: "packet list \<Rightarrow> CybertwinHeader list outcome" where
  "RecvPacket [] = Inr []"
| "RecvPacket (packet # packets) =
     (if GetSize packet = 0 then Inr []
      else from_option BadBuffer (PeekHeader (CybertwinHeader_Deserialize CybertwinHeader_new) packet)
        (\<lambda>(header, _). then_do (RecvPacket packets) (\<lambda>hs. Inr (header # hs))))"

section \<open>The clients of a node\<close>

datatype client_app =
    Conn_Client CybertwinConnClient
  | Bulk_Client CybertwinBulkClient
  | Plain_Client CybertwinClient
  | Other_Application

text \<open>
  \<^verbatim>\<open>IsChildOf\<close> is strict: an instance of the base class itself is not a child of it.
\<close>

definition IsChildOf_CybertwinClient :: "client_app \<Rightarrow> bool" where
  "IsChildOf_CybertwinClient app =
     (case app of Conn_Client _ \<Rightarrow> True | Bulk_Client _ \<Rightarrow> True | _ \<Rightarrow> False)"

definition SetClientAttributes :: "nat \<Rightarrow> CYBERTWINID_t \<Rightarrow> client_app \<Rightarrow> client_app" where
  "SetClientAttributes socket cuid app =
     (case app of
        Conn_Client c \<Rightarrow> Conn_Client (c\<lparr>cc_socket := Some socket, cc_localCuid := cuid\<rparr>)
      | Bulk_Client b \<Rightarrow> Bulk_Client (b\<lparr>cc_socket := Some socket, cc_localCuid := cuid\<rparr>)
      | Plain_Client p \<Rightarrow> Plain_Client (p\<lparr>cc_socket := Some socket, cc_localCuid := cuid\<rparr>)
      | Other_Application \<Rightarrow> Other_Application)"

text \<open>
  The callback runs in application \<open>self\<close> of the node; \<open>apps\<close> are all of its applications.
\<close>

definition CybertwinConnectSucceeded ::
  "nat \<Rightarrow> nat \<Rightarrow> client_app list \<Rightarrow> (client_app list \<times> cn_action list) outcome" where
  "CybertwinConnectSucceeded self socket apps =
     (case apps ! self of
        Conn_Client st \<Rightarrow>
          Inr (map (\<lambda>i. if i = self then Conn_Client (st\<lparr>cc_socket := Some socket\<rparr>)
                 else if IsChildOf_CybertwinClient (apps ! i)
                 then SetClientAttributes socket (cc_localCuid st) (apps ! i) else apps ! i)
               [0..<length apps],
            [CN_SetRecvCallback socket RecvPacketCallback])
      | _ \<Rightarrow> Inl Undefined)"

section \<open>Helper\<close>

text \<open>\<open>app\<close> is the application the object factory makes.\<close>

definition InstallPriv :: "client_app \<Rightarrow> client_app list \<Rightarrow> nat \<times> client_app list" where
  "InstallPriv app apps = (length apps, apps @ [app])"

fun Helper_Install ::
  "client_app \<Rightarrow> nat list \<Rightarrow> (nat \<Rightarrow> client_app list) \<Rightarrow> (nat \<times> nat) list \<times> (nat \<Rightarrow> client_app list)" where
  "Helper_Install app [] nodes = ([], nodes)"
| "Helper_Install app (n # ns) nodes =
     (let (i, apps) = InstallPriv app (nodes n);
          (installed, nodes) = Helper_Install app ns (nodes(n := apps))
      in ((n, i) # installed, nodes))"

definition Helper_SetCertificate :: "CybertwinCertTag \<Rightarrow> client_app list \<Rightarrow> client_app list" where
  "Helper_SetCertificate cert apps =
     map (\<lambda>app. case app of Conn_Client c \<Rightarrow> Conn_Client (SetCertificate cert c) | _ \<Rightarrow> app) apps"

section \<open>The operations\<close>

definition is_ip :: "Address \<Rightarrow> bool" where
  "is_ip a \<longleftrightarrow> a \<noteq> Addr_Other"

lemma DoSocketMethod_ok:
  "is_ip a \<Longrightarrow> Method a p \<noteq> -1 \<Longrightarrow> DoSocketMethod Method a p = Inr ()"
  by (cases a) (simp_all add: DoSocketMethod_def is_ip_def)

lemma DoSocketMethod_fails:
  "\<not> is_ip a \<or> Method a p = -1 \<Longrightarrow> DoSocketMethod Method a p = Inl FatalError"
  by (cases a) (auto simp: DoSocketMethod_def is_ip_def)

lemma control_packet_eq: "control_packet h = Inr (Packet (CybertwinHeader_img h) 0)"
  using cyb.AddHeader_img [of "replicate (CybertwinHeader_GetSerializedSize h) 0" h "Create_Packet 0"]
  by (simp add: control_packet_def Create_Packet_def)

lemma control_packet_peek:
  "PeekHeader (CybertwinHeader_Deserialize CybertwinHeader_new) (Packet (CybertwinHeader_img h) 0) =
     Some (h, 24)"
  using cyb.des_img [of h "[]"]
  by (simp add: PeekHeader_def pk_bytes_def CybertwinHeader_GetSerializedSize_def)

lemma control_packet_size [simp]: "GetSize (Packet (CybertwinHeader_img h) 0) = 24"
  by (simp add: GetSize_def)

lemma RecvFromController_reply:
  "RecvFromController [Packet (CybertwinHeader_img h) 0] st =
     (if isDataPacket h then Inl AssertFailed
      else if ch_command h = CYBERTWIN_CONNECT_SUCCESS
      then Inr (st\<lparr>cn_cybertwinPort := ch_cybertwinPort h\<rparr>, [CN_ScheduleNow CN_ConnectCybertwin])
      else Inr (st, []))"
  by (simp add: control_packet_peek)

lemma certificate_packet:
  assumes "cn_ctrlSocket st = Some c"
  obtains tags where "CN_Authenticate_handler st = Inr (st, [CN_Send c (Packet (CybertwinHeader_img
      (CybertwinHeader_new\<lparr>ch_command := HOST_CONNECT, ch_cybertwin := cc_localCuid st\<rparr>)) 0, tags)])"
    and "PacketTagList_Peek ''ns3::CybertwinCertTag'' (CybertwinCertTag_Deserialize CybertwinCertTag_new)
      tags = Some (Some (CybertwinCertTag_received (cn_cert st)))"
proof -
  from cert.Add_Peek [of "replicate (CybertwinCertTag_GetSerializedSize (cn_cert st)) 0" "cn_cert st"
      "''ns3::CybertwinCertTag''" "[]"]
  obtain tags where tags: "PacketTagList_Add ''ns3::CybertwinCertTag''
        (replicate (CybertwinCertTag_GetSerializedSize (cn_cert st)) 0)
        (CybertwinCertTag_Serialize (cn_cert st)) [] = Some tags"
    "PacketTagList_Peek ''ns3::CybertwinCertTag'' (CybertwinCertTag_Deserialize CybertwinCertTag_new)
      tags = Some (Some (CybertwinCertTag_received (cn_cert st)))"
    by auto
  with assms show ?thesis
    by (intro that) (simp_all add: CN_Authenticate_handler_def control_packet_eq)
qed

text \<open>What stands where a failed connection is reported is the callback for a failed close.\<close>

lemma wrong_failure_callback:
  assumes "CN_ConnectCybertwin_handler bindRet connectRet fresh st = Inr (st', acts)"
  shows "(\<exists>s. CN_SetConnectCallback s CybertwinConnectSucceededCallback CybertwinCloseFailedCallback
      \<in> set acts) \<and>
    (\<forall>s cb. CN_SetConnectCallback s cb CybertwinConnectFailedCallback \<notin> set acts)"
  using assms
  by (auto simp: CN_ConnectCybertwin_handler_def split: option.splits)

section \<open>The clients of a node\<close>

lemma CybertwinConnectSucceeded_nth:
  assumes "self < length apps" and "apps ! self = Conn_Client st"
  obtains apps' where "CybertwinConnectSucceeded self s apps =
      Inr (apps', [CN_SetRecvCallback s RecvPacketCallback])"
    and "length apps' = length apps"
    and "apps' ! self = Conn_Client (st\<lparr>cc_socket := Some s\<rparr>)"
    and "\<And>i b. i < length apps \<Longrightarrow> apps ! i = Bulk_Client b \<Longrightarrow>
      apps' ! i = Bulk_Client (b\<lparr>cc_socket := Some s, cc_localCuid := cc_localCuid st\<rparr>)"
    and "\<And>i p. i < length apps \<Longrightarrow> apps ! i = Plain_Client p \<Longrightarrow> apps' ! i = Plain_Client p"
proof (rule that)
  let ?f = "\<lambda>i. if i = self then Conn_Client (st\<lparr>cc_socket := Some s\<rparr>)
      else if IsChildOf_CybertwinClient (apps ! i)
      then SetClientAttributes s (cc_localCuid st) (apps ! i) else apps ! i"
  show "CybertwinConnectSucceeded self s apps =
      Inr (map ?f [0..<length apps], [CN_SetRecvCallback s RecvPacketCallback])"
    using assms by (simp add: CybertwinConnectSucceeded_def)
  show "map ?f [0..<length apps] ! i = Bulk_Client (b\<lparr>cc_socket := Some s, cc_localCuid := cc_localCuid st\<rparr>)"
    if "i < length apps" "apps ! i = Bulk_Client b" for i b
    using that assms(2) by (auto simp: IsChildOf_CybertwinClient_def SetClientAttributes_def)
  show "map ?f [0..<length apps] ! i = Plain_Client p"
    if "i < length apps" "apps ! i = Plain_Client p" for i p
    using that assms(2) by (auto simp: IsChildOf_CybertwinClient_def)
qed (use assms in simp_all)

lemma waits_for_connection:
  "cc_socket b = None \<Longrightarrow> CB_StartApplication send b w =
     Some (Inr (b, w, [], [APP_Schedule (milliseconds 100) CB_WaitForConnection]))"
  by (simp add: CB_StartApplication_def WaitForConnection_def)

lemma sends_once_connected:
  "cc_socket b \<noteq> None \<Longrightarrow> WaitForConnection send b w = BulkClient_SendData send b w"
  by (auto simp: WaitForConnection_def)

lemma bulk_stream_first:
  assumes "0 < cb_maxBytes b" and "24 \<le> unat (cb_packetSize b)" and "tail_ok b"
  obtains h where "CybertwinHeader_Deserialize CybertwinHeader_new (bulk_stream b) = Some (h, 24)"
    and "isDataPacket h" and "ch_cybertwin h = cc_localCuid b" and "ch_peer h = cc_peerCuid b"
proof -
  have "0 < bulk_frames b"
  proof -
    have "0 < unat (cb_packetSize b)"
      using assms(2) by linarith
    moreover have "0 < unat (cb_maxBytes b)"
      using assms(1) by (simp add: word_less_nat_alt)
    ultimately show ?thesis
      by (simp only: bulk_frames_iff mult_zero_left)
  qed
  then obtain n where "bulk_frames b = Suc n"
    by (cases "bulk_frames b") auto
  then have "\<exists>rest. bulk_stream b = frame b (frame_size b 0) @ rest"
    using frames_prefix [of 1 "Suc n" b] by (simp add: bulk_stream_def)
  then obtain rest where "bulk_stream b =
      CybertwinHeader_img (bulk_header b (of_nat (frame_size b 0))) @ rest"
    by (auto simp: frame_def)
  then have "CybertwinHeader_Deserialize CybertwinHeader_new (bulk_stream b) =
      Some (bulk_header b (of_nat (frame_size b 0)), 24)"
    using cyb.des_img by (simp add: CybertwinHeader_GetSerializedSize_def)
  then show ?thesis
    by (rule that) (simp_all add: bulk_header_def isDataPacket_def)
qed

section \<open>Helper\<close>

lemma Helper_SetCertificate_nth:
  assumes "i < length apps"
  shows "Helper_SetCertificate cert apps ! i =
    (case apps ! i of Conn_Client c \<Rightarrow> Conn_Client (c\<lparr>cn_cert := cert\<rparr>) | _ \<Rightarrow> apps ! i)"
  using assms by (simp add: Helper_SetCertificate_def SetCertificate_def split: client_app.split)

text \<open>Installing only appends to the applications of a node.\<close>

lemma Helper_Install_grows:
  "Helper_Install app ns nodes = (installed, nodes') \<Longrightarrow>
     nodes' n = nodes n @ replicate (count_list ns n) app"
  by (induction ns arbitrary: nodes installed)
    (auto simp: InstallPriv_def Let_def split: prod.splits simp flip: replicate_append_same)

lemma Helper_Install_returns:
  assumes "Helper_Install app ns nodes = (installed, nodes')"
  shows "map fst installed = ns \<and> distinct installed \<and>
    (\<forall>(n, i) \<in> set installed. length (nodes n) \<le> i \<and> i < length (nodes' n) \<and> nodes' n ! i = app)"
  using assms
proof (induction ns arbitrary: nodes installed)
  case Nil
  then show ?case by simp
next
  case (Cons m ns)
  let ?nodes = "nodes(m := nodes m @ [app])"
  obtain rest where rest: "Helper_Install app ns ?nodes = (rest, nodes')"
    "installed = (m, length (nodes m)) # rest"
    using Cons.prems by (auto simp: InstallPriv_def Let_def split: prod.splits)
  note IH = Cons.IH [OF rest(1)]
  have le: "length (nodes n) \<le> length (?nodes n)" for n
    by simp
  have new: "length (nodes n) \<le> i \<and> i < length (nodes' n) \<and> nodes' n ! i = app \<and> (n, i) \<noteq> (m, length (nodes m))"
    if "(n, i) \<in> set rest" for n i
  proof -
    from that IH have i: "length (?nodes n) \<le> i" "i < length (nodes' n)" "nodes' n ! i = app"
      by auto
    then have "(n, i) \<noteq> (m, length (nodes m))"
      by (auto split: if_splits)
    with i le [of n] show ?thesis
      by linarith
  qed
  have "nodes' m = ?nodes m @ replicate (count_list ns m) app"
    by (rule Helper_Install_grows [OF rest(1)])
  then have "length (nodes m) < length (nodes' m)" "nodes' m ! length (nodes m) = app"
    by (simp_all add: nth_append)
  with IH rest(2) new show ?case
    by auto
qed

section \<open>Properties\<close>

text \<open>
  C32: the connection client connects to the controller, sends it a connection request with its
  identity and its certificate, and when the controller answers with a port it connects to the
  edge server at that port.
\<close>

theorem conn_client_handshake:
  assumes "cn_ctrlSocket st = None" and "cc_socket st = None"
    and "is_ip (cn_localAddr st)" and "is_ip (cn_edgeAddr st)"
    and "\<And>a p. bindRet a p \<noteq> -1" and "\<And>a p. connectRet a p \<noteq> -1"
    and "ch_command h = CYBERTWIN_CONNECT_SUCCESS" and "control_packet h = Inr reply"
  shows "\<exists>st1 st2 st3 acts1 request tags acts3.
    CN_StartApplication bindRet connectRet c st = Inr (st1, acts1) \<and>
    CN_Connect c (cn_edgeAddr st) (cn_edgePort st) \<in> set acts1 \<and>
    ControllerConnectSucceeded c st1 = Inr (st1,
      [CN_SetRecvCallback c RecvFromControllerCallback, CN_ScheduleNow CN_Authenticate]) \<and>
    CN_Authenticate_handler st1 = Inr (st1, [CN_Send c (request, tags)]) \<and>
    PeekHeader (CybertwinHeader_Deserialize CybertwinHeader_new) request =
      Some (CybertwinHeader_new\<lparr>ch_command := HOST_CONNECT, ch_cybertwin := cc_localCuid st\<rparr>, 24) \<and>
    PacketTagList_Peek ''ns3::CybertwinCertTag'' (CybertwinCertTag_Deserialize CybertwinCertTag_new)
      tags = Some (Some (CybertwinCertTag_received (cn_cert st))) \<and>
    RecvFromController [reply] st1 = Inr (st2, [CN_ScheduleNow CN_ConnectCybertwin]) \<and>
    CN_ConnectCybertwin_handler bindRet connectRet s st2 = Inr (st3, acts3) \<and>
    cc_socket st3 = Some s \<and> CN_Connect s (cn_edgeAddr st) (ch_cybertwinPort h) \<in> set acts3"
proof -
  let ?st1 = "st\<lparr>cn_ctrlSocket := Some c\<rparr>"
  let ?st2 = "?st1\<lparr>cn_cybertwinPort := ch_cybertwinPort h\<rparr>"
  have start: "CN_StartApplication bindRet connectRet c st = Inr (?st1,
      [CN_Bind c (cn_localAddr st) (cn_localPort st),
       CN_SetConnectCallback c ControllerConnectSucceededCallback ControllerConnectFailedCallback,
       CN_Connect c (cn_edgeAddr st) (cn_edgePort st)])"
    using assms by (simp add: CN_StartApplication_def DoSocketMethod_ok)
  obtain tags where auth: "CN_Authenticate_handler ?st1 = Inr (?st1, [CN_Send c
      (Packet (CybertwinHeader_img
        (CybertwinHeader_new\<lparr>ch_command := HOST_CONNECT, ch_cybertwin := cc_localCuid st\<rparr>)) 0, tags)])"
    "PacketTagList_Peek ''ns3::CybertwinCertTag'' (CybertwinCertTag_Deserialize CybertwinCertTag_new)
      tags = Some (Some (CybertwinCertTag_received (cn_cert st)))"
    using certificate_packet [of ?st1 c] by auto
  have recv: "RecvFromController [reply] ?st1 = Inr (?st2, [CN_ScheduleNow CN_ConnectCybertwin])"
    using assms(7,8) RecvFromController_reply [of h ?st1]
    by (simp add: control_packet_eq isDataPacket_def CybertwinCommand_defs)
  have connect: "CN_ConnectCybertwin_handler bindRet connectRet s ?st2 = Inr (?st2\<lparr>cc_socket := Some s\<rparr>,
      [CN_Bind s (cn_localAddr st) (cn_localPort st + 1),
       CN_SetConnectCallback s CybertwinConnectSucceededCallback CybertwinCloseFailedCallback,
       CN_SetCloseCallbacks s (Some CybertwinCloseSucceededCallback) (Some CybertwinCloseFailedCallback),
       CN_Connect s (cn_edgeAddr st) (ch_cybertwinPort h)])"
    using assms by (simp add: CN_ConnectCybertwin_handler_def DoSocketMethod_ok)
  show ?thesis
    by (rule exI [of _ ?st1], rule exI [of _ ?st2], rule exI [of _ "?st2\<lparr>cc_socket := Some s\<rparr>"],
        intro exI conjI, rule start, simp, simp add: ControllerConnectSucceeded_def, rule auth(1),
        rule control_packet_peek, rule auth(2), rule recv, rule connect) simp_all
qed

definition example_conn_client :: CybertwinConnClient where
  "example_conn_client = (CybertwinConnClient_new 0)\<lparr>cc_localCuid := 1000,
     cn_localAddr := Addr_V4 (Ipv4Address_of 1), cn_edgeAddr := Addr_V4 (Ipv4Address_of 2)\<rparr>"

abbreviation example_reply :: CybertwinHeader where
  "example_reply \<equiv> CybertwinHeader_new\<lparr>ch_command := CYBERTWIN_CONNECT_SUCCESS, ch_cybertwinPort := 2001\<rparr>"

theorem conn_client_handshake_witness:
  "\<exists>st1 st2 st3 acts1 acts3.
    CN_StartApplication (\<lambda>_ _. 0) (\<lambda>_ _. 0) 5 example_conn_client = Inr (st1, acts1) \<and>
    RecvFromController [Packet (CybertwinHeader_img example_reply) 0] st1 =
      Inr (st2, [CN_ScheduleNow CN_ConnectCybertwin]) \<and>
    CN_ConnectCybertwin_handler (\<lambda>_ _. 0) (\<lambda>_ _. 0) 6 st2 = Inr (st3, acts3) \<and>
    CN_Connect 6 (cn_edgeAddr example_conn_client) 2001 \<in> set acts3"
proof -
  have "cn_ctrlSocket example_conn_client = None" "cc_socket example_conn_client = None"
    "is_ip (cn_localAddr example_conn_client)" "is_ip (cn_edgeAddr example_conn_client)"
    by (simp_all add: example_conn_client_def CybertwinConnClient_new_def is_ip_def)
  from conn_client_handshake [OF this, of "\<lambda>_ _. 0" "\<lambda>_ _. 0" example_reply _ 5 6,
      OF _ _ _ control_packet_eq]
  show ?thesis
    by (simp del: RecvFromController.simps) blast
qed



text \<open>
  A plain client of the base class is passed over: its socket is not set.
\<close>

lemma plain_client_unset:
  assumes "self < length apps" and "apps ! self = Conn_Client st"
    and "i < length apps" and "apps ! i = Plain_Client p"
  shows "\<exists>apps' acts. CybertwinConnectSucceeded self s apps = Inr (apps', acts) \<and> apps' ! i = Plain_Client p"
  using CybertwinConnectSucceeded_nth [OF assms(1,2), of s] assms(3,4) by metis

end
