(* ===== verification/Calendar.thy ===== *)
theory Calendar
  imports Schedulers
begin

text \<open>
  The calendar scheduler (\<^verbatim>\<open>core/model/calendar-scheduler.{h,cc}\<close>): an array of
  buckets like the days of a calendar, in which an event goes to the day of its time, whatever the
  year, and the search for the next event starts at the day of the last one.  The number of
  buckets and their width follow the number of events and their distance.

  The scheduler relies on its user: an event must not be inserted before the time of the event
  that was given out last.  The locale \<open>timed_queue\<close> states what it promises then; every
  \<open>event_queue\<close> promises it too.  Within these limits the calendar scheduler and the list
  scheduler give out the same events.
\<close>

section \<open>State\<close>

record CalendarScheduler =
  cal_buckets :: "Event list list"
  cal_nBuckets :: u32
  cal_width :: u64
  cal_lastBucket :: u32
  cal_bucketTop :: u64
  cal_lastPrio :: u64
  cal_qSize :: u32
  cal_reverse :: bool

definition Hash :: "u64 \<Rightarrow> CalendarScheduler \<Rightarrow> u32" where
  "Hash ts c = ucast ((ts div cal_width c) mod ucast (cal_nBuckets c))"

definition Calendar_Init :: "u32 \<Rightarrow> u64 \<Rightarrow> u64 \<Rightarrow> CalendarScheduler \<Rightarrow> CalendarScheduler" where
  "Calendar_Init nBuckets width startPrio c =
     (let c = c\<lparr>cal_buckets := replicate (unat nBuckets) [], cal_nBuckets := nBuckets,
           cal_width := width, cal_lastPrio := startPrio\<rparr>
      in c\<lparr>cal_lastBucket := Hash startPrio c, cal_bucketTop := (startPrio div width + 1) * width\<rparr>)"

text \<open>The attribute that reverses the buckets is set when the scheduler is constructed.\<close>

definition CalendarScheduler_new :: "bool \<Rightarrow> CalendarScheduler" where
  "CalendarScheduler_new rv =
     (Calendar_Init 2 1 0 \<lparr>cal_buckets = [], cal_nBuckets = 0, cal_width = 0, cal_lastBucket = 0,
        cal_bucketTop = 0, cal_lastPrio = 0, cal_qSize = 0, cal_reverse = rv\<rparr>)\<lparr>cal_qSize := 0\<rparr>"

section \<open>Buckets\<close>

definition Order :: "bool \<Rightarrow> EventKey \<Rightarrow> EventKey \<Rightarrow> bool" where
  "Order rv a b = (if rv then key_less b a else key_less a b)"

definition NextEvent :: "bool \<Rightarrow> Event list \<Rightarrow> Event" where
  "NextEvent rv bucket = (if rv then last bucket else hd bucket)"

definition Pop :: "bool \<Rightarrow> Event list \<Rightarrow> Event list" where
  "Pop rv bucket = (if rv then butlast bucket else tl bucket)"

fun bucket_insert :: "bool \<Rightarrow> Event \<Rightarrow> Event list \<Rightarrow> Event list" where
  "bucket_insert rv ev [] = [ev]"
| "bucket_insert rv ev (e # es) =
     (if Order rv (ev_key ev) (ev_key e) then ev # e # es else e # bucket_insert rv ev es)"

fun bucket_erase :: "Event \<Rightarrow> Event list \<Rightarrow> Event list outcome" where
  "bucket_erase ev [] = Inl AssertFailed"
| "bucket_erase ev (e # es) =
     (if uid e = uid ev then require (ev_impl ev = ev_impl e) AssertFailed (Inr es)
      else then_do (bucket_erase ev es) (\<lambda>es. Inr (e # es)))"

definition DoInsert :: "Event \<Rightarrow> CalendarScheduler \<Rightarrow> CalendarScheduler" where
  "DoInsert ev c =
     (let bucket = unat (Hash (m_ts (ev_key ev)) c)
      in c\<lparr>cal_buckets := (cal_buckets c)
             [bucket := bucket_insert (cal_reverse c) ev (cal_buckets c ! bucket)]\<rparr>)"

definition Calendar_IsEmpty :: "CalendarScheduler \<Rightarrow> bool" where
  "Calendar_IsEmpty c = (cal_qSize c = 0)"

section \<open>The next event\<close>

text \<open>
  The search through one year.  The first event whose time is below the top of its bucket ends
  it; otherwise the smallest first event of a bucket is remembered.  \<open>k\<close> bounds the number of
  buckets looked at.
\<close>

datatype search_result =
    Found u32 u64 Event
  | Smallest_of EventKey "u32 option"

fun year_search ::
  "CalendarScheduler \<Rightarrow> nat \<Rightarrow> u32 \<Rightarrow> u64 \<Rightarrow> EventKey \<Rightarrow> u32 option \<Rightarrow> search_result outcome" where
  "year_search c 0 i bucketTop minKey minBucket = Inl Unfinished"
| "year_search c (Suc k) i bucketTop minKey minBucket =
     (let bucket = cal_buckets c ! unat i; next_ev = NextEvent (cal_reverse c) bucket
      in if bucket \<noteq> [] \<and> m_ts (ev_key next_ev) < bucketTop then Inr (Found i bucketTop next_ev)
         else
           let (minKey, minBucket) =
                 (if bucket \<noteq> [] \<and> key_less (ev_key next_ev) minKey then (ev_key next_ev, Some i)
                  else (minKey, minBucket));
               j = (i + 1) mod cal_nBuckets c
           in if j \<noteq> cal_lastBucket c
              then year_search c k j (bucketTop + cal_width c) minKey minBucket
              else Inr (Smallest_of minKey minBucket))"

definition no_event :: Event where
  "no_event = \<lparr>ev_impl = None, ev_key = \<lparr>m_ts = -1, m_uid = -1, m_context = 0\<rparr>\<rparr>"

definition Calendar_PeekNext :: "CalendarScheduler \<Rightarrow> Event outcome" where
  "Calendar_PeekNext c = require (\<not> Calendar_IsEmpty c) AssertFailed
     (then_do (year_search c (unat (cal_nBuckets c)) (cal_lastBucket c) (cal_bucketTop c)
          (ev_key no_event) None)
        (\<lambda>res. case res of
            Found _ _ ev \<Rightarrow> Inr ev
          | Smallest_of _ None \<Rightarrow> Inr no_event
          | Smallest_of _ (Some b) \<Rightarrow> Inr (NextEvent (cal_reverse c) (cal_buckets c ! unat b))))"

text \<open>With no smallest event the code reads the bucket at index minus one.\<close>

definition DoRemoveNext :: "CalendarScheduler \<Rightarrow> (Event \<times> CalendarScheduler) outcome" where
  "DoRemoveNext c = require (\<not> Calendar_IsEmpty c) AssertFailed
     (then_do (year_search c (unat (cal_nBuckets c)) (cal_lastBucket c) (cal_bucketTop c)
          \<lparr>m_ts = -1, m_uid = 0, m_context = 0xffffffff\<rparr> None)
        (\<lambda>res. case res of
            Found i bucketTop ev \<Rightarrow>
              Inr (ev, c\<lparr>cal_lastBucket := i, cal_lastPrio := m_ts (ev_key ev),
                cal_bucketTop := bucketTop,
                cal_buckets := (cal_buckets c)[unat i := Pop (cal_reverse c) (cal_buckets c ! unat i)]\<rparr>)
          | Smallest_of _ None \<Rightarrow> Inl Undefined
          | Smallest_of minKey (Some b) \<Rightarrow>
              Inr (NextEvent (cal_reverse c) (cal_buckets c ! unat b),
                c\<lparr>cal_lastPrio := m_ts minKey, cal_lastBucket := Hash (m_ts minKey) c,
                  cal_bucketTop := (m_ts minKey div cal_width c + 1) * cal_width c,
                  cal_buckets := (cal_buckets c)[unat b := Pop (cal_reverse c) (cal_buckets c ! unat b)]\<rparr>)))"

section \<open>Resizing\<close>

fun take_samples :: "nat \<Rightarrow> CalendarScheduler \<Rightarrow> (Event list \<times> CalendarScheduler) outcome" where
  "take_samples 0 c = Inr ([], c)"
| "take_samples (Suc n) c =
     then_do (DoRemoveNext c) (\<lambda>(ev, c).
       then_do (take_samples n c) (\<lambda>(evs, c). Inr (ev # evs, c)))"

fun separations :: "Event list \<Rightarrow> u64 list" where
  "separations (a # b # es) = (m_ts (ev_key b) - m_ts (ev_key a)) # separations (b # es)"
| "separations _ = []"

text \<open>\<^verbatim>\<open>nSamples - 1\<close> is a 32-bit number.\<close>

definition sample_width :: "u32 \<Rightarrow> Event list \<Rightarrow> u64" where
  "sample_width nSamples samples =
     (let twiceAvg = sum_list (separations samples) div ucast (nSamples - 1) * 2;
          totalSeparation = sum_list (filter (\<lambda>d. d \<le> twiceAvg) (separations samples))
      in max (totalSeparation * 3) 1)"

definition CalculateNewWidth :: "CalendarScheduler \<Rightarrow> (u64 \<times> CalendarScheduler) outcome" where
  "CalculateNewWidth c =
     (if cal_qSize c < 2 then Inr (1, c)
      else
        let nSamples = (if cal_qSize c \<le> 5 then cal_qSize c else 5 + cal_qSize c div 10);
            nSamples = (if 25 < nSamples then 25 else nSamples)
        in then_do (take_samples (unat nSamples) c) (\<lambda>(samples, c').
             let c' = fold DoInsert samples c'
             in Inr (sample_width nSamples samples,
                  c'\<lparr>cal_lastBucket := cal_lastBucket c, cal_bucketTop := cal_bucketTop c,
                     cal_lastPrio := cal_lastPrio c\<rparr>)))"

definition DoResize :: "u32 \<Rightarrow> u64 \<Rightarrow> CalendarScheduler \<Rightarrow> CalendarScheduler" where
  "DoResize newSize newWidth c =
     fold DoInsert (concat (cal_buckets c)) (Calendar_Init newSize newWidth (cal_lastPrio c) c)"

definition Resize :: "u32 \<Rightarrow> CalendarScheduler \<Rightarrow> CalendarScheduler outcome" where
  "Resize newSize c = then_do (CalculateNewWidth c) (\<lambda>(newWidth, c). Inr (DoResize newSize newWidth c))"

definition ResizeUp :: "CalendarScheduler \<Rightarrow> CalendarScheduler outcome" where
  "ResizeUp c = (if cal_nBuckets c * 2 < cal_qSize c \<and> cal_nBuckets c < 32768
     then Resize (cal_nBuckets c * 2) c else Inr c)"

definition ResizeDown :: "CalendarScheduler \<Rightarrow> CalendarScheduler outcome" where
  "ResizeDown c = (if cal_qSize c < cal_nBuckets c div 2 then Resize (cal_nBuckets c div 2) c else Inr c)"

section \<open>The operations\<close>

definition Calendar_Insert :: "Event \<Rightarrow> CalendarScheduler \<Rightarrow> CalendarScheduler outcome" where
  "Calendar_Insert ev c =
     (let c = DoInsert ev c in ResizeUp (c\<lparr>cal_qSize := cal_qSize c + 1\<rparr>))"

definition Calendar_RemoveNext :: "CalendarScheduler \<Rightarrow> (Event \<times> CalendarScheduler) outcome" where
  "Calendar_RemoveNext c = require (\<not> Calendar_IsEmpty c) AssertFailed
     (then_do (DoRemoveNext c) (\<lambda>(ev, c).
        then_do (ResizeDown (c\<lparr>cal_qSize := cal_qSize c - 1\<rparr>)) (\<lambda>c. Inr (ev, c))))"

definition Calendar_Remove :: "Event \<Rightarrow> CalendarScheduler \<Rightarrow> CalendarScheduler outcome" where
  "Calendar_Remove ev c = require (\<not> Calendar_IsEmpty c) AssertFailed
     (let bucket = unat (Hash (m_ts (ev_key ev)) c)
      in then_do (bucket_erase ev (cal_buckets c ! bucket)) (\<lambda>b.
           ResizeDown (c\<lparr>cal_buckets := (cal_buckets c)[bucket := b], cal_qSize := cal_qSize c - 1\<rparr>)))"

section \<open>The contract\<close>

text \<open>
  A queue whose events are inserted no earlier than the last event that was removed: \<open>now\<close> is
  that event's time.  The largest time is kept out.
\<close>

abbreviation ev_time :: "Event \<Rightarrow> u64" where
  "ev_time ev \<equiv> m_ts (ev_key ev)"

locale timed_queue =
  fixes ok :: "'s \<Rightarrow> bool"
    and content :: "'s \<Rightarrow> Event set"
    and now :: "'s \<Rightarrow> u64"
    and insert_event :: "Event \<Rightarrow> 's \<Rightarrow> 's outcome"
    and is_empty :: "'s \<Rightarrow> bool"
    and peek :: "'s \<Rightarrow> Event outcome"
    and remove_next :: "'s \<Rightarrow> (Event \<times> 's) outcome"
  assumes content_ok: "ok s \<Longrightarrow> finite (content s) \<and> inj_on uid (content s)"
    and insert_ok: "ok s \<Longrightarrow> uid ev \<notin> uids (content s) \<Longrightarrow> now s \<le> ev_time ev \<Longrightarrow>
      ev_time ev < -1 \<Longrightarrow> card (content s) < 2 ^ 32 - 1 \<Longrightarrow>
      \<exists>s'. insert_event ev s = Inr s' \<and> ok s' \<and> content s' = insert ev (content s) \<and> now s' \<le> now s"
    and empty_ok: "ok s \<Longrightarrow> is_empty s \<longleftrightarrow> content s = {}"
    and remove_next_ok: "ok s \<Longrightarrow> content s \<noteq> {} \<Longrightarrow>
      \<exists>ev s'. remove_next s = Inr (ev, s') \<and> peek s = Inr ev \<and> ok s' \<and> ev \<in> content s \<and>
        (\<forall>e \<in> content s. rank ev \<le> rank e) \<and> content s' = content s - {ev} \<and>
        now s' \<le> ev_time ev"

sublocale event_queue \<subseteq> timed: timed_queue ok content "\<lambda>_. 0" insert_event is_empty peek remove_next
proof unfold_locales
  show "\<exists>ev s'. remove_next s = Inr (ev, s') \<and> peek s = Inr ev \<and> ok s' \<and> ev \<in> content s \<and>
      (\<forall>e \<in> content s. rank ev \<le> rank e) \<and> content s' = content s - {ev} \<and> 0 \<le> ev_time ev"
    if "ok s" "content s \<noteq> {}" for s
    using remove_next_ok [OF that] by simp
qed (auto simp: content_ok empty_ok insert_ok)

text \<open>A history that inserts no event before \<open>p\<close>, nor before an event already removed.\<close>

fun on_time :: "(Event \<Rightarrow> 's \<Rightarrow> 's outcome) \<Rightarrow> ('s \<Rightarrow> bool) \<Rightarrow> ('s \<Rightarrow> (Event \<times> 's) outcome) \<Rightarrow>
  u64 \<Rightarrow> queue_op list \<Rightarrow> 's \<Rightarrow> bool" where
  "on_time ins is_empty remove_next p [] s = True"
| "on_time ins is_empty remove_next p (Op_Insert ev # ops) s =
     (p \<le> ev_time ev \<and> ev_time ev < -1 \<and>
      (case ins ev s of Inl _ \<Rightarrow> False | Inr s \<Rightarrow> on_time ins is_empty remove_next p ops s))"
| "on_time ins is_empty remove_next p (Op_Next # ops) s =
     (if is_empty s then on_time ins is_empty remove_next p ops s
      else case remove_next s of Inl _ \<Rightarrow> False
        | Inr (ev, s) \<Rightarrow> on_time ins is_empty remove_next (ev_time ev) ops s)"

text \<open>Over such a history two queues with the same content cannot be told apart.\<close>

locale timed_pair =
  left: timed_queue ok1 content1 now1 insert1 is_empty1 peek1 remove_next1 +
  right: timed_queue ok2 content2 now2 insert2 is_empty2 peek2 remove_next2
  for ok1 :: "'s \<Rightarrow> bool" and content1 now1 insert1 is_empty1 peek1 remove_next1
    and ok2 :: "'t \<Rightarrow> bool" and content2 now2 insert2 is_empty2 peek2 remove_next2
begin

lemma same_next:
  assumes "ok1 s" and "ok2 t" and "content1 s = content2 t" and "content1 s \<noteq> {}"
  obtains ev s' t' where "remove_next1 s = Inr (ev, s')" "remove_next2 t = Inr (ev, t')"
    "ok1 s'" "ok2 t'" "content1 s' = content2 t'" "content1 s' = content1 s - {ev}"
    "now1 s' \<le> ev_time ev" "now2 t' \<le> ev_time ev"
proof -
  obtain ev s' where s': "remove_next1 s = Inr (ev, s')" "ok1 s'" "ev \<in> content1 s"
    "\<forall>e \<in> content1 s. rank ev \<le> rank e" "content1 s' = content1 s - {ev}" "now1 s' \<le> ev_time ev"
    using left.remove_next_ok [OF assms(1,4)] by blast
  obtain ev' t' where t': "remove_next2 t = Inr (ev', t')" "ok2 t'" "ev' \<in> content2 t"
    "\<forall>e \<in> content2 t. rank ev' \<le> rank e" "content2 t' = content2 t - {ev'}" "now2 t' \<le> ev_time ev'"
    using right.remove_next_ok [OF assms(2)] assms(3,4) by auto
  have "rank ev = rank ev'"
    using s' t' assms(3) by (simp add: antisym)
  then have "ev = ev'"
    using left.content_ok [OF assms(1)] s'(3) t'(3) assms(3)
    by (auto dest!: rank_inj_on inj_onD)
  with s' t' assms(3) that show ?thesis by auto
qed

lemma same_run:
  assumes "ok1 s" and "ok2 t" and "content1 s = content2 t"
    and "now1 s \<le> p" and "now2 t \<le> p" and "on_time insert1 is_empty1 remove_next1 p ops s"
    and "distinct (map uid (inserted ops))" and "uid ` set (inserted ops) \<inter> uids (content1 s) = {}"
    and "card (content1 s) + length (inserted ops) < 2 ^ 32"
  shows "\<exists>evs. run_ops insert1 is_empty1 remove_next1 ops s = Inr evs \<and>
    run_ops insert2 is_empty2 remove_next2 ops t = Inr evs"
  using assms
proof (induction ops arbitrary: s t p rule: inserted.induct)
  case 1
  then show ?case by simp
next
  case (2 ev ops)
  then have ev: "uid ev \<notin> uids (content1 s)" "p \<le> ev_time ev" "ev_time ev < -1"
    "card (content1 s) < 2 ^ 32 - 1"
    by auto
  then obtain s' t' where ins: "insert1 ev s = Inr s'" "ok1 s'" "content1 s' = insert ev (content1 s)"
    "now1 s' \<le> now1 s" "insert2 ev t = Inr t'" "ok2 t'" "content2 t' = insert ev (content2 t)"
    "now2 t' \<le> now2 t"
    using left.insert_ok [of s ev] right.insert_ok [of t ev] "2.prems"(1-5) by (metis order_trans)
  have "card (content1 s') \<le> Suc (card (content1 s))"
    using ins(3) by (simp add: card_insert_le_m1 card_insert_if left.content_ok "2.prems"(1))
  with ins "2.prems" have "\<exists>evs. run_ops insert1 is_empty1 remove_next1 ops s' = Inr evs \<and>
      run_ops insert2 is_empty2 remove_next2 ops t' = Inr evs"
    by (intro "2.IH" [of s' t' p]) auto
  with ins show ?case
    by auto
next
  case (3 ops)
  show ?case
  proof (cases "content1 s = {}")
    case True
    with 3 show ?thesis
      using left.empty_ok right.empty_ok by simp
  next
    case False
    obtain ev s' t' where nx: "remove_next1 s = Inr (ev, s')"
      "remove_next2 t = Inr (ev, t')" "ok1 s'" "ok2 t'" "content1 s' = content2 t'"
      "content1 s' = content1 s - {ev}" "now1 s' \<le> ev_time ev" "now2 t' \<le> ev_time ev"
      by (rule same_next [OF "3.prems"(1-3) False])
    have ne: "\<not> is_empty1 s" "\<not> is_empty2 t"
      using False "3.prems"(1-3) left.empty_ok right.empty_ok by simp_all
    have "card (content1 s') \<le> card (content1 s)"
      using nx(6) left.content_ok [OF "3.prems"(1)] by (simp add: card_mono)
    moreover have "uid ` set (inserted ops) \<inter> uids (content1 s') = {}"
      using "3.prems"(8) nx(6) by auto
    ultimately have "\<exists>evs. run_ops insert1 is_empty1 remove_next1 ops s' = Inr evs \<and>
        run_ops insert2 is_empty2 remove_next2 ops t' = Inr evs"
      using nx ne "3.prems" by (intro "3.IH" [of s' t' "ev_time ev"]) auto
    then show ?thesis
      using nx(1,2) ne by auto
  qed
qed

end

section \<open>Buckets are sorted\<close>

definition before :: "bool \<Rightarrow> Event \<Rightarrow> Event \<Rightarrow> bool" where
  "before rv a b = Order rv (ev_key a) (ev_key b)"

lemma before_rank: "before rv a b \<longleftrightarrow> (if rv then rank b < rank a else rank a < rank b)"
  by (simp add: before_def Order_def key_less_rank)

abbreviation bucket_sorted :: "bool \<Rightarrow> Event list \<Rightarrow> bool" where
  "bucket_sorted rv es \<equiv> sorted_wrt (before rv) es"

lemma set_bucket_insert [simp]: "set (bucket_insert rv ev es) = insert ev (set es)"
  by (induction es) auto

lemma bucket_insert_sorted:
  "bucket_sorted rv es \<Longrightarrow> uid ev \<notin> uids (set es) \<Longrightarrow> bucket_sorted rv (bucket_insert rv ev es)"
proof (induction es)
  case Nil
  then show ?case by simp
next
  case (Cons e es)
  then have "rank ev \<noteq> rank e"
    by (auto simp: rank_eq)
  with Cons show ?case
    by (auto simp: before_rank before_def [symmetric] split: if_splits)
qed

lemma NextEvent_least:
  assumes "bucket_sorted rv es" and "es \<noteq> []"
  shows "NextEvent rv es \<in> set es" and "\<forall>e \<in> set es. rank (NextEvent rv es) \<le> rank e"
proof -
  show "NextEvent rv es \<in> set es"
    using assms(2) by (simp add: NextEvent_def)
  show "\<forall>e \<in> set es. rank (NextEvent rv es) \<le> rank e"
  proof (cases rv)
    case True
    with assms show ?thesis
      by (cases es rule: rev_cases) (auto simp: NextEvent_def before_rank sorted_wrt_append order_less_imp_le)
  next
    case False
    with assms show ?thesis
      by (cases es) (auto simp: NextEvent_def before_rank order_less_imp_le)
  qed
qed

lemma Pop_sorted:
  assumes "bucket_sorted rv es" and "es \<noteq> []"
  shows "bucket_sorted rv (Pop rv es)" and "set (Pop rv es) = set es - {NextEvent rv es}"
proof -
  have "bucket_sorted rv (Pop rv es) \<and> set (Pop rv es) = set es - {NextEvent rv es}"
  proof (cases rv)
    case True
    with assms show ?thesis
      by (cases es rule: rev_cases) (auto simp: NextEvent_def Pop_def before_rank sorted_wrt_append)
  next
    case False
    with assms show ?thesis
      by (cases es) (auto simp: NextEvent_def Pop_def before_rank)
  qed
  then show "bucket_sorted rv (Pop rv es)" and "set (Pop rv es) = set es - {NextEvent rv es}"
    by simp_all
qed

lemma bucket_sorted_distinct: "bucket_sorted rv es \<Longrightarrow> distinct es"
  by (induction es) (auto simp: before_rank split: if_splits)

lemma sorted_wrt_remove1: "sorted_wrt P xs \<Longrightarrow> sorted_wrt P (remove1 x xs)"
  by (induction xs) (auto dest: notin_set_remove1)

lemma bucket_erase_remove1:
  "inj_on uid (set es) \<Longrightarrow> ev \<in> set es \<Longrightarrow> bucket_erase ev es = Inr (remove1 ev es)"
  by (induction es) (auto simp: inj_on_def)

lemma bucket_erase_sorted:
  assumes "bucket_sorted rv es" and "inj_on uid (set es)" and "ev \<in> set es"
  obtains es' where "bucket_erase ev es = Inr es'" "bucket_sorted rv es'" "set es' = set es - {ev}"
  using assms by (simp add: bucket_erase_remove1 sorted_wrt_remove1 bucket_sorted_distinct)

section \<open>Invariant\<close>

definition content :: "CalendarScheduler \<Rightarrow> Event set" where
  "content c = (\<Union>b \<in> set (cal_buckets c). set b)"

text \<open>The year's day of a time, counted from the beginning.\<close>

definition day :: "CalendarScheduler \<Rightarrow> u64 \<Rightarrow> nat" where
  "day c ts = unat ts div unat (cal_width c)"

definition shape_ok :: "CalendarScheduler \<Rightarrow> bool" where
  "shape_ok c \<longleftrightarrow> 0 < cal_nBuckets c \<and> 0 < cal_width c \<and>
     length (cal_buckets c) = unat (cal_nBuckets c) \<and>
     (\<forall>i < unat (cal_nBuckets c). bucket_sorted (cal_reverse c) (cal_buckets c ! i) \<and>
        (\<forall>e \<in> set (cal_buckets c ! i). day c (ev_time e) mod unat (cal_nBuckets c) = i)) \<and>
     inj_on uid (content c)"

definition time_ok :: "CalendarScheduler \<Rightarrow> bool" where
  "time_ok c \<longleftrightarrow>
     cal_lastBucket c = Hash (cal_lastPrio c) c \<and>
     cal_bucketTop c = (cal_lastPrio c div cal_width c + 1) * cal_width c \<and>
     (\<forall>e \<in> content c. cal_lastPrio c \<le> ev_time e \<and> ev_time e < -1)"

lemma unat_Hash: "0 < cal_nBuckets c \<Longrightarrow> unat (Hash ts c) = day c ts mod unat (cal_nBuckets c)"
proof -
  assume n: "0 < cal_nBuckets c"
  have u: "unat (ucast (cal_nBuckets c) :: u64) = unat (cal_nBuckets c)"
    using unsigned_less [of "cal_nBuckets c", where 'a = nat]
    by (simp add: unsigned_ucast_eq take_bit_nat_eq_self)
  have "unat ((ts div cal_width c) mod ucast (cal_nBuckets c)) = day c ts mod unat (cal_nBuckets c)"
    by (simp add: unat_mod unat_div u day_def)
  moreover have "day c ts mod unat (cal_nBuckets c) < 2 ^ 32"
    using n unsigned_less [of "cal_nBuckets c", where 'a = nat]
    by (intro order_less_trans [OF mod_less_divisor]) (simp_all add: word_less_nat_alt)
  ultimately show ?thesis
    by (simp add: Hash_def unsigned_ucast_eq take_bit_nat_eq_self)
qed

lemma finite_content [simp]: "finite (content c)"
  by (simp add: content_def)

lemma bucket_of:
  assumes "shape_ok c" and "e \<in> content c"
  shows "e \<in> set (cal_buckets c ! (day c (ev_time e) mod unat (cal_nBuckets c)))"
proof -
  from assms(2) obtain b where "b \<in> set (cal_buckets c)" "e \<in> set b"
    by (auto simp: content_def)
  then obtain i where "i < length (cal_buckets c)" "cal_buckets c ! i = b"
    by (metis in_set_conv_nth)
  with assms(1) \<open>e \<in> set b\<close> show ?thesis
    by (auto simp: shape_ok_def)
qed

lemma bucket_content: "i < length (cal_buckets c) \<Longrightarrow> e \<in> set (cal_buckets c ! i) \<Longrightarrow> e \<in> content c"
  by (auto simp: content_def)

lemma shape_n:
  assumes "shape_ok c"
  shows "0 < unat (cal_nBuckets c)" and "0 < unat (cal_width c)"
    and "length (cal_buckets c) = unat (cal_nBuckets c)"
  using assms by (simp_all add: shape_ok_def word_less_nat_alt)

text \<open>Replacing a bucket.\<close>

lemma shape_day:
  assumes "shape_ok c" and "i < unat (cal_nBuckets c)" and "e \<in> set (cal_buckets c ! i)"
  shows "day c (ev_time e) mod unat (cal_nBuckets c) = i"
  using assms by (simp add: shape_ok_def)

lemma content_iff: "x \<in> content c \<longleftrightarrow> (\<exists>j < length (cal_buckets c). x \<in> set (cal_buckets c ! j))"
  unfolding content_def set_conv_nth [of "cal_buckets c"] by auto

lemma content_update:
  assumes "shape_ok c" and "i < unat (cal_nBuckets c)"
    and "\<And>e. e \<in> set b \<Longrightarrow> day c (ev_time e) mod unat (cal_nBuckets c) = i"
  shows "content (c\<lparr>cal_buckets := (cal_buckets c)[i := b]\<rparr>) = content c - set (cal_buckets c ! i) \<union> set b"
proof -
  note len = shape_n(3) [OF assms(1)]
  have upd: "x \<in> content (c\<lparr>cal_buckets := (cal_buckets c)[i := b]\<rparr>) \<longleftrightarrow>
      (\<exists>j < unat (cal_nBuckets c). x \<in> set (if j = i then b else cal_buckets c ! j))" for x
    by (auto simp: content_iff len nth_list_update)
  have same: "j = i" if "x \<in> set (cal_buckets c ! j)" "x \<in> set (cal_buckets c ! i)"
    "j < unat (cal_nBuckets c)" for x j
    using shape_day [OF assms(1) that(3,1)] shape_day [OF assms(1,2) that(2)] by simp
  show ?thesis
  proof (rule set_eqI)
    fix x
    have "x \<in> content (c\<lparr>cal_buckets := (cal_buckets c)[i := b]\<rparr>) \<longleftrightarrow>
        x \<in> set b \<or> (\<exists>j < unat (cal_nBuckets c). j \<noteq> i \<and> x \<in> set (cal_buckets c ! j))"
      using assms(2) by (auto simp: upd split: if_splits)
    also have "\<dots> \<longleftrightarrow> x \<in> set b \<or> (\<exists>j < unat (cal_nBuckets c). x \<in> set (cal_buckets c ! j)) \<and>
        x \<notin> set (cal_buckets c ! i)"
      using same [of x] by blast
    also have "\<dots> \<longleftrightarrow> x \<in> content c - set (cal_buckets c ! i) \<union> set b"
      by (auto simp: content_iff len)
    finally show "x \<in> content (c\<lparr>cal_buckets := (cal_buckets c)[i := b]\<rparr>) \<longleftrightarrow>
        x \<in> content c - set (cal_buckets c ! i) \<union> set b" .
  qed
qed

lemma shape_ok_update:
  assumes "shape_ok c" and "i < unat (cal_nBuckets c)"
    and "\<And>e. e \<in> set b \<Longrightarrow> day c (ev_time e) mod unat (cal_nBuckets c) = i"
    and "bucket_sorted (cal_reverse c) b" and "inj_on uid (content c - set (cal_buckets c ! i) \<union> set b)"
  shows "shape_ok (c\<lparr>cal_buckets := (cal_buckets c)[i := b]\<rparr>)"
  using assms content_update [OF assms(1-3)]
  by (auto simp: shape_ok_def day_def nth_list_update)

text \<open>Fields that the buckets do not depend on.\<close>

lemma shape_ok_cong:
  assumes "cal_buckets c' = cal_buckets c" and "cal_nBuckets c' = cal_nBuckets c"
    and "cal_width c' = cal_width c" and "cal_reverse c' = cal_reverse c"
  shows "shape_ok c' = shape_ok c" and "content c' = content c" and "Hash ts c' = Hash ts c"
    and "day c' ts = day c ts"
  by (simp_all add: shape_ok_def content_def day_def Hash_def assms)

lemma DoInsert_ok:
  assumes "shape_ok c" and "uid ev \<notin> uids (content c)"
  shows "shape_ok (DoInsert ev c)" and "content (DoInsert ev c) = insert ev (content c)"
proof -
  let ?n = "unat (cal_nBuckets c)" and ?i = "unat (Hash (ev_time ev) c)"
  let ?b = "bucket_insert (cal_reverse c) ev (cal_buckets c ! ?i)"
  have i: "?i = day c (ev_time ev) mod ?n" "?i < ?n"
    using unat_Hash [of c] shape_n(1) [OF assms(1)] by (simp_all add: word_less_nat_alt)
  have old: "set (cal_buckets c ! ?i) \<subseteq> content c"
    using i(2) shape_n(3) [OF assms(1)] by (auto simp: content_iff)
  have day: "day c (ev_time e) mod ?n = ?i" if "e \<in> set ?b" for e
    using that assms(1) i by (auto simp: shape_ok_def)
  have sorted: "bucket_sorted (cal_reverse c) ?b"
    using assms old i(2) by (intro bucket_insert_sorted) (auto simp: shape_ok_def)
  have eq: "content c - set (cal_buckets c ! ?i) \<union> set ?b = insert ev (content c)"
    using old by auto
  moreover have "inj_on uid (insert ev (content c))"
    unfolding inj_on_insert using assms by (auto simp: shape_ok_def)
  ultimately show "shape_ok (DoInsert ev c)" "content (DoInsert ev c) = insert ev (content c)"
    using shape_ok_update [OF assms(1) i(2) day sorted]
      content_update [OF assms(1) i(2), of ?b, OF day]
    by (simp_all only: DoInsert_def Let_def)
qed

lemma DoInsert_fields [simp]:
  "cal_nBuckets (DoInsert ev c) = cal_nBuckets c" "cal_width (DoInsert ev c) = cal_width c"
  "cal_lastBucket (DoInsert ev c) = cal_lastBucket c" "cal_bucketTop (DoInsert ev c) = cal_bucketTop c"
  "cal_lastPrio (DoInsert ev c) = cal_lastPrio c" "cal_qSize (DoInsert ev c) = cal_qSize c"
  "cal_reverse (DoInsert ev c) = cal_reverse c"
  by (simp_all add: DoInsert_def Let_def)

lemma fold_DoInsert_fields [simp]:
  "cal_nBuckets (fold DoInsert evs c) = cal_nBuckets c" "cal_width (fold DoInsert evs c) = cal_width c"
  "cal_lastBucket (fold DoInsert evs c) = cal_lastBucket c"
  "cal_bucketTop (fold DoInsert evs c) = cal_bucketTop c"
  "cal_lastPrio (fold DoInsert evs c) = cal_lastPrio c" "cal_qSize (fold DoInsert evs c) = cal_qSize c"
  "cal_reverse (fold DoInsert evs c) = cal_reverse c"
  by (induction evs arbitrary: c) simp_all

lemma fold_DoInsert_ok:
  assumes "shape_ok c" and "distinct (map uid evs)" and "uid ` set evs \<inter> uids (content c) = {}"
  shows "shape_ok (fold DoInsert evs c) \<and> content (fold DoInsert evs c) = set evs \<union> content c"
  using assms
proof (induction evs arbitrary: c)
  case Nil
  then show ?case by simp
next
  case (Cons ev evs)
  then have "uid ev \<notin> uids (content c)"
    by auto
  note ins = DoInsert_ok [OF Cons.prems(1) this]
  have "uid ` set evs \<inter> uids (content (DoInsert ev c)) = {}"
    using Cons.prems by (auto simp: ins(2))
  with Cons.IH [OF ins(1)] Cons.prems(2) ins(2) show ?case
    by auto
qed

section \<open>The search finds the earliest event\<close>

definition least_event :: "Event \<Rightarrow> CalendarScheduler \<Rightarrow> bool" where
  "least_event ev c \<longleftrightarrow> ev \<in> content c \<and> (\<forall>e \<in> content c. rank ev \<le> rank e)"

text \<open>The bucket looked at in step \<open>s\<close> of the search, and its top.\<close>

abbreviation start_day :: "CalendarScheduler \<Rightarrow> nat" where
  "start_day c \<equiv> day c (cal_lastPrio c)"

definition step_bucket :: "CalendarScheduler \<Rightarrow> nat \<Rightarrow> Event list" where
  "step_bucket c s = cal_buckets c ! ((start_day c + s) mod unat (cal_nBuckets c))"

definition step_top :: "CalendarScheduler \<Rightarrow> nat \<Rightarrow> u64" where
  "step_top c s = of_nat ((start_day c + s + 1) * unat (cal_width c))"

text \<open>
  No event is earlier than the days still to be searched; or all of them are in a day that the
  64-bit top cannot express, which has been passed.
\<close>

definition year_clear :: "CalendarScheduler \<Rightarrow> nat \<Rightarrow> bool" where
  "year_clear c s \<longleftrightarrow> (\<forall>e \<in> content c. start_day c + s \<le> day c (ev_time e)) \<or>
     (\<forall>t. s \<le> t \<and> t < unat (cal_nBuckets c) \<longrightarrow> step_bucket c t = [])"

definition smallest_head :: "CalendarScheduler \<Rightarrow> nat \<Rightarrow> EventKey \<Rightarrow> u32 option \<Rightarrow> bool" where
  "smallest_head c s minKey minBucket \<longleftrightarrow>
     (case minBucket of
        None \<Rightarrow> m_ts minKey = -1 \<and> (\<forall>t < s. step_bucket c t = [])
      | Some b \<Rightarrow> unat b < unat (cal_nBuckets c) \<and> cal_buckets c ! unat b \<noteq> [] \<and>
          minKey = ev_key (NextEvent (cal_reverse c) (cal_buckets c ! unat b)) \<and>
          (\<forall>t < s. \<forall>e \<in> set (step_bucket c t).
             rank (NextEvent (cal_reverse c) (cal_buckets c ! unat b)) \<le> rank e))"

definition search_ok :: "CalendarScheduler \<Rightarrow> search_result \<Rightarrow> bool" where
  "search_ok c res \<longleftrightarrow>
     (case res of
        Found i tp ev \<Rightarrow> i = Hash (ev_time ev) c \<and>
          tp = (ev_time ev div cal_width c + 1) * cal_width c \<and>
          cal_buckets c ! unat i \<noteq> [] \<and> ev = NextEvent (cal_reverse c) (cal_buckets c ! unat i) \<and>
          least_event ev c
      | Smallest_of minKey None \<Rightarrow> content c = {}
      | Smallest_of minKey (Some b) \<Rightarrow> unat b < unat (cal_nBuckets c) \<and> cal_buckets c ! unat b \<noteq> [] \<and>
          minKey = ev_key (NextEvent (cal_reverse c) (cal_buckets c ! unat b)) \<and>
          least_event (NextEvent (cal_reverse c) (cal_buckets c ! unat b)) c)"

lemma day_below_top:
  fixes t W m :: nat
  assumes "0 < W" and "W < 2 ^ 64" and "t < 2 ^ 64" and "m \<le> t div W"
    and "t < (m + 1) * W mod 2 ^ 64"
  shows "t div W = m"
proof -
  have low: "m * W \<le> t"
    using assms(1,4) by (simp add: less_eq_div_iff_mult_less_eq)
  show ?thesis
  proof (cases "(m + 1) * W < 2 ^ 64")
    case True
    with assms(5) have "t < (m + 1) * W"
      by simp
    then have "t div W < m + 1"
      using assms(1) by (simp add: div_less_iff_less_mult)
    with assms(4) show ?thesis
      by simp
  next
    case False
    then have "(m + 1) * W mod 2 ^ 64 = (m + 1) * W - 2 ^ 64"
      using low assms(2,3) by (simp add: mod_if)
    with assms(2,5) low False have False
      by simp
    then show ?thesis ..
  qed
qed

lemma mod_steps_differ:
  assumes "s < t" and "t < (n :: nat)"
  shows "(a + s) mod n \<noteq> (a + t) mod n"
proof
  assume "(a + s) mod n = (a + t) mod n"
  then have "n dvd (a + t) - (a + s)"
    using assms(1) by (metis mod_eq_dvd_iff_nat add_le_cancel_left order_less_imp_le)
  then have "n dvd t - s"
    by simp
  with assms show False
    by (auto dest: dvd_imp_le)
qed

lemma day_reached:
  assumes "0 < (n :: nat)" and "a \<le> d"
  shows "\<exists>t < n. (a + t) mod n = d mod n"
proof (intro exI conjI)
  show "(d - a) mod n < n"
    using assms(1) by simp
  show "(a + (d - a) mod n) mod n = d mod n"
    using assms(2) by (simp add: mod_add_right_eq)
qed

lemma rank_time: "ev_time a < ev_time b \<Longrightarrow> rank a < rank b"
  using rank_less [of a b] by (simp add: event_less_def key_less_def)

lemma day_less: "day c ts < day c ts' \<Longrightarrow> ts < ts'"
  unfolding day_def word_less_nat_alt by (metis div_le_mono not_less)

lemma day_mono: "ts \<le> ts' \<Longrightarrow> day c ts \<le> day c ts'"
  by (simp add: day_def div_le_mono word_le_nat_alt)

lemma step_bucket_sorted:
  assumes "shape_ok c"
  shows "bucket_sorted (cal_reverse c) (step_bucket c s)"
    and "e \<in> set (step_bucket c s) \<Longrightarrow> e \<in> content c"
    and "e \<in> set (step_bucket c s) \<Longrightarrow>
      day c (ev_time e) mod unat (cal_nBuckets c) = (start_day c + s) mod unat (cal_nBuckets c)"
proof -
  have i: "(start_day c + s) mod unat (cal_nBuckets c) < unat (cal_nBuckets c)"
    using shape_n(1) [OF assms] by simp
  show "bucket_sorted (cal_reverse c) (step_bucket c s)"
    using assms i by (simp add: shape_ok_def step_bucket_def)
  show "e \<in> content c" if "e \<in> set (step_bucket c s)"
    using that i shape_n(3) [OF assms] by (auto simp: content_iff step_bucket_def)
  show "day c (ev_time e) mod unat (cal_nBuckets c) = (start_day c + s) mod unat (cal_nBuckets c)"
    if "e \<in> set (step_bucket c s)"
    using shape_day [OF assms i] that by (simp add: step_bucket_def)
qed

lemma in_step_bucket:
  assumes "shape_ok c" and "e \<in> content c" and "day c (ev_time e) = start_day c + s"
  shows "e \<in> set (step_bucket c s)"
  using bucket_of [OF assms(1,2)] assms(3) by (simp add: step_bucket_def)

lemma unat_step_top: "unat (step_top c s) = (start_day c + s + 1) * unat (cal_width c) mod 2 ^ 64"
  by (simp only: step_top_def unat_of_nat) simp

lemma width_bounds: "unat (cal_width c) < 2 ^ 64" "unat (ts :: u64) < 2 ^ 64"
  using unsigned_less [of "cal_width c", where 'a = nat] unsigned_less [of ts, where 'a = nat] by simp_all

lemma found_step:
  assumes "shape_ok c" and "year_clear c s" and "s < unat (cal_nBuckets c)"
    and "step_bucket c s \<noteq> []" and "ev = NextEvent (cal_reverse c) (step_bucket c s)"
    and "ev_time ev < step_top c s"
  shows "day c (ev_time ev) = start_day c + s" and "least_event ev c"
proof -
  note least = NextEvent_least [OF step_bucket_sorted(1) [OF assms(1)] assms(4), folded assms(5)]
  have clear: "\<forall>e \<in> content c. start_day c + s \<le> day c (ev_time e)"
    using assms(2-4) by (auto simp: year_clear_def)
  have ev: "ev \<in> content c"
    using step_bucket_sorted(2) [OF assms(1) least(1)] .
  have "unat (ev_time ev) div unat (cal_width c) = start_day c + s"
  proof (rule day_below_top)
    show "0 < unat (cal_width c)"
      by (rule shape_n(2) [OF assms(1)])
    show "start_day c + s \<le> unat (ev_time ev) div unat (cal_width c)"
      using clear ev by (simp add: day_def [symmetric])
    show "unat (ev_time ev) < (start_day c + s + 1) * unat (cal_width c) mod 2 ^ 64"
      using assms(6) by (simp only: word_less_nat_alt unat_step_top)
  qed (fact width_bounds)+
  then show day: "day c (ev_time ev) = start_day c + s"
    by (simp add: day_def)
  have "rank ev \<le> rank e" if "e \<in> content c" for e
  proof (cases "day c (ev_time e) = start_day c + s")
    case True
    with in_step_bucket [OF assms(1) that] least(2) show ?thesis
      by blast
  next
    case False
    with clear that have "day c (ev_time ev) < day c (ev_time e)"
      unfolding day by force
    then show ?thesis
      by (intro order_less_imp_le rank_time day_less)
  qed
  with ev show "least_event ev c"
    by (simp add: least_event_def)
qed

lemma clear_step:
  assumes "shape_ok c" and "year_clear c s" and "s < unat (cal_nBuckets c)"
    and "step_bucket c s \<noteq> [] \<Longrightarrow> \<not> ev_time (NextEvent (cal_reverse c) (step_bucket c s)) < step_top c s"
  shows "year_clear c (Suc s)"
proof (cases "\<forall>e \<in> content c. start_day c + s \<le> day c (ev_time e)")
  case False
  with assms(2) show ?thesis
    by (auto simp: year_clear_def)
next
  case clear: True
  show ?thesis
  proof (cases "(start_day c + s + 1) * unat (cal_width c) < 2 ^ 64")
    case True
    have "start_day c + Suc s \<le> day c (ev_time e)" if "e \<in> content c" for e
    proof (rule ccontr)
      assume late: "\<not> start_day c + Suc s \<le> day c (ev_time e)"
      have "start_day c + s \<le> day c (ev_time e)"
        using clear that by blast
      with late have d: "day c (ev_time e) = start_day c + s"
        by linarith
      note e = in_step_bucket [OF assms(1) that d]
      then have ne: "step_bucket c s \<noteq> []"
        by auto
      have "unat (ev_time e) div unat (cal_width c) < start_day c + s + 1"
        using d by (simp add: day_def)
      then have "unat (ev_time e) < (start_day c + s + 1) * unat (cal_width c)"
        using shape_n(2) [OF assms(1)] by (simp only: div_less_iff_less_mult)
      then have "ev_time e < step_top c s"
        using True by (simp only: word_less_nat_alt unat_step_top mod_less)
      moreover have "ev_time (NextEvent (cal_reverse c) (step_bucket c s)) \<le> ev_time e"
        using NextEvent_least(2) [OF step_bucket_sorted(1) [OF assms(1)] ne] e by (blast intro: rank_ts)
      ultimately show False
        using assms(4) ne by simp
    qed
    then show ?thesis
      by (simp add: year_clear_def)
  next
    case False
    have "day c (ev_time e) = start_day c + s" if "e \<in> content c" for e
    proof -
      have "unat (ev_time e) < (start_day c + s + 1) * unat (cal_width c)"
        using False width_bounds(2) [of "ev_time e"] by linarith
      then have "day c (ev_time e) < start_day c + s + 1"
        using shape_n(2) [OF assms(1)] unfolding day_def by (simp only: div_less_iff_less_mult)
      moreover have "start_day c + s \<le> day c (ev_time e)"
        using clear that by blast
      ultimately show ?thesis
        by linarith
    qed
    then have "step_bucket c t = []" if "Suc s \<le> t" "t < unat (cal_nBuckets c)" for t
      using step_bucket_sorted(2,3) [OF assms(1), of _ t] mod_steps_differ [of s t] that
      by (metis Suc_le_lessD last_in_set)
    then show ?thesis
      by (simp add: year_clear_def)
  qed
qed

lemma smallest_step:
  assumes "shape_ok c" and "time_ok c" and "smallest_head c s minKey minBucket"
    and "s < unat (cal_nBuckets c)" and "unat i = (start_day c + s) mod unat (cal_nBuckets c)"
    and "(minKey', minBucket') =
      (if step_bucket c s \<noteq> [] \<and> key_less (ev_key (NextEvent (cal_reverse c) (step_bucket c s))) minKey
       then (ev_key (NextEvent (cal_reverse c) (step_bucket c s)), Some i) else (minKey, minBucket))"
  shows "smallest_head c (Suc s) minKey' minBucket'"
proof (cases "step_bucket c s = []")
  case True
  with assms(3,6) show ?thesis
    by (auto simp: smallest_head_def less_Suc_eq split: option.splits)
next
  case ne: False
  let ?next = "NextEvent (cal_reverse c) (step_bucket c s)"
  note least = NextEvent_least [OF step_bucket_sorted(1) [OF assms(1)] ne]
  have bucket: "cal_buckets c ! unat i = step_bucket c s" "unat i < unat (cal_nBuckets c)"
    using assms(5) shape_n(1) [OF assms(1)] by (simp_all add: step_bucket_def)
  have "ev_time ?next < -1"
    using step_bucket_sorted(2) [OF assms(1) least(1)] assms(2) by (simp add: time_ok_def)
  then have first: "minBucket = None \<Longrightarrow> key_less (ev_key ?next) minKey"
    using assms(3) by (simp add: smallest_head_def key_less_def)
  show ?thesis
  proof (cases "key_less (ev_key ?next) minKey")
    case True
    have "rank ?next \<le> rank e" if "t < Suc s" "e \<in> set (step_bucket c t)" for t e
    proof (cases "t = s")
      case True
      with that(2) least(2) show ?thesis by blast
    next
      case False
      with that(1) have "t < s" by simp
      with assms(3) that(2) obtain b where "minBucket = Some b"
        by (cases minBucket) (auto simp: smallest_head_def)
      with assms(3) that(2) \<open>t < s\<close> True show ?thesis
        by (force simp: smallest_head_def key_less_rank)
    qed
    with True ne assms(6) bucket show ?thesis
      by (simp add: smallest_head_def)
  next
    case False
    with first obtain b where b: "minBucket = Some b"
      by (cases minBucket) auto
    have "rank (NextEvent (cal_reverse c) (cal_buckets c ! unat b)) \<le> rank ?next"
      using False b assms(3) by (auto simp: smallest_head_def key_less_rank)
    with least(2) have "\<forall>e \<in> set (step_bucket c s).
        rank (NextEvent (cal_reverse c) (cal_buckets c ! unat b)) \<le> rank e"
      using order_trans by blast
    with False b assms(3,6) show ?thesis
      by (auto simp: smallest_head_def less_Suc_eq)
  qed
qed

lemma word_day:
  "(ts div cal_width c + 1) * cal_width c = (of_nat ((day c ts + 1) * unat (cal_width c)) :: u64)"
proof -
  have "(of_nat (day c ts) :: u64) = ts div cal_width c"
    by (simp add: day_def flip: unat_div)
  then show ?thesis
    by (simp add: algebra_simps)
qed

lemma year_end:
  assumes "shape_ok c" and "time_ok c"
    and "smallest_head c (unat (cal_nBuckets c)) minKey minBucket"
  shows "search_ok c (Smallest_of minKey minBucket)"
proof -
  have seen: "\<exists>t < unat (cal_nBuckets c). e \<in> set (step_bucket c t)" if "e \<in> content c" for e
  proof -
    have "start_day c \<le> day c (ev_time e)"
      using assms(2) that by (simp add: time_ok_def day_mono)
    from day_reached [OF shape_n(1) [OF assms(1)] this] obtain t where
      "t < unat (cal_nBuckets c)" "(start_day c + t) mod unat (cal_nBuckets c) =
        day c (ev_time e) mod unat (cal_nBuckets c)"
      by blast
    with bucket_of [OF assms(1) that] show ?thesis
      by (auto simp: step_bucket_def)
  qed
  show ?thesis
  proof (cases minBucket)
    case None
    with assms(3) seen show ?thesis
      by (fastforce simp: smallest_head_def search_ok_def)
  next
    case (Some b)
    with assms(3) have b: "unat b < unat (cal_nBuckets c)" "cal_buckets c ! unat b \<noteq> []"
      "minKey = ev_key (NextEvent (cal_reverse c) (cal_buckets c ! unat b))"
      "\<forall>t < unat (cal_nBuckets c). \<forall>e \<in> set (step_bucket c t).
         rank (NextEvent (cal_reverse c) (cal_buckets c ! unat b)) \<le> rank e"
      by (auto simp: smallest_head_def)
    have "bucket_sorted (cal_reverse c) (cal_buckets c ! unat b)"
      using assms(1) b(1) by (simp add: shape_ok_def)
    from NextEvent_least(1) [OF this b(2)] b(1) shape_n(3) [OF assms(1)]
    have "NextEvent (cal_reverse c) (cal_buckets c ! unat b) \<in> content c"
      by (auto simp: content_iff)
    moreover have "rank (NextEvent (cal_reverse c) (cal_buckets c ! unat b)) \<le> rank e" if "e \<in> content c" for e
      using seen [OF that] b(4) by blast
    ultimately show ?thesis
      using Some b(1-3) by (simp add: search_ok_def least_event_def)
  qed
qed

lemma next_index:
  assumes "0 < nB" and "unat i = a mod unat nB"
  shows "unat ((i + 1) mod nB :: u32) = (a + 1) mod unat nB"
proof -
  have "unat i < unat nB"
    using assms by (simp add: word_less_nat_alt)
  then have "unat (i + 1) = unat i + 1"
    using unsigned_less [of nB, where 'a = nat] by (simp add: unat_word_ariths)
  then show ?thesis
    using assms(2) by (simp add: unat_mod mod_add_left_eq mod_Suc_eq)
qed

lemma year_step:
  assumes "shape_ok c" and "time_ok c" and "s < unat (cal_nBuckets c)"
    and "unat i = (start_day c + s) mod unat (cal_nBuckets c)"
    and "year_clear c s" and "smallest_head c s minKey minBucket"
  obtains (found) ev where "search_ok c (Found i (step_top c s) ev)"
      "\<And>k. year_search c (Suc k) i (step_top c s) minKey minBucket = Inr (Found i (step_top c s) ev)"
  | (go_on) minKey' minBucket' where "year_clear c (Suc s)" "smallest_head c (Suc s) minKey' minBucket'"
      "\<And>k. year_search c (Suc k) i (step_top c s) minKey minBucket =
         (if (i + 1) mod cal_nBuckets c \<noteq> cal_lastBucket c
          then year_search c k ((i + 1) mod cal_nBuckets c) (step_top c (Suc s)) minKey' minBucket'
          else Inr (Smallest_of minKey' minBucket'))"
proof -
  let ?b = "step_bucket c s" and ?next = "NextEvent (cal_reverse c) (step_bucket c s)"
  have b: "cal_buckets c ! unat i = ?b"
    using assms(4) by (simp add: step_bucket_def)
  have top: "step_top c s + cal_width c = step_top c (Suc s)"
    by (simp add: step_top_def algebra_simps)
  show ?thesis
  proof (cases "?b \<noteq> [] \<and> ev_time ?next < step_top c s")
    case True
    with found_step [OF assms(1,5,3)] have f: "day c (ev_time ?next) = start_day c + s" "least_event ?next c"
      by blast+
    have "i = Hash (ev_time ?next) c"
      using unat_Hash [of c "ev_time ?next"] shape_n(1) [OF assms(1)] assms(4) f(1)
      by (simp add: word_unat_eq_iff word_less_nat_alt)
    moreover have "step_top c s = (ev_time ?next div cal_width c + 1) * cal_width c"
      unfolding word_day f(1) by (simp add: step_top_def)
    ultimately have "search_ok c (Found i (step_top c s) ?next)"
      using True f b by (simp add: search_ok_def)
    moreover have "year_search c (Suc k) i (step_top c s) minKey minBucket =
        Inr (Found i (step_top c s) ?next)" for k
      using True by (simp add: b Let_def)
    ultimately show ?thesis
      by (rule found)
  next
    case False
    obtain minKey' minBucket' where m: "(minKey', minBucket') =
        (if ?b \<noteq> [] \<and> key_less (ev_key ?next) minKey then (ev_key ?next, Some i) else (minKey, minBucket))"
      by (metis surj_pair)
    have "year_clear c (Suc s)"
      using clear_step [OF assms(1,5,3)] False by blast
    moreover have "smallest_head c (Suc s) minKey' minBucket'"
      by (rule smallest_step [OF assms(1,2,6,3,4) m])
    moreover have "year_search c (Suc k) i (step_top c s) minKey minBucket =
         (if (i + 1) mod cal_nBuckets c \<noteq> cal_lastBucket c
          then year_search c k ((i + 1) mod cal_nBuckets c) (step_top c (Suc s)) minKey' minBucket'
          else Inr (Smallest_of minKey' minBucket'))" for k
      using False m by (auto simp: b Let_def top split: if_splits)
    ultimately show ?thesis
      by (rule go_on)
  qed
qed

lemma last_index:
  assumes "shape_ok c" and "time_ok c" and "s < unat (cal_nBuckets c)"
    and "unat i = (start_day c + s) mod unat (cal_nBuckets c)"
  shows "(i + 1) mod cal_nBuckets c = cal_lastBucket c \<longleftrightarrow> Suc s = unat (cal_nBuckets c)"
proof -
  have n: "0 < cal_nBuckets c"
    using assms(1) by (simp add: shape_ok_def)
  have "unat (cal_lastBucket c) = (start_day c + 0) mod unat (cal_nBuckets c)"
    using unat_Hash [OF n] assms(2) by (simp add: time_ok_def)
  moreover have "unat ((i + 1) mod cal_nBuckets c) = (start_day c + Suc s) mod unat (cal_nBuckets c)"
    using next_index [OF n assms(4)] by simp
  ultimately have "(i + 1) mod cal_nBuckets c = cal_lastBucket c \<longleftrightarrow>
      (start_day c + Suc s) mod unat (cal_nBuckets c) = (start_day c + 0) mod unat (cal_nBuckets c)"
    by (simp add: word_unat_eq_iff)
  also have "\<dots> \<longleftrightarrow> Suc s = unat (cal_nBuckets c)"
  proof (cases "Suc s = unat (cal_nBuckets c)")
    case False
    with assms(3) have "Suc s < unat (cal_nBuckets c)"
      by simp
    from mod_steps_differ [OF _ this, of 0 "start_day c"] False show ?thesis
      by simp
  qed simp
  finally show ?thesis .
qed

lemma year_search_ok:
  assumes "shape_ok c" and "time_ok c" and "Suc k = unat (cal_nBuckets c) - s"
    and "unat i = (start_day c + s) mod unat (cal_nBuckets c)"
    and "year_clear c s" and "smallest_head c s minKey minBucket"
  shows "\<exists>res. year_search c (Suc k) i (step_top c s) minKey minBucket = Inr res \<and> search_ok c res"
  using assms(3-)
proof (induction k arbitrary: s i minKey minBucket)
  case 0
  then have s: "s < unat (cal_nBuckets c)" "Suc s = unat (cal_nBuckets c)"
    by simp_all
  show ?case
  proof (cases rule: year_step [OF assms(1,2) s(1) 0(2-4), case_names found go_on])
    case (found ev)
    then show ?thesis by blast
  next
    case (go_on minKey' minBucket')
    with last_index [OF assms(1,2) s(1) 0(2)] year_end [OF assms(1,2)] s(2) show ?thesis
      by simp
  qed
next
  case (Suc k)
  then have s: "s < unat (cal_nBuckets c)" "Suc s \<noteq> unat (cal_nBuckets c)"
      "Suc k = unat (cal_nBuckets c) - Suc s"
    by simp_all
  show ?case
  proof (cases rule: year_step [OF assms(1,2) s(1) Suc.prems(2-4), case_names found go_on])
    case (found ev)
    then show ?thesis by blast
  next
    case (go_on minKey' minBucket')
    have "unat ((i + 1) mod cal_nBuckets c) = (start_day c + Suc s) mod unat (cal_nBuckets c)"
      using next_index [OF _ Suc.prems(2)] assms(1) by (simp add: shape_ok_def)
    from Suc.IH [OF s(3) this go_on(1,2)] go_on(3) [of "Suc k"] show ?thesis
      using last_index [OF assms(1,2) s(1) Suc.prems(2)] s(2) by simp
  qed
qed

lemma year_start:
  assumes "shape_ok c" and "time_ok c" and "m_ts minKey = -1"
  obtains res where "year_search c (unat (cal_nBuckets c)) (cal_lastBucket c) (cal_bucketTop c) minKey None = Inr res"
    "search_ok c res"
proof -
  obtain k where k: "unat (cal_nBuckets c) = Suc k"
    using shape_n(1) [OF assms(1)] not0_implies_Suc by blast
  have "cal_bucketTop c = step_top c 0"
    using assms(2) word_day [of "cal_lastPrio c" c] by (simp add: time_ok_def step_top_def)
  moreover have "unat (cal_lastBucket c) = (start_day c + 0) mod unat (cal_nBuckets c)"
    using unat_Hash [of c] assms(1,2) by (simp add: time_ok_def shape_ok_def)
  moreover have "year_clear c 0"
    using assms(2) by (simp add: year_clear_def time_ok_def day_mono)
  moreover have "smallest_head c 0 minKey None"
    using assms(3) by (simp add: smallest_head_def)
  ultimately show ?thesis
    using year_search_ok [OF assms(1,2), of k 0 "cal_lastBucket c" minKey None] k that by auto
qed

definition removed :: "CalendarScheduler \<Rightarrow> Event \<Rightarrow> CalendarScheduler \<Rightarrow> bool" where
  "removed c ev c' \<longleftrightarrow> least_event ev c \<and> shape_ok c' \<and> time_ok c' \<and>
     content c' = content c - {ev} \<and> cal_lastPrio c' = ev_time ev \<and>
     cal_nBuckets c' = cal_nBuckets c \<and> cal_width c' = cal_width c \<and>
     cal_qSize c' = cal_qSize c \<and> cal_reverse c' = cal_reverse c"

lemma remove_head:
  assumes "shape_ok c" and "time_ok c" and "unat i < unat (cal_nBuckets c)"
    and "cal_buckets c ! unat i \<noteq> []" and "ev = NextEvent (cal_reverse c) (cal_buckets c ! unat i)"
    and "least_event ev c"
  shows "removed c ev (c\<lparr>cal_lastBucket := Hash (ev_time ev) c, cal_lastPrio := ev_time ev,
      cal_bucketTop := (ev_time ev div cal_width c + 1) * cal_width c,
      cal_buckets := (cal_buckets c)[unat i := Pop (cal_reverse c) (cal_buckets c ! unat i)]\<rparr>)"
proof -
  let ?b = "cal_buckets c ! unat i"
  let ?c1 = "c\<lparr>cal_buckets := (cal_buckets c)[unat i := Pop (cal_reverse c) ?b]\<rparr>"
  let ?c2 = "?c1\<lparr>cal_lastBucket := Hash (ev_time ev) c, cal_lastPrio := ev_time ev,
      cal_bucketTop := (ev_time ev div cal_width c + 1) * cal_width c\<rparr>"
  have sorted: "bucket_sorted (cal_reverse c) ?b"
    using assms(1,3) by (simp add: shape_ok_def)
  note pop = Pop_sorted [OF sorted assms(4), folded assms(5)]
  have day: "day c (ev_time e) mod unat (cal_nBuckets c) = unat i" if "e \<in> set (Pop (cal_reverse c) ?b)" for e
    using shape_day [OF assms(1,3)] that pop(2) by blast
  have "ev \<in> set ?b" "set ?b \<subseteq> content c"
    using NextEvent_least(1) [OF sorted assms(4)] assms(3,5) shape_n(3) [OF assms(1)]
    by (auto simp: content_iff)
  then have eq: "content c - set ?b \<union> set (Pop (cal_reverse c) ?b) = content c - {ev}"
    using pop(2) by auto
  have "inj_on uid (content c - set ?b \<union> set (Pop (cal_reverse c) ?b))"
    unfolding eq using assms(1) by (auto simp: shape_ok_def intro: inj_on_subset)
  from shape_ok_update [OF assms(1,3) day pop(1) this] content_update [OF assms(1,3) day] eq
  have c1: "shape_ok ?c1" "content ?c1 = content c - {ev}"
    by simp_all
  have c2: "shape_ok ?c2" "content ?c2 = content c - {ev}" "\<And>ts. Hash ts ?c2 = Hash ts c"
    using c1 shape_ok_cong [of ?c2 ?c1] by (simp_all add: Hash_def)
  have "time_ok ?c2"
    using c2 assms(2,6) unfolding time_ok_def least_event_def by (auto intro: rank_ts)
  with c2 assms(6) have "removed c ev ?c2"
    by (simp add: removed_def)
  moreover have "?c2 = c\<lparr>cal_lastBucket := Hash (ev_time ev) c, cal_lastPrio := ev_time ev,
      cal_bucketTop := (ev_time ev div cal_width c + 1) * cal_width c,
      cal_buckets := (cal_buckets c)[unat i := Pop (cal_reverse c) ?b]\<rparr>"
    by (cases c) simp
  ultimately show ?thesis
    by simp
qed

lemma least_unique:
  assumes "shape_ok c" and "least_event a c" and "least_event b c"
  shows "a = b"
proof -
  have "rank a = rank b"
    using assms(2,3) by (simp add: least_event_def antisym)
  moreover have "inj_on rank (content c)"
    using assms(1) by (simp add: shape_ok_def rank_inj_on)
  ultimately show ?thesis
    using assms(2,3) by (auto simp: least_event_def dest: inj_onD)
qed

lemma search_found:
  assumes "search_ok c (Found i tp ev)"
  shows "i = Hash (ev_time ev) c" and "tp = (ev_time ev div cal_width c + 1) * cal_width c"
    and "cal_buckets c ! unat i \<noteq> []" and "ev = NextEvent (cal_reverse c) (cal_buckets c ! unat i)"
    and "least_event ev c"
  using assms unfolding search_ok_def search_result.case by blast+

lemma DoRemoveNext_ok:
  assumes "shape_ok c" and "time_ok c" and "content c \<noteq> {}" and "cal_qSize c \<noteq> 0"
  obtains ev c' where "DoRemoveNext c = Inr (ev, c')" "Calendar_PeekNext c = Inr ev" "removed c ev c'"
proof -
  have n: "0 < cal_nBuckets c"
    using assms(1) by (simp add: shape_ok_def)
  have peek: "\<exists>ev. Calendar_PeekNext c = Inr ev \<and> least_event ev c"
  proof -
    obtain res where res: "year_search c (unat (cal_nBuckets c)) (cal_lastBucket c) (cal_bucketTop c)
        (ev_key no_event) None = Inr res" "search_ok c res"
      by (rule year_start [OF assms(1,2), of "ev_key no_event"]) (simp add: no_event_def)
    show ?thesis
    proof (cases res)
      case (Found i tp ev)
      with res(2) have "search_ok c (Found i tp ev)"
        by (simp only:)
      from search_found(5) [OF this] Found res(1) assms(4) show ?thesis
        by (simp add: Calendar_PeekNext_def Calendar_IsEmpty_def)
    next
      case (Smallest_of minKey minBucket)
      with res assms(3,4) show ?thesis
        by (cases minBucket) (simp_all add: Calendar_PeekNext_def Calendar_IsEmpty_def search_ok_def)
    qed
  qed
  have rem: "\<exists>ev c'. DoRemoveNext c = Inr (ev, c') \<and> removed c ev c'"
  proof -
    obtain res where res: "year_search c (unat (cal_nBuckets c)) (cal_lastBucket c) (cal_bucketTop c)
        \<lparr>m_ts = -1, m_uid = 0, m_context = 0xffffffff\<rparr> None = Inr res" "search_ok c res"
      by (rule year_start [OF assms(1,2),
            of "\<lparr>m_ts = -1, m_uid = 0, m_context = 0xffffffff\<rparr>"]) simp
    show ?thesis
    proof (cases res)
      case (Found i tp ev)
      with res(2) have "search_ok c (Found i tp ev)"
        by (simp only:)
      note f = search_found [OF this]
      have "unat i < unat (cal_nBuckets c)"
        using unat_Hash [OF n, of "ev_time ev"] n unfolding f(1) by (simp add: word_less_nat_alt)
      note rem = remove_head [OF assms(1,2) this f(3-5), folded f(1,2)]
      from Found res(1) assms(4) have "DoRemoveNext c = Inr (ev, c\<lparr>cal_lastBucket := i,
          cal_lastPrio := ev_time ev, cal_bucketTop := tp,
          cal_buckets := (cal_buckets c)[unat i := Pop (cal_reverse c) (cal_buckets c ! unat i)]\<rparr>)"
        by (simp add: DoRemoveNext_def Calendar_IsEmpty_def)
      with rem show ?thesis
        by blast
    next
      case (Smallest_of minKey minBucket)
      with res(2) assms(3) obtain b where b: "minBucket = Some b" "unat b < unat (cal_nBuckets c)"
        "cal_buckets c ! unat b \<noteq> []" "minKey = ev_key (NextEvent (cal_reverse c) (cal_buckets c ! unat b))"
        "least_event (NextEvent (cal_reverse c) (cal_buckets c ! unat b)) c"
        by (cases minBucket) (simp_all add: search_ok_def)
      have swap: "c\<lparr>cal_lastPrio := p, cal_lastBucket := l\<rparr> = c\<lparr>cal_lastBucket := l, cal_lastPrio := p\<rparr>" for p l
        by (cases c) simp
      from remove_head [OF assms(1,2) b(2,3) refl b(5)] Smallest_of res(1) assms(4) b(1,4) show ?thesis
        by (simp add: DoRemoveNext_def Calendar_IsEmpty_def swap)
    qed
  qed
  from peek rem obtain ev ev' c' where "Calendar_PeekNext c = Inr ev" "least_event ev c"
    "DoRemoveNext c = Inr (ev', c')" "removed c ev' c'"
    by blast
  moreover from this have "ev = ev'"
    using least_unique [OF assms(1)] by (simp add: removed_def)
  ultimately show ?thesis
    using that by blast
qed

section \<open>Resizing keeps the events\<close>

lemma take_samples_ok:
  assumes "shape_ok c" and "time_ok c" and "n \<le> card (content c)" and "0 < n \<Longrightarrow> cal_qSize c \<noteq> 0"
  shows "\<exists>evs c'. take_samples n c = Inr (evs, c') \<and> shape_ok c' \<and> distinct evs \<and>
    set evs \<subseteq> content c \<and> content c' = content c - set evs \<and>
    cal_nBuckets c' = cal_nBuckets c \<and> cal_width c' = cal_width c \<and>
    cal_qSize c' = cal_qSize c \<and> cal_reverse c' = cal_reverse c"
  using assms
proof (induction n arbitrary: c)
  case 0
  then show ?case by simp
next
  case (Suc n)
  then have "content c \<noteq> {}" "cal_qSize c \<noteq> 0"
    by auto
  from DoRemoveNext_ok [OF Suc.prems(1,2) this] obtain ev c1 where
    c1: "DoRemoveNext c = Inr (ev, c1)" "removed c ev c1"
    by metis
  then have "n \<le> card (content c1)" and f: "shape_ok c1" "time_ok c1" "cal_qSize c1 = cal_qSize c"
    "ev \<in> content c" "content c1 = content c - {ev}"
    using Suc.prems(3) by (auto simp: removed_def least_event_def)
  with Suc.IH [of c1] \<open>cal_qSize c \<noteq> 0\<close> obtain evs c2 where
    c2: "take_samples n c1 = Inr (evs, c2)" "shape_ok c2" "distinct evs"
      "set evs \<subseteq> content c1" "content c2 = content c1 - set evs"
      "cal_nBuckets c2 = cal_nBuckets c1" "cal_width c2 = cal_width c1"
      "cal_qSize c2 = cal_qSize c1" "cal_reverse c2 = cal_reverse c1"
    by metis
  have "take_samples (Suc n) c = Inr (ev # evs, c2)"
    using c1(1) c2(1) by simp
  with c2 f c1(2) show ?case
    by (auto simp: removed_def)
qed

lemma sample_count:
  fixes q :: u32
  assumes "2 \<le> q"
  shows "unat (let n = (if q \<le> 5 then q else 5 + q div 10) in if 25 < n then 25 else n) \<le> unat q"
proof -
  have "unat (5 + q div 10) = 5 + unat q div 10"
    using unsigned_less [of q, where 'a = nat] by (simp add: unat_word_ariths unat_div)
  then show ?thesis
    by (auto simp: Let_def word_less_nat_alt word_le_nat_alt)
qed

lemma sample_width_pos: "0 < sample_width n evs"
proof -
  have "0 < max x (1 :: u64)" for x
    by (simp add: less_max_iff_disj)
  then show ?thesis
    unfolding sample_width_def Let_def .
qed

text \<open>Two schedulers of the same events and position.\<close>

definition same_events :: "CalendarScheduler \<Rightarrow> CalendarScheduler \<Rightarrow> bool" where
  "same_events c c' \<longleftrightarrow> shape_ok c' \<and> time_ok c' \<and> content c' = content c \<and>
     cal_lastPrio c' = cal_lastPrio c \<and> cal_qSize c' = cal_qSize c \<and> cal_reverse c' = cal_reverse c"

lemma CalculateNewWidth_ok:
  assumes "shape_ok c" and "time_ok c" and "unat (cal_qSize c) = card (content c)"
  obtains w c' where "CalculateNewWidth c = Inr (w, c')" "0 < w" "same_events c c'"
    "cal_nBuckets c' = cal_nBuckets c" "cal_width c' = cal_width c"
proof (cases "cal_qSize c < 2")
  case True
  with assms that [of 1 c] show ?thesis
    by (simp add: CalculateNewWidth_def same_events_def)
next
  case False
  define n where "n = (let n = (if cal_qSize c \<le> 5 then cal_qSize c else 5 + cal_qSize c div 10)
    in if 25 < n then 25 else n)"
  have "unat n \<le> card (content c)" "cal_qSize c \<noteq> 0"
    using sample_count [of "cal_qSize c"] False assms(3) by (auto simp: n_def)
  with take_samples_ok [OF assms(1,2), of "unat n"] obtain evs c1 where
    c1: "take_samples (unat n) c = Inr (evs, c1)" "shape_ok c1" "distinct evs"
      "set evs \<subseteq> content c" "content c1 = content c - set evs"
      "cal_nBuckets c1 = cal_nBuckets c" "cal_width c1 = cal_width c"
      "cal_qSize c1 = cal_qSize c" "cal_reverse c1 = cal_reverse c"
    by metis
  have "inj_on uid (content c)"
    using assms(1) by (simp add: shape_ok_def)
  with c1(3-5) have "distinct (map uid evs)" "uid ` set evs \<inter> uids (content c1) = {}"
    by (auto simp: distinct_map inj_on_def)
  note put = fold_DoInsert_ok [OF c1(2) this]
  define c2 where "c2 = (fold DoInsert evs c1)\<lparr>cal_lastBucket := cal_lastBucket c,
    cal_bucketTop := cal_bucketTop c, cal_lastPrio := cal_lastPrio c\<rparr>"
  have c2: "shape_ok c2" "content c2 = content c" "\<And>ts. Hash ts c2 = Hash ts c"
    using put c1(4,5) shape_ok_cong [of c2 "fold DoInsert evs c1"]
    by (auto simp: c2_def Hash_def c1(6,7))
  have "CalculateNewWidth c = Inr (sample_width n evs, c2)"
    using False c1(1) by (simp add: CalculateNewWidth_def n_def c2_def Let_def)
  moreover have "same_events c c2"
    using c2 assms(2) c1(6-9) by (simp add: same_events_def time_ok_def c2_def)
  ultimately show ?thesis
    using that sample_width_pos c1(6,7) by (simp add: c2_def)
qed

lemma distinct_concat_index:
  assumes "\<And>i. i < length bs \<Longrightarrow> distinct (bs ! i)"
    and "\<And>i e. i < length bs \<Longrightarrow> e \<in> set (bs ! i) \<Longrightarrow> f e = k + i"
  shows "distinct (concat bs)"
  using assms
proof (induction bs arbitrary: k)
  case Nil
  then show ?case by simp
next
  case (Cons b bs)
  have "distinct (concat bs)"
  proof (rule Cons.IH [of "Suc k"])
    show "distinct (bs ! i)" if "i < length bs" for i
      using Cons.prems(1) [of "Suc i"] that by simp
    show "f e = Suc k + i" if "i < length bs" "e \<in> set (bs ! i)" for i e
      using Cons.prems(2) [of "Suc i" e] that by simp
  qed
  moreover have "set b \<inter> set (concat bs) = {}"
  proof (rule ccontr)
    assume "set b \<inter> set (concat bs) \<noteq> {}"
    then obtain e b' where "e \<in> set b" "b' \<in> set bs" "e \<in> set b'"
      by auto
    then obtain i where "e \<in> set b" "i < length bs" "e \<in> set (bs ! i)"
      unfolding in_set_conv_nth [of b'  bs] by blast
    then show False
      using Cons.prems(2) [of 0 e] Cons.prems(2) [of "Suc i" e] by simp
  qed
  ultimately show ?case
    using Cons.prems(1) [of 0] by simp
qed

lemma concat_buckets:
  assumes "shape_ok c"
  shows "distinct (map uid (concat (cal_buckets c)))" and "set (concat (cal_buckets c)) = content c"
proof -
  show set: "set (concat (cal_buckets c)) = content c"
    by (simp add: content_def)
  have "distinct (concat (cal_buckets c))"
    using assms shape_n(3) [OF assms]
    by (intro distinct_concat_index [of _ "\<lambda>e. day c (ev_time e) mod unat (cal_nBuckets c)" 0])
      (auto simp: shape_ok_def intro: bucket_sorted_distinct)
  with set assms show "distinct (map uid (concat (cal_buckets c)))"
    by (simp add: distinct_map shape_ok_def)
qed

lemma Init_ok:
  assumes "0 < n" and "0 < w"
  shows "shape_ok (Calendar_Init n w p c)" and "content (Calendar_Init n w p c) = {}"
  using assms by (auto simp: Calendar_Init_def shape_ok_def content_def Let_def)

lemma DoResize_ok:
  assumes "shape_ok c" and "time_ok c" and "0 < n" and "0 < w"
  shows "same_events c (DoResize n w c)" and "cal_nBuckets (DoResize n w c) = n"
    and "cal_width (DoResize n w c) = w"
proof -
  let ?c0 = "Calendar_Init n w (cal_lastPrio c) c" and ?evs = "concat (cal_buckets c)"
  note c0 = Init_ok [OF assms(3,4), of "cal_lastPrio c" c]
  have put: "shape_ok (fold DoInsert ?evs ?c0)" "content (fold DoInsert ?evs ?c0) = content c"
    using fold_DoInsert_ok [OF c0(1) concat_buckets(1) [OF assms(1)]] c0(2)
      concat_buckets(2) [OF assms(1)] by auto
  have f: "cal_lastPrio ?c0 = cal_lastPrio c" "cal_qSize ?c0 = cal_qSize c"
    "cal_reverse ?c0 = cal_reverse c" "cal_nBuckets ?c0 = n" "cal_width ?c0 = w"
    "cal_lastBucket ?c0 = Hash (cal_lastPrio c) ?c0"
    "cal_bucketTop ?c0 = (cal_lastPrio c div w + 1) * w"
    by (simp_all add: Calendar_Init_def Let_def Hash_def)
  have "Hash ts (fold DoInsert ?evs ?c0) = Hash ts ?c0" for ts
    by (simp add: Hash_def)
  with put f assms(2) show "same_events c (DoResize n w c)"
    by (simp add: same_events_def DoResize_def time_ok_def)
  show "cal_nBuckets (DoResize n w c) = n" "cal_width (DoResize n w c) = w"
    by (simp_all add: DoResize_def f)
qed


section \<open>The operations keep the invariant\<close>

definition cal_ok :: "CalendarScheduler \<Rightarrow> bool" where
  "cal_ok c \<longleftrightarrow> shape_ok c \<and> time_ok c \<and> unat (cal_qSize c) = card (content c) \<and>
     (\<exists>k \<le> 15. unat (cal_nBuckets c) = 2 ^ k)"

lemma Resize_ok:
  assumes "cal_ok c" and "unat n = 2 ^ k" and "k \<le> 15"
  obtains c' where "Resize n c = Inr c'" "cal_ok c'" "content c' = content c"
    "cal_lastPrio c' = cal_lastPrio c"
proof -
  obtain w c1 where c1: "CalculateNewWidth c = Inr (w, c1)" "0 < w" "same_events c c1"
    using assms(1) CalculateNewWidth_ok unfolding cal_ok_def by metis
  have "0 < n"
    using assms(2) by (simp add: word_less_nat_alt)
  with c1 have c2: "same_events c1 (DoResize n w c1)" "cal_nBuckets (DoResize n w c1) = n"
    using DoResize_ok [of c1 n w] by (simp_all add: same_events_def)
  have "cal_ok (DoResize n w c1)"
    using c1(3) c2 assms unfolding cal_ok_def same_events_def by auto
  with c1 c2 that show ?thesis
    by (simp add: Resize_def same_events_def)
qed

lemma resize_ok:
  assumes "cal_ok c"
  shows "\<exists>c'. ResizeUp c = Inr c' \<and> cal_ok c' \<and> content c' = content c \<and> cal_lastPrio c' = cal_lastPrio c"
    and "\<exists>c'. ResizeDown c = Inr c' \<and> cal_ok c' \<and> content c' = content c \<and> cal_lastPrio c' = cal_lastPrio c"
proof -
  obtain k where k: "k \<le> 15" "unat (cal_nBuckets c) = 2 ^ k"
    using assms by (auto simp: cal_ok_def)
  show "\<exists>c'. ResizeUp c = Inr c' \<and> cal_ok c' \<and> content c' = content c \<and> cal_lastPrio c' = cal_lastPrio c"
  proof (cases "cal_nBuckets c * 2 < cal_qSize c \<and> cal_nBuckets c < 32768")
    case True
    then have "(2 :: nat) ^ k < 2 ^ 15"
      using k(2) by (simp add: word_less_nat_alt)
    then have "Suc k \<le> 15"
      by (simp only: power_strict_increasing_iff [of "2 :: nat"] Suc_le_eq)
    moreover have "unat (cal_nBuckets c * 2) = 2 ^ Suc k"
      using True k(2) by (simp add: unat_word_ariths word_less_nat_alt)
    ultimately show ?thesis
      using True Resize_ok [OF assms, of "cal_nBuckets c * 2" "Suc k"] unfolding ResizeUp_def by metis
  next
    case False
    with assms show ?thesis
      by (auto simp: ResizeUp_def)
  qed
  show "\<exists>c'. ResizeDown c = Inr c' \<and> cal_ok c' \<and> content c' = content c \<and> cal_lastPrio c' = cal_lastPrio c"
  proof (cases "cal_qSize c < cal_nBuckets c div 2")
    case True
    then have "0 < (2 :: nat) ^ k div 2"
      using k(2) by (simp add: word_less_nat_alt unat_div)
    then obtain j where j: "k = Suc j"
      by (cases k) auto
    with k have "unat (cal_nBuckets c div 2) = 2 ^ j" "j \<le> 15"
      by (simp_all add: unat_div)
    with True Resize_ok [OF assms] show ?thesis
      unfolding ResizeDown_def by metis
  next
    case False
    with assms show ?thesis
      by (auto simp: ResizeDown_def)
  qed
qed

lemma time_ok_cong:
  assumes "shape_ok c'" and "content c' \<subseteq> content c \<union> {e. cal_lastPrio c \<le> ev_time e \<and> ev_time e < -1}"
    and "time_ok c" and "cal_lastPrio c' = cal_lastPrio c" and "cal_lastBucket c' = cal_lastBucket c"
    and "cal_bucketTop c' = cal_bucketTop c" and "cal_width c' = cal_width c"
    and "cal_nBuckets c' = cal_nBuckets c"
  shows "time_ok c'"
  using assms by (auto simp: time_ok_def Hash_def)

lemma size_step:
  fixes q :: u32
  shows "unat q = n \<Longrightarrow> n < 2 ^ 32 - 1 \<Longrightarrow> unat (q + 1) = n + 1"
    and "unat q = Suc n \<Longrightarrow> unat (q - 1) = n"
proof -
  show "unat (q + 1) = n + 1" if "unat q = n" "n < 2 ^ 32 - 1"
    using that by (simp add: unat_word_ariths)
  show "unat (q - 1) = n" if "unat q = Suc n"
    using that by (metis diff_Suc_1 unat_minus_one unsigned_0 nat.distinct(1))
qed

lemma Calendar_Insert_ok:
  assumes "cal_ok c" and "uid ev \<notin> uids (content c)" and "cal_lastPrio c \<le> ev_time ev"
    and "ev_time ev < -1" and "card (content c) < 2 ^ 32 - 1"
  shows "\<exists>c'. Calendar_Insert ev c = Inr c' \<and> cal_ok c' \<and> content c' = insert ev (content c) \<and>
    cal_lastPrio c' = cal_lastPrio c"
proof -
  let ?c = "(DoInsert ev c)\<lparr>cal_qSize := cal_qSize c + 1\<rparr>"
  have "shape_ok c"
    using assms(1) by (simp add: cal_ok_def)
  note ins = DoInsert_ok [OF this assms(2)]
  have c: "shape_ok ?c" "content ?c = insert ev (content c)"
    using ins shape_ok_cong [of ?c "DoInsert ev c"] by simp_all
  have "time_ok ?c"
    using c assms(1,3,4) by (intro time_ok_cong [of ?c c]) (auto simp: cal_ok_def)
  moreover have "unat (cal_qSize ?c) = card (content ?c)"
    using c(2) assms size_step(1) [of "cal_qSize c"] by (auto simp: cal_ok_def card_insert_if)
  ultimately have "cal_ok ?c"
    using c assms(1) by (simp add: cal_ok_def)
  from resize_ok(1) [OF this] c(2) show ?thesis
    by (simp add: Calendar_Insert_def Let_def)
qed

lemma cal_empty: "cal_ok c \<Longrightarrow> Calendar_IsEmpty c \<longleftrightarrow> content c = {}"
  by (auto simp: cal_ok_def Calendar_IsEmpty_def word_unat_eq_iff)

lemma Calendar_RemoveNext_ok:
  assumes "cal_ok c" and "content c \<noteq> {}"
  obtains ev c' where "Calendar_RemoveNext c = Inr (ev, c')" "Calendar_PeekNext c = Inr ev" "cal_ok c'"
    "least_event ev c" "content c' = content c - {ev}" "cal_lastPrio c' = ev_time ev"
proof -
  have ne: "\<not> Calendar_IsEmpty c"
    using cal_empty assms by simp
  then obtain ev c1 where c1: "DoRemoveNext c = Inr (ev, c1)" "Calendar_PeekNext c = Inr ev" "removed c ev c1"
    using DoRemoveNext_ok [of c] assms by (auto simp: cal_ok_def Calendar_IsEmpty_def)
  let ?c = "c1\<lparr>cal_qSize := cal_qSize c - 1\<rparr>"
  have c: "shape_ok ?c" "content ?c = content c - {ev}" "ev \<in> content c"
    using c1(3) shape_ok_cong [of ?c c1] by (simp_all add: removed_def least_event_def)
  have "time_ok ?c"
    using c1(3) c by (intro time_ok_cong [of ?c c1]) (auto simp: removed_def)
  moreover have "unat (cal_qSize ?c) = card (content ?c)"
    using c(2,3) assms(1) size_step(2) [of "cal_qSize c" "card (content c - {ev})"]
    by (simp add: cal_ok_def card_Suc_Diff1 del: card_Diff_insert)
  ultimately have "cal_ok ?c"
    using c(1) c1(3) assms(1) by (simp add: cal_ok_def removed_def)
  from resize_ok(2) [OF this] obtain c' where "ResizeDown ?c = Inr c'" "cal_ok c'"
    "content c' = content c - {ev}" "cal_lastPrio c' = ev_time ev"
    using c(2) c1(3) by (auto simp: removed_def)
  with ne c1 that show ?thesis
    by (simp add: Calendar_RemoveNext_def removed_def)
qed

lemma CalendarScheduler_new_ok: "cal_ok (CalendarScheduler_new rv)" "content (CalendarScheduler_new rv) = {}"
proof -
  let ?c = "Calendar_Init 2 1 0 \<lparr>cal_buckets = [], cal_nBuckets = 0, cal_width = 0, cal_lastBucket = 0,
        cal_bucketTop = 0, cal_lastPrio = 0, cal_qSize = 0, cal_reverse = rv\<rparr>"
  have c: "shape_ok ?c" "content ?c = {}"
    by (rule Init_ok; simp)+
  then have new: "shape_ok (CalendarScheduler_new rv)" "content (CalendarScheduler_new rv) = {}"
    using shape_ok_cong [of "CalendarScheduler_new rv" ?c] by (simp_all add: CalendarScheduler_new_def)
  moreover have "time_ok (CalendarScheduler_new rv)"
    unfolding time_ok_def new(2)
    by (simp add: CalendarScheduler_new_def Calendar_Init_def Let_def Hash_def)
  moreover have "unat (cal_nBuckets (CalendarScheduler_new rv)) = 2 ^ 1"
    by (simp add: CalendarScheduler_new_def Calendar_Init_def Let_def)
  ultimately show "cal_ok (CalendarScheduler_new rv)" "content (CalendarScheduler_new rv) = {}"
    unfolding cal_ok_def
    by (auto simp: CalendarScheduler_new_def Calendar_Init_def Let_def intro!: exI [of _ 1])
qed


section \<open>The calendar keeps the contract\<close>

interpretation calendar: timed_queue cal_ok content cal_lastPrio Calendar_Insert Calendar_IsEmpty
  Calendar_PeekNext Calendar_RemoveNext
proof unfold_locales
  fix c ev
  show "finite (content c) \<and> inj_on uid (content c)" if "cal_ok c"
    using that by (simp add: cal_ok_def shape_ok_def)
  show "\<exists>c'. Calendar_Insert ev c = Inr c' \<and> cal_ok c' \<and> content c' = insert ev (content c) \<and>
      cal_lastPrio c' \<le> cal_lastPrio c"
    if "cal_ok c" "uid ev \<notin> uids (content c)" "cal_lastPrio c \<le> ev_time ev" "ev_time ev < -1"
      "card (content c) < 2 ^ 32 - 1"
    using Calendar_Insert_ok [OF that] by auto
  show "Calendar_IsEmpty c \<longleftrightarrow> content c = {}" if "cal_ok c"
    using that by (rule cal_empty)
  show "\<exists>ev c'. Calendar_RemoveNext c = Inr (ev, c') \<and> Calendar_PeekNext c = Inr ev \<and> cal_ok c' \<and>
      ev \<in> content c \<and> (\<forall>e \<in> content c. rank ev \<le> rank e) \<and> content c' = content c - {ev} \<and>
      cal_lastPrio c' \<le> ev_time ev"
    if "cal_ok c" "content c \<noteq> {}"
    using Calendar_RemoveNext_ok [OF that] unfolding least_event_def by (metis order_refl)
qed

interpretation list_calendar: timed_pair list_ok set "\<lambda>_. 0" List_insert ListScheduler_IsEmpty
  ListScheduler_PeekNext ListScheduler_RemoveNext cal_ok content cal_lastPrio Calendar_Insert
  Calendar_IsEmpty Calendar_PeekNext Calendar_RemoveNext ..

section \<open>Properties\<close>

text \<open>
  C11: Over any history that inserts no event before the one given out last, with distinct
  identifiers and fewer than 2^32 events, the calendar scheduler and the list scheduler give
  out the same events in the same order, whichever way the buckets are stored.
\<close>

theorem calendar_matches_list:
  assumes "distinct (map uid (inserted ops))" and "length (inserted ops) < 2 ^ 32"
    and "on_time List_insert ListScheduler_IsEmpty ListScheduler_RemoveNext 0 ops []"
  shows "\<exists>evs. run_ops List_insert ListScheduler_IsEmpty ListScheduler_RemoveNext ops [] = Inr evs \<and>
    run_ops Calendar_Insert Calendar_IsEmpty Calendar_RemoveNext ops (CalendarScheduler_new rv) = Inr evs"
proof (rule list_calendar.same_run [where p = 0])
  show "cal_lastPrio (CalendarScheduler_new rv) \<le> 0"
    by (simp add: CalendarScheduler_new_def Calendar_Init_def Let_def)
qed (use assms CalendarScheduler_new_ok in \<open>simp_all add: list_ok_def\<close>)

abbreviation event_at :: "u64 \<Rightarrow> u32 \<Rightarrow> Event" where
  "event_at ts u \<equiv> \<lparr>ev_impl = None, ev_key = \<lparr>m_ts = ts, m_uid = u, m_context = 0\<rparr>\<rparr>"

definition calendar_history :: "queue_op list" where
  "calendar_history = map (\<lambda>(ts, u). Op_Insert (event_at ts u))
     [(30, 4), (7, 5), (7, 6), (90, 7), (12, 8)] @
     [Op_Next, Op_Next, Op_Insert (event_at 12 9), Op_Next, Op_Next, Op_Next]"

lemma calendar_matches_list_witness:
  "\<exists>evs. run_ops List_insert ListScheduler_IsEmpty ListScheduler_RemoveNext calendar_history [] = Inr evs \<and>
    run_ops Calendar_Insert Calendar_IsEmpty Calendar_RemoveNext calendar_history
      (CalendarScheduler_new True) = Inr evs"
proof (rule calendar_matches_list)
  show "distinct (map uid (inserted calendar_history))"
    by code_simp
  show "length (inserted calendar_history) < 2 ^ 32"
    by (simp add: calendar_history_def)
  show "on_time List_insert ListScheduler_IsEmpty ListScheduler_RemoveNext 0 calendar_history []"
    by (simp add: calendar_history_def ListScheduler_IsEmpty_def ListScheduler_RemoveNext_def
        key_less_def)
qed

text \<open>Removing an event that the scheduler holds takes just that event out.\<close>

lemma hash_bucket:
  assumes "shape_ok c"
  shows "unat (Hash ts c) < unat (cal_nBuckets c)"
    and "set (cal_buckets c ! unat (Hash ts c)) \<subseteq> content c"
proof -
  show i: "unat (Hash ts c) < unat (cal_nBuckets c)"
    using unat_Hash [of c ts] shape_n(1) [OF assms] by (simp add: word_less_nat_alt)
  show "set (cal_buckets c ! unat (Hash ts c)) \<subseteq> content c"
    using i shape_n(3) [OF assms] unfolding content_iff [abs_def] subset_iff by auto
qed

lemma bucket_erase_missing: "uid ev \<notin> uids (set es) \<Longrightarrow> bucket_erase ev es = Inl AssertFailed"
  by (induction es) auto

lemma Calendar_Remove_ok:
  assumes "cal_ok c" and "ev \<in> content c"
  shows "\<exists>c'. Calendar_Remove ev c = Inr c' \<and> cal_ok c' \<and> content c' = content c - {ev} \<and>
    cal_lastPrio c' = cal_lastPrio c"
proof -
  let ?i = "unat (Hash (ev_time ev) c)"
  have c: "shape_ok c" "\<not> Calendar_IsEmpty c"
    using assms cal_empty [OF assms(1)] by (auto simp: cal_ok_def)
  note sub = hash_bucket(2) [OF c(1), of "ev_time ev"]
  have i: "?i < unat (cal_nBuckets c)" "ev \<in> set (cal_buckets c ! ?i)"
    using hash_bucket(1) [OF c(1)] unat_Hash [of c] shape_n(1) [OF c(1)] bucket_of [OF c(1) assms(2)]
    by (simp_all add: word_less_nat_alt)
  obtain b where b: "bucket_erase ev (cal_buckets c ! ?i) = Inr b" "bucket_sorted (cal_reverse c) b"
    "set b = set (cal_buckets c ! ?i) - {ev}"
    by (rule bucket_erase_sorted [of "cal_reverse c" "cal_buckets c ! ?i" ev])
      (use c(1) i sub in \<open>auto simp: shape_ok_def intro: inj_on_subset\<close>)
  have day: "day c (ev_time e) mod unat (cal_nBuckets c) = ?i" if "e \<in> set b" for e
    using shape_day [OF c(1) i(1)] that b(3) by blast
  have eq: "content c - set (cal_buckets c ! ?i) \<union> set b = content c - {ev}"
    using b(3) sub i(2) by auto
  let ?c1 = "c\<lparr>cal_buckets := (cal_buckets c)[?i := b]\<rparr>"
  let ?c = "?c1\<lparr>cal_qSize := cal_qSize c - 1\<rparr>"
  have "inj_on uid (content c - set (cal_buckets c ! ?i) \<union> set b)"
    unfolding eq using c(1) by (auto simp: shape_ok_def intro: inj_on_subset)
  from shape_ok_update [OF c(1) i(1) day b(2) this] content_update [OF c(1) i(1) day] eq
  have "shape_ok ?c1" "content ?c1 = content c - {ev}"
    by simp_all
  then have c2: "shape_ok ?c" "content ?c = content c - {ev}"
    using shape_ok_cong [of ?c ?c1] by simp_all
  have "time_ok ?c"
    using c2 assms(1) by (intro time_ok_cong [of ?c c]) (auto simp: cal_ok_def)
  moreover have "unat (cal_qSize ?c) = card (content ?c)"
    using c2(2) assms size_step(2) [of "cal_qSize c" "card (content c - {ev})"]
    by (simp add: cal_ok_def card_Suc_Diff1 del: card_Diff_insert)
  ultimately have "cal_ok ?c"
    using c2(1) assms(1) by (simp add: cal_ok_def)
  from resize_ok(2) [OF this] c2(2) b(1) c(2) show ?thesis
    by (simp add: Calendar_Remove_def Let_def)
qed

text \<open>
  C40: On a well-formed calendar the removal of an event it holds returns, takes out that event
  only and keeps the position of the search; the removal of an event whose identifier it does
  not hold fails an assertion.  The number of buckets stays a power of two up to 2^15.
\<close>

theorem calendar_remove:
  assumes "cal_ok c"
  shows "(ev \<in> content c \<longrightarrow> (\<exists>c'. Calendar_Remove ev c = Inr c' \<and> cal_ok c' \<and>
      content c' = content c - {ev} \<and> cal_lastPrio c' = cal_lastPrio c)) \<and>
    (uid ev \<notin> uids (content c) \<longrightarrow> Calendar_Remove ev c = Inl AssertFailed)"
proof (intro conjI impI)
  assume fresh: "uid ev \<notin> uids (content c)"
  have "shape_ok c"
    using assms by (simp add: cal_ok_def)
  from hash_bucket(2) [OF this, of "ev_time ev"] fresh have "bucket_erase ev (cal_buckets c ! unat (Hash (ev_time ev) c)) = Inl AssertFailed"
    by (intro bucket_erase_missing) auto
  then show "Calendar_Remove ev c = Inl AssertFailed"
    by (simp add: Calendar_Remove_def Let_def require_def)
qed (rule Calendar_Remove_ok [OF assms])

lemma calendar_remove_witness:
  "Calendar_Remove (event_at 5 9) (CalendarScheduler_new False) = Inl AssertFailed"
  using calendar_remove [OF CalendarScheduler_new_ok(1), of "event_at 5 9" False]
  by (simp add: CalendarScheduler_new_ok(2))

text \<open>
  Outside these limits the calendar and the list part: an event before the last one can be
  overtaken, and an event at the last time of the clock is not found.
\<close>

lemma late_event_overtaken:
  defines "ops \<equiv> [Op_Insert (event_at 10 4), Op_Insert (event_at 10 5), Op_Next,
    Op_Insert (event_at 5 6), Op_Next]"
  shows "map_sum id (map uid) (run_ops Calendar_Insert Calendar_IsEmpty Calendar_RemoveNext ops
      (CalendarScheduler_new False)) = Inr [4, 5]"
    and "map_sum id (map uid) (run_ops List_insert ListScheduler_IsEmpty ListScheduler_RemoveNext ops []) =
      Inr [4, 6]"
  unfolding ops_def by code_simp+

lemma last_time_not_found:
  defines "c \<equiv> Calendar_Insert (event_at (-1) 4) (CalendarScheduler_new False)"
  shows "then_do c Calendar_RemoveNext = Inl Undefined"
    and "then_do c Calendar_PeekNext = Inr (event_at (-1) 4)"
  unfolding c_def by code_simp+

end
