(* ===== verification/Sequence_Number.thy ===== *)
theory Sequence_Number
  imports FISim_Prelude
begin

text \<open>
  TCP sequence numbers, \<^verbatim>\<open>SequenceNumber32\<close> of
  \<^verbatim>\<open>network/utils/sequence-number.h\<close>: 32-bit numbers whose order follows the shorter
  way around the circle.  It is no order on all of them; on numbers that stand for positions in a
  stream which lie close to each other it is the order of the positions.
\<close>

section \<open>Operators\<close>

type_synonym SequenceNumber32 = u32

definition halfMaxValue :: u32 where
  "halfMaxValue = -1 div 2"

definition seq_greater :: "SequenceNumber32 \<Rightarrow> SequenceNumber32 \<Rightarrow> bool" where
  "seq_greater a b \<longleftrightarrow> b < a \<and> a - b \<le> halfMaxValue \<or> a < b \<and> halfMaxValue < b - a"

definition seq_le :: "SequenceNumber32 \<Rightarrow> SequenceNumber32 \<Rightarrow> bool" where
  "seq_le a b \<longleftrightarrow> \<not> seq_greater a b"

definition seq_ge :: "SequenceNumber32 \<Rightarrow> SequenceNumber32 \<Rightarrow> bool" where
  "seq_ge a b \<longleftrightarrow> seq_greater a b \<or> a = b"

definition seq_less :: "SequenceNumber32 \<Rightarrow> SequenceNumber32 \<Rightarrow> bool" where
  "seq_less a b \<longleftrightarrow> \<not> seq_greater a b \<and> a \<noteq> b"

text \<open>The difference of two numbers is a signed number, kept as the word with its bits.\<close>

definition seq_diff :: "SequenceNumber32 \<Rightarrow> SequenceNumber32 \<Rightarrow> u32" where
  "seq_diff a b =
     (if b < a then
        let diff = a - b in if diff < halfMaxValue then diff else - (-1 - a + 1 + b)
      else
        let diff = b - a in if diff < halfMaxValue then - diff else -1 - b + 1 + a)"

lemma seq_diff_eq: "seq_diff a b = a - b"
  by (simp add: seq_diff_def Let_def)

lemma seq_refl [simp]: "\<not> seq_greater a a" "seq_le a a" "seq_ge a a" "\<not> seq_less a a"
  by (simp_all add: seq_greater_def seq_le_def seq_ge_def seq_less_def)

section \<open>Positions\<close>

text \<open>
  A position in a stream is a natural number; its sequence number is the position modulo 2^32.
  Positions near \<open>lo\<close> lie between half a gigabyte before and a gigabyte after it.
\<close>

abbreviation seq_of :: "nat \<Rightarrow> SequenceNumber32" where
  "seq_of x \<equiv> of_nat x"

definition window :: nat where
  "window = 2 ^ 29"

definition near :: "nat \<Rightarrow> nat \<Rightarrow> bool" where
  "near lo x \<longleftrightarrow> lo \<le> x + window \<and> x \<le> lo + 2 * window"

lemma seq_greater_unat: "seq_greater a b \<longleftrightarrow> 0 < unat (a - b) \<and> unat (a - b) < 2 ^ 31 \<or>
    a < b \<and> unat (a - b) = 2 ^ 31"
proof -
  have half: "unat halfMaxValue = 2 ^ 31 - 1"
    by (simp add: halfMaxValue_def unat_div unsigned_minus_1_eq_mask mask_eq_exp_minus_1)
  have lt: "unat a < 2 ^ 32" "unat b < 2 ^ 32"
    using unsigned_less [of a, where 'a = nat] unsigned_less [of b, where 'a = nat] by simp_all
  consider "a = b" | "b < a" | "a < b"
    by (meson less_linear)
  then show ?thesis
  proof cases
    case 2
    then have "unat (a - b) = unat a - unat b"
      by (simp add: unat_sub order_less_imp_le)
    with 2 half show ?thesis
      by (auto simp: seq_greater_def word_less_nat_alt word_le_nat_alt)
  next
    case 3
    then have "unat (b - a) = unat b - unat a"
      by (simp add: unat_sub order_less_imp_le)
    moreover have "unat (a - b) = 2 ^ 32 - (unat b - unat a)"
      using 3 lt by (simp add: unat_sub_if' word_less_nat_alt)
    ultimately show ?thesis
      using 3 half lt by (auto simp: seq_greater_def word_less_nat_alt word_le_nat_alt)
  qed (simp add: seq_greater_def)
qed

lemma seq_of_diff:
  assumes "y \<le> x" and "x - y < 2 ^ 32"
  shows "unat (seq_of x - seq_of y) = x - y"
proof -
  have "seq_of x - seq_of y = seq_of (x - y)"
    using assms(1) by (simp add: of_nat_diff)
  with assms(2) show ?thesis
    by (simp add: unat_of_nat)
qed

lemma seq_of_inj:
  assumes "x < y + 2 ^ 31" and "y < x + 2 ^ 31"
  shows "seq_of x = seq_of y \<longleftrightarrow> x = y"
proof
  assume eq: "seq_of x = seq_of y"
  show "x = y"
  proof (cases "y \<le> x")
    case True
    with eq assms seq_of_diff [of y x] show ?thesis
      by simp
  next
    case False
    then have "unat (seq_of y - seq_of x) = y - x"
      using assms by (intro seq_of_diff) auto
    with eq False show ?thesis
      by simp
  qed
qed simp

lemma seq_greater_of:
  assumes "x < y + 2 ^ 31" and "y < x + 2 ^ 31"
  shows "seq_greater (seq_of x) (seq_of y) \<longleftrightarrow> y < x"
proof (cases "y \<le> x")
  case True
  then have "unat (seq_of x - seq_of y) = x - y"
    using assms by (intro seq_of_diff) auto
  with True assms show ?thesis
    by (auto simp: seq_greater_unat)
next
  case False
  then have d: "unat (seq_of y - seq_of x) = y - x"
    using assms by (intro seq_of_diff) auto
  have ne: "seq_of y - seq_of x \<noteq> 0"
    using d False by auto
  have "unat (- w) = 2 ^ 32 - unat w" if "w \<noteq> 0" for w :: u32
    using that unat_sub_if' [of 0 w] by (simp add: unat_eq_0)
  from this [OF ne] d have "unat (seq_of x - seq_of y) = 2 ^ 32 - (y - x)"
    by simp
  with False assms show ?thesis
    by (auto simp: seq_greater_unat)
qed

lemma near_bounds: "near lo x \<Longrightarrow> near lo y \<Longrightarrow> x < y + 2 ^ 31"
  by (simp add: near_def window_def)

text \<open>Near one point the operators are those of the positions.\<close>

lemma seq_compare:
  assumes "near lo x" and "near lo y"
  shows "seq_greater (seq_of x) (seq_of y) \<longleftrightarrow> y < x" and "seq_le (seq_of x) (seq_of y) \<longleftrightarrow> x \<le> y"
    and "seq_ge (seq_of x) (seq_of y) \<longleftrightarrow> y \<le> x" and "seq_less (seq_of x) (seq_of y) \<longleftrightarrow> x < y"
    and "seq_of x = seq_of y \<longleftrightarrow> x = y"
  using seq_greater_of [of x y] seq_of_inj [of x y] near_bounds [OF assms] near_bounds [OF assms(2,1)]
  by (auto simp: seq_le_def seq_ge_def seq_less_def)

text \<open>Two numbers half the circle apart are each greater than the other, or neither is.\<close>

lemma seq_half_circle: "seq_greater 0 0x80000000" "\<not> seq_greater 0x80000000 0"
  by (simp_all add: seq_greater_def halfMaxValue_def)

end
