(* ===== verification/Tcp_Rx_Buffer.thy ===== *)
theory Tcp_Rx_Buffer
  imports Stream_Socket Sequence_Number
begin

text \<open>
  The receive buffer of a TCP socket (\<^verbatim>\<open>internet/model/tcp-rx-buffer.cc\<close>): segments
  of a byte stream arrive in any order, more than once and overlapping, and the application reads
  the stream from it.  The buffer also keeps the list of blocks that the socket reports as
  selective acknowledgements.

  The reference is the stream itself, a function from positions to bytes.  The invariant
  \<open>rx_ok\<close> relates the buffer, whose sequence numbers wrap, to positions in the stream.
\<close>

section \<open>State\<close>

type_synonym SackBlock = "SequenceNumber32 \<times> SequenceNumber32"

text \<open>The map from sequence numbers to packets is the list of its entries in their order.\<close>

record TcpRxBuffer =
  rx_sackList :: "SackBlock list"
  rx_nextRxSeq :: SequenceNumber32
  rx_finSeq :: SequenceNumber32
  rx_gotFin :: bool
  rx_size :: u32
  rx_maxBuffer :: u32
  rx_availBytes :: u32
  rx_data :: "(SequenceNumber32 \<times> tagged) list"

definition TcpRxBuffer_new :: "SequenceNumber32 \<Rightarrow> TcpRxBuffer" where
  "TcpRxBuffer_new n = \<lparr>rx_sackList = [], rx_nextRxSeq = n, rx_finSeq = 0, rx_gotFin = False,
     rx_size = 0, rx_maxBuffer = 32768, rx_availBytes = 0, rx_data = []\<rparr>"

definition IncNextRxSequence :: "TcpRxBuffer \<Rightarrow> TcpRxBuffer outcome" where
  "IncNextRxSequence b = require (rx_size b = 0) AssertFailed
     (Inr (b\<lparr>rx_nextRxSeq := rx_nextRxSeq b + 1\<rparr>))"

definition MaxRxSequence :: "TcpRxBuffer \<Rightarrow> SequenceNumber32" where
  "MaxRxSequence b =
     (if rx_gotFin b then rx_finSeq b
      else if rx_data b \<noteq> [] \<and> seq_greater (rx_nextRxSeq b) (fst (hd (rx_data b)))
        then fst (hd (rx_data b)) + rx_maxBuffer b
      else rx_nextRxSeq b + rx_maxBuffer b)"

definition SetFinSequence :: "SequenceNumber32 \<Rightarrow> TcpRxBuffer \<Rightarrow> TcpRxBuffer" where
  "SetFinSequence s b =
     (let b = b\<lparr>rx_gotFin := True, rx_finSeq := s\<rparr>
      in if rx_nextRxSeq b = rx_finSeq b then b\<lparr>rx_nextRxSeq := rx_nextRxSeq b + 1\<rparr> else b)"

definition Finished :: "TcpRxBuffer \<Rightarrow> bool" where
  "Finished b = (rx_gotFin b \<and> seq_less (rx_finSeq b) (rx_nextRxSeq b))"

section \<open>Selective acknowledgements\<close>

text \<open>
  The first block is merged with its neighbours; a merge starts the walk over the list again.
  \<open>seen\<close> are the blocks passed since.
\<close>

function sack_merge :: "SackBlock \<Rightarrow> SackBlock list \<Rightarrow> SackBlock list \<Rightarrow> SackBlock list outcome" where
  "sack_merge bg seen [] = Inr (bg # seen)"
| "sack_merge bg seen (cur # rest) =
     (if fst bg = snd cur then require (seq_less (fst cur) (snd bg)) AssertFailed
          (sack_merge (fst cur, snd bg) [] (seen @ rest))
      else if snd bg = fst cur then require (seq_less (fst bg) (snd cur)) AssertFailed
          (sack_merge (fst bg, snd cur) [] (seen @ rest))
      else sack_merge bg (seen @ [cur]) rest)"
  by pat_completeness auto
termination
  by (relation "measures [\<lambda>(bg, seen, rest). length seen + length rest, \<lambda>(bg, seen, rest). length rest]")
    auto

definition UpdateSackList :: "SequenceNumber32 \<Rightarrow> SequenceNumber32 \<Rightarrow> TcpRxBuffer \<Rightarrow> TcpRxBuffer outcome" where
  "UpdateSackList head tail b = require (seq_greater head (rx_nextRxSeq b)) AssertFailed
     (then_do (sack_merge (head, tail) [] (rx_sackList b))
        (\<lambda>l. Inr (b\<lparr>rx_sackList := if 4 < length l then butlast l else l\<rparr>)))"

fun ClearSackList :: "SequenceNumber32 \<Rightarrow> SackBlock list \<Rightarrow> SackBlock list outcome" where
  "ClearSackList s [] = Inr []"
| "ClearSackList s (block # bs) = require (seq_less (fst block) (snd block)) AssertFailed
     (then_do (ClearSackList s bs)
        (\<lambda>bs. Inr (if seq_le (snd block) s then bs else block # bs)))"

section \<open>Adding a segment\<close>

text \<open>
  The walk over the stored packets that cuts the segment down to what is not there yet.  A stored
  packet inside the segment is dropped.  The result is what is kept, the new bounds and the size.
\<close>

fun trim_overlap :: "SequenceNumber32 \<Rightarrow> SequenceNumber32 \<Rightarrow> u32 \<Rightarrow> (SequenceNumber32 \<times> tagged) list \<Rightarrow>
  (SequenceNumber32 \<times> tagged) list \<times> SequenceNumber32 \<times> SequenceNumber32 \<times> u32" where
  "trim_overlap h t sz [] = ([], h, t, sz)"
| "trim_overlap h t sz ((s, p) # rest) =
     (if seq_le s t then
        let lastByteSeq = s + packet_size p
        in if seq_greater lastByteSeq h then
             (if seq_greater s h \<and> seq_less lastByteSeq t
              then trim_overlap h t (sz - packet_size p) rest
              else
                let h' = (if seq_le s h then lastByteSeq else h);
                    t' = (if seq_ge lastByteSeq t then s else t);
                    (kept, r) = trim_overlap h' t' sz rest
                in ((s, p) # kept, r))
           else let (kept, r) = trim_overlap h t sz rest in ((s, p) # kept, r)
      else ((s, p) # rest, h, t, sz))"

fun data_find :: "SequenceNumber32 \<Rightarrow> (SequenceNumber32 \<times> tagged) list \<Rightarrow> bool" where
  "data_find k [] = False"
| "data_find k (e # es) = (if seq_less (fst e) k then data_find k es else \<not> seq_less k (fst e))"

fun data_put :: "SequenceNumber32 \<Rightarrow> tagged \<Rightarrow> (SequenceNumber32 \<times> tagged) list \<Rightarrow>
  (SequenceNumber32 \<times> tagged) list" where
  "data_put k p [] = [(k, p)]"
| "data_put k p (e # es) =
     (if seq_less (fst e) k then e # data_put k p es
      else if seq_less k (fst e) then (k, p) # e # es
      else (fst e, p) # es)"

text \<open>The walk that moves the next expected number over the packets that are in sequence.\<close>

fun advance :: "(SequenceNumber32 \<times> tagged) list \<Rightarrow> TcpRxBuffer \<Rightarrow> TcpRxBuffer outcome" where
  "advance [] b = Inr b"
| "advance ((s, p) # rest) b =
     (if seq_less s (rx_nextRxSeq b) then advance rest b
      else if seq_greater s (rx_nextRxSeq b) then Inr b
      else
        let b = b\<lparr>rx_nextRxSeq := s + packet_size p, rx_availBytes := rx_availBytes b + packet_size p\<rparr>
        in then_do (ClearSackList (rx_nextRxSeq b) (rx_sackList b))
             (\<lambda>l. advance rest (b\<lparr>rx_sackList := l\<rparr>)))"

text \<open>The bounds of the segment within the receive window.\<close>

definition window_bounds :: "SequenceNumber32 \<Rightarrow> SequenceNumber32 \<Rightarrow> TcpRxBuffer \<Rightarrow>
  SequenceNumber32 \<times> SequenceNumber32" where
  "window_bounds h t b =
     (let h = (if seq_less h (rx_nextRxSeq b) then rx_nextRxSeq b else h)
      in if rx_data b \<noteq> [] then
           let maxSeq = fst (hd (rx_data b)) + rx_maxBuffer b;
               t = (if seq_less maxSeq t then maxSeq else t);
               h = (if seq_less t h then t else h)
           in (h, t)
         else (h, t))"

text \<open>Of the TCP header only the sequence number is used.\<close>

definition TcpRxBuffer_Add :: "tagged \<Rightarrow> SequenceNumber32 \<Rightarrow> TcpRxBuffer \<Rightarrow> (bool \<times> TcpRxBuffer) outcome" where
  "TcpRxBuffer_Add p seqno b =
     (let (headSeq, tailSeq) = window_bounds seqno (seqno + packet_size p) b;
          (kept, headSeq, tailSeq, sz) = trim_overlap headSeq tailSeq (rx_size b) (rx_data b);
          b = b\<lparr>rx_data := kept, rx_size := sz\<rparr>
      in if seq_ge headSeq tailSeq then Inr (False, b)
         else
           let start = seq_diff headSeq seqno;
               len = seq_diff tailSeq headSeq;
               p = CreateFragment (unat start) (unat len) p
           in require (len = packet_size p \<and> \<not> data_find headSeq (rx_data b)) AssertFailed
                (let b = b\<lparr>rx_data := data_put headSeq p (rx_data b)\<rparr>
                 in then_do
                      (if seq_greater headSeq (rx_nextRxSeq b) then UpdateSackList headSeq tailSeq b
                       else Inr b)
                      (\<lambda>b. let b = b\<lparr>rx_size := rx_size b + packet_size p\<rparr>
                           in then_do (advance (rx_data b) b)
                                (\<lambda>b. Inr (True,
                                   if rx_gotFin b \<and> rx_nextRxSeq b = rx_finSeq b
                                   then b\<lparr>rx_nextRxSeq := rx_nextRxSeq b + 1\<rparr> else b)))))"

section \<open>Reading\<close>

definition packet_append :: "packet \<Rightarrow> packet \<Rightarrow> packet" where
  "packet_append p q = Packet (pk_bytes p @ pk_real q) (pk_zero q)"

text \<open>\<open>out\<close> is the packet that collects the bytes; it takes the bytes only, not the packet tags.\<close>

fun Extract_loop :: "(SequenceNumber32 \<times> tagged) list \<Rightarrow> u32 \<Rightarrow> packet \<Rightarrow> TcpRxBuffer \<Rightarrow>
  (packet \<times> TcpRxBuffer) outcome" where
  "Extract_loop [] extractSize out b =
     (if extractSize = 0 then Inr (out, b\<lparr>rx_data := []\<rparr>) else Inl Undefined)"
| "Extract_loop ((s, p) # rest) extractSize out b =
     (if extractSize = 0 then Inr (out, b\<lparr>rx_data := (s, p) # rest\<rparr>)
      else require (seq_le s (rx_nextRxSeq b)) AssertFailed
        (let pktSize = packet_size p
         in if pktSize \<le> extractSize then
              Extract_loop rest (extractSize - pktSize) (packet_append out (fst p))
                (b\<lparr>rx_size := rx_size b - pktSize, rx_availBytes := rx_availBytes b - pktSize\<rparr>)
            else
              Inr (packet_append out (fst (CreateFragment 0 (unat extractSize) p)),
                b\<lparr>rx_data := remove1 (s, p) (data_put (s + extractSize)
                      (CreateFragment (unat extractSize) (unat (pktSize - extractSize)) p) ((s, p) # rest)),
                  rx_size := rx_size b - extractSize,
                  rx_availBytes := rx_availBytes b - extractSize\<rparr>)))"

definition Extract :: "u32 \<Rightarrow> TcpRxBuffer \<Rightarrow> (packet option \<times> TcpRxBuffer) outcome" where
  "Extract maxSize b =
     (let extractSize = min maxSize (rx_availBytes b)
      in if extractSize = 0 then Inr (None, b)
         else require (rx_data b \<noteq> []) AssertFailed
           (then_do (Extract_loop (rx_data b) extractSize (Create_Packet 0) b)
              (\<lambda>(out, b). Inr (if GetSize out = 0 then None else Some out, b))))"

section \<open>Stored packets as blocks of the stream\<close>

type_synonym block = "nat \<times> tagged"

abbreviation bend :: "block \<Rightarrow> nat" where
  "bend b \<equiv> fst b + GetSize (fst (snd b))"

definition entries :: "block list \<Rightarrow> (SequenceNumber32 \<times> tagged) list" where
  "entries bs = map (\<lambda>b. (seq_of (fst b), snd b)) bs"

definition held :: "block list \<Rightarrow> nat set" where
  "held bs = (\<Union>b \<in> set bs. {fst b..<bend b})"

definition stored :: "block list \<Rightarrow> nat" where
  "stored bs = sum_list (map (\<lambda>b. GetSize (fst (snd b))) bs)"

definition blocks_ok :: "nat \<Rightarrow> block list \<Rightarrow> bool" where
  "blocks_ok lo bs \<longleftrightarrow> sorted_wrt (\<lambda>x y. bend x \<le> fst y) bs \<and>
     (\<forall>b \<in> set bs. 0 < GetSize (fst (snd b)) \<and> near lo (fst b) \<and> near lo (bend b))"

lemma entries_simps [simp]:
  "entries [] = []" "entries (b # bs) = (seq_of (fst b), snd b) # entries bs"
  "entries bs = [] \<longleftrightarrow> bs = []"
  by (simp_all add: entries_def)

lemma held_simps [simp]: "held [] = {}" "held (b # bs) = {fst b..<bend b} \<union> held bs"
  by (simp_all add: held_def)

lemma stored_simps [simp]: "stored [] = 0" "stored (b # bs) = GetSize (fst (snd b)) + stored bs"
  by (simp_all add: stored_def)

lemma blocks_ok_Cons:
  "blocks_ok lo (b # bs) \<longleftrightarrow> blocks_ok lo bs \<and> 0 < GetSize (fst (snd b)) \<and> near lo (fst b) \<and>
     near lo (bend b) \<and> (\<forall>x \<in> set bs. bend b \<le> fst x)"
  by (auto simp: blocks_ok_def)

lemma blocks_ok_Nil [simp]: "blocks_ok lo []"
  by (simp add: blocks_ok_def)

lemma seq_of_packet: "seq_of x + packet_size p = seq_of (x + GetSize (fst p))"
  by (simp add: packet_size_def)

lemma held_above: "(\<And>b. b \<in> set bs \<Longrightarrow> x \<le> fst b) \<Longrightarrow> y \<in> held bs \<Longrightarrow> x \<le> y"
  by (fastforce simp: held_def)

section \<open>Trimming in positions\<close>

fun ntrim :: "nat \<Rightarrow> nat \<Rightarrow> block list \<Rightarrow> block list \<times> nat \<times> nat" where
  "ntrim h t [] = ([], h, t)"
| "ntrim h t (b # bs) =
     (if fst b \<le> t then
        if h < bend b then
          if h < fst b \<and> bend b < t then ntrim h t bs
          else
            let (kept, r) = ntrim (if fst b \<le> h then bend b else h) (if t \<le> bend b then fst b else t) bs
            in (b # kept, r)
        else let (kept, r) = ntrim h t bs in (b # kept, r)
      else (b # bs, h, t))"

lemma trim_overlap_ntrim:
  assumes "blocks_ok lo bs" and "near lo h" and "near lo t" and "ntrim h t bs = (kept, h', t')"
  shows "trim_overlap (seq_of h) (seq_of t) sz (entries bs) =
      (entries kept, seq_of h', seq_of t', sz + of_nat (stored kept) - of_nat (stored bs)) \<and>
    blocks_ok lo kept \<and> set kept \<subseteq> set bs \<and> near lo h' \<and> near lo t'"
  using assms
proof (induction bs arbitrary: h t sz kept h' t')
  case Nil
  then show ?case by simp
next
  case (Cons b bs)
  have b: "blocks_ok lo bs" "near lo (fst b)" "near lo (bend b)" "\<forall>x \<in> set bs. bend b \<le> fst x"
    using Cons.prems(1) by (simp_all add: blocks_ok_Cons)
  note cmp = seq_compare [OF b(2) Cons.prems(3)] seq_compare [OF b(3) Cons.prems(2)]
    seq_compare [OF b(2) Cons.prems(2)] seq_compare [OF b(3) Cons.prems(3)]
  show ?case
  proof (cases "fst b \<le> t \<and> h < fst b \<and> bend b < t")
    case True
    then have "trim_overlap (seq_of h) (seq_of t) sz (entries (b # bs)) =
        trim_overlap (seq_of h) (seq_of t) (sz - packet_size (snd b)) (entries bs)"
      by (simp add: cmp seq_of_packet Let_def del: of_nat_add)
    with True Cons.prems(4) Cons.IH [OF b(1) Cons.prems(2,3), of kept h' t' "sz - packet_size (snd b)"]
    show ?thesis
      by (auto simp: packet_size_def algebra_simps)
  next
    case outer: False
    show ?thesis
    proof (cases "fst b \<le> t")
      case False
      then have "trim_overlap (seq_of h) (seq_of t) sz (entries (b # bs)) =
          (entries (b # bs), seq_of h, seq_of t, sz)"
        by (simp add: cmp del: of_nat_add)
      with False Cons.prems show ?thesis
        by auto
    next
      case True
      define h1 t1 where "h1 = (if h < bend b \<and> fst b \<le> h then bend b else h)"
        and "t1 = (if h < bend b \<and> t \<le> bend b then fst b else t)"
      have near1: "near lo h1" "near lo t1"
        using b Cons.prems(2,3) by (simp_all add: h1_def t1_def)
      obtain kept1 where kept: "kept = b # kept1" "ntrim h1 t1 bs = (kept1, h', t')"
        using True outer Cons.prems(4) by (auto simp: h1_def t1_def split: prod.splits if_splits)
      note IH = Cons.IH [OF b(1) near1 kept(2), of sz]
      have "trim_overlap (seq_of h) (seq_of t) sz (entries (b # bs)) =
          (let (k, r) = trim_overlap (seq_of h1) (seq_of t1) sz (entries bs)
           in ((seq_of (fst b), snd b) # k, r))"
        using True outer by (auto simp: cmp seq_of_packet h1_def t1_def Let_def simp del: of_nat_add)
      with IH kept(1) Cons.prems(1) show ?thesis
        by (auto simp: blocks_ok_Cons)
    qed
  qed
qed

text \<open>What is kept together with the rest of the segment is what was there and the segment.\<close>

definition trimmed :: "nat \<Rightarrow> nat \<Rightarrow> block list \<Rightarrow> block list \<Rightarrow> nat \<Rightarrow> nat \<Rightarrow> bool" where
  "trimmed h t bs kept h' t' \<longleftrightarrow> h \<le> h' \<and> t' \<le> t \<and>
     held kept \<union> {h'..<t'} = held bs \<union> {h..<t} \<and> held kept \<inter> {h'..<t'} = {} \<and>
     (t' \<le> h' \<longrightarrow> kept = bs) \<and> (h < t \<and> (\<forall>b \<in> set bs. h < fst b) \<longrightarrow> h' = h \<and> h < t')"

lemma trimmedI:
  assumes "h \<le> h'" and "t' \<le> t" and "held kept \<union> {h'..<t'} = held bs \<union> {h..<t}"
    and "held kept \<inter> {h'..<t'} = {}" and "t' \<le> h' \<Longrightarrow> kept = bs"
    and "h < t \<Longrightarrow> (\<And>b. b \<in> set bs \<Longrightarrow> h < fst b) \<Longrightarrow> h' = h \<and> h < t'"
  shows "trimmed h t bs kept h' t'"
  using assms unfolding trimmed_def by blast

lemma trimmedD:
  assumes "trimmed h t bs kept h' t'"
  shows "h \<le> h'" and "t' \<le> t" and "held kept \<union> {h'..<t'} = held bs \<union> {h..<t}"
    and "held kept \<inter> {h'..<t'} = {}" and "t' \<le> h' \<Longrightarrow> kept = bs"
    and "h < t \<Longrightarrow> (\<And>b. b \<in> set bs \<Longrightarrow> h < fst b) \<Longrightarrow> h' = h \<and> h < t'"
  using assms unfolding trimmed_def by blast+

lemma ntrim_trimmed:
  assumes "blocks_ok lo bs" and "ntrim h t bs = (kept, h', t')"
  shows "trimmed h t bs kept h' t'"
  using assms
proof (induction bs arbitrary: h t kept h' t')
  case Nil
  then show ?case by (simp add: trimmed_def)
next
  case (Cons b bs)
  have b: "blocks_ok lo bs" "0 < GetSize (fst (snd b))" "\<forall>x \<in> set bs. bend b \<le> fst x"
    using Cons.prems(1) by (simp_all add: blocks_ok_Cons)
  text \<open>A kept block, with the bounds \<open>h1\<close> and \<open>t1\<close> for the rest.\<close>
  have keep: "trimmed h t (b # bs) kept h' t'"
    if k: "kept = b # k" "ntrim h1 t1 bs = (k, h', t')" and bounds: "h \<le> h1" "t1 \<le> t"
      and union: "{fst b..<bend b} \<union> {h1..<t1} = {fst b..<bend b} \<union> {h..<t}"
      and apart: "{fst b..<bend b} \<inter> {h1..<t1} = {}"
      and strict: "h < t \<Longrightarrow> h < fst b \<Longrightarrow> h1 = h \<and> h < t1" for h1 t1 k
  proof (rule trimmedI)
    note IH = trimmedD [OF Cons.IH [OF b(1) k(2)]]
    show "h \<le> h'" "t' \<le> t"
      using IH(1,2) bounds by simp_all
    have "held kept \<union> {h'..<t'} = {fst b..<bend b} \<union> (held k \<union> {h'..<t'})"
      by (simp add: k(1) Un_assoc)
    also have "\<dots> = held bs \<union> ({fst b..<bend b} \<union> {h1..<t1})"
      unfolding IH(3) by blast
    also have "\<dots> = held (b # bs) \<union> {h..<t}"
      unfolding union by auto
    finally show "held kept \<union> {h'..<t'} = held (b # bs) \<union> {h..<t}" .
    have "{h'..<t'} \<subseteq> {h1..<t1}"
      using IH(1,2) by auto
    with IH(4) apart show "held kept \<inter> {h'..<t'} = {}"
      unfolding k(1) held_simps by blast
    show "kept = b # bs" if "t' \<le> h'"
      using IH(5) that k(1) by simp
    show "h' = h \<and> h < t'" if "h < t" "\<And>x. x \<in> set (b # bs) \<Longrightarrow> h < fst x"
      using IH(6) strict that by auto
  qed
  consider (beyond) "t < fst b" | (inside) "fst b \<le> t" "h < fst b" "bend b < t"
    | (below) "fst b \<le> t" "bend b \<le> h" | (head) "fst b \<le> h" "h < bend b" "bend b < t"
    | (both) "fst b \<le> t" "fst b \<le> h" "h < bend b" "t \<le> bend b" | (tail) "fst b \<le> t" "h < fst b" "t \<le> bend b"
    using b(2) by linarith
  then show ?case
  proof cases
    case beyond
    then have eq: "kept = b # bs" "h' = h" "t' = t"
      using Cons.prems(2) by auto
    have "t < y" if "y \<in> held (b # bs)" for y
      using that held_above [of bs "bend b" y] b(3) beyond by fastforce
    with eq show ?thesis
      by (fastforce simp: trimmed_def)
  next
    case inside
    with Cons.prems(2) have "ntrim h t bs = (kept, h', t')"
      by simp
    note IH = trimmedD [OF Cons.IH [OF b(1) this]]
    have run: "h' = h \<and> h < t'"
      using IH(6) b(3) inside(2,3) by fastforce
    have sub: "{fst b..<bend b} \<subseteq> {h..<t}"
      using inside by auto
    show ?thesis
    proof (rule trimmedI)
      show "held kept \<union> {h'..<t'} = held (b # bs) \<union> {h..<t}"
        unfolding IH(3) held_simps using sub by blast
    qed (use IH(1,2,4) run in auto)
  next
    case below
    with Cons.prems(2) obtain k where "kept = b # k" "ntrim h t bs = (k, h', t')"
      by (auto split: prod.splits)
    then show ?thesis
      by (rule keep) (use below in auto)
  next
    case head
    with Cons.prems(2) obtain k where "kept = b # k" "ntrim (bend b) t bs = (k, h', t')"
      by (auto split: prod.splits)
    then show ?thesis
      by (rule keep) (use head in auto)
  next
    case both
    with Cons.prems(2) obtain k where "kept = b # k" "ntrim (bend b) (fst b) bs = (k, h', t')"
      by (auto split: prod.splits)
    then show ?thesis
      by (rule keep) (use both in auto)
  next
    case tail
    with Cons.prems(2) obtain k where "kept = b # k" "ntrim h (fst b) bs = (k, h', t')"
      by (auto split: prod.splits)
    then show ?thesis
      by (rule keep) (use tail in auto)
  qed
qed

section \<open>Storing a packet\<close>

lemma data_find_entries:
  assumes "blocks_ok lo bs" and "near lo x" and "\<forall>b \<in> set bs. fst b \<noteq> x"
  shows "\<not> data_find (seq_of x) (entries bs)"
  using assms
proof (induction bs)
  case (Cons b bs)
  then have "near lo (fst b)"
    by (simp add: blocks_ok_Cons)
  note cmp = seq_compare [OF this Cons.prems(2)] seq_compare [OF Cons.prems(2) this]
  from Cons show ?case
    by (auto simp: cmp blocks_ok_Cons)
qed simp

lemma data_put_entries:
  assumes "blocks_ok lo bs" and "near lo x" and "near lo (x + GetSize (fst p))" and "0 < GetSize (fst p)"
    and "{x..<x + GetSize (fst p)} \<inter> held bs = {}"
  shows "\<exists>bs'. data_put (seq_of x) p (entries bs) = entries bs' \<and> blocks_ok lo bs' \<and>
    set bs' = insert (x, p) (set bs) \<and> stored bs' = stored bs + GetSize (fst p)"
  using assms
proof (induction bs)
  case Nil
  then show ?case
    by (intro exI [of _ "[(x, p)]"]) (simp add: blocks_ok_Cons)
next
  case (Cons b bs)
  have b: "blocks_ok lo bs" "0 < GetSize (fst (snd b))" "near lo (fst b)" "\<forall>y \<in> set bs. bend b \<le> fst y"
    using Cons.prems(1) by (simp_all add: blocks_ok_Cons)
  note cmp = seq_compare [OF b(3) Cons.prems(2)] seq_compare [OF Cons.prems(2) b(3)]
  have apart: "x \<notin> {fst b..<bend b}" "fst b \<notin> {x..<x + GetSize (fst p)}"
  proof -
    have "x \<in> {x..<x + GetSize (fst p)}" "fst b \<in> {fst b..<bend b}"
      using Cons.prems(4) b(2) by auto
    with Cons.prems(5) show "x \<notin> {fst b..<bend b}" "fst b \<notin> {x..<x + GetSize (fst p)}"
      unfolding held_simps by blast+
  qed
  show ?case
  proof (cases "fst b < x")
    case True
    from Cons.IH [OF b(1) Cons.prems(2-4)] Cons.prems(5) obtain bs' where
      bs': "data_put (seq_of x) p (entries bs) = entries bs'" "blocks_ok lo bs'"
      "set bs' = insert (x, p) (set bs)" "stored bs' = stored bs + GetSize (fst p)"
      by auto
    have "blocks_ok lo (b # bs')"
      using Cons.prems(1) bs' True apart(1) by (auto simp: blocks_ok_Cons)
    with True bs' show ?thesis
      by (intro exI [of _ "b # bs'"]) (auto simp: cmp)
  next
    case False
    with apart b(2) have less: "x < fst b" "x + GetSize (fst p) \<le> fst b"
      by auto
    then have "blocks_ok lo ((x, p) # b # bs)"
      using Cons.prems b(4) by (auto simp: blocks_ok_Cons [of lo "(x, p)"])
    with less show ?thesis
      by (intro exI [of _ "(x, p) # b # bs"]) (simp add: cmp)
  qed
qed

lemma held_insert: "set bs' = insert (x, p) (set bs) \<Longrightarrow> held bs' = held bs \<union> {x..<x + GetSize (fst p)}"
  by (auto simp: held_def)

section \<open>Selective acknowledgements report what is held\<close>

definition sacks :: "(nat \<times> nat) list \<Rightarrow> SackBlock list" where
  "sacks sk = map (\<lambda>(x, y). (seq_of x, seq_of y)) sk"

definition sack_ok :: "nat \<Rightarrow> nat \<Rightarrow> nat set \<Rightarrow> nat \<times> nat \<Rightarrow> bool" where
  "sack_ok lo n H k \<longleftrightarrow> near lo (fst k) \<and> near lo (snd k) \<and> n < fst k \<and> fst k < snd k \<and> {fst k..<snd k} \<subseteq> H"

lemma sacks_simps [simp]:
  "sacks [] = []" "sacks (k # sk) = (seq_of (fst k), seq_of (snd k)) # sacks sk"
  "sacks (sk @ sk') = sacks sk @ sacks sk'" "length (sacks sk) = length sk"
  "sacks sk = [] \<longleftrightarrow> sk = []"
  "butlast (sacks sk) = sacks (butlast sk)"
  by (simp_all add: sacks_def split_beta map_butlast)

lemma sack_merge_ok:
  assumes "bgw = (seq_of (fst bg), seq_of (snd bg))" and "seenw = sacks seen" and "restw = sacks rest"
    and "\<forall>k \<in> insert bg (set seen \<union> set rest). sack_ok lo n H k"
  shows "\<exists>k sk. sack_merge bgw seenw restw = Inr (sacks (k # sk)) \<and> (\<forall>x \<in> insert k (set sk). sack_ok lo n H x) \<and>
    fst k \<le> fst bg \<and> snd bg \<le> snd k \<and> length sk \<le> length seen + length rest"
  using assms
proof (induction bgw seenw restw arbitrary: bg seen rest rule: sack_merge.induct)
  case (1 bgw seenw)
  then have "rest = []"
    by (simp add: sacks_def)
  with 1 show ?case
    by (intro exI [of _ bg] exI [of _ seen]) auto
next
  case (2 bgw seenw curw restw)
  then obtain cur rest' where rest: "rest = cur # rest'" "curw = (seq_of (fst cur), seq_of (snd cur))"
    "restw = sacks rest'"
    by (cases rest) auto
  have ok: "sack_ok lo n H bg" "sack_ok lo n H cur" "\<forall>k \<in> set seen \<union> set rest'. sack_ok lo n H k"
    using "2.prems"(4) rest(1) by auto
  then have near: "near lo (fst bg)" "near lo (snd bg)" "near lo (fst cur)" "near lo (snd cur)"
    by (simp_all add: sack_ok_def)
  note cmp = seq_compare [OF near(1,4)] seq_compare [OF near(2,3)] seq_compare [OF near(3,2)]
    seq_compare [OF near(1,4)]
  show ?case
  proof (cases "fst bg = snd cur")
    case True
    have m: "sack_ok lo n H (fst cur, snd bg)" "fst cur < snd bg"
      using ok(1,2) True unfolding sack_ok_def by fastforce+
    have "\<exists>k sk. sack_merge (fst curw, snd bgw) [] (seenw @ restw) = Inr (sacks (k # sk)) \<and>
        (\<forall>x \<in> insert k (set sk). sack_ok lo n H x) \<and> fst k \<le> fst (fst cur, snd bg) \<and>
        snd (fst cur, snd bg) \<le> snd k \<and> length sk \<le> length ([] :: (nat \<times> nat) list) + length (seen @ rest')"
      by (rule "2.IH"(1)) (use True "2.prems" rest m ok(3) in \<open>auto simp: cmp\<close>)
    moreover have "fst cur \<le> fst bg"
      using ok(2) True by (simp add: sack_ok_def)
    moreover have "sack_merge bgw seenw (curw # restw) = sack_merge (fst curw, snd bgw) [] (seenw @ restw)"
      using True m(2) rest(2) "2.prems"(1) by (simp add: cmp)
    ultimately show ?thesis
      using rest(1) by fastforce
  next
    case outer: False
    show ?thesis
    proof (cases "snd bg = fst cur")
      case True
      have m: "sack_ok lo n H (fst bg, snd cur)" "fst bg < snd cur"
        using ok(1,2) True unfolding sack_ok_def by fastforce+
      have "\<exists>k sk. sack_merge (fst bgw, snd curw) [] (seenw @ restw) = Inr (sacks (k # sk)) \<and>
          (\<forall>x \<in> insert k (set sk). sack_ok lo n H x) \<and> fst k \<le> fst (fst bg, snd cur) \<and>
          snd (fst bg, snd cur) \<le> snd k \<and> length sk \<le> length ([] :: (nat \<times> nat) list) + length (seen @ rest')"
        by (rule "2.IH"(2)) (use True outer "2.prems" rest m ok(3) in \<open>auto simp: cmp\<close>)
      moreover have "snd bg \<le> snd cur"
        using ok(2) True by (simp add: sack_ok_def)
      moreover have "sack_merge bgw seenw (curw # restw) = sack_merge (fst bgw, snd curw) [] (seenw @ restw)"
        using True outer m(2) rest(2) "2.prems"(1) by (simp add: cmp)
      ultimately show ?thesis
        using rest(1) by fastforce
    next
      case False
      have "\<exists>k sk. sack_merge bgw (seenw @ [curw]) restw = Inr (sacks (k # sk)) \<and>
          (\<forall>x \<in> insert k (set sk). sack_ok lo n H x) \<and> fst k \<le> fst bg \<and>
          snd bg \<le> snd k \<and> length sk \<le> length (seen @ [cur]) + length rest'"
        by (rule "2.IH"(3)) (use False outer "2.prems" rest ok in \<open>auto simp: cmp\<close>)
      with False outer rest "2.prems"(1) show ?thesis
        by (auto simp: cmp)
    qed
  qed
qed

lemma ClearSackList_ok:
  assumes "near lo n'" and "\<forall>k \<in> set sk. sack_ok lo n H k"
  shows "ClearSackList (seq_of n') (sacks sk) = Inr (sacks (filter (\<lambda>k. n' < snd k) sk))"
  using assms
proof (induction sk)
  case (Cons k sk)
  then have k: "near lo (fst k)" "near lo (snd k)" "fst k < snd k"
    by (simp_all add: sack_ok_def)
  with Cons show ?case
    by (auto simp: seq_compare [OF k(1,2)] seq_compare [OF k(2) Cons.prems(1)])
qed simp

lemma UpdateSackList_ok:
  assumes "rx_sackList b = sacks sk" and "length sk \<le> 4" and "\<forall>k \<in> set sk. sack_ok lo n H k"
    and "sack_ok lo n H (h, t)" and "seq_greater (seq_of h) (rx_nextRxSeq b)"
  shows "\<exists>k sk'. UpdateSackList (seq_of h) (seq_of t) b = Inr (b\<lparr>rx_sackList := sacks (k # sk')\<rparr>) \<and>
    length sk' \<le> 3 \<and> (\<forall>x \<in> insert k (set sk'). sack_ok lo n H x) \<and> fst k \<le> h \<and> t \<le> snd k"
proof -
  have "\<forall>k \<in> insert (h, t) (set [] \<union> set sk). sack_ok lo n H k"
    using assms(3,4) by simp
  from sack_merge_ok [of "(seq_of h, seq_of t)" "(h, t)" "[]" "[]" "rx_sackList b" sk, OF _ _ assms(1) this]
  obtain k sk' where l: "sack_merge (seq_of h, seq_of t) [] (rx_sackList b) = Inr (sacks (k # sk'))"
    "\<forall>x \<in> insert k (set sk'). sack_ok lo n H x" "fst k \<le> h" "t \<le> snd k" "length sk' \<le> length sk"
    by auto
  show ?thesis
  proof (cases "4 < length (k # sk')")
    case True
    with assms(2) l(5) have "sk' \<noteq> []" "length (butlast sk') \<le> 3"
      by auto
    moreover have "set (butlast sk') \<subseteq> set sk'"
      by (auto dest: in_set_butlastD)
    ultimately show ?thesis
      using True l assms(5)
      by (intro exI [of _ k] exI [of _ "butlast sk'"]) (auto simp: UpdateSackList_def)
  next
    case False
    with l assms(5) show ?thesis
      by (intro exI [of _ k] exI [of _ sk']) (auto simp: UpdateSackList_def)
  qed
qed

section \<open>Moving on\<close>

lemma sack_ok_move:
  assumes "sack_ok lo n H k" and "n' < snd k" and "n' \<notin> H"
  shows "sack_ok lo n' H k"
proof -
  have "\<not> fst k \<le> n'"
    using assms by (auto simp: sack_ok_def)
  with assms(1) show ?thesis
    by (simp add: sack_ok_def)
qed

lemma filter_filter_less:
  assumes "n1 \<le> n2"
  shows "filter (\<lambda>k. n2 < snd k) (filter (\<lambda>k. n1 < snd k) sk) = filter (\<lambda>k. (n2 :: nat) < snd k) sk"
  using assms by (induction sk) auto

lemma advance_ok:
  assumes "blocks_ok lo bs" and "rx_nextRxSeq b = seq_of n" and "near lo n"
    and "\<forall>x \<in> set bs. fst x < n \<longrightarrow> bend x \<le> n"
    and "rx_sackList b = sacks sk" and "\<forall>k \<in> set sk. sack_ok lo m H k \<and> n < snd k"
  shows "\<exists>n'. advance (entries bs) b = Inr (b\<lparr>rx_nextRxSeq := seq_of n',
      rx_availBytes := rx_availBytes b + of_nat (n' - n),
      rx_sackList := sacks (filter (\<lambda>k. n' < snd k) sk)\<rparr>) \<and>
    n \<le> n' \<and> near lo n' \<and> {n..<n'} \<subseteq> held bs \<and> n' \<notin> held bs"
  using assms
proof (induction bs arbitrary: b n sk)
  case Nil
  then have "filter (\<lambda>k. n < snd k) sk = sk"
    by (auto intro: filter_True)
  with Nil show ?case
    by (intro exI [of _ n]) simp
next
  case (Cons x bs)
  have x: "blocks_ok lo bs" "near lo (fst x)" "near lo (bend x)" "0 < GetSize (fst (snd x))"
    "\<forall>y \<in> set bs. bend x \<le> fst y"
    using Cons.prems(1) by (simp_all add: blocks_ok_Cons)
  note cmp = seq_compare [OF x(2) Cons.prems(3)]
  consider "fst x < n" | "n < fst x" | "fst x = n"
    by linarith
  then show ?case
  proof cases
    case 1
    with Cons.prems(4) have "bend x \<le> n"
      by simp
    obtain n' where n': "advance (entries bs) b = Inr (b\<lparr>rx_nextRxSeq := seq_of n',
      rx_availBytes := rx_availBytes b + of_nat (n' - n),
      rx_sackList := sacks (filter (\<lambda>k. n' < snd k) sk)\<rparr>)"
      "n \<le> n'" "near lo n'" "{n..<n'} \<subseteq> held bs" "n' \<notin> held bs"
      using Cons.IH [OF x(1) Cons.prems(2,3) _ Cons.prems(5,6)] Cons.prems(4) by auto
    with 1 \<open>bend x \<le> n\<close> Cons.prems(2) show ?thesis
      by (intro exI [of _ n']) (auto simp: cmp)
  next
    case 2
    then have "n \<notin> held (x # bs)"
      using held_above [of bs "bend x" n] x(5) by fastforce
    moreover have "filter (\<lambda>k. n < snd k) sk = sk"
      using Cons.prems(6) by (auto intro: filter_True)
    ultimately show ?thesis
      using 2 Cons.prems(2,3,5) by (intro exI [of _ n]) (simp add: cmp)
  next
    case 3
    define b1 where "b1 = b\<lparr>rx_nextRxSeq := seq_of (bend x),
      rx_availBytes := rx_availBytes b + packet_size (snd x),
      rx_sackList := sacks (filter (\<lambda>k. bend x < snd k) sk)\<rparr>"
    have step: "advance (entries (x # bs)) b = advance (entries bs) b1"
      using 3 Cons.prems(2,5) ClearSackList_ok [OF x(3), of sk m H] Cons.prems(6)
      by (simp add: cmp b1_def Let_def seq_of_packet del: of_nat_add)
    have "\<exists>n'. advance (entries bs) b1 = Inr (b1\<lparr>rx_nextRxSeq := seq_of n',
      rx_availBytes := rx_availBytes b1 + of_nat (n' - bend x),
      rx_sackList := sacks (filter (\<lambda>k. n' < snd k) (filter (\<lambda>k. bend x < snd k) sk))\<rparr>) \<and>
      bend x \<le> n' \<and> near lo n' \<and> {bend x..<n'} \<subseteq> held bs \<and> n' \<notin> held bs"
    proof (rule Cons.IH [OF x(1) _ x(3)])
      show "\<forall>y \<in> set bs. fst y < bend x \<longrightarrow> bend y \<le> bend x"
        using x(5) by auto
    qed (use Cons.prems(6) in \<open>auto simp: b1_def\<close>)
    then obtain n' where n': "advance (entries bs) b1 = Inr (b1\<lparr>rx_nextRxSeq := seq_of n',
      rx_availBytes := rx_availBytes b1 + of_nat (n' - bend x),
      rx_sackList := sacks (filter (\<lambda>k. n' < snd k) (filter (\<lambda>k. bend x < snd k) sk))\<rparr>)"
      "bend x \<le> n'" "near lo n'" "{bend x..<n'} \<subseteq> held bs" "n' \<notin> held bs"
      by blast
    have avail: "packet_size (snd x) + of_nat (n' - bend x) = (of_nat (n' - n) :: u32)"
      unfolding packet_size_def of_nat_add [symmetric] using n'(2) 3 by simp
    have "{n..<n'} \<subseteq> {fst x..<bend x} \<union> {bend x..<n'}"
      using 3 by auto
    with n'(4) have "{n..<n'} \<subseteq> held (x # bs)"
      by auto
    moreover have "n' \<notin> held (x # bs)"
      using n'(2,5) by simp
    moreover have "n \<le> n'"
      using n'(2) 3 by simp
    moreover have "advance (entries (x # bs)) b = Inr (b\<lparr>rx_nextRxSeq := seq_of n',
        rx_availBytes := rx_availBytes b + of_nat (n' - n), rx_sackList := sacks (filter (\<lambda>k. n' < snd k) sk)\<rparr>)"
      unfolding step n'(1) filter_filter_less [OF n'(2)] by (simp add: b1_def add.assoc avail)
    ultimately show ?thesis
      using n'(3) by blast
  qed
qed

section \<open>The invariant\<close>

text \<open>
  The stream is \<open>S\<close>, its end \<open>L\<close>.  The application has read up to \<open>lo\<close>, the
  first missing byte is at \<open>n\<close>, and the packets in the buffer are the blocks \<open>bs\<close>.
\<close>

definition slice :: "(nat \<Rightarrow> u8) \<Rightarrow> nat \<Rightarrow> nat \<Rightarrow> u8 list" where
  "slice S x y = map S [x..<y]"

definition next_position :: "TcpRxBuffer \<Rightarrow> nat \<Rightarrow> nat \<Rightarrow> nat" where
  "next_position b L n = (if rx_gotFin b \<and> n = L then n + 1 else n)"

definition rx_ok :: "(nat \<Rightarrow> u8) \<Rightarrow> nat \<Rightarrow> nat \<Rightarrow> nat \<Rightarrow> block list \<Rightarrow> TcpRxBuffer \<Rightarrow> bool" where
  "rx_ok S L lo n bs b \<longleftrightarrow>
     rx_data b = entries bs \<and> blocks_ok lo bs \<and>
     (\<forall>x \<in> set bs. pk_bytes (fst (snd x)) = slice S (fst x) (bend x)) \<and>
     held bs \<subseteq> {lo..<lo + window} \<inter> {..<L} \<and>
     lo \<le> n \<and> n \<le> L \<and> {lo..<n} \<subseteq> held bs \<and> n \<notin> held bs \<and>
     rx_nextRxSeq b = seq_of (next_position b L n) \<and>
     (rx_gotFin b \<longrightarrow> rx_finSeq b = seq_of L \<and> L \<le> lo + window) \<and>
     rx_availBytes b = of_nat (n - lo) \<and> rx_size b = of_nat (stored bs) \<and>
     unat (rx_maxBuffer b) \<le> window \<and>
     (\<exists>sk. rx_sackList b = sacks sk \<and> length sk \<le> 4 \<and> (\<forall>k \<in> set sk. sack_ok lo n (held bs) k))"

lemma rx_okD:
  assumes "rx_ok S L lo n bs b"
  shows "rx_data b = entries bs" and "blocks_ok lo bs"
    and "x \<in> set bs \<Longrightarrow> pk_bytes (fst (snd x)) = slice S (fst x) (bend x)"
    and "y \<in> held bs \<Longrightarrow> lo \<le> y \<and> y < lo + window \<and> y < L"
    and "lo \<le> n" and "n \<le> L" and "{lo..<n} \<subseteq> held bs" and "n \<notin> held bs"
    and "rx_nextRxSeq b = seq_of (next_position b L n)"
    and "rx_gotFin b \<Longrightarrow> rx_finSeq b = seq_of L \<and> L \<le> lo + window"
    and "rx_availBytes b = of_nat (n - lo)" and "rx_size b = of_nat (stored bs)"
    and "unat (rx_maxBuffer b) \<le> window"
    and "\<exists>sk. rx_sackList b = sacks sk \<and> length sk \<le> 4 \<and> (\<forall>k \<in> set sk. sack_ok lo n (held bs) k)"
proof -
  show "y \<in> held bs \<Longrightarrow> lo \<le> y \<and> y < lo + window \<and> y < L"
    using assms unfolding rx_ok_def by (elim conjE) (drule (1) subsetD, simp)
  show "x \<in> set bs \<Longrightarrow> pk_bytes (fst (snd x)) = slice S (fst x) (bend x)"
    using assms unfolding rx_ok_def by (elim conjE) (rule bspec)
qed (use assms in \<open>simp_all add: rx_ok_def\<close>)

lemma rx_n_bound:
  assumes "rx_ok S L lo n bs b"
  shows "n \<le> lo + window"
proof (rule ccontr)
  assume "\<not> n \<le> lo + window"
  then have "lo + window \<in> {lo..<n}"
    by simp
  with rx_okD(4) [OF assms, of "lo + window"] rx_okD(7) [OF assms] show False
    by blast
qed

lemma near_le: "lo \<le> x + window \<Longrightarrow> x \<le> lo + 2 * window \<Longrightarrow> near lo x"
  by (simp add: near_def)

lemma rx_near:
  assumes "rx_ok S L lo n bs b"
  shows "near lo n" and "near lo (next_position b L n)" and "x \<in> set bs \<Longrightarrow> lo \<le> fst x \<and> fst x < lo + window"
proof -
  show "near lo n" "near lo (next_position b L n)"
    using rx_n_bound [OF assms] rx_okD(5) [OF assms]
    by (auto simp: near_def next_position_def window_def)
  show "lo \<le> fst x \<and> fst x < lo + window" if "x \<in> set bs"
  proof -
    have "0 < GetSize (fst (snd x))"
      using that rx_okD(2) [OF assms] by (simp add: blocks_ok_def)
    then have "fst x \<in> held bs"
      unfolding held_def using that by (intro UN_I [of x]) auto
    with rx_okD(4) [OF assms, of "fst x"] show ?thesis
      by blast
  qed
qed

section \<open>A segment that arrives\<close>

text \<open>The position from which on the buffer takes nothing.\<close>

definition limit :: "block list \<Rightarrow> TcpRxBuffer \<Rightarrow> nat \<Rightarrow> nat" where
  "limit bs b e = (if bs = [] then e else fst (hd bs) + unat (rx_maxBuffer b))"

lemma window_bounds_ok:
  assumes "rx_ok S L lo n bs b" and "lo \<le> a + window" and "e \<le> lo + window" and "a \<le> e" and "e \<le> L"
  obtains h t where "window_bounds (seq_of a) (seq_of e) b = (seq_of h, seq_of t)" "near lo h" "near lo t"
    "t \<le> e" "h < t \<Longrightarrow> a \<le> h \<and> n \<le> h" "{h..<t} = {max a n..<min e (limit bs b e)}"
proof -
  let ?N = "next_position b L n"
  have near: "near lo a" "near lo e" "near lo ?N"
    using assms rx_near(2) [OF assms(1)] by (simp_all add: near_def)
  define h0 where "h0 = max a ?N"
  have h0: "near lo h0" "a \<le> h0" "n \<le> h0"
    using near by (auto simp: h0_def max_def next_position_def)
  have w0: "(if seq_less (seq_of a) (rx_nextRxSeq b) then rx_nextRxSeq b else seq_of a) = seq_of h0"
    unfolding rx_okD(9) [OF assms(1)] by (simp add: seq_compare [OF near(1,3)] h0_def)
  have same: "{h0..<t} = {max a n..<t}" if "t \<le> e" for t
    using that assms(5) by (auto simp: h0_def next_position_def max_def)
  show ?thesis
  proof (cases "bs = []")
    case True
    then have "window_bounds (seq_of a) (seq_of e) b = (seq_of h0, seq_of e)"
      using w0 rx_okD(1) [OF assms(1)] by (simp add: window_bounds_def Let_def)
    with h0 near(2) same [of e] True show ?thesis
      by (intro that [of h0 e]) (simp_all add: limit_def)
  next
    case False
    let ?lim = "limit bs b e"
    have "lo \<le> fst (hd bs) \<and> fst (hd bs) < lo + window"
      using False rx_near(3) [OF assms(1), of "hd bs"] by simp
    then have lim: "near lo ?lim"
      using False rx_okD(13) [OF assms(1)] by (simp add: limit_def near_def)
    define t where "t = min e ?lim"
    have t: "near lo t" "t \<le> e"
      using lim near(2) by (auto simp: t_def min_def)
    define h where "h = (if t < h0 then t else h0)"
    have hd: "fst (hd (rx_data b)) + rx_maxBuffer b = seq_of ?lim"
      using False by (cases bs) (simp_all add: rx_okD(1) [OF assms(1)] limit_def)
    have "window_bounds (seq_of a) (seq_of e) b = (seq_of h, seq_of t)"
      using False w0 hd rx_okD(1) [OF assms(1)]
      by (auto simp: window_bounds_def Let_def seq_compare [OF lim near(2)] seq_compare [OF t(1) h0(1)]
          seq_compare [OF near(2) h0(1)] h_def t_def seq_compare [OF lim h0(1)])
    moreover have "{h..<t} = {max a n..<min e ?lim}"
      using same [OF t(2)] by (auto simp: h_def t_def)
    moreover have "near lo h"
      using h0 t by (simp add: h_def)
    moreover have "a \<le> h \<and> n \<le> h" if "h < t"
      using that h0 by (simp add: h_def split: if_splits)
    ultimately show ?thesis
      using t that by blast
  qed
qed

lemma length_slice [simp]: "length (slice S x y) = y - x"
  by (simp add: slice_def)

lemma slice_slice: "x \<le> h \<Longrightarrow> t \<le> y \<Longrightarrow> take (t - h) (drop (h - x) (slice S x y)) = slice S h t"
  by (cases "h \<le> t") (simp_all add: slice_def drop_map take_map drop_upt take_upt)

lemma slice_append: "x \<le> y \<Longrightarrow> y \<le> z \<Longrightarrow> slice S x y @ slice S y z = slice S x z"
  using upt_add_eq_append [of x y "z - y"] by (simp add: slice_def flip: map_append)

lemma CreateFragment_bytes:
  assumes "s + k \<le> GetSize (fst p)"
  shows "pk_bytes (fst (CreateFragment s k p)) = take k (drop s (pk_bytes (fst p)))"
    and "GetSize (fst (CreateFragment s k p)) = k"
proof -
  show "pk_bytes (fst (CreateFragment s k p)) = take k (drop s (pk_bytes (fst p)))"
    using assms by (simp add: CreateFragment_def pk_bytes_RemoveAtEnd pk_bytes_RemoveAtStart)
  from arg_cong [OF this, of length] assms show "GetSize (fst (CreateFragment s k p)) = k"
    by simp
qed

text \<open>The part \<open>{h..<t}\<close> of a segment of the stream, as the code cuts it out.\<close>

lemma segment_part:
  assumes "pk_bytes (fst p) = slice S a e" and "a \<le> h" and "h \<le> t" and "t \<le> e" and "e - a < 2 ^ 32"
  shows "pk_bytes (fst (CreateFragment (unat (seq_diff (seq_of h) (seq_of a)))
      (unat (seq_diff (seq_of t) (seq_of h))) p)) = slice S h t"
    and "GetSize (fst (CreateFragment (unat (seq_diff (seq_of h) (seq_of a)))
      (unat (seq_diff (seq_of t) (seq_of h))) p)) = t - h"
proof -
  have d: "unat (seq_diff (seq_of h) (seq_of a)) = h - a" "unat (seq_diff (seq_of t) (seq_of h)) = t - h"
    using assms(2-5) by (simp_all add: seq_diff_eq seq_of_diff)
  have "GetSize (fst p) = e - a"
    using arg_cong [OF assms(1), of length] by simp
  with assms(2-4) have le: "(h - a) + (t - h) \<le> GetSize (fst p)"
    by simp
  show "pk_bytes (fst (CreateFragment (unat (seq_diff (seq_of h) (seq_of a)))
      (unat (seq_diff (seq_of t) (seq_of h))) p)) = slice S h t"
    unfolding d using CreateFragment_bytes(1) [OF le] assms(1-4) by (simp add: slice_slice)
  show "GetSize (fst (CreateFragment (unat (seq_diff (seq_of h) (seq_of a)))
      (unat (seq_diff (seq_of t) (seq_of h))) p)) = t - h"
    unfolding d by (rule CreateFragment_bytes(2) [OF le])
qed

text \<open>The end of \<^verbatim>\<open>Add\<close>: the packets are stored, the next expected number moves on.\<close>

lemma finish_ok:
  assumes "rx_ok S L lo n bs b0" and "blocks_ok lo bs'" and "held bs \<subseteq> held bs'"
    and "held bs' \<subseteq> {lo..<lo + window} \<inter> {..<L}"
    and "\<forall>x \<in> set bs'. pk_bytes (fst (snd x)) = slice S (fst x) (bend x)"
    and "\<forall>x \<in> set bs'. fst x < n \<longrightarrow> bend x \<le> n" and "n < L"
    and "rx_data b = entries bs'" and "rx_size b = of_nat (stored bs')"
    and "rx_sackList b = sacks sk" and "length sk \<le> 4" and "\<forall>k \<in> set sk. sack_ok lo n (held bs') k"
    and "rx_nextRxSeq b = seq_of n" and "rx_availBytes b = of_nat (n - lo)" and "rx_gotFin b = rx_gotFin b0"
    and "rx_finSeq b = rx_finSeq b0" and "rx_maxBuffer b = rx_maxBuffer b0"
  shows "\<exists>n' b1. advance (rx_data b) b = Inr b1 \<and> n \<le> n' \<and> rx_gotFin b1 = rx_gotFin b0 \<and>
    rx_maxBuffer b1 = rx_maxBuffer b0 \<and>
    rx_ok S L lo n' bs' (if rx_gotFin b1 \<and> rx_nextRxSeq b1 = rx_finSeq b1
      then b1\<lparr>rx_nextRxSeq := rx_nextRxSeq b1 + 1\<rparr> else b1)"
proof -
  have sk: "\<forall>k \<in> set sk. sack_ok lo n (held bs') k \<and> n < snd k"
    using assms(12) by (auto simp: sack_ok_def)
  from advance_ok [OF assms(2,13) rx_near(1) [OF assms(1)] assms(6,10) sk]
  obtain n' where n': "advance (entries bs') b = Inr (b\<lparr>rx_nextRxSeq := seq_of n',
      rx_availBytes := rx_availBytes b + of_nat (n' - n), rx_sackList := sacks (filter (\<lambda>k. n' < snd k) sk)\<rparr>)"
    "n \<le> n'" "near lo n'" "{n..<n'} \<subseteq> held bs'" "n' \<notin> held bs'"
    by blast
  define b1 where "b1 = b\<lparr>rx_nextRxSeq := seq_of n', rx_availBytes := rx_availBytes b + of_nat (n' - n),
    rx_sackList := sacks (filter (\<lambda>k. n' < snd k) sk)\<rparr>"
  note inv = rx_okD [OF assms(1)]
  have "{lo..<n'} \<subseteq> {lo..<n} \<union> {n..<n'}"
    by auto
  with n'(4) inv(7) assms(3) have cover: "{lo..<n'} \<subseteq> held bs'"
    by blast
  have "n' \<le> L"
  proof (rule ccontr)
    assume "\<not> n' \<le> L"
    with cover inv(5,6) have "L \<in> held bs'"
      by auto
    with assms(4) show False
      by auto
  qed
  have avail: "of_nat (n - lo) + of_nat (n' - n) = (of_nat (n' - lo) :: u32)"
    unfolding of_nat_add [symmetric] using n'(2) inv(5) by simp
  have fin: "rx_nextRxSeq b1 = rx_finSeq b1 \<longleftrightarrow> n' = L" if "rx_gotFin b1"
  proof -
    have g: "rx_finSeq b1 = seq_of L" "L \<le> lo + window"
      using that assms(15,16) inv(10) by (simp_all add: b1_def)
    moreover have "near lo L"
      using g(2) inv(5,6) by (intro near_le) auto
    ultimately show ?thesis
      using seq_compare(5) [OF n'(3)] by (simp add: b1_def)
  qed
  let ?b2 = "if rx_gotFin b1 \<and> rx_nextRxSeq b1 = rx_finSeq b1 then b1\<lparr>rx_nextRxSeq := rx_nextRxSeq b1 + 1\<rparr> else b1"
  have nxt: "rx_nextRxSeq ?b2 = seq_of (next_position ?b2 L n')"
    using fin by (auto simp: next_position_def b1_def algebra_simps)
  have "\<forall>k \<in> set (filter (\<lambda>k. n' < snd k) sk). sack_ok lo n' (held bs') k"
    using assms(12) sack_ok_move [OF _ _ n'(5)] by auto
  moreover have "length (filter (\<lambda>k. n' < snd k) sk) \<le> 4"
    using assms(11) length_filter_le order_trans by blast
  ultimately have "\<exists>sk'. rx_sackList ?b2 = sacks sk' \<and> length sk' \<le> 4 \<and> (\<forall>k \<in> set sk'. sack_ok lo n' (held bs') k)"
    by (intro exI [of _ "filter (\<lambda>k. n' < snd k) sk"]) (simp add: b1_def)
  moreover have "rx_data ?b2 = entries bs'" "rx_availBytes ?b2 = of_nat (n' - lo)"
    "rx_size ?b2 = of_nat (stored bs')" "rx_gotFin ?b2 = rx_gotFin b0" "rx_finSeq ?b2 = rx_finSeq b0"
    "rx_maxBuffer ?b2 = rx_maxBuffer b0"
    using assms(8,9,14-17) avail by (simp_all add: b1_def)
  ultimately have "rx_ok S L lo n' bs' ?b2"
    unfolding rx_ok_def using assms(2,4,5) inv(5,10,13) n'(2,5) cover \<open>n' \<le> L\<close> nxt by auto
  then show ?thesis
    using n'(1,2) assms(8,15,17) by (intro exI [of _ n'] exI [of _ b1]) (simp add: b1_def)
qed

lemma rx_ok_start: "x \<in> set bs \<Longrightarrow> rx_ok S L lo n bs b \<Longrightarrow> fst x < n \<Longrightarrow> bend x \<le> n"
  using rx_okD(8) [of S L lo n bs b] by (force simp: held_def)

text \<open>Storing the part that is left, in positions.\<close>

lemma store_ok:
  assumes "rx_ok S L lo n bs b" and "trimmed h t bs kept h' t'" and "blocks_ok lo kept" and "set kept \<subseteq> set bs"
    and "near lo h'" and "near lo t'" and "h' < t'" and "n \<le> h" and "t \<le> lo + window" and "t \<le> L"
    and "pk_bytes (fst q) = slice S h' t'" and "GetSize (fst q) = t' - h'"
  obtains bs' where "\<not> data_find (seq_of h') (entries kept)"
    "data_put (seq_of h') q (entries kept) = entries bs'" "blocks_ok lo bs'"
    "stored bs' = stored kept + GetSize (fst q)" "held bs' = held bs \<union> {h..<t}" "{h'..<t'} \<subseteq> held bs'"
    "held bs' \<subseteq> {lo..<lo + window} \<inter> {..<L}"
    "\<forall>x \<in> set bs'. pk_bytes (fst (snd x)) = slice S (fst x) (bend x)"
    "\<forall>x \<in> set bs'. fst x < n \<longrightarrow> bend x \<le> n"
proof -
  note td = trimmedD [OF assms(2)] and inv = rx_okD [OF assms(1)]
  have qend: "h' + GetSize (fst q) = t'"
    using assms(7,12) by simp
  have "\<forall>x \<in> set kept. fst x \<noteq> h'"
  proof (intro ballI notI)
    fix x assume "x \<in> set kept" "fst x = h'"
    then have "h' \<in> held kept"
      using assms(3) by (force simp: held_def blocks_ok_def)
    with td(4) assms(7) show False
      by auto
  qed
  then have find: "\<not> data_find (seq_of h') (entries kept)"
    by (rule data_find_entries [OF assms(3,5)])
  have apart: "{h'..<h' + GetSize (fst q)} \<inter> held kept = {}"
    unfolding qend using td(4) by blast
  obtain bs' where put: "data_put (seq_of h') q (entries kept) = entries bs'" "blocks_ok lo bs'"
    "set bs' = insert (h', q) (set kept)" "stored bs' = stored kept + GetSize (fst q)"
    using data_put_entries [OF assms(3,5) _ _ apart] assms(6,7,12) by (auto simp: qend)
  have held: "held bs' = held bs \<union> {h..<t}"
    using held_insert [OF put(3)] td(3) by (simp add: qend)
  have "held bs' \<subseteq> {lo..<lo + window} \<inter> {..<L}"
  proof
    fix y assume "y \<in> held bs'"
    then consider "y \<in> held bs" | "h \<le> y" "y < t"
      unfolding held by auto
    then show "y \<in> {lo..<lo + window} \<inter> {..<L}"
      by cases (use inv(4,5) assms(8-10) in auto)
  qed
  moreover have "\<forall>x \<in> set bs'. pk_bytes (fst (snd x)) = slice S (fst x) (bend x)"
    using put(3) assms(4,11) inv(3) qend by auto
  moreover have "\<forall>x \<in> set bs'. fst x < n \<longrightarrow> bend x \<le> n"
    using put(3) assms(4,8) td(1) rx_ok_start [OF _ assms(1)] by auto
  moreover have "{h'..<t'} \<subseteq> held bs'"
    using held_insert [OF put(3)] by (simp add: qend)
  ultimately show ?thesis
    using that find put(1,2,4) held by blast
qed

text \<open>The report of the new part.\<close>

lemma report_ok:
  assumes "near lo n" and "near lo h'" and "near lo t'" and "h' < t'" and "n \<le> h'" and "{h'..<t'} \<subseteq> H"
    and "\<forall>k \<in> set sk. sack_ok lo n H k" and "length sk \<le> 4" and "rx_sackList b = sacks sk"
    and "rx_nextRxSeq b = seq_of n"
  obtains sk1 where "(if seq_greater (seq_of h') (rx_nextRxSeq b) then UpdateSackList (seq_of h') (seq_of t') b
      else Inr b) = Inr (b\<lparr>rx_sackList := sacks sk1\<rparr>)" "length sk1 \<le> 4" "\<forall>k \<in> set sk1. sack_ok lo n H k"
proof (cases "n < h'")
  case True
  then have new: "sack_ok lo n H (h', t')" "seq_greater (seq_of h') (rx_nextRxSeq b)"
    using assms(2-4,6,10) by (auto simp: sack_ok_def seq_compare [OF assms(2,1)])
  from UpdateSackList_ok [OF assms(9,8,7) new] obtain k sk1 where
    "UpdateSackList (seq_of h') (seq_of t') b = Inr (b\<lparr>rx_sackList := sacks (k # sk1)\<rparr>)"
    "length sk1 \<le> 3" "\<forall>x \<in> insert k (set sk1). sack_ok lo n H x"
    by blast
  with new(2) that [of "k # sk1"] show ?thesis
    by auto
next
  case False
  with assms that [of sk] show ?thesis
    by (simp add: seq_compare [OF assms(2,1)])
qed

lemma TcpRxBuffer_Add_ok:
  assumes "rx_ok S L lo n bs b" and "pk_bytes (fst p) = slice S a e" and "lo \<le> a + window"
    and "e \<le> lo + window" and "a \<le> e" and "e \<le> L"
  shows "\<exists>r b' bs' n'. TcpRxBuffer_Add p (seq_of a) b = Inr (r, b') \<and> rx_ok S L lo n' bs' b' \<and> n \<le> n' \<and>
    held bs' = held bs \<union> {max a n..<min e (limit bs b e)} \<and> rx_gotFin b' = rx_gotFin b \<and>
    rx_maxBuffer b' = rx_maxBuffer b"
proof -
  note inv = rx_okD [OF assms(1)]
  have "GetSize (fst p) = e - a"
    using arg_cong [OF assms(2), of length] by simp
  then have tail: "seq_of a + packet_size p = seq_of e"
    using assms(5) by (simp add: seq_of_packet del: of_nat_add)
  obtain h t where wb: "window_bounds (seq_of a) (seq_of e) b = (seq_of h, seq_of t)" "near lo h" "near lo t"
    "t \<le> e" "h < t \<Longrightarrow> a \<le> h \<and> n \<le> h" "{h..<t} = {max a n..<min e (limit bs b e)}"
    by (rule window_bounds_ok [OF assms(1,3,4,5,6)]) blast
  obtain kept h' t' where nt: "ntrim h t bs = (kept, h', t')"
    by (metis prod_cases3)
  from trim_overlap_ntrim [OF inv(2) wb(2,3) nt]
  have trim: "trim_overlap (seq_of h) (seq_of t) (rx_size b) (rx_data b) =
      (entries kept, seq_of h', seq_of t', of_nat (stored kept))"
    and kept: "blocks_ok lo kept" "set kept \<subseteq> set bs" "near lo h'" "near lo t'"
    by (auto simp: inv(1,12))
  note tr = ntrim_trimmed [OF inv(2) nt]
  note td = trimmedD [OF tr]
  show ?thesis
  proof (cases "t' \<le> h'")
    case True
    then have "b\<lparr>rx_data := entries kept, rx_size := of_nat (stored kept)\<rparr> = b"
      using td(5) inv(1,12) by simp
    with True have "TcpRxBuffer_Add p (seq_of a) b = Inr (False, b)"
      by (simp add: TcpRxBuffer_Add_def tail wb(1) trim seq_compare [OF kept(3,4)])
    moreover have "held bs = held bs \<union> {h..<t}"
      using td(3,5) True by auto
    ultimately show ?thesis
      using assms(1) wb(6) by blast
  next
    case False
    then have ht: "h < t" "a \<le> h'" "n \<le> h'" "h' < t'" "t' \<le> e" "n \<le> h" "t \<le> lo + window" "t \<le> L"
      using td(1,2) wb(4,5) assms(4,6) by auto
    then have "n < L"
      by simp
    define q where "q = CreateFragment (unat (seq_diff (seq_of h') (seq_of a)))
      (unat (seq_diff (seq_of t') (seq_of h'))) p"
    have q: "pk_bytes (fst q) = slice S h' t'" "GetSize (fst q) = t' - h'"
      using segment_part [OF assms(2) ht(2) _ ht(5)] ht(4) assms(3,4)
      by (simp_all add: q_def window_def)
    obtain bs' where put: "\<not> data_find (seq_of h') (entries kept)"
      "data_put (seq_of h') q (entries kept) = entries bs'" "blocks_ok lo bs'"
      "stored bs' = stored kept + GetSize (fst q)" "held bs' = held bs \<union> {h..<t}" "{h'..<t'} \<subseteq> held bs'"
      "held bs' \<subseteq> {lo..<lo + window} \<inter> {..<L}"
      "\<forall>x \<in> set bs'. pk_bytes (fst (snd x)) = slice S (fst x) (bend x)"
      "\<forall>x \<in> set bs'. fst x < n \<longrightarrow> bend x \<le> n"
      by (rule store_ok [OF assms(1) tr kept ht(4) ht(6-8) q])
    define b1 where "b1 = b\<lparr>rx_size := of_nat (stored kept), rx_data := entries bs'\<rparr>"
    obtain sk where sk: "rx_sackList b = sacks sk" "length sk \<le> 4" "\<forall>k \<in> set sk. sack_ok lo n (held bs) k"
      using inv(14) by blast
    then have sk': "\<forall>k \<in> set sk. sack_ok lo n (held bs') k" "rx_sackList b1 = sacks sk"
      using put(5) by (auto simp: sack_ok_def b1_def)
    have "rx_nextRxSeq b1 = seq_of n"
      using inv(9) \<open>n < L\<close> by (simp add: next_position_def b1_def)
    with report_ok [OF rx_near(1) [OF assms(1)] kept(3,4) ht(4,3) put(6) sk'(1) sk(2) sk'(2)]
    obtain sk1 where sk1: "(if seq_greater (seq_of h') (rx_nextRxSeq b1)
        then UpdateSackList (seq_of h') (seq_of t') b1 else Inr b1) = Inr (b1\<lparr>rx_sackList := sacks sk1\<rparr>)"
      "length sk1 \<le> 4" "\<forall>k \<in> set sk1. sack_ok lo n (held bs') k"
      by blast
    define b2 where "b2 = b1\<lparr>rx_sackList := sacks sk1, rx_size := rx_size b1 + packet_size q\<rparr>"
    from finish_ok [OF assms(1) put(3) _ put(7-9) \<open>n < L\<close>, of b2 sk1]
    obtain n' b3 where fin: "advance (rx_data b2) b2 = Inr b3" "n \<le> n'" "rx_gotFin b3 = rx_gotFin b"
      "rx_maxBuffer b3 = rx_maxBuffer b"
      "rx_ok S L lo n' bs' (if rx_gotFin b3 \<and> rx_nextRxSeq b3 = rx_finSeq b3
         then b3\<lparr>rx_nextRxSeq := rx_nextRxSeq b3 + 1\<rparr> else b3)"
      using put(4,5) sk1(2,3) \<open>rx_nextRxSeq b1 = seq_of n\<close> inv(11) by (auto simp: b2_def b1_def packet_size_def)
    let ?b4 = "if rx_gotFin b3 \<and> rx_nextRxSeq b3 = rx_finSeq b3 then b3\<lparr>rx_nextRxSeq := rx_nextRxSeq b3 + 1\<rparr> else b3"
    have guard: "packet_size q = seq_diff (seq_of t') (seq_of h')"
      using ht(4) q(2) by (simp add: seq_diff_eq packet_size_def of_nat_diff)
    have "TcpRxBuffer_Add p (seq_of a) b =
        then_do (if seq_greater (seq_of h') (rx_nextRxSeq b1) then UpdateSackList (seq_of h') (seq_of t') b1
            else Inr b1)
          (\<lambda>b. let b = b\<lparr>rx_size := rx_size b + packet_size q\<rparr>
               in then_do (advance (rx_data b) b)
                    (\<lambda>b. Inr (True, if rx_gotFin b \<and> rx_nextRxSeq b = rx_finSeq b
                       then b\<lparr>rx_nextRxSeq := rx_nextRxSeq b + 1\<rparr> else b)))"
      using False put(1) guard
      by (simp add: TcpRxBuffer_Add_def tail wb(1) trim seq_compare [OF kept(3,4)] q_def [symmetric] put(2)
          b1_def Let_def del: then_do_Inr)
    also have "\<dots> = Inr (True, ?b4)"
      unfolding sk1(1) using fin(1) by (simp add: b2_def Let_def)
    finally have "TcpRxBuffer_Add p (seq_of a) b = Inr (True, ?b4)" .
    moreover have "held bs' = held bs \<union> {max a n..<min e (limit bs b e)}"
      using put(5) wb(6) by simp
    moreover have "rx_gotFin ?b4 = rx_gotFin b" "rx_maxBuffer ?b4 = rx_maxBuffer b"
      using fin(3,4) by simp_all
    ultimately show ?thesis
      using fin(2,5) by blast
  qed
qed

section \<open>Reading\<close>

lemma packet_append_bytes [simp]:
  "pk_bytes (packet_append p q) = pk_bytes p @ pk_bytes q"
  "GetSize (packet_append p q) = GetSize p + GetSize q"
  by (simp_all add: packet_append_def pk_bytes_def GetSize_def)

lemma data_put_front:
  assumes "blocks_ok w bs" and "near w x" and "\<forall>b \<in> set bs. x < fst b"
  shows "data_put (seq_of x) q (entries bs) = (seq_of x, q) # entries bs"
proof (cases bs)
  case (Cons b bs')
  with assms have "near w (fst b)" "x < fst b"
    by (simp_all add: blocks_ok_Cons)
  then show ?thesis
    by (simp add: Cons seq_compare [OF \<open>near w (fst b)\<close> assms(2)] seq_compare [OF assms(2) \<open>near w (fst b)\<close>])
qed simp

lemma first_block:
  assumes "blocks_ok w bs" and "lo \<in> held bs" and "\<forall>y \<in> held bs. lo \<le> y"
  obtains x bs' where "bs = x # bs'" "fst x = lo"
proof (cases bs)
  case Nil
  with assms(2) show ?thesis by simp
next
  case (Cons x bs')
  with assms(1) have x: "0 < GetSize (fst (snd x))" "\<forall>y \<in> set bs'. bend x \<le> fst y"
    by (simp_all add: blocks_ok_Cons)
  then have "lo \<le> fst x"
    using assms(3) Cons by simp
  moreover have "fst x \<le> lo"
    using assms(2) Cons x held_above [of bs' "bend x" lo] by fastforce
  ultimately show ?thesis
    using that Cons by simp
qed

text \<open>The state after \<open>k\<close> bytes were taken.\<close>

definition taken_out :: "(nat \<Rightarrow> u8) \<Rightarrow> nat \<Rightarrow> nat \<Rightarrow> nat \<Rightarrow> block list \<Rightarrow> block list \<Rightarrow> bool" where
  "taken_out S w lo k bs bs' \<longleftrightarrow> blocks_ok w bs' \<and> held bs' = held bs - {..<lo + k} \<and>
     stored bs = stored bs' + k \<and> (\<forall>x \<in> set bs'. pk_bytes (fst (snd x)) = slice S (fst x) (bend x))"

lemma Extract_loop_ok:
  assumes "blocks_ok w bs" and "\<forall>y \<in> held bs. lo \<le> y" and "{lo..<lo + k} \<subseteq> held bs"
    and "\<forall>x \<in> set bs. pk_bytes (fst (snd x)) = slice S (fst x) (bend x)"
    and "rx_nextRxSeq b = seq_of N" and "near w N" and "near w lo" and "lo + k \<le> N"
  shows "\<exists>out' bs'. Extract_loop (entries bs) (of_nat k) out b = Inr (out', b\<lparr>rx_data := entries bs',
      rx_size := rx_size b - of_nat k, rx_availBytes := rx_availBytes b - of_nat k\<rparr>) \<and>
    pk_bytes out' = pk_bytes out @ slice S lo (lo + k) \<and> taken_out S w lo k bs bs'"
  using assms
proof (induction bs arbitrary: lo k out b)
  case Nil
  then have "k = 0"
    by auto
  then show ?case
    by (intro exI [of _ out] exI [of _ "[]"]) (simp add: slice_def taken_out_def)
next
  case (Cons x bs)
  show ?case
  proof (cases "k = 0")
    case True
    have "held (x # bs) - {..<lo} = held (x # bs)"
      using Cons.prems(2) by fastforce
    with True Cons.prems(1,4) show ?thesis
      by (intro exI [of _ out] exI [of _ "x # bs"])
        (auto simp: slice_def taken_out_def simp del: held_simps)
  next
    case False
    have small: "k < 2 ^ 32" "(of_nat k :: u32) \<noteq> 0" "unat (of_nat k :: u32) = k"
    proof -
      show k: "k < 2 ^ 32"
        using Cons.prems(6-8) by (simp add: near_def window_def)
      then show "unat (of_nat k :: u32) = k"
        by (simp add: unat_of_nat)
      with False show "(of_nat k :: u32) \<noteq> 0"
        by (metis unsigned_0)
    qed
    have "lo \<in> held (x # bs)"
      using False Cons.prems(3) by (auto simp del: held_simps)
    then have lo: "fst x = lo"
      using first_block [OF Cons.prems(1) _ Cons.prems(2)] by (metis list.inject)
    have x: "blocks_ok w bs" "0 < GetSize (fst (snd x))" "near w (bend x)" "\<forall>y \<in> set bs. bend x \<le> fst y"
      using Cons.prems(1) by (simp_all add: blocks_ok_Cons)
    have above: "bend x \<le> y" if "y \<in> held bs" for y
      using held_above [of bs "bend x" y] x(4) that by blast
    have le: "seq_le (seq_of lo) (rx_nextRxSeq b)"
      using Cons.prems(5,8) by (simp add: seq_compare [OF Cons.prems(7,6)])
    have sz: "packet_size (snd x) = of_nat (GetSize (fst (snd x)))" "unat (packet_size (snd x)) = GetSize (fst (snd x))"
      using x(3) Cons.prems(7) lo by (simp_all add: packet_size_def near_def window_def unat_of_nat)
    let ?l = "GetSize (fst (snd x))"
    show ?thesis
    proof (cases "?l \<le> k")
      case True
      define b1 where "b1 = b\<lparr>rx_size := rx_size b - packet_size (snd x), rx_availBytes := rx_availBytes b - packet_size (snd x)\<rparr>"
      have kl: "(of_nat k - packet_size (snd x) :: u32) = of_nat (k - ?l)"
        using True by (simp add: packet_size_def of_nat_diff)
      have "{lo + ?l..<lo + ?l + (k - ?l)} \<subseteq> held bs"
      proof
        fix y assume y: "y \<in> {lo + ?l..<lo + ?l + (k - ?l)}"
        with Cons.prems(3) True have "y \<in> held (x # bs)"
          by (auto simp del: held_simps)
        with y lo show "y \<in> held bs"
          by simp
      qed
      from Cons.IH [OF x(1) _ this, of b1 "packet_append out (fst (snd x))"] obtain out' bs' where
        r: "Extract_loop (entries bs) (of_nat (k - ?l)) (packet_append out (fst (snd x))) b1 =
            Inr (out', b1\<lparr>rx_data := entries bs', rx_size := rx_size b1 - of_nat (k - ?l),
              rx_availBytes := rx_availBytes b1 - of_nat (k - ?l)\<rparr>)"
          "pk_bytes out' = pk_bytes (packet_append out (fst (snd x))) @ slice S (lo + ?l) (lo + ?l + (k - ?l))"
          "taken_out S w (lo + ?l) (k - ?l) bs bs'"
        using above lo Cons.prems(4-6,8) x(3) True by (auto simp: b1_def)
      have "Extract_loop (entries (x # bs)) (of_nat k) out b = Inr (out', b\<lparr>rx_data := entries bs',
          rx_size := rx_size b - of_nat k, rx_availBytes := rx_availBytes b - of_nat k\<rparr>)"
      proof -
        have "packet_size (snd x) \<le> of_nat k"
          using True sz(2) small(3) by (simp add: word_le_nat_alt)
        moreover have "c - packet_size (snd x) - of_nat (k - ?l) = c - of_nat k" for c :: u32
          using True by (simp add: packet_size_def of_nat_diff)
        ultimately show ?thesis
          using small(2) le lo r(1) by (simp add: Let_def kl b1_def)
      qed
      moreover have "pk_bytes out' = pk_bytes out @ slice S lo (lo + k)"
        using r(2) Cons.prems(4) lo True slice_append [of lo "lo + ?l" "lo + k" S] by simp
      moreover have "held (x # bs) - {..<lo + k} = held bs - {..<lo + k}"
        using lo True by auto
      then have "taken_out S w lo k (x # bs) bs'"
        using r(3) True by (simp add: taken_out_def del: held_simps)
      ultimately show ?thesis
        by blast
    next
      case False
      let ?q = "CreateFragment k (?l - k) (snd x)"
      have frag: "pk_bytes (fst (CreateFragment 0 k (snd x))) = slice S lo (lo + k)"
        "pk_bytes (fst ?q) = slice S (lo + k) (bend x)" "GetSize (fst ?q) = ?l - k"
        using False CreateFragment_bytes [of 0 k "snd x"] CreateFragment_bytes [of k "?l - k" "snd x"]
          Cons.prems(4) lo slice_slice [of lo lo "lo + k" "bend x" S] slice_slice [of lo "lo + k" "bend x" "bend x" S]
        by simp_all
      have near: "near w (lo + k)"
        using Cons.prems(6-8) by (simp add: near_def)
      have front: "data_put (seq_of (lo + k)) ?q (entries bs) = (seq_of (lo + k), ?q) # entries bs"
        by (rule data_put_front [OF x(1) near]) (use x(4) lo False in auto)
      have put: "data_put (seq_of lo + of_nat k) ?q (entries (x # bs)) =
          (seq_of lo, snd x) # (seq_of (lo + k), ?q) # entries bs"
        using \<open>k \<noteq> 0\<close> lo front
        by (simp add: of_nat_add [symmetric] seq_compare [OF Cons.prems(7) near] del: of_nat_add)
      have "unat (packet_size (snd x) - of_nat k) = ?l - k"
        using False sz(2) small(3) by (simp add: unat_sub word_le_nat_alt)
      then have run: "Extract_loop (entries (x # bs)) (of_nat k) out b = Inr (packet_append out (fst (CreateFragment 0 k (snd x))),
          b\<lparr>rx_data := entries ((lo + k, ?q) # bs), rx_size := rx_size b - of_nat k,
            rx_availBytes := rx_availBytes b - of_nat k\<rparr>)"
        using small(2,3) le lo put False sz(2) by (simp add: Let_def word_le_nat_alt)
      have "held ((lo + k, ?q) # bs) = held (x # bs) - {..<lo + k}"
        using frag(3) False lo by (auto dest: above)
      moreover have "blocks_ok w ((lo + k, ?q) # bs)"
        using Cons.prems(1) near frag(3) False lo by (auto simp: blocks_ok_Cons)
      ultimately have "taken_out S w lo k (x # bs) ((lo + k, ?q) # bs)"
        using frag(2,3) False lo Cons.prems(4) by (auto simp: taken_out_def simp del: held_simps)
      moreover have "pk_bytes (packet_append out (fst (CreateFragment 0 k (snd x)))) = pk_bytes out @ slice S lo (lo + k)"
        using frag(1) by simp
      ultimately show ?thesis
        using run by blast
    qed
  qed
qed

text \<open>The invariant moves with the reader.\<close>

lemma blocks_ok_move:
  assumes "blocks_ok lo bs" and "held bs \<subseteq> {lo'..<lo' + window}"
  shows "blocks_ok lo' bs"
proof -
  have "near lo' (fst x) \<and> near lo' (bend x)" if "x \<in> set bs" for x
  proof -
    have pos: "0 < GetSize (fst (snd x))"
      using that assms(1) by (simp add: blocks_ok_def)
    then have "fst x \<in> held bs" "bend x - 1 \<in> held bs"
      unfolding held_def using that by (auto intro!: bexI [of _ x])
    with assms(2) have "lo' \<le> fst x" "bend x - 1 < lo' + window"
      by auto
    with pos show ?thesis
      by (auto simp: near_def window_def)
  qed
  with assms(1) show ?thesis
    by (simp add: blocks_ok_def)
qed

lemma Extract_ok:
  assumes "rx_ok S L lo n bs b" and k_def: "k = min (unat m) (n - lo)"
  shows "\<exists>r b' bs'. Extract m b = Inr (r, b') \<and>
    (case r of None \<Rightarrow> [] | Some p \<Rightarrow> pk_bytes p) = slice S lo (lo + k) \<and>
    rx_ok S L (lo + k) n bs' b' \<and> held bs' = held bs - {..<lo + k} \<and> rx_gotFin b' = rx_gotFin b \<and>
    rx_maxBuffer b' = rx_maxBuffer b"
proof -
  note inv = rx_okD [OF assms(1)]
  have n: "n - lo < 2 ^ 32"
    using rx_n_bound [OF assms(1)] by (simp add: window_def)
  then have avail: "unat (rx_availBytes b) = n - lo"
    by (simp add: inv(11) unat_of_nat)
  then have ext: "min m (rx_availBytes b) = of_nat k"
    by (auto simp: k_def min_def word_le_nat_alt inv(11))
  have kn: "lo + k \<le> n"
    using inv(5) by (auto simp: k_def)
  show ?thesis
  proof (cases "k = 0")
    case True
    have "held bs - {..<lo} = held bs"
      using inv(4) by fastforce
    with True ext assms(1) show ?thesis
      by (intro exI [of _ None] exI [of _ b] exI [of _ bs]) (simp add: Extract_def slice_def)
  next
    case False
    then have ext0: "(of_nat k :: u32) \<noteq> 0"
      using kn n by (simp add: word_unat_eq_iff unat_of_nat)
    have sub: "{lo..<lo + k} \<subseteq> held bs"
      using inv(7) kn by force
    then have "bs \<noteq> []"
      using False by auto
    have "lo + k \<le> next_position b L n"
      using kn by (simp add: next_position_def)
    moreover have "near lo lo"
      by (simp add: near_def)
    moreover have "\<forall>y \<in> held bs. lo \<le> y" "\<forall>x \<in> set bs. pk_bytes (fst (snd x)) = slice S (fst x) (bend x)"
      using inv(3,4) by blast+
    ultimately obtain out' bs' where r: "Extract_loop (entries bs) (of_nat k) (Create_Packet 0) b =
        Inr (out', b\<lparr>rx_data := entries bs', rx_size := rx_size b - of_nat k,
          rx_availBytes := rx_availBytes b - of_nat k\<rparr>)"
      "pk_bytes out' = slice S lo (lo + k)" "taken_out S lo lo k bs bs'"
      using Extract_loop_ok [OF inv(2) _ sub _ inv(9) rx_near(2) [OF assms(1)], of S "Create_Packet 0"]
      by (auto simp: pk_bytes_def Create_Packet_def)
    define b' where "b' = b\<lparr>rx_data := entries bs', rx_size := rx_size b - of_nat k,
          rx_availBytes := rx_availBytes b - of_nat k\<rparr>"
    have t: "blocks_ok lo bs'" "held bs' = held bs - {..<lo + k}" "stored bs = stored bs' + k"
      "\<forall>x \<in> set bs'. pk_bytes (fst (snd x)) = slice S (fst x) (bend x)"
      using r(3) by (simp_all add: taken_out_def)
    have bound: "held bs' \<subseteq> {lo + k..<lo + k + window} \<inter> {..<L}"
      using inv(4) unfolding t(2) by fastforce
    have arith: "(of_nat (n - lo) - of_nat k :: u32) = of_nat (n - (lo + k))"
      "(of_nat (stored bs) - of_nat k :: u32) = of_nat (stored bs')"
      using kn by (simp_all add: of_nat_diff t(3))
    obtain sk where sk: "rx_sackList b = sacks sk" "length sk \<le> 4" "\<forall>x \<in> set sk. sack_ok lo n (held bs) x"
      using inv(14) by blast
    have "sack_ok (lo + k) n (held bs') x" if "x \<in> set sk" for x
    proof -
      have x: "near lo (fst x)" "n < fst x" "fst x < snd x" "{fst x..<snd x} \<subseteq> held bs"
        using sk(3) that by (auto simp: sack_ok_def)
      then have "snd x - 1 \<in> held bs"
        by auto
      with inv(4) x(3) have "snd x \<le> lo + window"
        by fastforce
      with x kn show ?thesis
        unfolding t(2) by (auto simp: sack_ok_def near_def)
    qed
    moreover have "{lo + k..<n} \<subseteq> held bs'" "n \<notin> held bs'"
      using inv(7,8) unfolding t(2) by auto
    moreover have "blocks_ok (lo + k) bs'"
      using blocks_ok_move [OF t(1), of "lo + k"] bound by blast
    ultimately have "rx_ok S L (lo + k) n bs' b'"
      unfolding rx_ok_def using t(4) bound kn inv(6,9,10,11,12,13) sk(1,2) arith
      by (auto simp: b'_def next_position_def)
    moreover have "Extract m b = Inr (if GetSize out' = 0 then None else Some out', b')"
      using \<open>bs \<noteq> []\<close> ext0 r(1) by (simp add: Extract_def ext inv(1) b'_def Let_def)
    moreover have "GetSize out' \<noteq> 0"
      using arg_cong [OF r(2), of length] False by simp
    ultimately show ?thesis
      using r(2) t(2) by (intro exI [of _ "Some out'"] exI [of _ b'] exI [of _ bs']) (simp add: b'_def)
  qed
qed

section \<open>The life of a receive buffer\<close>

lemma rx_ok_new:
  assumes "start \<le> L" and "unat maxb \<le> window"
  shows "rx_ok S L start start [] ((TcpRxBuffer_new (seq_of start))\<lparr>rx_maxBuffer := maxb\<rparr>)"
  using assms by (auto simp: rx_ok_def TcpRxBuffer_new_def next_position_def intro: exI [of _ "[]"])

lemma SetFinSequence_ok:
  assumes "rx_ok S L lo n bs b" and "L \<le> lo + window"
  shows "rx_ok S L lo n bs (SetFinSequence (seq_of L) b)"
proof -
  note inv = rx_okD [OF assms(1)]
  have "near lo L"
    using assms(2) inv(5,6) by (intro near_le) auto
  then have "rx_nextRxSeq b = seq_of L \<longleftrightarrow> next_position b L n = L"
    using seq_compare(5) [OF rx_near(2) [OF assms(1)]] inv(9) by simp
  then have "rx_nextRxSeq (SetFinSequence (seq_of L) b) = seq_of (next_position (SetFinSequence (seq_of L) b) L n)"
    using inv(6,9) by (auto simp: SetFinSequence_def next_position_def Let_def algebra_simps split: if_splits)
  with assms inv show ?thesis
    unfolding rx_ok_def by (auto simp: SetFinSequence_def Let_def)
qed

text \<open>
  Segments of the stream arrive in any order, as long as they lie within half a gigabyte of the
  reader; the end of the stream may be announced; the application reads.  \<open>out\<close> is what it
  has read.
\<close>

definition segment_of :: "(nat \<Rightarrow> u8) \<Rightarrow> nat \<Rightarrow> nat \<Rightarrow> nat \<Rightarrow> tagged \<Rightarrow> bool" where
  "segment_of S L lo a p \<longleftrightarrow> pk_bytes (fst p) = slice S a (a + GetSize (fst p)) \<and>
     a + GetSize (fst p) \<le> L \<and> lo \<le> a + window \<and> a + GetSize (fst p) \<le> lo + window"

definition read_bytes :: "packet option \<Rightarrow> u8 list" where
  "read_bytes r = (case r of None \<Rightarrow> [] | Some p \<Rightarrow> pk_bytes p)"

inductive rx_stream :: "(nat \<Rightarrow> u8) \<Rightarrow> nat \<Rightarrow> nat \<Rightarrow> u32 \<Rightarrow> u8 list \<Rightarrow> TcpRxBuffer \<Rightarrow> bool"
  for S start L maxb where
  Rx_open: "start \<le> L \<Longrightarrow> unat maxb \<le> window \<Longrightarrow>
    rx_stream S start L maxb [] ((TcpRxBuffer_new (seq_of start))\<lparr>rx_maxBuffer := maxb\<rparr>)"
| Rx_segment: "rx_stream S start L maxb out b \<Longrightarrow> segment_of S L (start + length out) a p \<Longrightarrow>
    TcpRxBuffer_Add p (seq_of a) b = Inr (r, b') \<Longrightarrow> rx_stream S start L maxb out b'"
| Rx_fin: "rx_stream S start L maxb out b \<Longrightarrow> L \<le> start + length out + window \<Longrightarrow>
    rx_stream S start L maxb out (SetFinSequence (seq_of L) b)"
| Rx_read: "rx_stream S start L maxb out b \<Longrightarrow> Extract m b = Inr (r, b') \<Longrightarrow>
    rx_stream S start L maxb (out @ read_bytes r) b'"

lemma segment_Add_ok:
  assumes "rx_ok S L lo n bs b" and "segment_of S L lo a p"
  obtains r b' bs' n' where "TcpRxBuffer_Add p (seq_of a) b = Inr (r, b')" "rx_ok S L lo n' bs' b'" "n \<le> n'"
    "held bs' = held bs \<union> {max a n..<min (a + GetSize (fst p)) (limit bs b (a + GetSize (fst p)))}"
    "rx_maxBuffer b' = rx_maxBuffer b"
  using TcpRxBuffer_Add_ok [OF assms(1), of p a "a + GetSize (fst p)"] assms(2)
  unfolding segment_of_def by (metis le_add1)

lemma rx_stream_ok:
  assumes "rx_stream S start L maxb out b"
  shows "\<exists>n bs. rx_ok S L (start + length out) n bs b \<and> out = slice S start (start + length out)"
  using assms
proof induction
  case Rx_open
  then show ?case
    using rx_ok_new by (fastforce simp: slice_def)
next
  case (Rx_segment out b a p r b')
  then obtain n bs where ok: "rx_ok S L (start + length out) n bs b" "out = slice S start (start + length out)"
    by blast
  obtain r' b'' bs' n' where "TcpRxBuffer_Add p (seq_of a) b = Inr (r', b'')"
    "rx_ok S L (start + length out) n' bs' b''"
    by (rule segment_Add_ok [OF ok(1) Rx_segment.hyps(2)])
  with ok(2) Rx_segment.hyps(3) show ?case
    by auto
next
  case (Rx_fin out b)
  then show ?case
    using SetFinSequence_ok by blast
next
  case (Rx_read out b m r b')
  then obtain n bs where ok: "rx_ok S L (start + length out) n bs b" "out = slice S start (start + length out)"
    by blast
  define k where "k = min (unat m) (n - (start + length out))"
  from Extract_ok [OF ok(1) k_def] Rx_read.hyps(2) obtain bs' where
    r: "read_bytes r = slice S (start + length out) (start + length out + k)"
      "rx_ok S L (start + length out + k) n bs' b'"
    by (auto simp: read_bytes_def)
  then have "length (out @ read_bytes r) = length out + k"
    by simp
  moreover have "out @ read_bytes r = slice S start (start + length out + k)"
    unfolding r(1) by (subst ok(2)) (simp add: slice_append)
  ultimately show ?case
    using r(2) by (metis add.assoc)
qed

section \<open>Properties\<close>

lemma length_slice_bound: "rx_ok S L (start + length out) n bs b \<Longrightarrow> start + length out \<le> L"
  using rx_okD(5,6) order_trans by blast

text \<open>
  C23: Whatever the order, the repetitions and the overlaps in which segments of a stream arrive,
  what the application reads is a prefix of the stream; no assertion of the buffer ever fails.
\<close>

theorem rx_reads_stream:
  assumes "rx_stream S start L maxb out b"
  shows "out = slice S start (start + length out) \<and> start + length out \<le> L \<and>
    (\<forall>a p. segment_of S L (start + length out) a p \<longrightarrow> (\<exists>r b'. TcpRxBuffer_Add p (seq_of a) b = Inr (r, b'))) \<and>
    (\<forall>m. \<exists>r b'. Extract m b = Inr (r, b'))"
proof -
  obtain n bs where ok: "rx_ok S L (start + length out) n bs b" "out = slice S start (start + length out)"
    using rx_stream_ok [OF assms] by blast
  have "\<exists>r b'. TcpRxBuffer_Add p (seq_of a) b = Inr (r, b')" if "segment_of S L (start + length out) a p" for a p
    by (rule segment_Add_ok [OF ok(1) that]) blast
  moreover have "\<exists>r b'. Extract m b = Inr (r, b')" for m
    using Extract_ok [OF ok(1) refl, of m] by blast
  ultimately show ?thesis
    using ok length_slice_bound [OF ok(1)] by blast
qed

text \<open>A stream of eight bytes that crosses the end of the sequence numbers.\<close>

lemma pk_bytes_data [simp]: "pk_bytes (Create_Packet_data bs) = bs" "GetSize (Create_Packet_data bs) = length bs"
  by (simp_all add: pk_bytes_def Create_Packet_data_def GetSize_def)

definition example_byte :: "nat \<Rightarrow> u8" where
  "example_byte x = of_nat (x - 4294967290) + 1"

definition example_data :: "u8 list \<Rightarrow> tagged" where
  "example_data bs = (Create_Packet_data bs, [])"

abbreviation example_rx :: "TcpRxBuffer" where
  "example_rx \<equiv> (TcpRxBuffer_new 0xFFFFFFFA)\<lparr>rx_maxBuffer := 100\<rparr>"

text \<open>The bytes 4 to 8, then 1 to 5, then all of them again; the reader takes at most 100.\<close>

definition example_rx_run :: "(packet option \<times> TcpRxBuffer) outcome" where
  "example_rx_run =
     then_do (TcpRxBuffer_Add (example_data [4, 5, 6, 7, 8]) 0xFFFFFFFD example_rx) (\<lambda>(_, b).
     then_do (TcpRxBuffer_Add (example_data [1, 2, 3, 4, 5]) 0xFFFFFFFA b) (\<lambda>(_, b).
     then_do (TcpRxBuffer_Add (example_data [1, 2, 3, 4, 5, 6, 7, 8]) 0xFFFFFFFA b) (\<lambda>(_, b).
     Extract 100 b)))"

lemma example_rx_run_result:
  "map_sum id (\<lambda>(r, b). (read_bytes r, rx_data b, rx_nextRxSeq b)) example_rx_run =
     Inr ([1, 2, 3, 4, 5, 6, 7, 8], [], 2)"
  by code_simp

lemma example_segments:
  "segment_of example_byte 4294967298 4294967290 4294967293 (example_data [4, 5, 6, 7, 8])"
  "segment_of example_byte 4294967298 4294967290 4294967290 (example_data [1, 2, 3, 4, 5])"
  "segment_of example_byte 4294967298 4294967290 4294967290 (example_data [1, 2, 3, 4, 5, 6, 7, 8])"
  by (simp_all add: segment_of_def example_data_def slice_def example_byte_def window_def)

lemma example_rx_stream:
  obtains b where "rx_stream example_byte 4294967290 4294967298 100 [1, 2, 3, 4, 5, 6, 7, 8] b"
proof -
  from example_rx_run_result obtain r0 b1 r1 b2 r2 b3 r b where
    b: "TcpRxBuffer_Add (example_data [4, 5, 6, 7, 8]) 0xFFFFFFFD example_rx = Inr (r0, b1)"
      "TcpRxBuffer_Add (example_data [1, 2, 3, 4, 5]) 0xFFFFFFFA b1 = Inr (r1, b2)"
      "TcpRxBuffer_Add (example_data [1, 2, 3, 4, 5, 6, 7, 8]) 0xFFFFFFFA b2 = Inr (r2, b3)"
      "Extract 100 b3 = Inr (r, b)" "read_bytes r = [1, 2, 3, 4, 5, 6, 7, 8]"
    by (auto simp: example_rx_run_def map_sum_def then_do_def split: sum.splits)
  have "rx_stream example_byte 4294967290 4294967298 100 []
      ((TcpRxBuffer_new (seq_of 4294967290))\<lparr>rx_maxBuffer := 100\<rparr>)"
    by (rule Rx_open) (simp_all add: window_def)
  then have "rx_stream example_byte 4294967290 4294967298 100 [] example_rx"
    by simp
  then have "rx_stream example_byte 4294967290 4294967298 100 [] b1"
    by (rule Rx_segment [where a = 4294967293]) (use example_segments(1) b(1) in simp_all)
  then have "rx_stream example_byte 4294967290 4294967298 100 [] b2"
    by (rule Rx_segment [where a = 4294967290]) (use example_segments(2) b(2) in simp_all)
  then have "rx_stream example_byte 4294967290 4294967298 100 [] b3"
    by (rule Rx_segment [where a = 4294967290]) (use example_segments(3) b(3) in simp_all)
  from Rx_read [OF this b(4)] b(5) that show ?thesis
    by simp
qed

lemma rx_reads_stream_witness:
  "\<exists>b. rx_stream example_byte 4294967290 4294967298 100 [1, 2, 3, 4, 5, 6, 7, 8] b \<and>
     slice example_byte 4294967290 4294967298 = [1, 2, 3, 4, 5, 6, 7, 8] \<and>
     (\<exists>r b'. Extract 5 b = Inr (r, b'))"
proof -
  obtain b where b: "rx_stream example_byte 4294967290 4294967298 100 [1, 2, 3, 4, 5, 6, 7, 8] b"
    by (rule example_rx_stream)
  from rx_reads_stream [OF b] b show ?thesis
    by auto
qed

definition arrivals :: "(nat \<times> tagged) list \<Rightarrow> TcpRxBuffer \<Rightarrow> TcpRxBuffer outcome" where
  "arrivals segs = each (\<lambda>(a, p) b. then_do (TcpRxBuffer_Add p (seq_of a) b) (\<lambda>(_, b). Inr b)) segs"

lemma arrivals_ok:
  assumes "rx_ok S L lo n bs b" and "\<forall>(a, p) \<in> set segs. segment_of S L lo a p \<and> lo \<le> a"
    and "L \<le> lo + unat (rx_maxBuffer b)"
  shows "\<exists>b' bs' n'. arrivals segs b = Inr b' \<and> rx_ok S L lo n' bs' b' \<and>
    held bs' = held bs \<union> (\<Union>(a, p) \<in> set segs. {a..<a + GetSize (fst p)})"
  using assms
proof (induction segs arbitrary: n bs b)
  case Nil
  then show ?case
    by (auto simp: arrivals_def)
next
  case (Cons seg segs)
  obtain a p where seg: "seg = (a, p)"
    by (cases seg)
  with Cons.prems(2) have s: "segment_of S L lo a p" "lo \<le> a"
    by auto
  let ?e = "a + GetSize (fst p)"
  obtain r b1 bs1 n1 where b1: "TcpRxBuffer_Add p (seq_of a) b = Inr (r, b1)" "rx_ok S L lo n1 bs1 b1"
    "held bs1 = held bs \<union> {max a n..<min ?e (limit bs b ?e)}" "rx_maxBuffer b1 = rx_maxBuffer b"
    by (rule segment_Add_ok [OF Cons.prems(1) s(1)])
  have "?e \<le> limit bs b ?e"
    using Cons.prems(3) s(1) rx_near(3) [OF Cons.prems(1), of "hd bs"]
    by (cases bs) (auto simp: limit_def segment_of_def)
  moreover have "{lo..<n} \<subseteq> held bs"
    by (rule rx_okD(7) [OF Cons.prems(1)])
  moreover have "{a..<?e} \<subseteq> {lo..<n} \<union> {max a n..<?e}"
    using s(2) by auto
  ultimately have held: "held bs1 = held bs \<union> {a..<?e}"
    unfolding b1(3) by (auto simp: min_def)
  from Cons.IH [OF b1(2)] Cons.prems(2,3) b1(4) obtain b2 bs2 n2 where
    b2: "arrivals segs b1 = Inr b2" "rx_ok S L lo n2 bs2 b2"
      "held bs2 = held bs1 \<union> (\<Union>(a, p) \<in> set segs. {a..<a + GetSize (fst p)})"
    by auto
  then show ?case
    using b1(1) held by (intro exI [of _ b2] exI [of _ bs2] exI [of _ n2]) (auto simp: arrivals_def seg)
qed

text \<open>
  C24: When segments of a stream that fits into the buffer arrive in any order and together cover
  it, the next read gives the whole stream.
\<close>

theorem rx_completes:
  assumes "start \<le> L" and "L \<le> start + unat maxb" and "unat maxb \<le> window"
    and "\<forall>(a, p) \<in> set segs. segment_of S L start a p \<and> start \<le> a"
    and "{start..<L} \<subseteq> (\<Union>(a, p) \<in> set segs. {a..<a + GetSize (fst p)})"
  shows "\<exists>b r b'. arrivals segs ((TcpRxBuffer_new (seq_of start))\<lparr>rx_maxBuffer := maxb\<rparr>) = Inr b \<and>
    Extract maxb b = Inr (r, b') \<and> read_bytes r = slice S start L"
proof -
  let ?b = "(TcpRxBuffer_new (seq_of start))\<lparr>rx_maxBuffer := maxb\<rparr>"
  obtain b bs n where b: "arrivals segs ?b = Inr b" "rx_ok S L start n bs b" "{start..<L} \<subseteq> held bs"
    using arrivals_ok [OF rx_ok_new [OF assms(1,3)] assms(4)] assms(2,5) by auto
  have "n = L"
    using b(3) rx_okD(5,6,8) [OF b(2)] by (metis atLeastLessThan_iff order_le_less subsetD)
  then have "min (unat maxb) (n - start) = L - start"
    using assms(2) by simp
  from Extract_ok [OF b(2) this [symmetric]] assms(1) b(1) show ?thesis
    by (auto simp: read_bytes_def)
qed

lemma rx_completes_witness:
  "\<exists>b r b'. arrivals [(4294967293, example_data [4, 5, 6, 7, 8]), (4294967290, example_data [1, 2, 3, 4, 5])]
      ((TcpRxBuffer_new (seq_of 4294967290))\<lparr>rx_maxBuffer := 8\<rparr>) = Inr b \<and>
    Extract 8 b = Inr (r, b') \<and> read_bytes r = slice example_byte 4294967290 4294967298"
proof (rule rx_completes)
  show "{4294967290..<4294967298} \<subseteq>
      (\<Union>(a, p) \<in> set [(4294967293, example_data [4, 5, 6, 7, 8]), (4294967290, example_data [1, 2, 3, 4, 5])].
        {a..<a + GetSize (fst p)})"
    by (auto simp: example_data_def)
qed (use example_segments in \<open>simp_all add: window_def\<close>)

text \<open>A byte of the stream that is in the buffer.\<close>

definition holds_byte :: "(nat \<Rightarrow> u8) \<Rightarrow> TcpRxBuffer \<Rightarrow> nat \<Rightarrow> bool" where
  "holds_byte S b k \<longleftrightarrow> (\<exists>x p. (seq_of x, p) \<in> set (rx_data b) \<and> x \<le> k \<and> k < x + GetSize (fst p) \<and>
     pk_bytes (fst p) ! (k - x) = S k)"

lemma held_holds:
  assumes "rx_ok S L lo n bs b" and "k \<in> held bs"
  shows "holds_byte S b k"
proof -
  from assms(2) obtain x where x: "x \<in> set bs" "fst x \<le> k" "k < bend x"
    by (auto simp: held_def)
  then have "pk_bytes (fst (snd x)) ! (k - fst x) = S k"
    using rx_okD(3) [OF assms(1) x(1)] by (simp add: slice_def)
  moreover have "(seq_of (fst x), snd x) \<in> set (rx_data b)"
    using x(1) rx_okD(1) [OF assms(1)] by (force simp: entries_def)
  ultimately show ?thesis
    using x(2,3) unfolding holds_byte_def by blast
qed

text \<open>
  C25: The receiver never promises what it does not have: there are at most four reported blocks,
  each stands for a nonempty interval of the stream beyond the next expected number, and every
  byte of it is in the buffer.
\<close>

theorem sack_blocks_held:
  assumes "rx_stream S start L maxb out b" and "(x, y) \<in> set (rx_sackList b)"
  shows "length (rx_sackList b) \<le> 4 \<and> seq_greater x (rx_nextRxSeq b) \<and>
    (\<exists>i j. x = seq_of i \<and> y = seq_of j \<and> i < j \<and> (\<forall>k. i \<le> k \<and> k < j \<longrightarrow> holds_byte S b k))"
proof -
  obtain n bs where ok: "rx_ok S L (start + length out) n bs b"
    using rx_stream_ok [OF assms(1)] by blast
  then obtain sk where sk: "rx_sackList b = sacks sk" "length sk \<le> 4"
    "\<forall>k \<in> set sk. sack_ok (start + length out) n (held bs) k"
    using rx_okD(14) by blast
  with assms(2) obtain i j where ij: "(i, j) \<in> set sk" "x = seq_of i" "y = seq_of j"
    by (auto simp: sacks_def)
  from sk(3) ij(1) have "sack_ok (start + length out) n (held bs) (i, j)"
    by blast
  then have s: "near (start + length out) i" "n < i" "i < j" "{i..<j} \<subseteq> held bs"
    by (simp_all add: sack_ok_def)
  then have "n < L"
    using rx_okD(4) [OF ok, of i] by auto
  then have "seq_greater x (rx_nextRxSeq b)"
    using s(2) ij(2) rx_okD(9) [OF ok]
    by (simp add: next_position_def seq_compare [OF s(1) rx_near(1) [OF ok]])
  moreover have "holds_byte S b k" if "i \<le> k" "k < j" for k
    using that s(4) by (intro held_holds [OF ok]) auto
  ultimately show ?thesis
    using sk(1,2) ij(2,3) s(3) by auto
qed

text \<open>
  One thing the list does not promise: a block can be contained in one that is reported before
  it, when a segment arrives that covers what an earlier block stands for.
\<close>

lemma sack_subset:
  "map_sum id (\<lambda>(_, b). rx_sackList b)
    (then_do (TcpRxBuffer_Add (example_data [11, 12, 13]) 11 ((TcpRxBuffer_new 1)\<lparr>rx_maxBuffer := 100\<rparr>))
      (\<lambda>(_, b). TcpRxBuffer_Add (example_data [9, 10, 11, 12, 13, 14]) 9 b)) = Inr [(9, 15), (11, 14)]"
  by code_simp

lemma sack_blocks_held_witness:
  "\<exists>b. rx_sackList b = [(0xFFFFFFFD, 2)] \<and>
     (\<exists>i j. (0xFFFFFFFD :: u32) = seq_of i \<and> 2 = seq_of j \<and> i < j \<and> (\<forall>k. i \<le> k \<and> k < j \<longrightarrow> holds_byte example_byte b k))"
proof -
  have "map_sum id (\<lambda>(r, b). rx_sackList b)
      (TcpRxBuffer_Add (example_data [4, 5, 6, 7, 8]) 0xFFFFFFFD example_rx) = Inr [(0xFFFFFFFD, 2)]"
    by code_simp
  then obtain r b where b: "TcpRxBuffer_Add (example_data [4, 5, 6, 7, 8]) 0xFFFFFFFD example_rx = Inr (r, b)"
    "rx_sackList b = [(0xFFFFFFFD, 2)]"
    by (cases "TcpRxBuffer_Add (example_data [4, 5, 6, 7, 8]) 0xFFFFFFFD example_rx") auto
  have "rx_stream example_byte 4294967290 4294967298 100 []
      ((TcpRxBuffer_new (seq_of 4294967290))\<lparr>rx_maxBuffer := 100\<rparr>)"
    by (rule Rx_open) (simp_all add: window_def)
  then have "rx_stream example_byte 4294967290 4294967298 100 [] example_rx"
    by simp
  then have "rx_stream example_byte 4294967290 4294967298 100 [] b"
    by (rule Rx_segment [where a = 4294967293]) (use example_segments(1) b(1) in simp_all)
  from sack_blocks_held [OF this] b(2) show ?thesis
    by force
qed

text \<open>
  The limit on the buffered bytes does not apply to a segment that arrives at an empty buffer.
\<close>

lemma empty_buffer_exceeds_limit:
  "map_sum id (\<lambda>(_, b). (rx_size b, rx_maxBuffer b))
    (TcpRxBuffer_Add (example_data [1, 2, 3, 4, 5, 6, 7, 8]) 1 ((TcpRxBuffer_new 1)\<lparr>rx_maxBuffer := 3\<rparr>)) =
   Inr (8, 3)"
  by code_simp

end
