(* ===== verification/Tcp_Tx_Buffer.thy ===== *)
theory Tcp_Tx_Buffer
  imports Tcp_Rx_Buffer
begin

text \<open>
  The transmit buffer of a TCP socket in full (\<^verbatim>\<open>internet/model/tcp-tx-buffer.cc\<close>): data
  of the application that was not sent yet, data that was sent and not acknowledged, and the
  scoreboard that says which of it is selectively acknowledged, lost or retransmitted.
  \<open>Stream_Socket\<close> has the view of it that a sending application needs.  This theory has the code
  and what splitting and merging items do; \<open>Tcp_Tx_Stream\<close> has the invariant and the properties.

  The list items are objects that iterators point at; an item carries an identity for that.  The
  rate information of an item, the callbacks that observe items and the functions that nothing
  calls (\<open>FindHighestSacked\<close>, \<open>BytesInFlightRFC\<close>, \<open>IsLostRFC\<close>) are left out.  The
  consistency check that the code contains is switched off there; it is proved, as
  \<open>tx_scoreboard\<close>.
\<close>

section \<open>State\<close>

record TcpTxItem =
  it_id :: nat
  it_startSeq :: SequenceNumber32
  it_packet :: tagged
  it_retrans :: bool
  it_lost :: bool
  it_sacked :: bool
  it_lastSent :: int

definition Time_Max :: int where
  "Time_Max = 2 ^ 63 - 1"

definition TcpTxItem_new :: "nat \<Rightarrow> tagged \<Rightarrow> TcpTxItem" where
  "TcpTxItem_new i p = \<lparr>it_id = i, it_startSeq = 0, it_packet = p, it_retrans = False, it_lost = False,
     it_sacked = False, it_lastSent = Time_Max\<rparr>"

definition item_size :: "TcpTxItem \<Rightarrow> u32" where
  "item_size i = packet_size (it_packet i)"

text \<open>\<open>tx_highestSack\<close> is an iterator, \<open>None\<close> at the end of the list, and a number.\<close>

record TxBuffer =
  tx_appList :: "TcpTxItem list"
  tx_sentList :: "TcpTxItem list"
  tx_maxBuffer :: u32
  tx_size :: u32
  tx_sentSize :: u32
  tx_firstByteSeq :: SequenceNumber32
  tx_highestSack :: "nat option \<times> SequenceNumber32"
  tx_lostOut :: u32
  tx_sackedOut :: u32
  tx_retrans :: u32
  tx_dupAckThresh :: u32
  tx_segmentSize :: u32
  tx_renoSack :: bool
  tx_sackEnabled :: bool
  tx_next_id :: nat

definition TxBuffer_new :: "u32 \<Rightarrow> TxBuffer" where
  "TxBuffer_new n = \<lparr>tx_appList = [], tx_sentList = [], tx_maxBuffer = 32768, tx_size = 0, tx_sentSize = 0,
     tx_firstByteSeq = n, tx_highestSack = (None, 0), tx_lostOut = 0, tx_sackedOut = 0, tx_retrans = 0,
     tx_dupAckThresh = 0, tx_segmentSize = 0, tx_renoSack = False, tx_sackEnabled = True, tx_next_id = 0\<rparr>"

definition SetHeadSequence :: "SequenceNumber32 \<Rightarrow> TxBuffer \<Rightarrow> TxBuffer outcome" where
  "SetHeadSequence s b =
     (let b = b\<lparr>tx_firstByteSeq := s\<rparr>
      in require (tx_sentList b = []) AssertFailed (Inr (b\<lparr>tx_highestSack := (None, 0)\<rparr>)))"

definition tx_TailSequence :: "TxBuffer \<Rightarrow> SequenceNumber32" where
  "tx_TailSequence b = tx_firstByteSeq b + tx_size b"

definition tx_Available :: "TxBuffer \<Rightarrow> u32" where
  "tx_Available b = tx_maxBuffer b - tx_size b"

definition TxBuffer_Add :: "tagged \<Rightarrow> TxBuffer \<Rightarrow> bool \<times> TxBuffer" where
  "TxBuffer_Add p b =
     (if packet_size p \<le> tx_Available b then
        (True, if 0 < packet_size p
               then b\<lparr>tx_appList := tx_appList b @ [TcpTxItem_new (tx_next_id b) p],
                 tx_size := tx_size b + packet_size p, tx_next_id := tx_next_id b + 1\<rparr> else b)
      else (False, b))"

definition SizeFromSequence :: "SequenceNumber32 \<Rightarrow> TxBuffer \<Rightarrow> u32" where
  "SizeFromSequence s b =
     (if seq_ge (tx_TailSequence b) s then seq_diff (tx_TailSequence b) s else 0)"

section \<open>Taking a packet out of a list of items\<close>

text \<open>\<open>SplitItems\<close> gives the new first part and the rest, \<open>MergeItems\<close> the first item
  with the bytes of both and the counter of retransmitted bytes.\<close>

definition SplitItems :: "nat \<Rightarrow> TcpTxItem \<Rightarrow> u32 \<Rightarrow> TcpTxItem \<times> TcpTxItem" where
  "SplitItems new_id t2 n =
     (let t1 = t2\<lparr>it_id := new_id, it_packet := CreateFragment 0 (unat n) (it_packet t2)\<rparr>;
          t2 = t2\<lparr>it_packet := (RemoveAtStart (unat n) (fst (it_packet t2)), snd (it_packet t2)),
            it_startSeq := it_startSeq t2 + n\<rparr>
      in (t1, t2))"

definition MergeItems :: "TcpTxItem \<Rightarrow> TcpTxItem \<Rightarrow> u32 \<Rightarrow> (TcpTxItem \<times> u32) outcome" where
  "MergeItems t1 t2 retrans =
     require (it_sacked t1 = it_sacked t2 \<and> it_lost t1 = it_lost t2) AssertFailed
       (let (t1, retrans) =
              (if it_retrans t1 \<noteq> it_retrans t2 then
                 if it_retrans t1 then (t1\<lparr>it_retrans := False\<rparr>, retrans - item_size t1)
                 else (t1, retrans - item_size t2)
               else (t1, retrans));
            t1 = (if it_lastSent t1 < it_lastSent t2 then t1\<lparr>it_lastSent := it_lastSent t2\<rparr> else t1)
        in Inr (t1\<lparr>it_packet := (packet_append (fst (it_packet t1)) (fst (it_packet t2)), snd (it_packet t1))\<rparr>,
             retrans))"

text \<open>
  The walk to the item that contains \<open>seq\<close>.  Items of the sent list must not start before
  the first byte of the buffer.
\<close>

fun list_walk :: "SequenceNumber32 option \<Rightarrow> SequenceNumber32 \<Rightarrow> SequenceNumber32 \<Rightarrow> TcpTxItem list \<Rightarrow> TcpTxItem list \<Rightarrow>
  (TcpTxItem list \<times> TcpTxItem \<times> TcpTxItem list \<times> SequenceNumber32) outcome" where
  "list_walk una s bg before [] = Inl FatalError"
| "list_walk una s bg before (cur # rest) =
     require (una = None \<or> seq_ge (it_startSeq cur) (the una)) AssertFailed
       (if seq_less s (bg + item_size cur) then Inr (before, cur, rest, bg)
        else list_walk una s (bg + item_size cur) (before @ [cur]) rest)"

text \<open>
  The packet of \<open>num\<close> bytes at \<open>seq\<close>: items are split and merged, and the search starts
  again, until one item is just that.  The result is its index, the list, the counter of
  retransmitted bytes and the next free identity.  The item found is always the current one, so
  that the branch of the code that merges it with its predecessor is never taken.
\<close>

fun GetPacketFromList :: "nat \<Rightarrow> SequenceNumber32 option \<Rightarrow> SequenceNumber32 \<Rightarrow> u32 \<Rightarrow> SequenceNumber32 \<Rightarrow>
  TcpTxItem list \<Rightarrow> u32 \<Rightarrow> nat \<Rightarrow> (nat \<times> TcpTxItem list \<times> u32 \<times> nat) outcome" where
  "GetPacketFromList 0 una start num s l retrans ids = Inl Unfinished"
| "GetPacketFromList (Suc fuel) una start num s l retrans ids =
     then_do (list_walk una s start [] l) (\<lambda>(before, cur, rest, bg).
       if s = bg then
         if seq_le (s + num) (bg + item_size cur) then
           if num = item_size cur then Inr (length before, l, retrans, ids)
           else if num < item_size cur then
             let (t1, t2) = SplitItems ids cur num
             in Inr (length before, before @ t1 # t2 # rest, retrans, ids + 1)
           else Inl Unfinished
         else (case rest of
             [] \<Rightarrow> Inr (length before, l, retrans, ids)
           | nxt # rest \<Rightarrow> then_do (MergeItems cur nxt retrans) (\<lambda>(t, retrans).
               GetPacketFromList fuel una start num s (before @ t # rest) retrans ids))
       else if seq_greater s bg then
         let (t1, t2) = SplitItems ids cur (seq_diff s bg)
         in GetPacketFromList fuel una start num s (before @ t1 # t2 # rest) retrans (ids + 1)
       else Inl FatalError)"

text \<open>A restart splits once or merges two items.\<close>

definition restarts :: "TcpTxItem list \<Rightarrow> nat" where
  "restarts l = length l + 2"

definition GetNewSegment :: "u32 \<Rightarrow> TxBuffer \<Rightarrow> (TcpTxItem \<times> TxBuffer) outcome" where
  "GetNewSegment num b =
     (let start = tx_firstByteSeq b + tx_sentSize b
      in then_do (GetPacketFromList (restarts (tx_appList b)) None start num start (tx_appList b)
            (tx_retrans b) (tx_next_id b))
          (\<lambda>(k, l, retrans, ids).
            let item = (l ! k)\<lparr>it_startSeq := start\<rparr>
            in Inr (item, b\<lparr>tx_appList := take k l @ drop (Suc k) l, tx_sentList := tx_sentList b @ [item],
                 tx_sentSize := tx_sentSize b + item_size item, tx_retrans := retrans, tx_next_id := ids\<rparr>)))"

text \<open>The bytes to retransmit: no more than two items with the same flags.\<close>

fun retransmit_size :: "SequenceNumber32 \<Rightarrow> u32 \<Rightarrow> TcpTxItem list \<Rightarrow> u32" where
  "retransmit_size s n [] = n"
| "retransmit_size s n (i # is) =
     (if it_startSeq i = s then
        case is of [] \<Rightarrow> min n (item_size i)
        | nxt # _ \<Rightarrow>
            if \<not> it_sacked nxt \<and> it_lost i = it_lost nxt then min n (item_size i + item_size nxt)
            else min n (item_size i)
      else retransmit_size s n is)"

definition GetTransmittedSegment :: "u32 \<Rightarrow> SequenceNumber32 \<Rightarrow> TxBuffer \<Rightarrow> (nat \<times> TxBuffer) outcome" where
  "GetTransmittedSegment num s b =
     require (seq_ge s (tx_firstByteSeq b) \<and> num \<le> tx_sentSize b \<and> tx_sentList b \<noteq> []) AssertFailed
       (then_do (GetPacketFromList (restarts (tx_sentList b)) (Some (tx_firstByteSeq b)) (tx_firstByteSeq b)
            (retransmit_size s num (tx_sentList b)) s (tx_sentList b) (tx_retrans b) (tx_next_id b))
         (\<lambda>(k, l, retrans, ids).
            let b = b\<lparr>tx_sentList := l, tx_retrans := retrans, tx_next_id := ids\<rparr>
            in if \<not> it_retrans (l ! k)
               then Inr (k, b\<lparr>tx_sentList := l[k := (l ! k)\<lparr>it_retrans := True\<rparr>],
                 tx_retrans := tx_retrans b + item_size (l ! k)\<rparr>)
               else Inr (k, b)))"

text \<open>
  The segment of at most \<open>num\<close> bytes at \<open>seq\<close>, sent at time \<open>now\<close>.  A segment
  that was sent in part is cut to that part, which is then found completely sent; the comparison
  that recognises it is one of plain numbers, and where it fails the code goes on with a null
  pointer.  The result is the index of the item in the sent list.
\<close>

fun copy_from :: "nat \<Rightarrow> int \<Rightarrow> u32 \<Rightarrow> SequenceNumber32 \<Rightarrow> TxBuffer \<Rightarrow> (nat option \<times> TxBuffer) outcome" where
  "copy_from 0 now num s b = Inl Unfinished"
| "copy_from (Suc fuel) now num s b =
     require (\<not> seq_greater (tx_firstByteSeq b) s) FatalError
       (let n = min num (SizeFromSequence s b); sent = tx_firstByteSeq b + tx_sentSize b
        in if n = 0 then Inr (None, b)
           else if seq_ge sent (s + n) then
             then_do (GetTransmittedSegment n s b) (\<lambda>(k, b).
               require (\<not> it_sacked (tx_sentList b ! k) \<and> seq_ge (it_startSeq (tx_sentList b ! k)) (tx_firstByteSeq b))
                 AssertFailed
                 (Inr (Some k, b\<lparr>tx_sentList := (tx_sentList b)[k := (tx_sentList b ! k)\<lparr>it_lastSent := now\<rparr>]\<rparr>)))
           else if seq_le sent s then
             require (sent = s) FatalError
               (then_do (GetNewSegment n b) (\<lambda>(item, b).
                 require (\<not> it_retrans item \<and> seq_ge (it_startSeq item) (tx_firstByteSeq b)) AssertFailed
                   (let k = length (tx_sentList b) - 1
                    in Inr (Some k, b\<lparr>tx_sentList := (tx_sentList b)[k := item\<lparr>it_lastSent := now\<rparr>]\<rparr>))))
           else if s < sent \<and> sent < s + n then copy_from fuel now (sent - s) s b
           else Inl NullPointer)"

definition CopyFromSequence :: "int \<Rightarrow> u32 \<Rightarrow> SequenceNumber32 \<Rightarrow> TxBuffer \<Rightarrow> (nat option \<times> TxBuffer) outcome" where
  "CopyFromSequence = copy_from 2"

section \<open>The scoreboard\<close>

definition RemoveFromCounts :: "TcpTxItem \<Rightarrow> u32 \<Rightarrow> TxBuffer \<Rightarrow> TxBuffer outcome" where
  "RemoveFromCounts i n b =
     require ((it_sacked i \<longrightarrow> n \<le> tx_sackedOut b) \<and> (it_retrans i \<longrightarrow> n \<le> tx_retrans b) \<and>
         (it_lost i \<longrightarrow> n \<le> tx_lostOut b)) AssertFailed
       (Inr (b\<lparr>tx_sackedOut := (if it_sacked i then tx_sackedOut b - n else tx_sackedOut b),
          tx_retrans := (if it_retrans i then tx_retrans b - n else tx_retrans b),
          tx_lostOut := (if it_lost i then tx_lostOut b - n else tx_lostOut b)\<rparr>))"

definition IsRetransmittedDataAcked :: "SequenceNumber32 \<Rightarrow> TxBuffer \<Rightarrow> bool" where
  "IsRetransmittedDataAcked ack b =
     list_ex (\<lambda>i. it_startSeq i + item_size i = ack \<and> \<not> it_sacked i \<and> it_retrans i) (tx_sentList b)"

definition MarkHeadAsLost :: "TxBuffer \<Rightarrow> TxBuffer" where
  "MarkHeadAsLost b =
     (case tx_sentList b of [] \<Rightarrow> b
      | head # rest \<Rightarrow> b\<lparr>tx_sentList := head\<lparr>it_sacked := False, it_retrans := False, it_lost := True\<rparr> # rest,
          tx_sackedOut := (if it_sacked head then tx_sackedOut b - item_size head else tx_sackedOut b),
          tx_retrans := (if it_retrans head then tx_retrans b - item_size head else tx_retrans b),
          tx_lostOut := (if \<not> it_lost head then tx_lostOut b + item_size head else tx_lostOut b)\<rparr>)"

text \<open>The first item behind the head that is not marked, with what is before and after it.\<close>

fun first_unsacked :: "TcpTxItem list \<Rightarrow> TcpTxItem list \<Rightarrow> (TcpTxItem list \<times> TcpTxItem \<times> TcpTxItem list) option" where
  "first_unsacked before [] = None"
| "first_unsacked before (i # is) =
     (if it_sacked i then first_unsacked (before @ [i]) is else Some (before, i, is))"

definition AddRenoSack :: "TxBuffer \<Rightarrow> TxBuffer outcome" where
  "AddRenoSack b =
     require (length (tx_sentList b) > (if tx_sackEnabled b then 1 else 0)) AssertFailed
       (let b = b\<lparr>tx_renoSack := True\<rparr>
        in Inr (case first_unsacked (take 1 (tx_sentList b)) (drop 1 (tx_sentList b)) of None \<Rightarrow> b
           | Some (before, i, rest) \<Rightarrow>
               b\<lparr>tx_sentList := before @ i\<lparr>it_sacked := True\<rparr> # rest,
                 tx_sackedOut := tx_sackedOut b + item_size i,
                 tx_highestSack := (Some (it_id i), it_startSeq i)\<rparr>))"

definition ResetRenoSack :: "TxBuffer \<Rightarrow> TxBuffer" where
  "ResetRenoSack b = b\<lparr>tx_sackedOut := 0,
     tx_sentList := map (\<lambda>i. i\<lparr>it_sacked := False\<rparr>) (tx_sentList b), tx_highestSack := (None, 0)\<rparr>"

definition ResetSentList :: "TxBuffer \<Rightarrow> TxBuffer" where
  "ResetSentList b = b\<lparr>
     tx_appList := map (\<lambda>i. i\<lparr>it_retrans := False, it_sacked := False, it_lost := False\<rparr>) (tx_sentList b) @ tx_appList b,
     tx_sentList := [], tx_sentSize := 0, tx_lostOut := 0, tx_retrans := 0, tx_sackedOut := 0,
     tx_highestSack := (None, 0)\<rparr>"

definition ResetLastSegmentSent :: "TxBuffer \<Rightarrow> TxBuffer" where
  "ResetLastSegmentSent b =
     (if tx_sentList b = [] then b
      else let item = last (tx_sentList b)
        in b\<lparr>tx_sentList := butlast (tx_sentList b), tx_sentSize := tx_sentSize b - item_size item,
          tx_retrans := (if it_retrans item then tx_retrans b - item_size item else tx_retrans b),
          tx_appList := item # tx_appList b\<rparr>)"

fun sum_if :: "(TcpTxItem \<Rightarrow> bool) \<Rightarrow> TcpTxItem list \<Rightarrow> u32" where
  "sum_if P [] = 0"
| "sum_if P (i # is) = (if P i then item_size i + sum_if P is else sum_if P is)"

definition SetSentListLost :: "bool \<Rightarrow> TxBuffer \<Rightarrow> TxBuffer outcome" where
  "SetSentListLost resetSack b =
     (let b =
        (if resetSack then
           b\<lparr>tx_retrans := 0, tx_sackedOut := 0, tx_lostOut := tx_sentSize b, tx_highestSack := (None, 0),
             tx_sentList := map (\<lambda>i. i\<lparr>it_sacked := False, it_lost := True, it_retrans := False\<rparr>) (tx_sentList b)\<rparr>
         else
           b\<lparr>tx_retrans := 0, tx_lostOut := sum_if (\<lambda>i. it_lost i \<or> \<not> it_sacked i) (tx_sentList b),
             tx_sentList := map (\<lambda>i. i\<lparr>it_lost := it_lost i \<or> \<not> it_sacked i, it_retrans := False\<rparr>) (tx_sentList b)\<rparr>)
      in require (tx_sackedOut b + tx_lostOut b \<le> tx_sentSize b) AssertFailed (Inr b))"

definition IsHeadRetransmitted :: "TxBuffer \<Rightarrow> bool outcome" where
  "IsHeadRetransmitted b =
     (if tx_sentSize b = 0 then Inr False
      else case tx_sentList b of [] \<Rightarrow> Inl Undefined | head # _ \<Rightarrow> Inr (it_retrans head))"

definition DeleteRetransmittedFlagFromHead :: "TxBuffer \<Rightarrow> TxBuffer outcome" where
  "DeleteRetransmittedFlagFromHead b =
     (if tx_sentSize b = 0 then Inr b
      else case tx_sentList b of [] \<Rightarrow> Inl Undefined
        | head # rest \<Rightarrow> Inr (if it_retrans head
            then b\<lparr>tx_sentList := head\<lparr>it_retrans := False\<rparr> # rest, tx_retrans := tx_retrans b - item_size head\<rparr>
            else b))"

section \<open>Acknowledged data\<close>

text \<open>\<open>fuel\<close> bounds the items that are removed; time \<open>now\<close> matters for data that is
  acknowledged before it was sent.\<close>

fun discard_loop :: "nat \<Rightarrow> int \<Rightarrow> u32 \<Rightarrow> TxBuffer \<Rightarrow> TxBuffer outcome" where
  "discard_loop 0 now offset b = Inl Unfinished"
| "discard_loop (Suc fuel) now offset b =
     (if tx_size b = 0 \<or> offset = 0 then Inr b
      else then_do
        (if tx_sentList b = [] then
           then_do (CopyFromSequence now offset (tx_firstByteSeq b) b) (\<lambda>(k, b).
             case k of None \<Rightarrow> Inl NullPointer | Some _ \<Rightarrow> require (tx_sentList b \<noteq> []) AssertFailed (Inr b))
         else Inr b)
        (\<lambda>b. case tx_sentList b of [] \<Rightarrow> Inl Undefined
           | item # rest \<Rightarrow>
               let pktSize = item_size item
               in require (it_startSeq item = tx_firstByteSeq b) AssertFailed
                 (if pktSize \<le> offset then
                    then_do (RemoveFromCounts item pktSize
                        (b\<lparr>tx_size := tx_size b - pktSize, tx_sentSize := tx_sentSize b - pktSize,
                           tx_firstByteSeq := tx_firstByteSeq b + pktSize\<rparr>))
                      (\<lambda>b. discard_loop fuel now (offset - pktSize) (b\<lparr>tx_sentList := rest\<rparr>))
                  else
                    let item = item\<lparr>it_packet := CreateFragment (unat offset) (unat (pktSize - offset)) (it_packet item),
                          it_startSeq := it_startSeq item + offset\<rparr>
                    in RemoveFromCounts item offset
                        (b\<lparr>tx_sentList := item # rest, tx_size := tx_size b - offset,
                           tx_sentSize := tx_sentSize b - offset,
                           tx_firstByteSeq := tx_firstByteSeq b + offset\<rparr>))))"

text \<open>
  What is left must not begin with an item that is marked as acknowledged: its mark goes to the
  next item.
\<close>

definition unsack_head :: "SequenceNumber32 \<Rightarrow> TxBuffer \<Rightarrow> TxBuffer outcome" where
  "unsack_head s b =
     (case tx_sentList b of [] \<Rightarrow> Inr b
      | head # rest \<Rightarrow>
          then_do
            (if it_sacked head then
               require (\<not> it_lost head) AssertFailed
                 (then_do (AddRenoSack (b\<lparr>tx_sentList := head\<lparr>it_sacked := False\<rparr> # rest,
                      tx_sackedOut := tx_sackedOut b - item_size head\<rparr>))
                   (\<lambda>b. Inr (MarkHeadAsLost b)))
             else Inr b)
            (\<lambda>b. require (it_startSeq head = s) AssertFailed (Inr b)))"

definition end_discard :: "SequenceNumber32 \<Rightarrow> TxBuffer \<Rightarrow> TxBuffer outcome" where
  "end_discard s b =
     (let b = (if seq_le (snd (tx_highestSack b)) (tx_firstByteSeq b) then b\<lparr>tx_highestSack := (None, 0)\<rparr> else b)
      in require (seq_ge (tx_firstByteSeq b) s \<and> tx_sackedOut b + tx_lostOut b \<le> tx_sentSize b) AssertFailed (Inr b))"

definition DiscardUpTo :: "int \<Rightarrow> SequenceNumber32 \<Rightarrow> TxBuffer \<Rightarrow> TxBuffer outcome" where
  "DiscardUpTo now s b =
     (if seq_ge (tx_firstByteSeq b) s then Inr b
      else
        let offset = seq_diff s (tx_firstByteSeq b)
        in then_do (discard_loop (unat offset + 1) now offset b) (\<lambda>b.
           then_do (unsack_head s (if tx_size b = 0 then b\<lparr>tx_firstByteSeq := s\<rparr> else b)) (end_discard s)))"

section \<open>Selective acknowledgements\<close>

text \<open>
  The walk from the highest acknowledged item back to the second: behind enough acknowledged
  items an item counts as lost.
\<close>

fun lost_walk :: "u32 \<Rightarrow> u32 \<Rightarrow> TcpTxItem list \<Rightarrow> u32 \<times> u32 \<times> TcpTxItem list" where
  "lost_walk thresh sacked [] = (sacked, 0, [])"
| "lost_walk thresh sacked (i # is) =
     (let sacked = (if it_sacked i then sacked + 1 else sacked);
          new = (thresh \<le> sacked \<and> \<not> it_sacked i \<and> \<not> it_lost i);
          (sacked, lost, is) = lost_walk thresh sacked is
      in (sacked, if new then item_size i + lost else lost, (if new then i\<lparr>it_lost := True\<rparr> else i) # is))"

fun index_of :: "nat \<Rightarrow> TcpTxItem list \<Rightarrow> nat option" where
  "index_of x [] = None"
| "index_of x (i # is) = (if it_id i = x then Some 0 else map_option Suc (index_of x is))"

definition UpdateLostCount :: "TxBuffer \<Rightarrow> TxBuffer outcome" where
  "UpdateLostCount b =
     (case fst (tx_highestSack b) of
        None \<Rightarrow> if tx_sentList b = [] then Inr b else Inl Undefined
      | Some x \<Rightarrow>
          from_option Undefined (index_of x (tx_sentList b)) (\<lambda>k.
            let (sacked, lost, walked) =
                  lost_walk (tx_dupAckThresh b) 0 (List.rev (drop 1 (take (Suc k) (tx_sentList b))));
                head = tx_sentList b ! 0;
                new = (tx_dupAckThresh b \<le> sacked \<and> \<not> it_lost head)
            in Inr (b\<lparr>tx_sentList := (if new then head\<lparr>it_lost := True\<rparr> else head) #
                   List.rev walked @ drop (Suc k) (tx_sentList b),
                 tx_lostOut := tx_lostOut b + lost + (if new then item_size head else 0)\<rparr>)))"

text \<open>
  One block: the items inside it are marked.  The result is the marked part of the list, the
  scoreboard and the number of bytes marked.
\<close>

fun sack_block :: "SequenceNumber32 \<Rightarrow> SequenceNumber32 \<Rightarrow> SequenceNumber32 \<Rightarrow> TcpTxItem list \<Rightarrow>
  TxBuffer \<Rightarrow> u32 \<Rightarrow> (TcpTxItem list \<times> TxBuffer \<times> u32) outcome" where
  "sack_block x y bg [] b bytes = Inr ([], b, bytes)"
| "sack_block x y bg (i # is) b bytes =
     (let pktSize = item_size i
      in if seq_ge bg x \<and> seq_le (bg + pktSize) y then
           if it_sacked i then
             require (\<not> it_lost i) AssertFailed
               (then_do (sack_block x y (bg + pktSize) is b bytes)
                 (\<lambda>(is, b, bytes). Inr (i # is, b, bytes)))
           else
             let b = b\<lparr>tx_lostOut := (if it_lost i then tx_lostOut b - pktSize else tx_lostOut b),
                   tx_sackedOut := tx_sackedOut b + pktSize,
                   tx_highestSack := (if fst (tx_highestSack b) = None \<or> seq_le (snd (tx_highestSack b)) (bg + pktSize)
                     then (Some (it_id i), bg) else tx_highestSack b)\<rparr>
             in then_do (sack_block x y (bg + pktSize) is b (bytes + pktSize))
                  (\<lambda>(is, b, bytes). Inr (i\<lparr>it_lost := False, it_sacked := True\<rparr> # is, b, bytes))
         else if seq_greater (bg + pktSize) y then Inr (i # is, b, bytes)
         else then_do (sack_block x y (bg + pktSize) is b bytes)
                (\<lambda>(is, b, bytes). Inr (i # is, b, bytes)))"

text \<open>A block beyond what was sent ends the update before anything is recounted.\<close>

fun Update_blocks :: "SackBlock list \<Rightarrow> TxBuffer \<Rightarrow> u32 \<Rightarrow> (bool \<times> TxBuffer \<times> u32) outcome" where
  "Update_blocks [] b bytes = Inr (False, b, bytes)"
| "Update_blocks (blk # blks) b bytes =
     (if seq_less (tx_firstByteSeq b + tx_sentSize b) (fst blk) then Inr (True, b, bytes)
      else then_do (sack_block (fst blk) (snd blk) (tx_firstByteSeq b) (tx_sentList b) b bytes)
        (\<lambda>(l, b, bytes). Update_blocks blks (b\<lparr>tx_sentList := l\<rparr>) bytes))"

definition TxBuffer_Update :: "SackBlock list \<Rightarrow> TxBuffer \<Rightarrow> (u32 \<times> TxBuffer) outcome" where
  "TxBuffer_Update blks b =
     then_do (Update_blocks blks b 0) (\<lambda>(outside, b, bytes).
       if outside then Inr (bytes, b)
       else then_do
         (if 0 < bytes then require (fst (tx_highestSack b) \<noteq> None) AssertFailed (UpdateLostCount b) else Inr b)
         (\<lambda>b. case tx_sentList b of [] \<Rightarrow> Inl Undefined
            | head # _ \<Rightarrow> require (\<not> it_sacked head \<and> tx_sackedOut b + tx_lostOut b \<le> tx_sentSize b) AssertFailed
                (Inr (bytes, b))))"

fun is_lost_walk :: "SequenceNumber32 \<Rightarrow> SequenceNumber32 \<Rightarrow> TcpTxItem list \<Rightarrow> bool" where
  "is_lost_walk s bg [] = False"
| "is_lost_walk s bg (i # is) =
     (if seq_ge bg s \<and> it_lost i then True
      else if seq_ge bg s \<and> it_sacked i then False
      else is_lost_walk s (bg + item_size i) is)"

definition IsLost :: "SequenceNumber32 \<Rightarrow> TxBuffer \<Rightarrow> bool" where
  "IsLost s b =
     (if seq_ge s (snd (tx_highestSack b)) then False
      else is_lost_walk s (tx_firstByteSeq b) (tx_sentList b))"

text \<open>
  The walk of \<open>NextSeg\<close>: a lost item that was not retransmitted, else what rule 3 may use.
  The test that rule 3 has no candidate yet compares its number with zero.
\<close>

fun next_seg_walk :: "bool \<Rightarrow> SequenceNumber32 \<Rightarrow> TcpTxItem list \<Rightarrow> SequenceNumber32 \<Rightarrow> bool \<Rightarrow>
  SequenceNumber32 + (bool \<times> SequenceNumber32)" where
  "next_seg_walk rec bg [] rule3 valid = Inr (valid, rule3)"
| "next_seg_walk rec bg (i # is) rule3 valid =
     (if \<not> it_retrans i \<and> \<not> it_sacked i then
        if it_lost i then Inl bg
        else if rule3 = 0 \<and> rec then next_seg_walk rec (bg + item_size i) is bg True
        else next_seg_walk rec (bg + item_size i) is rule3 valid
      else next_seg_walk rec (bg + item_size i) is rule3 valid)"

definition NextSeg :: "bool \<Rightarrow> u32 \<Rightarrow> TxBuffer \<Rightarrow> (SequenceNumber32 \<times> SequenceNumber32) option" where
  "NextSeg isRecovery rWnd b =
     (case next_seg_walk isRecovery (tx_firstByteSeq b) (tx_sentList b) 0 False of
        Inl s \<Rightarrow> Some (s, s + tx_segmentSize b)
      | Inr (valid, rule3) \<Rightarrow>
          let s = tx_firstByteSeq b + tx_sentSize b
          in if 0 < SizeFromSequence s b then
               if tx_sentSize b \<le> rWnd then Some (s, s + min (tx_segmentSize b) (rWnd - tx_sentSize b)) else None
             else if valid then Some (rule3, rule3 + tx_segmentSize b)
             else None)"

definition BytesInFlight :: "TxBuffer \<Rightarrow> u32 outcome" where
  "BytesInFlight b =
     require (tx_sackedOut b + tx_lostOut b \<le> tx_sentSize b) AssertFailed
       (Inr (tx_sentSize b - (tx_sackedOut b + tx_lostOut b) + tx_retrans b))"

section \<open>Items as parts of the stream\<close>

abbreviation isz :: "TcpTxItem \<Rightarrow> nat" where
  "isz i \<equiv> GetSize (fst (it_packet i))"

text \<open>The items carry the bytes from \<open>x\<close> to \<open>y\<close>; those of the sent list know where they start.\<close>

fun items_at :: "(nat \<Rightarrow> u8) \<Rightarrow> nat \<Rightarrow> TcpTxItem list \<Rightarrow> nat \<Rightarrow> bool" where
  "items_at S x [] y \<longleftrightarrow> x = y"
| "items_at S x (i # is) y \<longleftrightarrow> 0 < isz i \<and> pk_bytes (fst (it_packet i)) = slice S x (x + isz i) \<and>
     items_at S (x + isz i) is y"

fun starts_at :: "nat \<Rightarrow> TcpTxItem list \<Rightarrow> bool" where
  "starts_at x [] \<longleftrightarrow> True"
| "starts_at x (i # is) \<longleftrightarrow> it_startSeq i = seq_of x \<and> starts_at (x + isz i) is"

lemma items_at_le: "items_at S x l y \<Longrightarrow> x \<le> y"
  by (induction l arbitrary: x) fastforce+

lemma items_at_append: "items_at S x (l @ l') y \<longleftrightarrow> (\<exists>z. items_at S x l z \<and> items_at S z l' y)"
  by (induction l arbitrary: x) auto

lemma items_at_unique: "items_at S x l y \<Longrightarrow> items_at S x l z \<Longrightarrow> y = z"
  by (induction l arbitrary: x) auto

lemma starts_at_append: "items_at S x l z \<Longrightarrow> starts_at x (l @ l') \<longleftrightarrow> starts_at x l \<and> starts_at z l'"
  by (induction l arbitrary: x) auto

lemma sum_if_append [simp]: "sum_if P (l @ l') = sum_if P l + sum_if P l'"
  by (induction l) auto

lemma item_size_of: "item_size i = of_nat (isz i)"
  by (simp add: item_size_def packet_size_def)

lemma seq_of_item: "seq_of x + item_size i = seq_of (x + isz i)"
  by (simp add: item_size_of)

section \<open>Splitting and merging\<close>

lemma pk_bytes_size: "pk_bytes p = bs \<Longrightarrow> GetSize p = length bs"
  by (metis length_pk_bytes)

lemma SplitItems_ok:
  assumes "SplitItems ids i n = (t1, t2)" and "pk_bytes (fst (it_packet i)) = slice S x (x + isz i)"
    and "unat n < isz i"
  shows "isz t1 = unat n" and "isz t2 = isz i - unat n"
    and "pk_bytes (fst (it_packet t1)) = slice S x (x + unat n)"
    and "pk_bytes (fst (it_packet t2)) = slice S (x + unat n) (x + isz i)"
    and "it_startSeq t1 = it_startSeq i" and "it_startSeq t2 = it_startSeq i + n"
    and "it_sacked t1 = it_sacked i" and "it_sacked t2 = it_sacked i"
    and "it_lost t1 = it_lost i" and "it_lost t2 = it_lost i"
    and "it_retrans t1 = it_retrans i" and "it_retrans t2 = it_retrans i"
proof -
  have t: "it_packet t1 = CreateFragment 0 (unat n) (it_packet i)"
    "it_packet t2 = (RemoveAtStart (unat n) (fst (it_packet i)), snd (it_packet i))"
    using assms(1) by (auto simp: SplitItems_def Let_def)
  have frag: "pk_bytes (fst (CreateFragment 0 (unat n) (it_packet i))) = take (unat n) (slice S x (x + isz i))"
    using CreateFragment_bytes(1) [of 0 "unat n" "it_packet i"] assms(2,3) by simp
  show "isz t1 = unat n"
    using CreateFragment_bytes(2) [of 0 "unat n" "it_packet i"] assms(3) by (simp add: t)
  show "isz t2 = isz i - unat n"
    by (simp add: t)
  show "pk_bytes (fst (it_packet t1)) = slice S x (x + unat n)"
    using slice_slice [of x x "x + unat n" "x + isz i" S] assms(3) by (simp add: t frag)
  show "pk_bytes (fst (it_packet t2)) = slice S (x + unat n) (x + isz i)"
    using slice_slice [of x "x + unat n" "x + isz i" "x + isz i" S] assms(3)
    by (simp add: t pk_bytes_RemoveAtStart assms(2))
qed (use assms(1) in \<open>auto simp: SplitItems_def Let_def\<close>)

lemma SplitItems_sum:
  assumes "SplitItems ids i n = (t1, t2)" and "pk_bytes (fst (it_packet i)) = slice S x (x + isz i)"
    and "unat n < isz i"
  shows "P i = P t1 \<Longrightarrow> P i = P t2 \<Longrightarrow> sum_if P (t1 # t2 # l) = sum_if P (i # l)"
proof -
  have "item_size t1 + item_size t2 = item_size i"
    using SplitItems_ok(1,2) [OF assms] assms(3) by (simp add: item_size_of flip: of_nat_add)
  then show "P i = P t1 \<Longrightarrow> P i = P t2 \<Longrightarrow> sum_if P (t1 # t2 # l) = sum_if P (i # l)"
    by (simp flip: add.assoc)
qed

lemma MergeItems_ok:
  assumes "MergeItems t1 t2 rt = Inr (t, rt')" and "pk_bytes (fst (it_packet t1)) = slice S x (x + isz t1)"
    and "pk_bytes (fst (it_packet t2)) = slice S (x + isz t1) (x + isz t1 + isz t2)"
  shows "isz t = isz t1 + isz t2" and "pk_bytes (fst (it_packet t)) = slice S x (x + isz t)"
    and "it_startSeq t = it_startSeq t1" and "it_sacked t = it_sacked t1" and "it_sacked t2 = it_sacked t1"
    and "it_lost t = it_lost t1" and "it_lost t2 = it_lost t1"
    and "it_retrans t \<longleftrightarrow> it_retrans t1 \<and> it_retrans t2"
    and "rt' - sum_if it_retrans (t # l) = rt - sum_if it_retrans (t1 # t2 # l)"
proof -
  have pk: "pk_bytes (fst (it_packet t)) = pk_bytes (fst (it_packet t1)) @ pk_bytes (fst (it_packet t2))"
    "isz t = isz t1 + isz t2"
    using assms(1) by (auto simp: MergeItems_def Let_def split: if_splits)
  then show "isz t = isz t1 + isz t2"
    by simp
  show "pk_bytes (fst (it_packet t)) = slice S x (x + isz t)"
    using slice_append [of x "x + isz t1" "x + isz t1 + isz t2" S] by (simp add: pk assms(2,3) add.assoc)
  show "it_startSeq t = it_startSeq t1" "it_sacked t = it_sacked t1" "it_sacked t2 = it_sacked t1"
    "it_lost t = it_lost t1" "it_lost t2 = it_lost t1" "it_retrans t \<longleftrightarrow> it_retrans t1 \<and> it_retrans t2"
    using assms(1) by (auto simp: MergeItems_def Let_def split: if_splits)
  have "rt' = rt - (if it_retrans t1 = it_retrans t2 then 0 else if it_retrans t1 then item_size t1 else item_size t2)"
    using assms(1) by (auto simp: MergeItems_def Let_def split: if_splits)
  moreover have "item_size t = item_size t1 + item_size t2"
    by (simp add: item_size_of pk)
  ultimately show "rt' - sum_if it_retrans (t # l) = rt - sum_if it_retrans (t1 # t2 # l)"
    using \<open>it_retrans t \<longleftrightarrow> it_retrans t1 \<and> it_retrans t2\<close> by auto
qed

lemma list_walk_Inr:
  assumes "list_walk una (seq_of q) (seq_of z) before l = Inr (before', cur, rest, bg)"
    and "items_at S z l y" and "z \<le> q" and "w \<le> z" and "y \<le> w + window" and "near w q"
  shows "\<exists>pre z'. before' = before @ pre \<and> l = pre @ cur # rest \<and> bg = seq_of z' \<and> items_at S z pre z' \<and>
    z' \<le> q \<and> q < z' + isz cur \<and> z' + isz cur \<le> y"
  using assms
proof (induction l arbitrary: z before)
  case (Cons i l)
  have "z + isz i \<le> y"
    using Cons.prems(2) items_at_le by auto
  then have "near w (z + isz i)"
    using Cons.prems(4,5) by (simp add: near_def)
  note cmp = seq_compare(4) [OF Cons.prems(6) this]
  show ?case
  proof (cases "q < z + isz i")
    case True
    then have "seq_less (seq_of q) (seq_of z + item_size i)"
      by (simp add: seq_of_item cmp del: of_nat_add)
    with True Cons.prems(1,3) \<open>z + isz i \<le> y\<close> show ?thesis
      by (intro exI [of _ "[]"] exI [of _ z]) auto
  next
    case False
    then have "\<not> seq_less (seq_of q) (seq_of z + item_size i)"
      by (simp add: seq_of_item cmp del: of_nat_add)
    with Cons.prems(1) have "list_walk una (seq_of q) (seq_of (z + isz i)) (before @ [i]) l = Inr (before', cur, rest, bg)"
      by (simp add: seq_of_item del: of_nat_add)
    from Cons.IH [OF this] Cons.prems(2,4-6) False obtain pre z' where
      "before' = (before @ [i]) @ pre" "l = pre @ cur # rest" "bg = seq_of z'" "items_at S (z + isz i) pre z'"
      "z' \<le> q" "q < z' + isz cur" "z' + isz cur \<le> y"
      by auto
    with Cons.prems(2) show ?thesis
      by (intro exI [of _ "i # pre"] exI [of _ z']) auto
  qed
qed simp

section \<open>A packet from a list\<close>

definition clean :: "TcpTxItem \<Rightarrow> bool" where
  "clean i \<longleftrightarrow> \<not> it_sacked i \<and> \<not> it_lost i \<and> \<not> it_retrans i"

text \<open>The same data in other items, with the counters still in step.\<close>

definition recut :: "(nat \<Rightarrow> u8) \<Rightarrow> nat \<Rightarrow> nat \<Rightarrow> TcpTxItem list \<Rightarrow> u32 \<Rightarrow> TcpTxItem list \<Rightarrow> u32 \<Rightarrow> bool" where
  "recut S x y l rt l' rt' \<longleftrightarrow> items_at S x l' y \<and> (starts_at x l \<longrightarrow> starts_at x l') \<and>
     sum_if it_sacked l' = sum_if it_sacked l \<and> sum_if it_lost l' = sum_if it_lost l \<and>
     rt' - sum_if it_retrans l' = rt - sum_if it_retrans l \<and>
     ((\<forall>i \<in> set l. clean i) \<longrightarrow> (\<forall>i \<in> set l'. clean i)) \<and>
     ((\<forall>i \<in> set l. \<not> (it_sacked i \<and> it_lost i)) \<longrightarrow> (\<forall>i \<in> set l'. \<not> (it_sacked i \<and> it_lost i)))"

lemma recut_refl: "items_at S x l y \<Longrightarrow> recut S x y l rt l rt"
  by (simp add: recut_def)

lemma recut_trans: "recut S x y l rt l1 rt1 \<Longrightarrow> recut S x y l1 rt1 l2 rt2 \<Longrightarrow> recut S x y l rt l2 rt2"
  by (simp add: recut_def)

lemma recut_split:
  assumes "items_at S x (pre @ cur # rest) y" and "SplitItems ids cur n = (t1, t2)"
    and "0 < unat n" and "unat n < isz cur"
  shows "recut S x y (pre @ cur # rest) rt (pre @ t1 # t2 # rest) rt"
proof -
  obtain z where z: "items_at S x pre z" "items_at S z (cur # rest) y"
    using assms(1) by (auto simp: items_at_append)
  then have cur: "pk_bytes (fst (it_packet cur)) = slice S z (z + isz cur)"
    by simp
  note t = SplitItems_ok [OF assms(2) cur assms(4)]
  have "items_at S z (t1 # t2 # rest) y"
    using z(2) t(1-4) assms(3,4) by simp
  moreover have "starts_at z (cur # rest) \<Longrightarrow> starts_at z (t1 # t2 # rest)"
    using t(1,2,5,6) assms(4) by simp
  moreover have "sum_if P (pre @ t1 # t2 # rest) = sum_if P (pre @ cur # rest)" if "P cur = P t1" "P cur = P t2" for P
    using SplitItems_sum [OF assms(2) cur assms(4) that, of rest] by simp
  ultimately show ?thesis
    using z(1) t(7-12) unfolding recut_def
    by (auto simp: items_at_append starts_at_append [OF z(1)] clean_def simp del: sum_if_append sum_if.simps)
qed

lemma recut_merge:
  assumes "items_at S x (pre @ cur # nxt # rest) y" and "MergeItems cur nxt rt = Inr (t, rt')"
  shows "recut S x y (pre @ cur # nxt # rest) rt (pre @ t # rest) rt'"
proof -
  obtain z where z: "items_at S x pre z" "items_at S z (cur # nxt # rest) y"
    using assms(1) by (auto simp: items_at_append)
  then have "pk_bytes (fst (it_packet cur)) = slice S z (z + isz cur)"
    "pk_bytes (fst (it_packet nxt)) = slice S (z + isz cur) (z + isz cur + isz nxt)"
    by simp_all
  note t = MergeItems_ok [OF assms(2) this]
  have at: "items_at S z (t # rest) y"
    using z(2) t(1,2) by (simp add: add.assoc)
  have starts: "starts_at z (cur # nxt # rest) \<Longrightarrow> starts_at z (t # rest)"
    using t(1,3) by (simp add: add.assoc)
  have sum: "sum_if P (t # rest) = sum_if P (cur # nxt # rest)" if "P t = P cur" "P nxt = P cur" for P
    using that t(1) by (simp add: item_size_of add.assoc)
  have rt: "rt' - sum_if it_retrans (pre @ t # rest) = rt - sum_if it_retrans (pre @ cur # nxt # rest)"
  proof -
    have "rt' - (sum_if it_retrans pre + sum_if it_retrans (t # rest)) = rt' - sum_if it_retrans (t # rest) - sum_if it_retrans pre"
      by (simp only: diff_diff_eq add.commute)
    also have "\<dots> = rt - (sum_if it_retrans pre + sum_if it_retrans (cur # nxt # rest))"
      unfolding t(9) by (simp only: diff_diff_eq add.commute)
    finally show ?thesis
      by (simp only: sum_if_append)
  qed
  have flags: "clean cur \<Longrightarrow> clean t" "\<not> (it_sacked cur \<and> it_lost cur) \<Longrightarrow> \<not> (it_sacked t \<and> it_lost t)"
    using t(4-8) by (simp_all add: clean_def)
  show ?thesis
    unfolding recut_def
  proof (intro conjI impI)
    show "items_at S x (pre @ t # rest) y"
      using z(1) at by (auto simp only: items_at_append)
    show "starts_at x (pre @ t # rest)" if "starts_at x (pre @ cur # nxt # rest)"
      using that starts by (simp only: starts_at_append [OF z(1)])
    show "sum_if it_sacked (pre @ t # rest) = sum_if it_sacked (pre @ cur # nxt # rest)"
      by (simp only: sum_if_append sum t(4,5))
    show "sum_if it_lost (pre @ t # rest) = sum_if it_lost (pre @ cur # nxt # rest)"
      by (simp only: sum_if_append sum t(6,7))
    show "rt' - sum_if it_retrans (pre @ t # rest) = rt - sum_if it_retrans (pre @ cur # nxt # rest)"
      by (rule rt)
    show "\<forall>i \<in> set (pre @ t # rest). clean i" if "\<forall>i \<in> set (pre @ cur # nxt # rest). clean i"
      using that flags(1) by simp
    show "\<forall>i \<in> set (pre @ t # rest). \<not> (it_sacked i \<and> it_lost i)"
      if "\<forall>i \<in> set (pre @ cur # nxt # rest). \<not> (it_sacked i \<and> it_lost i)"
      using that flags(2) by simp
  qed
qed

lemma GetPacketFromList_Inr:
  assumes "GetPacketFromList fuel una (seq_of x) num (seq_of q) l rt ids = Inr (k, l', rt', ids')"
    and "items_at S x l y" and "x \<le> q" and "w \<le> x" and "y \<le> w + window" and "near w q"
    and "unat num \<le> window" and "0 < unat num"
  shows "recut S x y l rt l' rt' \<and> k < length l' \<and> items_at S x (take k l') q \<and> isz (l' ! k) \<le> unat num \<and>
    (q + unat num \<le> y \<longrightarrow> isz (l' ! k) = unat num)"
  using assms(1,2)
proof (induction fuel arbitrary: l rt ids)
  case (Suc fuel)
  from Suc.prems(1) obtain pre cur rest bg where
    "list_walk una (seq_of q) (seq_of x) [] l = Inr (pre, cur, rest, bg)"
    by (auto simp: then_do_def split: sum.splits)
  note walk = this
  from list_walk_Inr [OF walk Suc.prems(2) assms(3-6)] obtain z where
    z: "l = pre @ cur # rest" "bg = seq_of z" "items_at S x pre z" "z \<le> q" "q < z + isz cur" "z + isz cur \<le> y"
    by auto
  have "near w z" "near w (z + isz cur)" "near w (q + unat num)"
    using z(3-6) assms(4-7) items_at_le [OF z(3)] by (auto simp: near_def)
  note near = this
  have num: "seq_of q + num = seq_of (q + unat num)"
    by simp
  have curb: "pk_bytes (fst (it_packet cur)) = slice S z (z + isz cur)" "0 < isz cur"
  proof -
    have "items_at S z (cur # rest) y"
      using Suc.prems(2) items_at_unique [OF _ z(3)] by (auto simp: z(1) items_at_append)
    then show "pk_bytes (fst (it_packet cur)) = slice S z (z + isz cur)" "0 < isz cur"
      by simp_all
  qed
  have szc: "unat (item_size cur) = isz cur"
    using z(4-6) assms(5) items_at_le [OF z(3)] assms(4)
    by (simp add: item_size_of unat_of_nat window_def)
  show ?case
  proof (cases "z = q")
    case True
    show ?thesis
    proof (cases "q + unat num \<le> z + isz cur")
      case in_cur: True
      then have le: "seq_le (seq_of q + num) (seq_of z + item_size cur)"
        by (simp only: num seq_of_item seq_compare [OF near(3,2)])
      consider "num = item_size cur" | "unat num < isz cur"
        using in_cur True szc by (metis add_le_cancel_left order_le_less word_unat_eq_iff)
      then show ?thesis
      proof cases
        case 1
        with Suc.prems(1) walk le True z(2) have "k = length pre" "l' = l" "rt' = rt"
          by auto
        with Suc.prems(2) z True 1 szc show ?thesis
          by (simp add: recut_refl)
      next
        case 2
        then have ne: "num \<noteq> item_size cur" "num < item_size cur"
          using szc by (auto simp: word_less_nat_alt)
        obtain t1 t2 where sp: "SplitItems ids cur num = (t1, t2)"
          by fastforce
        with Suc.prems(1) walk le True z(2) ne have r: "k = length pre" "l' = pre @ t1 # t2 # rest" "rt' = rt"
          by auto
        have "recut S x y l rt l' rt'"
          using recut_split [OF Suc.prems(2) [unfolded z(1)] sp assms(8) 2] r z(1) by simp
        with r z(3) True SplitItems_ok(1) [OF sp curb(1) 2] show ?thesis
          by simp
      qed
    next
      case beyond: False
      then have gt: "\<not> seq_le (seq_of q + num) (seq_of z + item_size cur)"
        by (simp only: num seq_of_item seq_compare [OF near(3,2)] not_False_eq_True)
      show ?thesis
      proof (cases rest)
        case Nil
        with Suc.prems(1) walk gt True z(2) have r: "k = length pre" "l' = l" "rt' = rt"
          by auto
        have "z + isz cur = y"
          using Suc.prems(2) items_at_unique [OF _ z(3)] Nil by (auto simp: z(1) items_at_append)
        with r Suc.prems(2) z True beyond show ?thesis
          by (simp add: recut_refl)
      next
        case (Cons nxt rest')
        with Suc.prems(1) walk gt True z(2) obtain t rt1 where m: "MergeItems cur nxt rt = Inr (t, rt1)"
          "GetPacketFromList fuel una (seq_of x) num (seq_of q) (pre @ t # rest') rt1 ids = Inr (k, l', rt', ids')"
          by auto
        have rc: "recut S x y l rt (pre @ t # rest') rt1"
          using recut_merge [OF Suc.prems(2) [unfolded z(1) Cons] m(1)] by (simp add: z(1) Cons)
        then have "items_at S x (pre @ t # rest') y"
          by (simp add: recut_def)
        from Suc.IH [OF m(2) this] recut_trans [OF rc] show ?thesis
          by blast
      qed
    qed
  next
    case False
    with z(4) have "z < q"
      by simp
    then have gr: "seq_of q \<noteq> bg" "seq_greater (seq_of q) bg"
      using False by (simp_all add: z(2) seq_compare [OF assms(6) near(1)])
    obtain t1 t2 where sp: "SplitItems ids cur (seq_diff (seq_of q) bg) = (t1, t2)"
      by fastforce
    have d: "unat (seq_diff (seq_of q) bg) = q - z"
      using z(2,5,6) \<open>z < q\<close> assms(4,5) items_at_le [OF z(3)]
      by (simp add: seq_diff_eq seq_of_diff window_def)
    from Suc.prems(1) walk gr sp have rec:
      "GetPacketFromList fuel una (seq_of x) num (seq_of q) (pre @ t1 # t2 # rest) rt (ids + 1) = Inr (k, l', rt', ids')"
      by simp
    have rc: "recut S x y l rt (pre @ t1 # t2 # rest) rt"
      using recut_split [OF Suc.prems(2) [unfolded z(1)] sp] \<open>z < q\<close> z(1,5) by (simp add: d)
    then have "items_at S x (pre @ t1 # t2 # rest) y"
      by (simp add: recut_def)
    from Suc.IH [OF rec this] recut_trans [OF rc] show ?thesis
      by blast
  qed
qed simp

lemma list_walk_at:
  assumes "items_at S z (pre @ cur # rest) y" and "items_at S z pre z'" and "z' \<le> q" and "q < z' + isz cur"
    and "w \<le> z" and "y \<le> w + window"
    and "una = None \<or> una = Some (seq_of w) \<and> starts_at z (pre @ cur # rest)"
  shows "list_walk una (seq_of q) (seq_of z) before (pre @ cur # rest) = Inr (before @ pre, cur, rest, seq_of z')"
  using assms
proof (induction pre arbitrary: z before)
  case Nil
  then have [simp]: "z' = z"
    by simp
  have "z + isz cur \<le> y"
    using items_at_le Nil.prems(1) by auto
  then have near: "near w z" "near w q" "near w (z + isz cur)"
    using Nil.prems by (auto simp: near_def)
  have "una = None \<or> seq_ge (it_startSeq cur) (the una)"
    using Nil.prems(5,7) near(1) seq_compare(3) [of w z w] by (auto simp: near_def)
  moreover have "seq_less (seq_of q) (seq_of z + item_size cur)"
    using Nil.prems(2,4) by (simp add: seq_of_item seq_compare [OF near(2,3)] del: of_nat_add)
  ultimately show ?case
    using Nil.prems(2) by simp
next
  case (Cons i pre)
  have "z + isz i \<le> z'" "z' + isz cur \<le> y"
    using Cons.prems(1,2) items_at_le by (auto simp: items_at_append dest: items_at_unique)
  then have near: "near w z" "near w q" "near w (z + isz i)"
    using Cons.prems(3-6) by (auto simp: near_def)
  have "una = None \<or> seq_ge (it_startSeq i) (the una)"
    using Cons.prems(5,7) near(1) seq_compare(3) [of w z w] by (auto simp: near_def)
  moreover have "\<not> seq_less (seq_of q) (seq_of z + item_size i)"
    using Cons.prems(3) \<open>z + isz i \<le> z'\<close> by (simp add: seq_of_item seq_compare [OF near(2,3)] del: of_nat_add)
  moreover have "list_walk una (seq_of q) (seq_of (z + isz i)) (before @ [i]) (pre @ cur # rest) =
      Inr ((before @ [i]) @ pre, cur, rest, seq_of z')"
    by (rule Cons.IH) (use Cons.prems in auto)
  ultimately show ?case
    by (simp add: seq_of_item del: of_nat_add)
qed

lemma item_containing:
  "items_at S z l y \<Longrightarrow> z \<le> q \<Longrightarrow> q < y \<Longrightarrow>
     \<exists>pre cur rest z'. l = pre @ cur # rest \<and> items_at S z pre z' \<and> z' \<le> q \<and> q < z' + isz cur"
proof (induction l arbitrary: z)
  case (Cons i l)
  show ?case
  proof (cases "q < z + isz i")
    case True
    with Cons.prems show ?thesis
      by (intro exI [of _ "[]"] exI [of _ i] exI [of _ l] exI [of _ z]) auto
  next
    case False
    with Cons.IH [of "z + isz i"] Cons.prems obtain pre cur rest z' where
      "l = pre @ cur # rest" "items_at S (z + isz i) pre z'" "z' \<le> q" "q < z' + isz cur"
      by auto
    with Cons.prems show ?thesis
      by (intro exI [of _ "i # pre"] exI [of _ cur] exI [of _ rest] exI [of _ z']) auto
  qed
qed simp

text \<open>Only the flags of two items to merge can be in the way.\<close>

lemma MergeItems_clean: "clean t1 \<Longrightarrow> clean t2 \<Longrightarrow> \<exists>t rt'. MergeItems t1 t2 rt = Inr (t, rt')"
  by (auto simp: MergeItems_def clean_def Let_def)

lemma MergeItems_Inl: "MergeItems t1 t2 rt = Inl e \<Longrightarrow> e = AssertFailed \<and> (\<not> clean t1 \<or> \<not> clean t2)"
  by (auto simp: MergeItems_def clean_def Let_def require_def split: if_splits)

definition from_ok :: "nat \<Rightarrow> SequenceNumber32 option \<Rightarrow> nat \<Rightarrow> TcpTxItem list \<Rightarrow> bool" where
  "from_ok w una x l \<longleftrightarrow> w \<le> x \<and> (una = None \<or> una = Some (seq_of w) \<and> starts_at x l)"

lemma recut_from_ok: "recut S x y l rt l' rt' \<Longrightarrow> from_ok w una x l \<Longrightarrow> from_ok w una x l'"
  by (auto simp: recut_def from_ok_def)

lemma GetPacketFromList_at:
  assumes "items_at S x (pre @ post) y" and "items_at S x pre q" and "post \<noteq> []" and "from_ok w una x (pre @ post)"
    and "y \<le> w + window" and "length post \<le> fuel"
    and "GetPacketFromList fuel una (seq_of x) num (seq_of q) (pre @ post) rt ids = Inl e"
    and "unat num \<le> window"
  shows "e = AssertFailed \<and> (\<exists>i \<in> set (pre @ post). \<not> clean i)"
  using assms
proof (induction fuel arbitrary: post rt)
  case (Suc fuel)
  obtain cur rest where post: "post = cur # rest"
    using Suc.prems(3) by (cases post) auto
  have q: "items_at S q (cur # rest) y"
    using Suc.prems(1) items_at_unique [OF _ Suc.prems(2)] by (auto simp: post items_at_append)
  then have curb: "pk_bytes (fst (it_packet cur)) = slice S q (q + isz cur)" "0 < isz cur" "q + isz cur \<le> y"
    using items_at_le by auto
  have walk: "list_walk una (seq_of q) (seq_of x) [] (pre @ cur # rest) = Inr (pre, cur, rest, seq_of q)"
    using list_walk_at [OF Suc.prems(1) [unfolded post] Suc.prems(2), of q w una "[]"] curb(2) Suc.prems(4,5)
    by (simp add: from_ok_def post)
  show ?case
  proof (cases "seq_le (seq_of q + num) (seq_of q + item_size cur)")
    case True
    have "x \<le> q"
      using Suc.prems(2) items_at_le by blast
    then have near: "near w (q + unat num)" "near w (q + isz cur)"
      using curb(3) Suc.prems(4,5,8) by (auto simp: near_def from_ok_def)
    have num: "seq_of q + num = seq_of (q + unat num)"
      by simp
    have "unat num \<le> isz cur"
      using True seq_compare(2) [OF near] by (simp only: num seq_of_item)
    moreover have "isz cur \<le> window"
      using curb(3) Suc.prems(4,5) \<open>x \<le> q\<close> by (simp add: from_ok_def)
    then have "unat (item_size cur) = isz cur"
      by (simp add: item_size_of unat_of_nat window_def)
    ultimately have "num = item_size cur \<or> num < item_size cur"
      by (metis order_le_less word_less_nat_alt word_unat_eq_iff)
    with True Suc.prems(7) walk show ?thesis
      by (auto simp: post split: if_splits prod.splits)
  next
    case False
    with Suc.prems(7) walk obtain nxt rest' where rest: "rest = nxt # rest'"
      by (cases rest) (auto simp: post)
    show ?thesis
    proof (cases "MergeItems cur nxt rt")
      case (Inl e')
      with False Suc.prems(7) walk have "e = e'"
        by (auto simp: post rest)
      with MergeItems_Inl [OF Inl] show ?thesis
        by (auto simp: post rest)
    next
      case (Inr r)
      then obtain t rt1 where m: "MergeItems cur nxt rt = Inr (t, rt1)"
        by (cases r) auto
      have rc: "recut S x y (pre @ cur # nxt # rest') rt (pre @ t # rest') rt1"
        using recut_merge [OF Suc.prems(1) [unfolded post rest] m] .
      have "e = AssertFailed \<and> (\<exists>i \<in> set (pre @ t # rest'). \<not> clean i)"
      proof (rule Suc.IH)
        show "items_at S x (pre @ t # rest') y"
          using rc by (simp add: recut_def)
        show "from_ok w una x (pre @ t # rest')"
          using recut_from_ok [OF rc] Suc.prems(4) by (simp add: post rest)
        show "GetPacketFromList fuel una (seq_of x) num (seq_of q) (pre @ t # rest') rt1 ids = Inl e"
          using False Suc.prems(7) walk m by (simp add: post rest)
      qed (use Suc.prems(2,5,6,8) in \<open>simp_all add: post rest\<close>)
      with rc show ?thesis
        by (auto simp: recut_def post rest)
    qed
  qed
qed simp

lemma GetPacketFromList_Inl:
  assumes "items_at S x l y" and "x \<le> q" and "q < y" and "from_ok w una x l" and "y \<le> w + window"
    and "restarts l \<le> fuel" and "unat num \<le> window"
    and "GetPacketFromList fuel una (seq_of x) num (seq_of q) l rt ids = Inl e"
  shows "e = AssertFailed \<and> (\<exists>i \<in> set l. \<not> clean i)"
proof -
  obtain pre cur rest z where z: "l = pre @ cur # rest" "items_at S x pre z" "z \<le> q" "q < z + isz cur"
    using item_containing [OF assms(1-3)] by blast
  show ?thesis
  proof (cases "z = q")
    case True
    show ?thesis
      using GetPacketFromList_at [OF assms(1) [unfolded z(1)], of q w una fuel num rt ids e] z True assms
      by (simp add: restarts_def)
  next
    case False
    have at: "items_at S z (cur # rest) y"
      using assms(1) items_at_unique [OF _ z(2)] by (auto simp: z(1) items_at_append)
    have "x \<le> z"
      using z(2) items_at_le by blast
    with at have cur: "pk_bytes (fst (it_packet cur)) = slice S z (z + isz cur)" "z + isz cur \<le> y" "x \<le> z"
      using items_at_le by auto
    then have near: "near w q" "near w z"
      using assms(4,5) z(3,4) by (auto simp: near_def from_ok_def)
    have walk: "list_walk una (seq_of q) (seq_of x) [] (pre @ cur # rest) = Inr (pre, cur, rest, seq_of z)"
      using list_walk_at [OF assms(1) [unfolded z(1)] z(2-4), of w una "[]"] assms(4,5)
      by (simp add: from_ok_def z(1))
    obtain t1 t2 where sp: "SplitItems ids cur (seq_diff (seq_of q) (seq_of z)) = (t1, t2)"
      by fastforce
    have d: "unat (seq_diff (seq_of q) (seq_of z)) = q - z"
    proof -
      have "q - z < 2 ^ 32"
      proof -
        have "w \<le> x"
          using assms(4) by (simp add: from_ok_def)
        have "q < y"
          using z(4) cur(2) by (rule less_le_trans)
        also have "y \<le> z + window"
          using assms(5) \<open>w \<le> x\<close> cur(3) by linarith
        finally show ?thesis
          using z(3) by (simp add: window_def less_diff_conv2)
      qed
      then show ?thesis
        using z(3) by (simp add: seq_diff_eq seq_of_diff)
    qed
    obtain fuel' where fuel: "fuel = Suc fuel'" "length rest + 2 \<le> fuel'"
      using assms(6) by (cases fuel) (auto simp: restarts_def z(1))
    have rc: "recut S x y l rt ((pre @ [t1]) @ t2 # rest) rt"
      using recut_split [OF assms(1) [unfolded z(1)] sp] d z False by simp
    have "e = AssertFailed \<and> (\<exists>i \<in> set ((pre @ [t1]) @ t2 # rest). \<not> clean i)"
    proof (rule GetPacketFromList_at)
      show "items_at S x ((pre @ [t1]) @ t2 # rest) y"
        using rc by (simp add: recut_def)
      show "items_at S x (pre @ [t1]) q"
        using z False SplitItems_ok(1,3) [OF sp cur(1)] d by (auto simp: items_at_append)
      show "from_ok w una x ((pre @ [t1]) @ t2 # rest)"
        using recut_from_ok [OF rc assms(4)] .
      show "GetPacketFromList fuel' una (seq_of x) num (seq_of q) ((pre @ [t1]) @ t2 # rest) rt (ids + 1) = Inl e"
        using assms(8) walk sp z(3) False
        by (simp add: fuel z(1) seq_compare [OF near] del: of_nat_add)
    qed (use assms fuel in auto)
    with rc show ?thesis
      by (auto simp: recut_def)
  qed
qed

end
