(* ===== verification/Tcp_Tx_Stream.thy ===== *)
theory Tcp_Tx_Stream
  imports Tcp_Tx_Buffer
begin

text \<open>
  The transmit buffer as a window on the stream that the application writes: the invariant that its
  two lists hold the right bytes and that the counters of the scoreboard are those of the flags,
  kept by every operation, and what sending and acknowledging do in terms of positions in the
  stream.
\<close>

section \<open>The buffer as a part of the stream\<close>

text \<open>
  Bytes \<open>w\<close> to \<open>m\<close> of the stream were sent and not acknowledged, bytes \<open>m\<close> to \<open>y\<close>
  are still to be sent.
\<close>

definition tx_data :: "(nat \<Rightarrow> u8) \<Rightarrow> nat \<Rightarrow> nat \<Rightarrow> nat \<Rightarrow> TxBuffer \<Rightarrow> bool" where
  "tx_data S w m y b \<longleftrightarrow> items_at S w (tx_sentList b) m \<and> starts_at w (tx_sentList b) \<and>
     items_at S m (tx_appList b) y \<and> tx_firstByteSeq b = seq_of w \<and> tx_sentSize b = of_nat (m - w) \<and>
     tx_size b = of_nat (y - w) \<and> y - w \<le> unat (tx_maxBuffer b) \<and> unat (tx_maxBuffer b) \<le> window"

text \<open>The counters of the scoreboard are those of the flags.\<close>

definition tx_counts :: "TxBuffer \<Rightarrow> bool" where
  "tx_counts b \<longleftrightarrow> tx_sackedOut b = sum_if it_sacked (tx_sentList b) \<and>
     tx_lostOut b = sum_if it_lost (tx_sentList b) \<and> tx_retrans b = sum_if it_retrans (tx_sentList b) \<and>
     (\<forall>i \<in> set (tx_appList b). clean i)"

text \<open>The item carries at most \<open>n\<close> bytes of the stream, from \<open>q\<close> on.\<close>

definition carries :: "(nat \<Rightarrow> u8) \<Rightarrow> nat \<Rightarrow> nat \<Rightarrow> TcpTxItem \<Rightarrow> bool" where
  "carries S q n i \<longleftrightarrow> it_startSeq i = seq_of q \<and> pk_bytes (fst (it_packet i)) = slice S q (q + isz i) \<and>
     0 < isz i \<and> isz i \<le> n"

lemma tx_data_bounds:
  assumes "tx_data S w m y b"
  shows "w \<le> m" and "m \<le> y" and "y \<le> w + window"
  using assms items_at_le [of S w "tx_sentList b" m] items_at_le [of S m "tx_appList b" y]
  by (auto simp: tx_data_def)

lemma tx_data_near:
  assumes "tx_data S w m y b" and "w \<le> q" and "q \<le> y"
  shows "near w q"
  using tx_data_bounds [OF assms(1)] assms(2,3) by (simp add: near_def)

lemma seq_of_plus: "x \<le> z \<Longrightarrow> seq_of x + of_nat (z - x) = seq_of z"
  by (simp flip: of_nat_add)

lemma tx_data_seq:
  assumes "tx_data S w m y b"
  shows "tx_firstByteSeq b + tx_sentSize b = seq_of m" and "tx_TailSequence b = seq_of y"
  using assms seq_of_plus tx_data_bounds [OF assms] by (auto simp: tx_data_def tx_TailSequence_def)

lemma tx_data_size:
  assumes "tx_data S w m y b" and "w \<le> q" and "q \<le> y"
  shows "unat (SizeFromSequence (seq_of q) b) = y - q"
proof -
  have "seq_ge (seq_of y) (seq_of q)"
    using assms tx_data_bounds [OF assms(1)] tx_data_near [OF assms(1)] by (subst seq_compare(3)) auto
  moreover have "y - q < 2 ^ 32"
    using tx_data_bounds [OF assms(1)] assms(2) by (simp add: window_def)
  ultimately show ?thesis
    using assms(3) seq_of_diff [of q y] by (simp add: SizeFromSequence_def tx_data_seq [OF assms(1)] seq_diff_eq)
qed

lemma tx_data_len: "tx_data S w m y b \<Longrightarrow> z \<le> y \<Longrightarrow> w \<le> x \<Longrightarrow> unat (of_nat (z - x) :: u32) = z - x"
  using tx_data_bounds [of S w m y b] by (simp add: unat_of_nat window_def)

lemma items_at_refl: "items_at S x l x \<longleftrightarrow> l = []"
  by (cases l) (auto dest: items_at_le)

lemma sum_if_clean: "\<forall>i \<in> set l. clean i \<Longrightarrow> sum_if it_sacked l = 0 \<and> sum_if it_lost l = 0 \<and> sum_if it_retrans l = 0"
  by (induction l) (auto simp: clean_def)

lemma items_at_nth:
  assumes "items_at S x l y" and "k < length l" and "items_at S x (take k l) q"
  shows "items_at S q (l ! k # drop (Suc k) l) y"
proof -
  have "items_at S x (take k l @ l ! k # drop (Suc k) l) y"
    using assms(1) by (simp only: flip: id_take_nth_drop [OF assms(2)])
  then obtain z where "items_at S x (take k l) z" "items_at S z (l ! k # drop (Suc k) l) y"
    unfolding items_at_append by blast
  with assms(3) show ?thesis
    using items_at_unique by blast
qed

section \<open>Sending\<close>

lemma GetNewSegment_ok:
  assumes data: "tx_data S w m y b" and counts: "tx_counts b" and "m < y" and "0 < unat num" and "unat num \<le> y - m"
  shows "\<exists>i b'. GetNewSegment num b = Inr (i, b') \<and> tx_sentList b' = tx_sentList b @ [i] \<and>
    tx_data S w (m + unat num) y b' \<and> tx_counts b' \<and> carries S m (unat num) i \<and> clean i \<and> isz i = unat num"
proof -
  note bounds = tx_data_bounds [OF data]
  have app: "items_at S m (tx_appList b) y" "\<forall>i \<in> set (tx_appList b). clean i"
    using data counts by (simp_all add: tx_data_def tx_counts_def)
  have n: "unat num \<le> window"
    using assms(5) bounds by simp
  let ?r = "GetPacketFromList (restarts (tx_appList b)) None (seq_of m) num (seq_of m) (tx_appList b)
    (tx_retrans b) (tx_next_id b)"
  obtain k l rt ids where r: "?r = Inr (k, l, rt, ids)"
  proof (cases ?r)
    case (Inl e)
    have "e = AssertFailed \<and> (\<exists>i \<in> set (tx_appList b). \<not> clean i)"
      by (rule GetPacketFromList_Inl [OF app(1) _ assms(3) _ bounds(3) _ n Inl])
        (use bounds in \<open>simp_all add: from_ok_def\<close>)
    with app(2) show ?thesis
      by simp
  next
    case (Inr r)
    then show ?thesis
      using that by (cases r) auto
  qed
  have "near w m"
    using tx_data_near [OF data] bounds by simp
  from GetPacketFromList_Inr [OF r app(1) _ bounds(1,3) this n assms(4)] assms(3,5)
  have g: "recut S m y (tx_appList b) (tx_retrans b) l rt" "k < length l" "items_at S m (take k l) m" "isz (l ! k) = unat num"
    by auto
  from g(1) app(2) have l: "items_at S m l y" "\<forall>i \<in> set l. clean i"
    by (simp_all add: recut_def)
  have rt: "rt = tx_retrans b"
    using g(1) sum_if_clean [OF app(2)] sum_if_clean [OF l(2)] by (simp add: recut_def)
  have k: "k = 0"
    using g(2,3) by (cases l) (simp_all add: items_at_refl)
  with g(2) obtain i rest where li: "l = i # rest"
    by (cases l) auto
  let ?i = "i\<lparr>it_startSeq := seq_of m\<rparr>"
  let ?b = "b\<lparr>tx_appList := rest, tx_sentList := tx_sentList b @ [?i], tx_sentSize := tx_sentSize b + item_size i,
    tx_retrans := rt, tx_next_id := ids\<rparr>"
  have iszi: "isz i = unat num" and i: "pk_bytes (fst (it_packet i)) = slice S m (m + isz i)" "0 < isz i"
    "items_at S (m + isz i) rest y" "clean i"
    using g(4) l by (simp_all add: li k)
  have size: "item_size ?i = item_size i"
    by (simp add: item_size_def)
  have "GetNewSegment num b = Inr (?i, ?b)"
    using r by (simp add: GetNewSegment_def Let_def tx_data_seq [OF data] li k size)
  moreover have "tx_data S w (m + unat num) y ?b"
  proof -
    have "items_at S w (tx_sentList b @ [?i]) (m + unat num)" "starts_at w (tx_sentList b @ [?i])"
      using data i iszi by (auto simp: tx_data_def items_at_append starts_at_append)
    moreover have "tx_sentSize b + item_size i = of_nat (m + unat num - w)"
      using data bounds(1) iszi by (simp add: tx_data_def item_size_of of_nat_diff)
    ultimately show ?thesis
      using data i(3) iszi by (simp add: tx_data_def)
  qed
  moreover have "tx_counts ?b"
    using counts i(4) l(2) rt by (simp add: tx_counts_def clean_def li)
  moreover have "carries S m (unat num) ?i" "clean ?i" "isz ?i = unat num"
    using i iszi by (simp_all add: carries_def clean_def)
  ultimately show ?thesis
    by (intro exI [of _ ?i] exI [of _ ?b]) simp
qed

text \<open>Only flags and times differ.\<close>

definition same_data :: "TcpTxItem list \<Rightarrow> TcpTxItem list \<Rightarrow> bool" where
  "same_data = list_all2 (\<lambda>i j. it_packet j = it_packet i \<and> it_startSeq j = it_startSeq i)"

lemma same_data_refl [simp]: "same_data l l"
  by (simp add: same_data_def list.rel_refl)

lemma same_data_Nil [simp]: "same_data [] l \<longleftrightarrow> l = []"
  by (simp add: same_data_def)

lemma same_data_Cons [simp]: "same_data (i # l) (j # l') \<longleftrightarrow>
    it_packet j = it_packet i \<and> it_startSeq j = it_startSeq i \<and> same_data l l'"
  by (simp add: same_data_def)

lemma same_data_append: "same_data l1 l1' \<Longrightarrow> same_data l2 l2' \<Longrightarrow> same_data (l1 @ l2) (l1' @ l2')"
  by (simp add: same_data_def list_all2_appendI)

lemma same_data_map: "(\<And>i. it_packet (f i) = it_packet i \<and> it_startSeq (f i) = it_startSeq i) \<Longrightarrow> same_data l (map f l)"
  by (simp add: same_data_def list.rel_map list.rel_refl)

lemma same_data_update:
  "k < length l \<Longrightarrow> it_packet j = it_packet (l ! k) \<Longrightarrow> it_startSeq j = it_startSeq (l ! k) \<Longrightarrow> same_data l (l[k := j])"
  by (auto simp: same_data_def list_all2_conv_all_nth nth_list_update)

lemma same_data_trans: "same_data l l1 \<Longrightarrow> same_data l1 l2 \<Longrightarrow> same_data l l2"
  by (auto simp: same_data_def list_all2_conv_all_nth)

lemma items_at_same: "same_data l l' \<Longrightarrow> items_at S x l y \<Longrightarrow> items_at S x l' y"
  unfolding same_data_def by (induction arbitrary: x rule: list_all2_induct) auto

lemma starts_at_same: "same_data l l' \<Longrightarrow> starts_at x l \<Longrightarrow> starts_at x l'"
  unfolding same_data_def by (induction arbitrary: x rule: list_all2_induct) auto

lemma tx_data_same:
  assumes "tx_data S w m y b" and "same_data (tx_sentList b) (tx_sentList b')"
    and "tx_appList b' = tx_appList b" and "tx_firstByteSeq b' = tx_firstByteSeq b" and "tx_sentSize b' = tx_sentSize b"
    and "tx_size b' = tx_size b" and "tx_maxBuffer b' = tx_maxBuffer b"
  shows "tx_data S w m y b'"
  using assms by (auto simp: tx_data_def items_at_same starts_at_same)

lemma sum_if_update:
  "k < length l \<Longrightarrow> item_size j = item_size (l ! k) \<Longrightarrow> sum_if P (l[k := j]) =
     sum_if P l - (if P (l ! k) then item_size (l ! k) else 0) + (if P j then item_size j else 0)"
proof (induction l arbitrary: k)
  case (Cons i l)
  then show ?case
    by (cases k) auto
qed simp

lemma retransmit_size_le: "retransmit_size s n l \<le> n"
  by (induction s n l rule: retransmit_size.induct) (auto split: list.splits simp: min_def)

lemma retransmit_size_pos:
  "items_at S x l z \<Longrightarrow> z \<le> x + window \<Longrightarrow> 0 < n \<Longrightarrow> 0 < retransmit_size s n l"
proof (induction s n l arbitrary: x rule: retransmit_size.induct)
  case (2 s n i l)
  have pos: "0 < (of_nat a :: u32)" if "0 < a" "a \<le> window" for a
    using that by (simp add: word_less_nat_alt unat_of_nat window_def)
  have i: "0 < item_size i"
    using 2(2,3) items_at_le [of S "x + isz i" l z] by (simp add: item_size_of pos)
  have "0 < item_size i + item_size j" if "l = j # l'" for j l'
    using 2(2,3) items_at_le [of S "x + isz i + isz j" l' z] pos [of "isz i + isz j"]
    by (simp add: item_size_of that)
  with i 2(4) have "0 < retransmit_size s n (i # l)" if "it_startSeq i = s"
    using that by (auto split: list.splits simp: min_def)
  moreover have "0 < retransmit_size s n (i # l)" if "it_startSeq i \<noteq> s"
    using 2(1) [OF that, of "x + isz i"] 2(2-4) that by auto
  ultimately show ?case
    by blast
qed simp

lemma starts_at_nth:
  assumes "items_at S x l y" and "starts_at x l" and "k < length l" and "items_at S x (take k l) q"
  shows "it_startSeq (l ! k) = seq_of q"
proof -
  have "starts_at x (take k l @ l ! k # drop (Suc k) l)"
    using assms(2) by (simp only: flip: id_take_nth_drop [OF assms(3)])
  then show ?thesis
    by (simp add: starts_at_append [OF assms(4)])
qed

lemma GetTransmittedSegment_ok:
  assumes "GetTransmittedSegment num (seq_of q) b = Inr (k, b')"
    and data: "tx_data S w m y b" and counts: "tx_counts b" and q: "w \<le> q" "q + unat num \<le> m" and n: "0 < unat num"
  shows "tx_data S w m y b' \<and> tx_counts b' \<and> k < length (tx_sentList b') \<and> carries S q (unat num) (tx_sentList b' ! k) \<and>
    q + isz (tx_sentList b' ! k) \<le> m"
proof -
  note bounds = tx_data_bounds [OF data]
  let ?n = "retransmit_size (seq_of q) num (tx_sentList b)"
  have sent: "items_at S w (tx_sentList b) m" "starts_at w (tx_sentList b)" "tx_firstByteSeq b = seq_of w"
    using data by (simp_all add: tx_data_def)
  have le: "unat ?n \<le> unat num"
    using retransmit_size_le by (simp add: word_le_nat_alt)
  have pos: "0 < unat ?n"
    using retransmit_size_pos [OF sent(1), of num] n bounds by (simp add: word_less_nat_alt)
  obtain l rt ids where g: "GetPacketFromList (restarts (tx_sentList b)) (Some (tx_firstByteSeq b)) (seq_of w)
      ?n (seq_of q) (tx_sentList b) (tx_retrans b) (tx_next_id b) = Inr (k, l, rt, ids)"
    and b': "b' = (let b1 = b\<lparr>tx_sentList := l, tx_retrans := rt, tx_next_id := ids\<rparr>
      in if \<not> it_retrans (l ! k) then b1\<lparr>tx_sentList := l[k := (l ! k)\<lparr>it_retrans := True\<rparr>],
           tx_retrans := rt + item_size (l ! k)\<rparr> else b1)"
    using assms(1) by (auto simp: GetTransmittedSegment_def require_def then_do_def sent(3) Let_def
        split: if_splits sum.splits prod.splits)
  have "near w q"
    using tx_data_near [OF data] q bounds by simp
  from GetPacketFromList_Inr [OF g sent(1) q(1) order.refl _ this _ pos] bounds le q
  have r: "recut S w m (tx_sentList b) (tx_retrans b) l rt" "k < length l" "items_at S w (take k l) q"
    "isz (l ! k) \<le> unat ?n"
    by auto
  have l: "items_at S w l m" "starts_at w l" "rt = sum_if it_retrans l" "sum_if it_sacked l = tx_sackedOut b"
    "sum_if it_lost l = tx_lostOut b"
    using r(1) sent(2) counts by (auto simp: recut_def tx_counts_def)
  note at = items_at_nth [OF l(1) r(2,3)]
  have start: "it_startSeq (l ! k) = seq_of q"
    using starts_at_nth [OF l(1,2) r(2,3)] .
  have size: "item_size ((l ! k)\<lparr>it_retrans := True\<rparr>) = item_size (l ! k)"
    by (simp add: item_size_def)
  have data1: "tx_data S w m y (b\<lparr>tx_sentList := l, tx_retrans := rt, tx_next_id := ids\<rparr>)"
    using data l(1,2) by (simp add: tx_data_def)
  have "tx_data S w m y b'"
    using r(2) by (intro tx_data_same [OF data1]) (auto simp: b' Let_def intro: same_data_update)
  moreover have "tx_counts b'"
    using counts l(3-5) r(2) by (auto simp: tx_counts_def b' Let_def sum_if_update [OF r(2) size] size)
  moreover have "isz (tx_sentList b' ! k) = isz (l ! k)" "it_packet (tx_sentList b' ! k) = it_packet (l ! k)"
    "it_startSeq (tx_sentList b' ! k) = it_startSeq (l ! k)" "length (tx_sentList b') = length l"
    using r(2) by (simp_all add: b' Let_def)
  ultimately show ?thesis
    using at start r(2,4) le items_at_le [of S "q + isz (l ! k)" "drop (Suc k) l" m] by (simp add: carries_def)
qed

lemma copy_from_ok:
  assumes "copy_from fuel now num (seq_of q) b = Inr (r, b')"
    and data: "tx_data S w m y b" and counts: "tx_counts b" and q: "w \<le> q" "q \<le> y"
  shows "\<exists>m'. m \<le> m' \<and> tx_data S w m' y b' \<and> tx_counts b' \<and> (case r of
      None \<Rightarrow> b' = b \<and> (num = 0 \<or> q = y)
    | Some k \<Rightarrow> k < length (tx_sentList b') \<and> carries S q (unat num) (tx_sentList b' ! k) \<and>
        q + isz (tx_sentList b' ! k) \<le> m')"
  using assms(1)
proof (induction fuel arbitrary: num)
  case (Suc fuel)
  note bounds = tx_data_bounds [OF data]
  have first: "tx_firstByteSeq b = seq_of w"
    using data by (simp add: tx_data_def)
  let ?n = "min num (SizeFromSequence (seq_of q) b)"
  have n: "unat ?n = min (unat num) (y - q)"
    using tx_data_size [OF data q] by (simp add: min_def word_le_nat_alt)
  have ahead: "\<not> seq_greater (seq_of w) (seq_of q)"
    using tx_data_near [OF data, of w] tx_data_near [OF data q] q bounds by (simp add: seq_compare(1) [of w])
  show ?case
  proof (cases "?n = 0")
    case True
    then have "num = 0 \<or> q = y"
      using n q by (metis min_def unat_eq_0 diff_is_0_eq le_antisym)
    with True Suc.prems data counts ahead show ?thesis
      by (intro exI [of _ m]) (auto simp: require_def first)
  next
    case pos: False
    then have npos: "0 < unat ?n"
      by (simp add: unat_gt_0)
    have near: "near w m" "near w q" "near w (q + unat ?n)"
      using tx_data_near [OF data] q bounds n by auto
    have plus: "seq_of q + ?n = seq_of (q + unat ?n)"
      by simp
    consider "q + unat ?n \<le> m" | "m \<le> q" | "q < m" "m < q + unat ?n"
      by linarith
    then show ?thesis
    proof cases
      case 1
      then have "seq_ge (seq_of m) (seq_of q + ?n)"
        by (simp only: plus seq_compare(3) [OF near(1,3)])
      with Suc.prems pos ahead obtain k b1 where g: "GetTransmittedSegment ?n (seq_of q) b = Inr (k, b1)"
        "r = Some k" "b' = b1\<lparr>tx_sentList := (tx_sentList b1)[k := (tx_sentList b1 ! k)\<lparr>it_lastSent := now\<rparr>]\<rparr>"
        by (auto simp: first Let_def require_def then_do_def tx_data_seq(1) [OF data, unfolded first]
            split: sum.splits if_splits)
      from GetTransmittedSegment_ok [OF g(1) data counts q(1) 1 npos]
      have t: "tx_data S w m y b1" "tx_counts b1" "k < length (tx_sentList b1)" "carries S q (unat ?n) (tx_sentList b1 ! k)"
        "q + isz (tx_sentList b1 ! k) \<le> m"
        by blast+
      have "tx_data S w m y b'"
        by (rule tx_data_same [OF t(1)]) (use t(3) in \<open>simp_all add: g(3) same_data_update\<close>)
      moreover have size: "item_size ((tx_sentList b1 ! k)\<lparr>it_lastSent := now\<rparr>) = item_size (tx_sentList b1 ! k)"
        by (simp add: item_size_def)
      then have "tx_counts b'"
        using t(2,3) by (simp add: tx_counts_def g(3) sum_if_update)
      ultimately show ?thesis
        using t(3-5) n by (intro exI [of _ m]) (simp add: g(2,3) carries_def)
    next
      case 2
      then have "\<not> seq_ge (seq_of m) (seq_of q + ?n)"
        using npos by (simp only: plus seq_compare(3) [OF near(1,3)])
      moreover have "seq_le (seq_of m) (seq_of q)"
        using 2 by (simp only: seq_compare(2) [OF near(1,2)])
      ultimately have "seq_of m = seq_of q"
        using Suc.prems pos ahead
        by (auto simp: first Let_def require_def tx_data_seq(1) [OF data, unfolded first] split: if_splits)
      then have m: "m = q"
        using seq_compare(5) [OF near(1,2)] by simp
      have "q < y" "unat ?n \<le> y - q"
        using n npos by auto
      from GetNewSegment_ok [OF data [unfolded m] counts this(1) npos this(2)] obtain i b1 where
        g: "GetNewSegment ?n b = Inr (i, b1)" "tx_sentList b1 = tx_sentList b @ [i]"
        "tx_data S w (q + unat ?n) y b1" "tx_counts b1" "carries S q (unat ?n) i" "clean i" "isz i = unat ?n"
        by auto
      with Suc.prems pos ahead \<open>\<not> seq_ge (seq_of m) (seq_of q + ?n)\<close> \<open>seq_le (seq_of m) (seq_of q)\<close>
      have b': "r = Some (length (tx_sentList b))" "b' = b1\<lparr>tx_sentList := (tx_sentList b @ [i])[length (tx_sentList b) := i\<lparr>it_lastSent := now\<rparr>]\<rparr>"
        by (auto simp: first Let_def require_def tx_data_seq(1) [OF data, unfolded first] split: if_splits)
      have "tx_data S w (q + unat ?n) y b'"
        by (rule tx_data_same [OF g(3)]) (simp_all add: b' g(2) same_data_append)
      moreover have size: "item_size (i\<lparr>it_lastSent := now\<rparr>) = item_size i"
        by (simp add: item_size_def)
      then have "tx_counts b'"
        using g(2,4) by (simp add: tx_counts_def b')
      ultimately show ?thesis
        using g(5,7) n by (intro exI [of _ "q + unat ?n"]) (simp add: b' carries_def m)
    next
      case 3
      then have "\<not> seq_ge (seq_of m) (seq_of q + ?n)" "\<not> seq_le (seq_of m) (seq_of q)"
        by (simp_all only: plus seq_compare(2) [OF near(1,2)] seq_compare(3) [OF near(1,3)] not_le)
      with Suc.prems pos ahead have rec: "copy_from fuel now (seq_of m - seq_of q) (seq_of q) b = Inr (r, b')"
        by (auto simp: first Let_def require_def tx_data_seq(1) [OF data, unfolded first] split: if_splits)
      have "m - q < 2 ^ 32"
        using bounds q by (simp add: window_def)
      then have "unat (seq_of m - seq_of q) = m - q"
        using 3 by (simp add: seq_of_diff)
      note len = this
      have num: "m - q \<le> unat num" "m - q \<noteq> 0"
        using 3 n by (auto simp: min_def split: if_splits)
      from len num(2) have "seq_of m - seq_of q \<noteq> 0"
        by (metis unat_eq_zero)
      moreover obtain m' where m': "m \<le> m'" "tx_data S w m' y b'" "tx_counts b'"
        "case r of None \<Rightarrow> b' = b \<and> (seq_of m - seq_of q = 0 \<or> q = y)
          | Some k \<Rightarrow> k < length (tx_sentList b') \<and> carries S q (m - q) (tx_sentList b' ! k) \<and>
              q + isz (tx_sentList b' ! k) \<le> m'"
        using Suc.IH [OF rec] unfolding len by blast
      ultimately show ?thesis
        using num(1) 3 bounds by (intro exI [of _ m'])
          (auto simp: carries_def simp del: right_minus_eq split: option.splits)
    qed
  qed
qed simp

section \<open>Operations on the flags\<close>

text \<open>What an operation on the scoreboard keeps: the data, and the counters in step with the flags.\<close>

definition relabels :: "TxBuffer \<Rightarrow> TxBuffer \<Rightarrow> bool" where
  "relabels b b' \<longleftrightarrow> same_data (tx_sentList b) (tx_sentList b') \<and> tx_appList b' = tx_appList b \<and>
     tx_firstByteSeq b' = tx_firstByteSeq b \<and> tx_sentSize b' = tx_sentSize b \<and> tx_size b' = tx_size b \<and>
     tx_maxBuffer b' = tx_maxBuffer b \<and> (tx_counts b \<longrightarrow> tx_counts b')"

lemma relabels_refl [simp]: "relabels b b"
  by (simp add: relabels_def)

lemma relabels_trans: "relabels b b1 \<Longrightarrow> relabels b1 b2 \<Longrightarrow> relabels b b2"
  by (auto simp: relabels_def intro: same_data_trans)

lemma relabels_data: "relabels b b' \<Longrightarrow> tx_data S w m y b \<Longrightarrow> tx_data S w m y b'"
  by (rule tx_data_same) (auto simp: relabels_def)

lemma relabels_counts: "relabels b b' \<Longrightarrow> tx_counts b \<Longrightarrow> tx_counts b'"
  by (simp add: relabels_def)

lemma item_size_flags [simp]: "item_size (i\<lparr>it_sacked := x\<rparr>) = item_size i" "item_size (i\<lparr>it_lost := x\<rparr>) = item_size i"
  "item_size (i\<lparr>it_retrans := x\<rparr>) = item_size i" "item_size (i\<lparr>it_lastSent := t\<rparr>) = item_size i"
  by (simp_all add: item_size_def)

lemma same_data_prefix [simp]: "same_data (pre @ l) (pre @ l') \<longleftrightarrow> same_data l l'"
  by (induction pre) simp_all

lemma sum_if_rev [simp]: "sum_if P (List.rev l) = sum_if P l"
  by (induction l) auto

lemma sum_if_none: "(\<And>i. i \<in> set l \<Longrightarrow> \<not> P i) \<Longrightarrow> sum_if P l = 0"
  by (induction l) auto

lemma sum_if_all: "items_at S x l y \<Longrightarrow> (\<And>i. i \<in> set l \<Longrightarrow> P i) \<Longrightarrow> sum_if P l = of_nat (y - x)"
proof (induction l arbitrary: x)
  case (Cons i l)
  from Cons.prems have "sum_if P l = of_nat (y - (x + isz i))" "x + isz i \<le> y"
    using items_at_le by (auto intro: Cons.IH)
  moreover from this have "y - x = isz i + (y - (x + isz i))"
    by linarith
  ultimately have "of_nat (isz i) + sum_if P l = of_nat (y - x)"
    by (simp only: of_nat_add)
  with Cons.prems show ?case
    by (simp add: item_size_of)
qed simp

lemma first_unsacked_Some:
  "first_unsacked before l = Some (before', i, rest) \<Longrightarrow> before @ l = before' @ i # rest \<and> \<not> it_sacked i"
  by (induction before l rule: first_unsacked.induct) (auto split: if_splits)

lemma AddRenoSack_relabels:
  assumes "AddRenoSack b = Inr b'"
  shows "relabels b b'"
proof (cases "first_unsacked (take 1 (tx_sentList b)) (drop 1 (tx_sentList b))")
  case None
  with assms show ?thesis
    by (auto simp: AddRenoSack_def require_def Let_def relabels_def tx_counts_def split: if_splits)
next
  case (Some r)
  then obtain pre i rest where r: "first_unsacked (take 1 (tx_sentList b)) (drop 1 (tx_sentList b)) = Some (pre, i, rest)"
    by (cases r) auto
  from first_unsacked_Some [OF this] have l: "tx_sentList b = pre @ i # rest" "\<not> it_sacked i"
    by simp_all
  show ?thesis
    using assms r l(2)
    by (auto simp: AddRenoSack_def require_def Let_def relabels_def tx_counts_def l(1) add_ac
        intro: same_data_append split: if_splits)
qed

lemma MarkHeadAsLost_relabels: "relabels b (MarkHeadAsLost b)"
  by (cases "tx_sentList b") (auto simp: relabels_def MarkHeadAsLost_def tx_counts_def)

lemma ResetRenoSack_relabels: "relabels b (ResetRenoSack b)"
proof -
  have "sum_if P (map (\<lambda>i. i\<lparr>it_sacked := False\<rparr>) l) = sum_if P l" if "\<And>i. P (i\<lparr>it_sacked := False\<rparr>) = P i" for P l
    using that by (induction l) simp_all
  moreover have "sum_if it_sacked (map (\<lambda>i. i\<lparr>it_sacked := False\<rparr>) l) = 0" for l
    by (rule sum_if_none) auto
  ultimately show ?thesis
    by (auto simp: relabels_def ResetRenoSack_def tx_counts_def intro: same_data_map)
qed

lemma DeleteRetransmittedFlagFromHead_relabels: "DeleteRetransmittedFlagFromHead b = Inr b' \<Longrightarrow> relabels b b'"
  by (auto simp: DeleteRetransmittedFlagFromHead_def relabels_def tx_counts_def split: if_splits list.splits)

lemma SetSentListLost_relabels:
  assumes "SetSentListLost reset b = Inr b'" and "tx_data S w m y b"
  shows "relabels b b'"
proof -
  have all: "sum_if P (tx_sentList b) = tx_sentSize b" if "\<And>i. P i" for P
    using assms(2) that sum_if_all [of S w "tx_sentList b" m P] by (simp add: tx_data_def)
  have mp: "sum_if P (map f l) = sum_if (\<lambda>i. P (f i)) l" if "\<And>i. item_size (f i) = item_size i" for P f l
    using that by (induction l) simp_all
  have zero: "sum_if (\<lambda>i. False) l = 0" for l
    by (rule sum_if_none) simp
  show ?thesis
    using assms(1) by (cases reset) (auto simp: SetSentListLost_def Let_def require_def relabels_def tx_counts_def mp all
        zero same_data_map split: if_splits)
qed

lemma lost_walk_ok:
  "lost_walk thresh sacked l = (sk, lost, l') \<Longrightarrow> same_data l l' \<and> sum_if it_lost l' = sum_if it_lost l + lost \<and>
     sum_if it_sacked l' = sum_if it_sacked l \<and> sum_if it_retrans l' = sum_if it_retrans l"
proof (induction l arbitrary: sacked sk lost l')
  case (Cons i l)
  obtain sk1 lost1 l1 where r: "lost_walk thresh (if it_sacked i then sacked + 1 else sacked) l = (sk1, lost1, l1)"
    by (metis prod_cases3)
  from Cons.IH [OF this] Cons.prems r show ?case
    by (auto simp: Let_def add_ac split: if_splits)
qed simp

lemma index_of_less: "index_of x l = Some k \<Longrightarrow> k < length l"
  by (induction l arbitrary: k) (auto split: if_splits)

lemma UpdateLostCount_relabels:
  assumes "UpdateLostCount b = Inr b'"
  shows "relabels b b'"
proof (cases "fst (tx_highestSack b)")
  case None
  with assms show ?thesis
    by (simp add: UpdateLostCount_def split: if_splits)
next
  case (Some x)
  with assms obtain k where k: "index_of x (tx_sentList b) = Some k"
    by (auto simp: UpdateLostCount_def from_option_def split: option.splits)
  let ?mid = "drop 1 (take (Suc k) (tx_sentList b))" and ?rest = "drop (Suc k) (tx_sentList b)"
  obtain sk lost l where walk: "lost_walk (tx_dupAckThresh b) 0 (List.rev ?mid) = (sk, lost, l)"
    by (metis prod_cases3)
  obtain head where l: "tx_sentList b = head # ?mid @ ?rest"
    using index_of_less [OF k] that by (cases "tx_sentList b") simp_all
  define new where "new \<longleftrightarrow> tx_dupAckThresh b \<le> sk \<and> \<not> it_lost head"
  have head: "tx_sentList b ! 0 = head"
    by (subst l) simp
  note w = lost_walk_ok [OF walk]
  have same: "same_data ?mid (List.rev l)"
    using w list_all2_rev [of _ "List.rev ?mid" l] by (fastforce simp: same_data_def)
  have b': "b' = b\<lparr>tx_sentList := (if new then head\<lparr>it_lost := True\<rparr> else head) # List.rev l @ ?rest,
      tx_lostOut := tx_lostOut b + lost + (if new then item_size head else 0)\<rparr>"
    using assms Some k walk head by (simp add: UpdateLostCount_def from_option_def new_def Let_def)
  have sum: "sum_if P (tx_sentList b) = sum_if P (head # ?mid @ ?rest)" for P
    by (rule arg_cong [OF l])
  have "same_data (head # ?mid @ ?rest) (tx_sentList b')"
    using same by (simp add: b' same_data_append)
  moreover have "tx_counts b'" if "tx_counts b"
    using that w by (auto simp: tx_counts_def sum b' new_def add_ac)
  ultimately show ?thesis
    unfolding l [symmetric] by (simp add: relabels_def b')
qed

lemma sack_block_relabels:
  "sack_block x y bg l b bytes = Inr (l', b', bytes') \<Longrightarrow>
     relabels (b\<lparr>tx_sentList := pre @ l\<rparr>) (b'\<lparr>tx_sentList := pre @ l'\<rparr>) \<and> tx_sentList b' = tx_sentList b"
proof (induction l arbitrary: bg b bytes pre l')
  case (Cons i l)
  consider (keep) l1 where "sack_block x y (bg + item_size i) l b bytes = Inr (l1, b', bytes')" "l' = i # l1"
    | (mark) b1 l1 where "sack_block x y (bg + item_size i) l b1 (bytes + item_size i) = Inr (l1, b', bytes')"
        "l' = i\<lparr>it_lost := False, it_sacked := True\<rparr> # l1" "\<not> it_sacked i"
        "b1 = b\<lparr>tx_lostOut := (if it_lost i then tx_lostOut b - item_size i else tx_lostOut b),
            tx_sackedOut := tx_sackedOut b + item_size i, tx_highestSack := tx_highestSack b1\<rparr>"
    | (past) "l' = i # l" "b' = b"
    using Cons.prems by (auto simp: Let_def require_def then_do_def split: if_splits sum.splits)
  then show ?case
  proof cases
    case keep
    with Cons.IH [OF keep(1), of "pre @ [i]"] show ?thesis
      by simp
  next
    case mark
    have "relabels (b\<lparr>tx_sentList := pre @ i # l\<rparr>) (b1\<lparr>tx_sentList := (pre @ [i\<lparr>it_lost := False, it_sacked := True\<rparr>]) @ l\<rparr>)"
      using mark(3) by (subst mark(4)) (auto simp: relabels_def tx_counts_def)
    moreover have "tx_sentList b1 = tx_sentList b"
      by (subst mark(4)) simp
    ultimately show ?thesis
      using Cons.IH [OF mark(1), of "pre @ [i\<lparr>it_lost := False, it_sacked := True\<rparr>]"] relabels_trans
      by (auto simp: mark(2))
  qed simp
qed simp

lemma Update_blocks_relabels: "Update_blocks blks b bytes = Inr (out, b', bytes') \<Longrightarrow> relabels b b'"
proof (induction blks arbitrary: b bytes)
  case (Cons blk blks)
  show ?case
  proof (cases "seq_less (tx_firstByteSeq b + tx_sentSize b) (fst blk)")
    case False
    with Cons.prems obtain l b1 bytes1 where s:
      "sack_block (fst blk) (snd blk) (tx_firstByteSeq b) (tx_sentList b) b bytes = Inr (l, b1, bytes1)"
      "Update_blocks blks (b1\<lparr>tx_sentList := l\<rparr>) bytes1 = Inr (out, b', bytes')"
      by (auto simp: then_do_def split: sum.splits)
    from sack_block_relabels [OF s(1), of "[]"] have "relabels b (b1\<lparr>tx_sentList := l\<rparr>)"
      by simp
    from relabels_trans [OF this Cons.IH [OF s(2)]] show ?thesis .
  qed (use Cons.prems in simp)
qed simp

lemma TxBuffer_Update_relabels:
  assumes "TxBuffer_Update blks b = Inr (n, b')"
  shows "relabels b b'"
proof -
  obtain out b1 bytes where u: "Update_blocks blks b 0 = Inr (out, b1, bytes)"
    using assms by (auto simp: TxBuffer_Update_def then_do_def split: sum.splits)
  have "b' = b1 \<or> UpdateLostCount b1 = Inr b'"
    using assms u by (auto simp: TxBuffer_Update_def then_do_def require_def split: sum.splits if_splits list.splits)
  with Update_blocks_relabels [OF u] UpdateLostCount_relabels relabels_trans show ?thesis
    by blast
qed

section \<open>Acknowledged data\<close>

lemma ResetSentList_ok: "tx_data S w m y b \<Longrightarrow> tx_counts b \<Longrightarrow> tx_data S w w y (ResetSentList b) \<and> tx_counts (ResetSentList b)"
  using items_at_same [OF same_data_map, of "\<lambda>i. i\<lparr>it_retrans := False, it_sacked := False, it_lost := False\<rparr>" S w
      "tx_sentList b" m]
  by (auto simp: tx_data_def tx_counts_def ResetSentList_def items_at_append clean_def)

lemma TxBuffer_Add_ok:
  assumes "TxBuffer_Add p b = (True, b')" and "tx_data S w m y b" and "tx_counts b"
    and "pk_bytes (fst p) = slice S y (y + GetSize (fst p))" and "GetSize (fst p) < 2 ^ 32"
  shows "tx_data S w m (y + GetSize (fst p)) b' \<and> tx_counts b'"
proof (cases "GetSize (fst p) = 0")
  case True
  with assms show ?thesis
    by (auto simp: TxBuffer_Add_def packet_size_def split: if_splits)
next
  case False
  note bounds = tx_data_bounds [OF assms(2)]
  let ?g = "GetSize (fst p)"
  have g: "unat (packet_size p) = ?g"
    using assms(5) by (simp add: packet_size_def unat_of_nat)
  with False have pos: "0 < packet_size p"
    by (simp add: word_less_nat_alt)
  let ?b = "b\<lparr>tx_appList := tx_appList b @ [TcpTxItem_new (tx_next_id b) p],
    tx_size := tx_size b + packet_size p, tx_next_id := tx_next_id b + 1\<rparr>"
  have room: "packet_size p \<le> tx_maxBuffer b - tx_size b" and b': "b' = ?b"
    using assms(1) pos by (auto simp: TxBuffer_Add_def tx_Available_def split: if_splits)
  have "unat (tx_size b) = y - w" "y - w \<le> unat (tx_maxBuffer b)"
    using assms(2) tx_data_len [OF assms(2), of y w] by (simp_all add: tx_data_def)
  with room g have fits: "y + ?g - w \<le> unat (tx_maxBuffer b)"
    using bounds by (simp add: word_le_nat_alt unat_sub)
  have size: "tx_size b + packet_size p = of_nat (y + ?g - w)"
    using assms(2) bounds by (simp add: tx_data_def packet_size_def of_nat_diff)
  have "items_at S m (tx_appList b @ [TcpTxItem_new (tx_next_id b) p]) (y + ?g)"
    using assms(2,4) False by (auto simp: tx_data_def items_at_append TcpTxItem_new_def)
  then have "tx_data S w m (y + ?g) b'"
    using assms(2) size fits by (simp add: tx_data_def b')
  moreover have "tx_counts b'"
    using assms(3) by (auto simp: tx_counts_def b' clean_def TcpTxItem_new_def)
  ultimately show ?thesis
    by simp
qed

text \<open>One item, or its first part, is acknowledged.\<close>

lemma RemoveFromCounts_eq:
  assumes "RemoveFromCounts i n b = Inr b'"
  shows "b' = b\<lparr>tx_sackedOut := (if it_sacked i then tx_sackedOut b - n else tx_sackedOut b),
    tx_retrans := (if it_retrans i then tx_retrans b - n else tx_retrans b),
    tx_lostOut := (if it_lost i then tx_lostOut b - n else tx_lostOut b)\<rparr>"
  using assms by (simp add: RemoveFromCounts_def require_def split: if_splits)

lemma discard_item:
  assumes "tx_data S w m y b" and "tx_counts b" and "tx_sentList b = item # rest"
    and "RemoveFromCounts item (item_size item) (b\<lparr>tx_size := tx_size b - item_size item,
      tx_sentSize := tx_sentSize b - item_size item, tx_firstByteSeq := tx_firstByteSeq b + item_size item\<rparr>) = Inr b'"
  shows "tx_data S (w + isz item) m y (b'\<lparr>tx_sentList := rest\<rparr>)" and "tx_counts (b'\<lparr>tx_sentList := rest\<rparr>)"
proof -
  note b' = RemoveFromCounts_eq [OF assms(4)]
  have "w + isz item \<le> m"
    using assms(1,3) items_at_le by (auto simp: tx_data_def)
  then show "tx_data S (w + isz item) m y (b'\<lparr>tx_sentList := rest\<rparr>)"
    using assms(1,3) tx_data_bounds [OF assms(1)] by (auto simp: tx_data_def b' item_size_of of_nat_diff)
  show "tx_counts (b'\<lparr>tx_sentList := rest\<rparr>)"
    using assms(2,3) by (auto simp: tx_counts_def b')
qed

lemma discard_part:
  assumes "tx_data S w m y b" and "tx_counts b" and "tx_sentList b = item # rest" and "0 < unat n" and "unat n < isz item"
    and "item' = item\<lparr>it_packet := CreateFragment (unat n) (unat (item_size item - n)) (it_packet item),
      it_startSeq := it_startSeq item + n\<rparr>"
    and "RemoveFromCounts item' n (b\<lparr>tx_sentList := item' # rest, tx_size := tx_size b - n,
      tx_sentSize := tx_sentSize b - n, tx_firstByteSeq := tx_firstByteSeq b + n\<rparr>) = Inr b'"
  shows "tx_data S (w + unat n) m y b'" and "tx_counts b'"
proof -
  note b' = RemoveFromCounts_eq [OF assms(7)]
  note bounds = tx_data_bounds [OF assms(1)]
  have item: "pk_bytes (fst (it_packet item)) = slice S w (w + isz item)" "items_at S (w + isz item) rest m"
    "it_startSeq item = seq_of w" "starts_at (w + isz item) rest"
    using assms(1,3) by (simp_all add: tx_data_def)
  then have "w + isz item \<le> m"
    using items_at_le by blast
  then have size: "unat (item_size item) = isz item"
    using bounds by (simp add: item_size_of unat_of_nat window_def)
  then have len: "unat (item_size item - n) = isz item - unat n"
    using assms(5) by (simp add: unat_sub word_le_nat_alt)
  have frag: "pk_bytes (fst (it_packet item')) = slice S (w + unat n) (w + isz item)" "isz item' = isz item - unat n"
    using CreateFragment_bytes [of "unat n" "isz item - unat n" "it_packet item"] assms(5)
      slice_slice [of w "w + unat n" "w + isz item" "w + isz item" S]
    by (simp_all add: assms(6) len item(1))
  have size': "item_size item' = item_size item - n"
    using assms(5) by (simp add: item_size_of frag(2) of_nat_diff)
  have flags: "it_sacked item' = it_sacked item" "it_lost item' = it_lost item" "it_retrans item' = it_retrans item"
    by (simp_all add: assms(6))
  have "it_startSeq item' = seq_of (w + unat n)"
    by (simp add: assms(6) item(3))
  then have "starts_at (w + unat n) (item' # rest)" "items_at S (w + unat n) (item' # rest) m"
    using item frag assms(5) by simp_all
  then show "tx_data S (w + unat n) m y b'"
    using assms(1,5) bounds \<open>w + isz item \<le> m\<close> by (auto simp: tx_data_def b' of_nat_diff)
  show "tx_counts b'"
    using assms(2,3) by (auto simp: tx_counts_def b' flags size')
qed

text \<open>Data that was not sent yet is always delivered, as much as is asked for and there is.\<close>

lemma copy_from_new:
  assumes data: "tx_data S w m y b" and counts: "tx_counts b" and "m < y" and "0 < unat num"
  shows "\<exists>i b'. copy_from (Suc fuel) now num (seq_of m) b = Inr (Some (length (tx_sentList b)), b') \<and>
    tx_sentList b' = tx_sentList b @ [i] \<and> carries S m (unat num) i \<and> isz i = min (unat num) (y - m) \<and> clean i \<and>
    tx_data S w (m + isz i) y b' \<and> tx_counts b'"
proof -
  note bounds = tx_data_bounds [OF data]
  have first: "tx_firstByteSeq b = seq_of w"
    using data by (simp add: tx_data_def)
  let ?n = "min num (SizeFromSequence (seq_of m) b)"
  have n: "unat ?n = min (unat num) (y - m)"
    using tx_data_size [OF data, of m] bounds by (simp add: min_def word_le_nat_alt)
  have npos: "0 < unat ?n" "unat ?n \<le> y - m"
    using n assms(3,4) by simp_all
  then have ne: "?n \<noteq> 0"
    by (metis unat_eq_zero less_irrefl)
  have near: "near w m" "near w (m + unat ?n)" "near w w"
    using tx_data_near [OF data] bounds npos by auto
  have plus: "seq_of m + ?n = seq_of (m + unat ?n)"
    by simp
  have no: "\<not> seq_greater (seq_of w) (seq_of m)" "\<not> seq_ge (seq_of m) (seq_of m + ?n)" "seq_le (seq_of m) (seq_of m)"
    using bounds npos by (simp_all only: plus seq_compare(1) [OF near(3,1)] seq_compare(3) [OF near(1,2)]
        seq_compare(2) [OF near(1,1)])
  from GetNewSegment_ok [OF data counts assms(3) npos] obtain i b1 where
    g: "GetNewSegment ?n b = Inr (i, b1)" "tx_sentList b1 = tx_sentList b @ [i]" "tx_data S w (m + unat ?n) y b1"
      "tx_counts b1" "carries S m (unat ?n) i" "clean i" "isz i = unat ?n"
    by auto
  have b1: "tx_firstByteSeq b1 = seq_of w"
    using g(3) by (simp add: tx_data_def)
  have item: "seq_ge (it_startSeq i) (seq_of w)" "\<not> it_retrans i"
    using g(5,6) seq_compare(3) [OF near(1,3)] bounds by (simp_all add: carries_def clean_def)
  let ?i = "i\<lparr>it_lastSent := now\<rparr>"
  let ?b = "b1\<lparr>tx_sentList := tx_sentList b @ [?i]\<rparr>"
  have "copy_from (Suc fuel) now num (seq_of m) b = Inr (Some (length (tx_sentList b)), ?b)"
    using ne no g(1,2) b1 item by (simp add: first Let_def require_def tx_data_seq(1) [OF data, unfolded first])
  moreover have "tx_data S w (m + unat ?n) y ?b"
    by (rule tx_data_same [OF g(3)]) (simp_all add: g(2))
  moreover have "tx_counts ?b"
    using g(2,4) by (simp add: tx_counts_def)
  ultimately show ?thesis
    using g(5-7) n by (intro exI [of _ ?i] exI [of _ ?b]) (simp add: carries_def clean_def)
qed

lemma sum_if_bound: "items_at S x l y \<Longrightarrow> y \<le> x + window \<Longrightarrow> unat (sum_if P l) \<le> y - x"
proof (induction l arbitrary: x)
  case (Cons i l)
  have "x + isz i \<le> y"
    using Cons.prems(1) items_at_le by auto
  then have "unat (sum_if P l) \<le> y - (x + isz i)" "unat (item_size i) = isz i"
    using Cons.IH [of "x + isz i"] Cons.prems by (simp_all add: item_size_of unat_of_nat window_def)
  moreover have "unat (item_size i + sum_if P l) \<le> unat (item_size i) + unat (sum_if P l)"
    by (simp only: unat_word_ariths(1) mod_less_eq_dividend)
  ultimately show ?case
    using \<open>x + isz i \<le> y\<close> by auto
qed simp

lemma sum_if_ge:
  assumes "items_at S x (i # l) y" and "y \<le> x + window" and "P i"
  shows "item_size i \<le> sum_if P (i # l)"
proof -
  have i: "x + isz i \<le> y" "items_at S (x + isz i) l y"
    using assms(1) items_at_le by auto
  have "unat (sum_if P l) \<le> y - (x + isz i)"
    using sum_if_bound [OF i(2)] assms(2) by simp
  moreover have "unat (item_size i) = isz i"
    using i(1) assms(2) by (simp add: item_size_of unat_of_nat window_def)
  ultimately have "unat (item_size i) + unat (sum_if P l) < 2 ^ 32"
    using i(1) assms(2) by (simp add: window_def)
  then have "unat (item_size i + sum_if P l) = unat (item_size i) + unat (sum_if P l)"
    by (simp add: unat_word_ariths)
  with assms(3) show ?thesis
    by (simp add: word_le_nat_alt)
qed

lemma RemoveFromCounts_total:
  assumes "tx_data S w m y b" and "tx_counts b" and "tx_sentList b = item # rest" and "n \<le> item_size item"
    and "it_sacked i = it_sacked item" and "it_lost i = it_lost item" and "it_retrans i = it_retrans item"
    and "tx_sackedOut b' = tx_sackedOut b" and "tx_lostOut b' = tx_lostOut b" and "tx_retrans b' = tx_retrans b"
  shows "\<exists>b1. RemoveFromCounts i n b' = Inr b1"
proof -
  have l: "items_at S w (item # rest) m" "m \<le> w + window"
    using assms(1,3) tx_data_bounds [OF assms(1)] by (simp_all add: tx_data_def)
  have le: "n \<le> sum_if P (item # rest)" if "P item" for P
    using sum_if_ge [where P = P, OF l that] assms(4) by (rule order_trans [rotated])
  have "tx_sackedOut b = sum_if it_sacked (item # rest)" "tx_lostOut b = sum_if it_lost (item # rest)"
    "tx_retrans b = sum_if it_retrans (item # rest)"
    using assms(2,3) by (simp_all add: tx_counts_def)
  with le [of it_sacked] le [of it_lost] le [of it_retrans] assms(5-10) show ?thesis
    by (auto simp: RemoveFromCounts_def require_def simp del: sum_if.simps)
qed

definition unsacked :: "TxBuffer \<Rightarrow> bool" where
  "unsacked b \<longleftrightarrow> (\<forall>i \<in> set (tx_sentList b). \<not> it_sacked i)"

lemma discard_loop_ok:
  assumes "tx_data S w m y b" and "tx_counts b" and "w \<le> z" and "z \<le> y" and "z - w < fuel"
  shows "\<exists>b' m'. discard_loop fuel now (of_nat (z - w)) b = Inr b' \<and> m \<le> m' \<and> z \<le> m' \<and> tx_data S z m' y b' \<and> tx_counts b' \<and>
    (unsacked b \<longrightarrow> unsacked b')"
  using assms
proof (induction fuel arbitrary: w m b)
  case (Suc fuel)
  note data = Suc.prems(1)
  note counts = Suc.prems(2)
  note bounds = tx_data_bounds [OF data]
  show ?case
  proof (cases "z = w")
    case True
    with data counts bounds show ?thesis
      by (intro exI [of _ b] exI [of _ m]) simp
  next
    case False
    let ?n = "of_nat (z - w) :: u32"
    have n: "unat ?n = z - w" "0 < unat ?n"
      using tx_data_len [OF data, of z w] Suc.prems(3,4) False by simp_all
    have size: "unat (tx_size b) = y - w"
      using data tx_data_len [OF data, of y w] by (simp add: tx_data_def)
    have ne: "tx_size b \<noteq> 0" "?n \<noteq> 0"
      using n size Suc.prems(3,4) False by (auto simp: unat_eq_0 [symmetric] simp del: of_nat_diff)
    obtain b1 m1 item rest where b1: "(if tx_sentList b = [] then
           then_do (CopyFromSequence now ?n (tx_firstByteSeq b) b) (\<lambda>(k, b).
             case k of None \<Rightarrow> Inl NullPointer | Some _ \<Rightarrow> require (tx_sentList b \<noteq> []) AssertFailed (Inr b))
         else Inr b) = Inr b1" "m \<le> m1" "tx_data S w m1 y b1" "tx_counts b1" "tx_sentList b1 = item # rest"
      "unsacked b \<longrightarrow> unsacked b1"
    proof (cases "tx_sentList b = []")
      case True
      with data have "m = w" "w < y" "tx_firstByteSeq b = seq_of m"
        using Suc.prems(3,4) False by (auto simp: tx_data_def)
      with copy_from_new [OF data counts _ n(2), of "Suc 0" now] obtain i b1 where
        "CopyFromSequence now ?n (tx_firstByteSeq b) b = Inr (Some (length (tx_sentList b)), b1)"
        "tx_sentList b1 = tx_sentList b @ [i]" "tx_data S w (m + isz i) y b1" "tx_counts b1" "clean i"
        by (auto simp: CopyFromSequence_def numeral_2_eq_2)
      then show ?thesis
        using True by (intro that [of b1 "m + isz i" i "[]"]) (auto simp: require_def unsacked_def clean_def)
    next
      case ne: False
      then show ?thesis
        using data counts by (cases "tx_sentList b") (auto intro: that)
    qed
    note bounds1 = tx_data_bounds [OF b1(3)]
    have item: "it_startSeq item = seq_of w" "w + isz item \<le> m1" "0 < isz item" "tx_firstByteSeq b1 = seq_of w"
      using b1(3,5) items_at_le by (auto simp: tx_data_def)
    have isz: "unat (item_size item) = isz item"
      using item(2) bounds1 by (simp add: item_size_of unat_of_nat window_def)
    show ?thesis
    proof (cases "item_size item \<le> ?n")
      case True
      then have le: "isz item \<le> z - w"
        using isz n by (simp add: word_le_nat_alt)
      let ?b = "b1\<lparr>tx_size := tx_size b1 - item_size item, tx_sentSize := tx_sentSize b1 - item_size item,
        tx_firstByteSeq := tx_firstByteSeq b1 + item_size item\<rparr>"
      obtain b2 where b2: "RemoveFromCounts item (item_size item) ?b = Inr b2"
        using RemoveFromCounts_total [OF b1(3-5), of "item_size item" item ?b] by auto
      note d = discard_item [OF b1(3-5) b2]
      have "?n - item_size item = of_nat (z - (w + isz item))"
        using le by (simp add: item_size_of of_nat_diff flip: diff_diff_left)
      moreover obtain b' m' where "discard_loop fuel now (of_nat (z - (w + isz item))) (b2\<lparr>tx_sentList := rest\<rparr>) = Inr b'"
        "m1 \<le> m'" "z \<le> m'" "tx_data S z m' y b'" "tx_counts b'" "unsacked b \<longrightarrow> unsacked b'"
      proof -
        have "w + isz item \<le> z" "z - (w + isz item) < fuel"
          using le item(3) Suc.prems(3,5) by linarith+
        moreover have "unsacked b1 \<Longrightarrow> unsacked (b2\<lparr>tx_sentList := rest\<rparr>)"
          by (simp add: unsacked_def b1(5))
        ultimately show ?thesis
          using Suc.IH [OF d _ Suc.prems(4)] that b1(6) by blast
      qed
      ultimately show ?thesis
        using ne b1 b2 item(1,4) True by (intro exI [of _ b'] exI [of _ m']) (simp add: require_def Let_def del: of_nat_diff)
    next
      case part: False
      then have lt: "unat ?n < isz item" "?n \<le> item_size item"
        using isz by (simp_all add: word_le_nat_alt)
      define i where "i = item\<lparr>it_packet := CreateFragment (unat ?n) (unat (item_size item - ?n)) (it_packet item),
        it_startSeq := it_startSeq item + ?n\<rparr>"
      let ?b = "b1\<lparr>tx_sentList := i # rest, tx_size := tx_size b1 - ?n, tx_sentSize := tx_sentSize b1 - ?n,
        tx_firstByteSeq := tx_firstByteSeq b1 + ?n\<rparr>"
      obtain b2 where b2: "RemoveFromCounts i ?n ?b = Inr b2"
        using RemoveFromCounts_total [OF b1(3-5) lt(2), of i ?b] by (auto simp: i_def)
      note d = discard_part [OF b1(3-5) n(2) lt(1) i_def b2]
      have at: "w + unat ?n = z"
        using n Suc.prems(3) by simp
      have "tx_data S z m1 y b2" "tx_counts b2"
        using d unfolding at by blast+
      moreover have "discard_loop (Suc fuel) now ?n b = Inr b2"
        using ne b1(1,5) b2 item(1,4) part by (simp add: require_def Let_def i_def del: of_nat_diff)
      moreover have kept: "unsacked b \<longrightarrow> unsacked b2"
        using b1(5,6) RemoveFromCounts_eq [OF b2] by (auto simp: unsacked_def i_def)
      ultimately show ?thesis
        using b1(2) tx_data_bounds kept by (intro exI [of _ b2] exI [of _ m1]) blast
    qed
  qed
qed simp

lemma relabels_startSeq: "relabels b b' \<Longrightarrow> tx_firstByteSeq b' = tx_firstByteSeq b"
  by (simp add: relabels_def)

text \<open>\<open>highestSack\<close> and the mode of the scoreboard are not part of the data.\<close>

lemma relabels_sack: "relabels b (b\<lparr>tx_highestSack := h\<rparr>)" "relabels b (b\<lparr>tx_renoSack := r\<rparr>)"
  by (simp_all add: relabels_def tx_counts_def)

lemma head_sacked_relabels:
  assumes "tx_sentList b = head # rest" and "it_sacked head"
  shows "relabels b (b\<lparr>tx_sentList := head\<lparr>it_sacked := False\<rparr> # rest, tx_sackedOut := tx_sackedOut b - item_size head\<rparr>)"
  using assms by (auto simp: relabels_def tx_counts_def)

lemma DiscardUpTo_eq:
  assumes data: "tx_data S w m y b" and counts: "tx_counts b" and "w < z" and "z \<le> y"
  obtains b1 m1 where "DiscardUpTo now (seq_of z) b = then_do (unsack_head (seq_of z) b1) (end_discard (seq_of z))"
    and "m \<le> m1" and "tx_data S z m1 y b1" and "tx_counts b1" and "unsacked b \<longrightarrow> unsacked b1"
proof -
  have first: "tx_firstByteSeq b = seq_of w"
    using data by (simp add: tx_data_def)
  have "w \<le> z"
    using assms(3) by simp
  have "near w w" "near w z"
    using tx_data_near [OF data] assms(3,4) by auto
  from seq_compare(3) [OF this] have no: "seq_ge (seq_of w) (seq_of z) = False"
    using assms(3) by simp
  let ?n = "seq_diff (seq_of z) (seq_of w)"
  have n: "?n = of_nat (z - w)" "unat ?n = z - w"
    using assms(3,4) tx_data_len [OF data, of z w] by (simp_all add: seq_diff_eq of_nat_diff)
  obtain b1 m1 where b1: "discard_loop (unat ?n + 1) now ?n b = Inr b1" "m \<le> m1" "tx_data S z m1 y b1" "tx_counts b1"
    "unsacked b \<longrightarrow> unsacked b1"
    using discard_loop_ok [OF data counts \<open>w \<le> z\<close> assms(4), of "unat ?n + 1" now] unfolding n(2) unfolding n(1) by auto
  have kept: "(if tx_size b1 = 0 then b1\<lparr>tx_firstByteSeq := seq_of z\<rparr> else b1) = b1"
    using b1(3) by (simp add: tx_data_def)
  have step: "then_do (Inr b1) k = k b1" for k :: "TxBuffer \<Rightarrow> TxBuffer outcome"
    by (simp add: then_do_def)
  have "DiscardUpTo now (seq_of z) b = then_do (unsack_head (seq_of z) b1) (end_discard (seq_of z))"
    by (simp only: DiscardUpTo_def first no b1(1) Let_def step kept if_False)
  with b1 that show thesis
    by blast
qed

lemma unsack_head_relabels:
  assumes "unsack_head s b = Inr b'"
  shows "relabels b b'"
proof (cases "tx_sentList b")
  case (Cons head rest)
  show ?thesis
  proof (cases "it_sacked head")
    case True
    with assms Cons obtain b4 where "AddRenoSack (b\<lparr>tx_sentList := head\<lparr>it_sacked := False\<rparr> # rest,
        tx_sackedOut := tx_sackedOut b - item_size head\<rparr>) = Inr b4" "b' = MarkHeadAsLost b4"
      by (auto simp: unsack_head_def require_def split: if_splits)
    with head_sacked_relabels [OF Cons True] AddRenoSack_relabels MarkHeadAsLost_relabels relabels_trans show ?thesis
      by metis
  qed (use assms Cons in \<open>auto simp: unsack_head_def require_def split: if_splits\<close>)
qed (use assms in \<open>auto simp: unsack_head_def\<close>)

lemma end_discard_relabels: "end_discard s b = Inr b' \<Longrightarrow> relabels b b'"
  using relabels_sack(1) by (auto simp: end_discard_def Let_def require_def split: if_splits)

lemma DiscardUpTo_ok:
  assumes "DiscardUpTo now (seq_of z) b = Inr b'" and data: "tx_data S w m y b" and counts: "tx_counts b"
    and "w \<le> z" and "z \<le> y"
  shows "\<exists>m'. m \<le> m' \<and> tx_data S z m' y b' \<and> tx_counts b'"
proof (cases "z = w")
  case True
  moreover have "seq_ge (seq_of w) (seq_of w)"
    by (simp add: seq_refl)
  ultimately have "b' = b"
    using assms(1) data by (simp add: DiscardUpTo_def tx_data_def)
  with True data counts show ?thesis
    by blast
next
  case False
  with assms(4) have "w < z"
    by simp
  then obtain b1 m1 where b1: "DiscardUpTo now (seq_of z) b = then_do (unsack_head (seq_of z) b1) (end_discard (seq_of z))"
    "m \<le> m1" "tx_data S z m1 y b1" "tx_counts b1"
    by (rule DiscardUpTo_eq [OF data counts _ assms(5)])
  with assms(1) obtain b2 where "unsack_head (seq_of z) b1 = Inr b2" "end_discard (seq_of z) b2 = Inr b'"
    by auto
  then have "relabels b1 b'"
    using unsack_head_relabels end_discard_relabels relabels_trans by blast
  with b1 show ?thesis
    using relabels_data relabels_counts by blast
qed

text \<open>Without marks an acknowledgement of written data always goes through.\<close>

lemma DiscardUpTo_returns:
  assumes data: "tx_data S w m y b" and counts: "tx_counts b" and "unsacked b" and "w \<le> z" and "z \<le> y"
  shows "\<exists>b'. DiscardUpTo now (seq_of z) b = Inr b' \<and> unsacked b'"
proof (cases "z = w")
  case True
  with data assms(3) show ?thesis
    by (simp add: DiscardUpTo_def tx_data_def)
next
  case False
  with assms(4) have "w < z"
    by simp
  then obtain b1 m1 where b1: "DiscardUpTo now (seq_of z) b = then_do (unsack_head (seq_of z) b1) (end_discard (seq_of z))"
    "tx_data S z m1 y b1" "tx_counts b1" "unsacked b1"
    by (rule DiscardUpTo_eq [OF data counts _ assms(5)]) (use assms(3) in blast)
  note bounds = tx_data_bounds [OF b1(2)]
  have l: "items_at S z (tx_sentList b1) m1" "starts_at z (tx_sentList b1)" "tx_firstByteSeq b1 = seq_of z"
    using b1(2) by (simp_all add: tx_data_def)
  have "unsack_head (seq_of z) b1 = Inr b1"
    using b1(4) l(2) by (cases "tx_sentList b1") (auto simp: unsack_head_def unsacked_def require_def)
  moreover have "tx_sackedOut b1 = 0"
    using b1(3,4) sum_if_none [of "tx_sentList b1" it_sacked] by (simp add: tx_counts_def unsacked_def)
  moreover have "tx_lostOut b1 \<le> tx_sentSize b1"
  proof -
    have "unat (tx_lostOut b1) \<le> m1 - z"
      using sum_if_bound [OF l(1), of it_lost] bounds b1(3) by (simp add: tx_counts_def)
    also have "m1 - z = unat (tx_sentSize b1)"
      using b1(2) tx_data_len [OF b1(2), of m1 z] bounds by (simp add: tx_data_def)
    finally show ?thesis
      by (simp add: word_le_nat_alt)
  qed
  ultimately show ?thesis
    using l(3) b1(4) by (auto simp: b1(1) end_discard_def Let_def require_def unsacked_def)
qed

lemma ResetLastSegmentSent_ok:
  assumes "tx_data S w m y b" and "tx_counts b" and "tx_sentList b \<noteq> [] \<Longrightarrow> clean (last (tx_sentList b))"
  shows "\<exists>m'. tx_data S w m' y (ResetLastSegmentSent b) \<and> tx_counts (ResetLastSegmentSent b)"
proof (cases "tx_sentList b" rule: rev_cases)
  case Nil
  with assms show ?thesis
    by (auto simp: ResetLastSegmentSent_def)
next
  case (snoc l i)
  then obtain z where z: "items_at S w l z" "items_at S z [i] m"
    using assms(1) by (auto simp: tx_data_def items_at_append)
  then have m: "w \<le> z" "m = z + isz i"
    using items_at_le by auto
  have "starts_at w l"
    using assms(1) by (simp add: tx_data_def snoc starts_at_append [OF z(1)])
  then have "tx_data S w z y (ResetLastSegmentSent b)"
    using assms(1) z m by (simp add: tx_data_def ResetLastSegmentSent_def snoc item_size_of)
  moreover have "tx_counts (ResetLastSegmentSent b)"
    using assms(2,3) by (auto simp: tx_counts_def ResetLastSegmentSent_def snoc clean_def)
  ultimately show ?thesis
    by blast
qed

section \<open>Runs\<close>

text \<open>The operations on the scoreboard that take nothing out of the buffer.\<close>

inductive scoreboard_op :: "TxBuffer \<Rightarrow> TxBuffer \<Rightarrow> bool" where
  Op_sacked: "TxBuffer_Update blks b = Inr (n, b') \<Longrightarrow> scoreboard_op b b'"
| Op_lost_count: "UpdateLostCount b = Inr b' \<Longrightarrow> scoreboard_op b b'"
| Op_reno: "AddRenoSack b = Inr b' \<Longrightarrow> scoreboard_op b b'"
| Op_reset_reno: "scoreboard_op b (ResetRenoSack b)"
| Op_head_lost: "scoreboard_op b (MarkHeadAsLost b)"
| Op_all_lost: "SetSentListLost reset b = Inr b' \<Longrightarrow> scoreboard_op b b'"
| Op_head_flag: "DeleteRetransmittedFlagFromHead b = Inr b' \<Longrightarrow> scoreboard_op b b'"

text \<open>
  A buffer in use: everything before \<open>w\<close> is acknowledged, everything before \<open>y\<close> was
  written.  A window probe takes the segment back that was sent last.
\<close>

inductive tx_run :: "(nat \<Rightarrow> u8) \<Rightarrow> nat \<Rightarrow> nat \<Rightarrow> nat \<Rightarrow> TxBuffer \<Rightarrow> bool" for S start where
  Tx_open: "unat maxb \<le> window \<Longrightarrow> SetHeadSequence (seq_of start) ((TxBuffer_new n)\<lparr>tx_maxBuffer := maxb,
      tx_dupAckThresh := dups, tx_segmentSize := segment, tx_sackEnabled := sack\<rparr>) = Inr b \<Longrightarrow>
    tx_run S start start start b"
| Tx_write: "tx_run S start w y b \<Longrightarrow> pk_bytes (fst p) = slice S y (y + GetSize (fst p)) \<Longrightarrow>
    GetSize (fst p) < 2 ^ 32 \<Longrightarrow> TxBuffer_Add p b = (True, b') \<Longrightarrow> tx_run S start w (y + GetSize (fst p)) b'"
| Tx_send: "tx_run S start w y b \<Longrightarrow> w \<le> q \<Longrightarrow> q \<le> y \<Longrightarrow>
    CopyFromSequence now num (seq_of q) b = Inr (r, b') \<Longrightarrow> tx_run S start w y b'"
| Tx_ack: "tx_run S start w y b \<Longrightarrow> w \<le> z \<Longrightarrow> z \<le> y \<Longrightarrow> DiscardUpTo now (seq_of z) b = Inr b' \<Longrightarrow>
    tx_run S start z y b'"
| Tx_scoreboard: "tx_run S start w y b \<Longrightarrow> scoreboard_op b b' \<Longrightarrow> tx_run S start w y b'"
| Tx_again: "tx_run S start w y b \<Longrightarrow> tx_run S start w y (ResetSentList b)"
| Tx_probe: "tx_run S start w y b \<Longrightarrow> (tx_sentList b \<noteq> [] \<longrightarrow> clean (last (tx_sentList b))) \<Longrightarrow>
    tx_run S start w y (ResetLastSegmentSent b)"

lemma scoreboard_op_relabels: "scoreboard_op b b' \<Longrightarrow> tx_data S w m y b \<Longrightarrow> relabels b b'"
  by (induction rule: scoreboard_op.induct)
    (auto intro: TxBuffer_Update_relabels UpdateLostCount_relabels AddRenoSack_relabels ResetRenoSack_relabels
      MarkHeadAsLost_relabels SetSentListLost_relabels DeleteRetransmittedFlagFromHead_relabels)

lemma tx_run_ok:
  assumes "tx_run S start w y b"
  shows "\<exists>m. tx_data S w m y b \<and> tx_counts b"
  using assms
proof induction
  case (Tx_open maxb n dups segment sack b)
  then show ?case
    by (auto simp: SetHeadSequence_def TxBuffer_new_def require_def Let_def tx_data_def tx_counts_def)
next
  case (Tx_write w y b p b')
  then show ?case
    using TxBuffer_Add_ok by blast
next
  case (Tx_send w y b q now num r b')
  then obtain m where "tx_data S w m y b" "tx_counts b"
    by blast
  from copy_from_ok [OF Tx_send.hyps(4) [unfolded CopyFromSequence_def] this Tx_send.hyps(2,3)] show ?case
    by blast
next
  case (Tx_ack w y b z now b')
  then show ?case
    using DiscardUpTo_ok by blast
next
  case (Tx_scoreboard w y b b')
  then show ?case
    using scoreboard_op_relabels relabels_data relabels_counts by blast
next
  case (Tx_again w y b)
  then show ?case
    using ResetSentList_ok by blast
next
  case (Tx_probe w y b)
  then show ?case
    using ResetLastSegmentSent_ok by blast
qed

section \<open>The first segment again\<close>

lemma GetPacket_head_part:
  assumes "items_at S w (cur # rest) m" and "starts_at w (cur # rest)" and "m \<le> w + window" and "0 < unat n" and "unat n \<le> isz cur"
  shows "\<exists>l rt' ids'. GetPacketFromList (Suc f) (Some (seq_of w)) (seq_of w) n (seq_of w) (cur # rest) rt ids = Inr (0, l, rt', ids') \<and>
    l \<noteq> [] \<and> it_sacked (l ! 0) = it_sacked cur"
proof -
  have cur: "pk_bytes (fst (it_packet cur)) = slice S w (w + isz cur)" "w + isz cur \<le> m" "0 < isz cur"
    using assms(1) items_at_le by auto
  have walk: "list_walk (Some (seq_of w)) (seq_of w) (seq_of w) [] (cur # rest) = Inr ([], cur, rest, seq_of w)"
    using list_walk_at [of S w "[]" cur rest m w w w "Some (seq_of w)" "[]"] assms(1-3) cur(3) by simp
  have near: "near w (w + unat n)" "near w (w + isz cur)"
    using cur(2) assms(3,5) by (auto simp: near_def)
  have num: "seq_of w + n = seq_of (w + unat n)"
    by simp
  have le: "seq_le (seq_of w + n) (seq_of w + item_size cur)"
    using assms(5) by (simp only: num seq_of_item seq_compare(2) [OF near] add_le_cancel_left)
  have size: "unat (item_size cur) = isz cur"
    using cur(2) assms(3) by (simp add: item_size_of unat_of_nat window_def)
  consider "n = item_size cur" | "n \<noteq> item_size cur" "n < item_size cur"
    using size assms(5) by (metis order_le_less word_le_nat_alt)
  then show ?thesis
  proof cases
    case 1
    with walk le show ?thesis
      by (simp del: list_walk.simps)
  next
    case 2
    obtain t1 t2 where sp: "SplitItems ids cur n = (t1, t2)"
      by fastforce
    from SplitItems_ok(7) [OF sp cur(1)] 2(2) size have "it_sacked t1 = it_sacked cur"
      by (simp add: word_less_nat_alt)
    with walk le 2 sp show ?thesis
      by (simp del: list_walk.simps)
  qed
qed

lemma GetPacket_head:
  assumes "items_at S w (cur # rest) m" and "starts_at w (cur # rest)" and "m \<le> w + window" and "0 < unat n"
    and "unat n \<le> isz cur \<or> (\<exists>nxt rest'. rest = nxt # rest' \<and> it_sacked cur = it_sacked nxt \<and> it_lost cur = it_lost nxt \<and>
      unat n \<le> isz cur + isz nxt)"
  shows "\<exists>l rt' ids'. GetPacketFromList (Suc (Suc f)) (Some (seq_of w)) (seq_of w) n (seq_of w) (cur # rest) rt ids = Inr (0, l, rt', ids') \<and>
    l \<noteq> [] \<and> it_sacked (l ! 0) = it_sacked cur"
proof (cases "unat n \<le> isz cur")
  case True
  then show ?thesis
    by (rule GetPacket_head_part [OF assms(1-4)])
next
  case False
  with assms(5) obtain nxt rest' where nxt: "rest = nxt # rest'" "it_sacked cur = it_sacked nxt" "it_lost cur = it_lost nxt"
    "unat n \<le> isz cur + isz nxt"
    by auto
  have cur: "pk_bytes (fst (it_packet cur)) = slice S w (w + isz cur)" "w + isz cur + isz nxt \<le> m" "0 < isz cur"
    "pk_bytes (fst (it_packet nxt)) = slice S (w + isz cur) (w + isz cur + isz nxt)"
    using assms(1) items_at_le by (auto simp: nxt(1))
  have walk: "list_walk (Some (seq_of w)) (seq_of w) (seq_of w) [] (cur # rest) = Inr ([], cur, rest, seq_of w)"
    using list_walk_at [of S w "[]" cur rest m w w w "Some (seq_of w)" "[]"] assms(1-3) cur(3) by simp
  have near: "near w (w + unat n)" "near w (w + isz cur)"
    using cur(2) nxt(4) assms(3) by (auto simp: near_def)
  have num: "seq_of w + n = seq_of (w + unat n)"
    by simp
  have gt: "\<not> seq_le (seq_of w + n) (seq_of w + item_size cur)"
    using False by (simp only: num seq_of_item seq_compare(2) [OF near] add_le_cancel_left not_False_eq_True)
  obtain t rt1 where m: "MergeItems cur nxt rt = Inr (t, rt1)"
    using nxt(2,3) by (cases "MergeItems cur nxt rt") (auto simp: MergeItems_def require_def Let_def split: prod.splits)
  note t = MergeItems_ok [OF m cur(1,4)]
  have rc: "recut S w m (cur # nxt # rest') rt (t # rest') rt1"
    using recut_merge [of S w "[]" cur nxt rest' m rt t rt1] assms(1) m by (simp add: nxt(1))
  then have l: "items_at S w (t # rest') m" "starts_at w (t # rest')"
    using assms(2) by (simp_all add: recut_def nxt(1))
  have "unat n \<le> isz t"
    using t(1) nxt(4) by simp
  from GetPacket_head_part [OF l assms(3,4) this, of f rt1 ids] show ?thesis
    using walk gt m t(4) by (simp add: nxt(1) del: list_walk.simps)
qed

lemma copy_from_head:
  assumes data: "tx_data S w m y b" and counts: "tx_counts b" and "tx_sentList b = cur # rest" and "\<not> it_sacked cur"
    and "0 < unat num" and "w + unat num \<le> m"
  shows "\<exists>b'. copy_from (Suc fuel) now num (seq_of w) b = Inr (Some 0, b')"
proof -
  note bounds = tx_data_bounds [OF data]
  have first: "tx_firstByteSeq b = seq_of w" and l: "items_at S w (cur # rest) m" "starts_at w (cur # rest)"
    using data assms(3) by (simp_all add: tx_data_def)
  have n: "min num (SizeFromSequence (seq_of w) b) = num" "num \<noteq> 0"
    using tx_data_size [OF data, of w] bounds assms(5,6) by (auto simp: min_def word_le_nat_alt)
  have near: "near w w" "near w m" "near w (w + unat num)"
    using tx_data_near [OF data] bounds assms(6) by auto
  have plus: "seq_of w + num = seq_of (w + unat num)"
    by simp
  have cmp: "\<not> seq_greater (seq_of w) (seq_of w)" "seq_ge (seq_of m) (seq_of w + num)" "seq_ge (seq_of w) (seq_of w)"
    using assms(6) by (simp_all only: plus seq_compare(1,3) [OF near(1,1)] seq_compare(3) [OF near(2,3)])
  have sent: "unat (tx_sentSize b) = m - w"
    using data tx_data_len [OF data, of m w] bounds by (simp add: tx_data_def)
  let ?n = "retransmit_size (seq_of w) num (cur # rest)"
  have size: "unat (item_size i) = isz i" if "items_at S x (i # l) m" "w \<le> x" for x i l
  proof -
    have "x + isz i \<le> m"
      using that(1) items_at_le by auto
    then show ?thesis
      using bounds that(2) by (simp add: item_size_of unat_of_nat window_def)
  qed
  have pos: "0 < unat ?n"
    using retransmit_size_pos [OF l(1), of num] n bounds assms(5) by (simp add: word_less_nat_alt)
  have "unat ?n \<le> isz cur \<or> (\<exists>nxt rest'. rest = nxt # rest' \<and> it_sacked cur = it_sacked nxt \<and> it_lost cur = it_lost nxt \<and>
      unat ?n \<le> isz cur + isz nxt)"
  proof (cases rest)
    case Nil
    with l(2) size [OF l(1)] show ?thesis
      by (simp add: min_def word_le_nat_alt)
  next
    case (Cons nxt rest')
    have "unat (item_size cur + item_size nxt) \<le> unat (item_size cur) + unat (item_size nxt)"
      by (simp only: unat_word_ariths(1) mod_less_eq_dividend)
    moreover have "unat (item_size nxt) = isz nxt"
      using size [of "w + isz cur" nxt rest'] l(1) by (simp add: Cons)
    ultimately show ?thesis
      using l(2) size [OF l(1)] assms(4) by (auto simp: min_def word_le_nat_alt Cons)
  qed
  from GetPacket_head [OF l _ pos this] bounds
  obtain l' rt ids where g: "GetPacketFromList (restarts (tx_sentList b)) (Some (seq_of w)) (seq_of w) ?n (seq_of w)
      (cur # rest) (tx_retrans b) (tx_next_id b) = Inr (0, l', rt, ids)" "l' \<noteq> []" "it_sacked (l' ! 0) = it_sacked cur"
    unfolding restarts_def add_2_eq_Suc' by (meson order_trans)
  let ?b = "b\<lparr>tx_sentList := l', tx_retrans := rt, tx_next_id := ids\<rparr>"
  have "num \<le> tx_sentSize b"
    using assms(6) sent by (simp add: word_le_nat_alt)
  with g(1) have t: "GetTransmittedSegment num (seq_of w) b = Inr (0, if \<not> it_retrans (l' ! 0)
      then ?b\<lparr>tx_sentList := l'[0 := (l' ! 0)\<lparr>it_retrans := True\<rparr>], tx_retrans := rt + item_size (l' ! 0)\<rparr> else ?b)"
    by (simp add: GetTransmittedSegment_def require_def first cmp(3) assms(3) Let_def then_do_def
        del: retransmit_size.simps)
  then obtain b1 where t: "GetTransmittedSegment num (seq_of w) b = Inr (0, b1)" "\<not> it_sacked (tx_sentList b1 ! 0)"
    "tx_firstByteSeq b1 = seq_of w"
    using g(2,3) assms(4) first by (cases l') auto
  have "carries S w (unat num) (tx_sentList b1 ! 0)"
    using GetTransmittedSegment_ok [OF t(1) data counts order.refl] assms(5,6) by simp
  then have "it_startSeq (tx_sentList b1 ! 0) = seq_of w"
    by (simp add: carries_def)
  with t cmp n show ?thesis
    by (simp add: first Let_def require_def tx_data_seq(1) [OF data, unfolded first])
qed

section \<open>Without selective acknowledgements\<close>

lemma sum_if_zero:
  assumes "items_at S x l y" and "y \<le> x + window" and "sum_if P l = 0" and "i \<in> set l"
  shows "\<not> P i"
proof
  assume "P i"
  obtain pre rest where l: "l = pre @ i # rest"
    using split_list [OF assms(4)] by blast
  then obtain z where z: "items_at S x pre z" "items_at S z (i # rest) y"
    using assms(1) by (auto simp: items_at_append)
  then have le: "x \<le> z" "z + isz i \<le> y" "0 < isz i"
    using items_at_le by auto
  have "unat (sum_if P pre) \<le> z - x"
    using sum_if_bound [OF z(1)] le assms(2) by simp
  moreover have tail: "unat (sum_if P (i # rest)) \<le> y - z"
    using sum_if_bound [OF z(2)] le(1) assms(2) by simp
  ultimately have "unat (sum_if P pre) + unat (sum_if P (i # rest)) < 2 ^ LENGTH(32)"
    using le assms(2) by (simp add: window_def)
  then have "unat (sum_if P l) = unat (sum_if P pre) + unat (sum_if P (i # rest))"
    unfolding l sum_if_append by (simp only: unat_add_lem)
  moreover have "item_size i \<le> sum_if P (i # rest)"
    using le assms(2) \<open>P i\<close> by (intro sum_if_ge [OF z(2)]) auto
  moreover have "unat (item_size i) = isz i"
    using le assms(2) by (simp add: item_size_of unat_of_nat window_def)
  ultimately show False
    using assms(3) le(3) by (simp add: word_le_nat_alt)
qed

lemma GetNewSegment_sackedOut: "GetNewSegment num b = Inr (i, b') \<Longrightarrow> tx_sackedOut b' = tx_sackedOut b"
  by (auto simp: GetNewSegment_def Let_def)

lemma GetTransmittedSegment_sackedOut: "GetTransmittedSegment num s b = Inr (k, b') \<Longrightarrow> tx_sackedOut b' = tx_sackedOut b"
  by (auto simp: GetTransmittedSegment_def Let_def require_def split: if_splits)

lemma copy_from_sackedOut: "copy_from fuel now num s b = Inr (r, b') \<Longrightarrow> tx_sackedOut b' = tx_sackedOut b"
proof (induction fuel arbitrary: num)
  case (Suc fuel)
  then show ?case
    by (auto simp: Let_def require_def dest: GetNewSegment_sackedOut GetTransmittedSegment_sackedOut split: if_splits)
qed simp

lemma copy_from_unsacked:
  assumes "copy_from fuel now num (seq_of q) b = Inr (r, b')"
    and data: "tx_data S w m y b" and counts: "tx_counts b" and q: "w \<le> q" "q \<le> y" and "unsacked b"
  shows "unsacked b'"
proof -
  from copy_from_ok [OF assms(1-5)] obtain m' where m': "tx_data S w m' y b'" "tx_counts b'"
    by blast
  have "tx_sackedOut b = 0"
    using counts assms(6) sum_if_none [of "tx_sentList b" it_sacked] by (simp add: tx_counts_def unsacked_def)
  then have "sum_if it_sacked (tx_sentList b') = 0"
    using m'(2) copy_from_sackedOut [OF assms(1)] by (simp add: tx_counts_def)
  then show ?thesis
    using sum_if_zero [of S w "tx_sentList b'" m' it_sacked] m'(1) tx_data_bounds [OF m'(1)]
    by (auto simp: unsacked_def tx_data_def)
qed

text \<open>One byte that is not acknowledged can always be sent, for the first time or again.\<close>

lemma copy_one:
  assumes data: "tx_data S w m y b" and counts: "tx_counts b" and "unsacked b" and "w < y"
  shows "\<exists>k b'. CopyFromSequence now 1 (seq_of w) b = Inr (Some k, b')"
proof (cases "tx_sentList b")
  case Nil
  with data have "m = w"
    by (simp add: tx_data_def)
  with copy_from_new [OF data counts, of 1 "Suc 0" now] assms(4) show ?thesis
    by (auto simp: CopyFromSequence_def numeral_2_eq_2)
next
  case (Cons i rest)
  then have "w < m" "\<not> it_sacked i"
    using data assms(3) items_at_le by (fastforce simp: tx_data_def unsacked_def)+
  with copy_from_head [OF data counts Cons, of 1 "Suc 0" now] show ?thesis
    by (auto simp: CopyFromSequence_def numeral_2_eq_2)
qed

section \<open>The rounds of a request\<close>

lemma copy_from_min: "copy_from fuel now (min num (SizeFromSequence s b)) s b = copy_from fuel now num s b"
  by (cases fuel) simp_all

text \<open>Two rounds of \<open>copy_from\<close> are enough: sent data needs one, a part of it the second.\<close>

lemma copy_from_sent_Inl:
  assumes data: "tx_data S w m y b" and q: "w \<le> q" "q + unat num \<le> m" and n: "0 < unat num"
    and "copy_from (Suc fuel) now num (seq_of q) b = Inl e"
  shows "e = AssertFailed"
proof -
  note bounds = tx_data_bounds [OF data]
  have sent: "items_at S w (tx_sentList b) m" "starts_at w (tx_sentList b)" "tx_firstByteSeq b = seq_of w"
    using data by (simp_all add: tx_data_def)
  have "unat (min num (SizeFromSequence (seq_of q) b)) = unat num"
    using tx_data_size [OF data q(1)] q(2) bounds(2) by (simp add: min_def word_le_nat_alt)
  then have size: "min num (SizeFromSequence (seq_of q) b) = num" "num \<noteq> 0"
    using n by (simp_all only: word_unat_eq_iff, auto)
  have near: "near w w" "near w q" "near w m" "near w (q + unat num)"
    using tx_data_near [OF data] q bounds by auto
  have plus: "seq_of q + num = seq_of (q + unat num)"
    by simp
  have cmp: "\<not> seq_greater (seq_of w) (seq_of q)" "seq_ge (seq_of m) (seq_of q + num)"
    using q by (simp_all only: plus seq_compare(1) [OF near(1,2)] seq_compare(3) [OF near(3,4)] not_less)
  have "e = AssertFailed" if g: "GetTransmittedSegment num (seq_of q) b = Inl e"
  proof -
    let ?n = "retransmit_size (seq_of q) num (tx_sentList b)"
    have "unat ?n \<le> window"
      using retransmit_size_le [of "seq_of q" num "tx_sentList b"] q bounds by (simp add: word_le_nat_alt)
    moreover have "from_ok w (Some (seq_of w)) w (tx_sentList b)" "m \<le> w + window" "q < m"
      using sent(2) bounds q(2) n by (simp_all add: from_ok_def)
    ultimately have "e' = AssertFailed" if "GetPacketFromList (restarts (tx_sentList b)) (Some (seq_of w)) (seq_of w) ?n
        (seq_of q) (tx_sentList b) (tx_retrans b) (tx_next_id b) = Inl e'" for e'
      using GetPacketFromList_Inl [OF sent(1) q(1) _ _ _ order.refl _ that] by blast
    with g show ?thesis
      by (auto simp: GetTransmittedSegment_def require_def then_do_def sent(3) Let_def split: if_splits sum.splits prod.splits)
  qed
  with assms(5) size cmp show ?thesis
    by (auto simp: sent(3) Let_def require_def then_do_def tx_data_seq(1) [OF data, unfolded sent(3)]
        split: sum.splits prod.splits if_splits)
qed

lemma CopyFromSequence_finishes:
  assumes data: "tx_data S w m y b" and counts: "tx_counts b" and q: "w \<le> q" "q \<le> y"
  shows "CopyFromSequence now num (seq_of q) b \<noteq> Inl Unfinished"
proof
  assume c: "CopyFromSequence now num (seq_of q) b = Inl Unfinished"
  note bounds = tx_data_bounds [OF data]
  have first: "tx_firstByteSeq b = seq_of w"
    using data by (simp add: tx_data_def)
  let ?n = "min num (SizeFromSequence (seq_of q) b)"
  have c: "copy_from (Suc (Suc 0)) now ?n (seq_of q) b = Inl Unfinished"
    using c by (simp add: CopyFromSequence_def numeral_2_eq_2 copy_from_min del: copy_from.simps)
  have n: "unat ?n = min (unat num) (y - q)"
    using tx_data_size [OF data q] by (simp add: min_def word_le_nat_alt)
  have idem: "min ?n (SizeFromSequence (seq_of q) b) = ?n"
    by simp
  have near: "near w w" "near w q" "near w m" "near w (q + unat ?n)"
    using tx_data_near [OF data] q bounds n by auto
  have ahead: "\<not> seq_greater (seq_of w) (seq_of q)"
    using q by (simp only: seq_compare(1) [OF near(1,2)] not_less)
  have plus: "seq_of q + ?n = seq_of (q + unat ?n)"
    by simp
  have pos: "0 < unat ?n"
  proof (rule ccontr)
    assume "\<not> 0 < unat ?n"
    then have "?n = 0"
      by (simp add: unat_eq_0)
    with c ahead show False
      by (simp add: first require_def Let_def)
  qed
  consider "q + unat ?n \<le> m" | "m < q" | "m = q" | "q < m" "m < q + unat ?n"
    by linarith
  then show False
  proof cases
    case 1
    from copy_from_sent_Inl [OF data q(1) this pos c] show ?thesis
      by simp
  next
    case 2
    then have "\<not> seq_ge (seq_of m) (seq_of q + ?n)" "seq_le (seq_of m) (seq_of q)" "seq_of m \<noteq> seq_of q"
      using pos by (simp_all only: plus seq_compare(2,5) [OF near(3,2)] seq_compare(3) [OF near(3,4)])
    with c ahead show ?thesis
      by (auto simp: first require_def Let_def tx_data_seq(1) [OF data, unfolded first] split: if_splits)
  next
    case 3
    with copy_from_new [OF data counts, of ?n "Suc 0" now] c pos n show ?thesis
      by (auto simp del: copy_from.simps)
  next
    case 4
    then have "\<not> seq_ge (seq_of m) (seq_of q + ?n)" "\<not> seq_le (seq_of m) (seq_of q)"
      by (simp_all only: plus seq_compare(2) [OF near(3,2)] seq_compare(3) [OF near(3,4)] not_le)
    with c ahead have rec: "copy_from (Suc 0) now (seq_of m - seq_of q) (seq_of q) b = Inl Unfinished"
      by (subst (asm) copy_from.simps) (auto simp: first require_def Let_def tx_data_seq(1) [OF data, unfolded first]
          simp del: copy_from.simps split: if_splits)
    have "m - q < 2 ^ 32"
      using bounds q by (simp add: window_def)
    then have "unat (seq_of m - seq_of q) = m - q"
      using 4 by (simp add: seq_of_diff)
    with copy_from_sent_Inl [OF data q(1) _ _ rec] 4 show ?thesis
      by simp
  qed
qed

section \<open>The view of the application\<close>

definition app_view :: "TxBuffer \<Rightarrow> TcpTxBuffer" where
  "app_view b = \<lparr>tb_maxBuffer = tx_maxBuffer b, tb_size = tx_size b, tb_appList = map it_packet (tx_appList b),
     tb_firstByteSeq = tx_firstByteSeq b\<rparr>"

lemma app_view_Add: "map_prod id app_view (TxBuffer_Add p b) = TcpTxBuffer_Add p (app_view b)"
  by (simp add: TxBuffer_Add_def TcpTxBuffer_Add_def app_view_def tx_Available_def Available_def TcpTxItem_new_def)

lemma app_view_room: "tx_Available b = Available (app_view b)" "tx_TailSequence b = TailSequence (app_view b)"
  by (simp_all add: app_view_def tx_Available_def Available_def tx_TailSequence_def TailSequence_def)

section \<open>Properties\<close>

definition item_bytes :: "TcpTxItem list \<Rightarrow> u8 list" where
  "item_bytes l = concat (map (\<lambda>i. pk_bytes (fst (it_packet i))) l)"

lemma items_at_bytes: "items_at S x l y \<Longrightarrow> item_bytes l = slice S x y"
proof (induction l arbitrary: x)
  case Nil
  then show ?case
    by (simp add: item_bytes_def slice_def)
next
  case (Cons i l)
  then have "item_bytes l = slice S (x + isz i) y" "x + isz i \<le> y"
    using items_at_le by auto
  with Cons.prems slice_append [of x "x + isz i" y S] show ?case
    by (simp add: item_bytes_def)
qed


text \<open>
  C29: A segment that the buffer hands out, be it new or sent before, in one piece or put together
  from others, is numbered as asked for and carries the bytes of the stream from there on, at most
  as many as asked for; there is none only when no byte is asked for or left.
\<close>

theorem tx_sends_stream:
  assumes "tx_run S start w y b" and "w \<le> q" and "q \<le> y" and "CopyFromSequence now num (seq_of q) b = Inr (r, b')"
  shows "case r of None \<Rightarrow> b' = b \<and> (num = 0 \<or> q = y)
    | Some k \<Rightarrow> k < length (tx_sentList b') \<and>
        (let i = tx_sentList b' ! k
         in it_startSeq i = seq_of q \<and> pk_bytes (fst (it_packet i)) = slice S q (q + isz i) \<and>
            0 < isz i \<and> isz i \<le> unat num \<and> q + isz i \<le> y)"
proof -
  obtain m where "tx_data S w m y b" "tx_counts b"
    using tx_run_ok [OF assms(1)] by blast
  from copy_from_ok [OF assms(4) [unfolded CopyFromSequence_def] this assms(2,3)] obtain m' where
    m': "tx_data S w m' y b'" "case r of None \<Rightarrow> b' = b \<and> (num = 0 \<or> q = y)
      | Some k \<Rightarrow> k < length (tx_sentList b') \<and> carries S q (unat num) (tx_sentList b' ! k) \<and>
          q + isz (tx_sentList b' ! k) \<le> m'"
    by blast
  with tx_data_bounds(2) [OF m'(1)] show ?thesis
    by (auto simp: carries_def Let_def split: option.splits)
qed

text \<open>
  The first segment that was not acknowledged can always be sent again, unless it is marked as
  acknowledged or the request reaches past the largest sequence number.
\<close>

theorem tx_head_again:
  assumes "tx_run S start w y b" and "tx_sentList b = i # rest" and "\<not> it_sacked i" and "0 < unat num"
    and "unat (tx_firstByteSeq b) + unat num < 2 ^ 32"
  shows "\<exists>b'. CopyFromSequence now num (tx_firstByteSeq b) b = Inr (Some 0, b') \<and>
    carries S w (unat num) (tx_sentList b' ! 0)"
proof -
  obtain m where m: "tx_data S w m y b" "tx_counts b"
    using tx_run_ok [OF assms(1)] by blast
  note bounds = tx_data_bounds [OF m(1)]
  have first: "tx_firstByteSeq b = seq_of w"
    using m(1) by (simp add: tx_data_def)
  have "w < m"
    using m(1) assms(2) items_at_le by (fastforce simp: tx_data_def)
  let ?n = "min num (SizeFromSequence (seq_of w) b)"
  have n: "unat ?n = min (unat num) (y - w)"
    using tx_data_size [OF m(1), of w] bounds by (simp add: min_def word_le_nat_alt)
  have "\<exists>b'. CopyFromSequence now num (seq_of w) b = Inr (Some 0, b')"
  proof (cases "w + unat ?n \<le> m")
    case True
    with copy_from_head [OF m assms(2,3), of ?n "Suc 0" now] n assms(4) \<open>w < m\<close> bounds show ?thesis
      by (simp add: CopyFromSequence_def numeral_2_eq_2 copy_from_min del: copy_from.simps)
  next
    case False
    let ?d = "seq_of m - seq_of w"
    have d: "unat ?d = m - w"
      using \<open>w < m\<close> bounds by (simp add: seq_of_diff window_def)
    have near: "near w w" "near w m" "near w (w + unat ?n)"
      using tx_data_near [OF m(1)] bounds n by auto
    have plus: "seq_of w + ?n = seq_of (w + unat ?n)"
      by simp
    have cmp: "\<not> seq_ge (seq_of m) (seq_of w + ?n)" "\<not> seq_le (seq_of m) (seq_of w)"
      using False \<open>w < m\<close> by (simp_all only: plus seq_compare(2) [OF near(2,1)] seq_compare(3) [OF near(2,3)] not_le)
    have raw: "unat (seq_of m) = unat (seq_of w) + (m - w)" "unat (seq_of w + ?n) = unat (seq_of w) + unat ?n"
    proof -
      have "unat (seq_of w) + unat ?n < 2 ^ 32"
        using assms(5) n by (simp add: first)
      then show "unat (seq_of w + ?n) = unat (seq_of w) + unat ?n"
        by (simp add: unat_word_ariths)
      have "unat (seq_of w) + unat ?d < 2 ^ LENGTH(32)"
        using \<open>unat (seq_of w) + unat ?n < 2 ^ 32\<close> False \<open>w < m\<close> unfolding d by simp
      then have "unat (seq_of w + ?d) = unat (seq_of w) + unat ?d"
        by (simp only: unat_add_lem)
      then show "unat (seq_of m) = unat (seq_of w) + (m - w)"
        using d by simp
    qed
    have "seq_of w < seq_of m" "seq_of m < seq_of w + ?n" "?n \<noteq> 0"
      using raw False \<open>w < m\<close> by (auto simp: word_less_nat_alt unat_eq_0 [symmetric])
    with cmp have "CopyFromSequence now num (seq_of w) b = copy_from (Suc 0) now ?d (seq_of w) b"
      by (simp add: CopyFromSequence_def numeral_2_eq_2 first Let_def require_def tx_data_seq(1) [OF m(1), unfolded first]
          del: copy_from.simps(1))
    with copy_from_head [OF m assms(2,3), of ?d 0 now] d \<open>w < m\<close> show ?thesis
      by (simp del: copy_from.simps)
  qed
  then obtain b' where b': "CopyFromSequence now num (seq_of w) b = Inr (Some 0, b')"
    by blast
  from copy_from_ok [OF this [unfolded CopyFromSequence_def] m order.refl] bounds b' show ?thesis
    by (auto simp: first)
qed

text \<open>Eight bytes that cross the end of the sequence numbers, of which five are sent.\<close>

definition example_tx :: TxBuffer where
  "example_tx = (TxBuffer_new 0xFFFFFFFA)\<lparr>tx_maxBuffer := 100, tx_dupAckThresh := 3, tx_segmentSize := 5\<rparr>"

definition example_written :: TxBuffer where
  "example_written = snd (TxBuffer_Add (example_data [1, 2, 3, 4, 5, 6, 7, 8]) example_tx)"

text \<open>After \<open>n\<close> bytes were sent.\<close>

definition example_sent :: "u32 \<Rightarrow> TxBuffer" where
  "example_sent n = (case CopyFromSequence 0 n 0xFFFFFFFA example_written of Inl _ \<Rightarrow> example_tx | Inr (_, b) \<Rightarrow> b)"

lemma example_sent_items:
  "map (\<lambda>i. (it_startSeq i, pk_bytes (fst (it_packet i)))) (tx_sentList (example_sent 5)) = [(0xFFFFFFFA, [1, 2, 3, 4, 5])]"
  "item_bytes (tx_appList (example_sent 5)) = [6, 7, 8]"
  by code_simp+

lemma example_copy:
  "map_sum id (\<lambda>(r, b). (r, b = example_sent 5)) (CopyFromSequence 0 5 0xFFFFFFFA example_written) = Inr (Some 0, True)"
  "TxBuffer_Add (example_data [1, 2, 3, 4, 5, 6, 7, 8]) example_tx = (True, example_written)"
  by code_simp+

lemma probe_counts:
  "tx_lostOut (ResetLastSegmentSent (MarkHeadAsLost (example_sent 5))) = 5"
  "tx_sentList (ResetLastSegmentSent (MarkHeadAsLost (example_sent 5))) = []"
  by code_simp+

text \<open>
  The part that was sent is not found when the sequence numbers of the request begin again at 0.
\<close>

lemma partial_segment_wrap: "map_sum id fst (CopyFromSequence 0 8 0xFFFFFFFA (example_sent 5)) = Inl NullPointer"
  by code_simp

lemma example_open: "tx_run example_byte 4294967290 4294967290 4294967290 example_tx"
proof (rule Tx_open)
  show "SetHeadSequence (seq_of 4294967290) ((TxBuffer_new 0)\<lparr>tx_maxBuffer := 100, tx_dupAckThresh := 3,
      tx_segmentSize := 5, tx_sackEnabled := True\<rparr>) = Inr example_tx"
    by (simp add: SetHeadSequence_def TxBuffer_new_def example_tx_def require_def)
qed (simp add: window_def)

lemma example_write: "tx_run example_byte 4294967290 4294967290 4294967298 example_written"
  using Tx_write [OF example_open, of "example_data [1, 2, 3, 4, 5, 6, 7, 8]"] example_copy(2)
  by (simp add: example_data_def slice_def example_byte_def)

lemma example_send: "CopyFromSequence 0 5 0xFFFFFFFA example_written = Inr (Some 0, example_sent 5)"
  using example_copy(1) by (auto simp: map_sum_def split: sum.splits)

lemma example_send_run: "tx_run example_byte 4294967290 4294967290 4294967298 (example_sent 5)"
  by (rule Tx_send [OF example_write, where q = 4294967290]) (use example_send in simp_all)


lemma tx_sends_stream_witness:
  "pk_bytes (fst (it_packet (tx_sentList (example_sent 5) ! 0))) = slice example_byte 4294967290 4294967295"
proof -
  have "isz (tx_sentList (example_sent 5) ! 0) = 5"
    by code_simp
  then show ?thesis
    using tx_sends_stream [OF example_write, of 4294967290 0 5 "Some 0" "example_sent 5"] example_send
    by (simp add: Let_def)
qed

lemma tx_head_again_witness:
  "\<exists>b'. CopyFromSequence 7 5 0xFFFFFFFA (example_sent 5) = Inr (Some 0, b') \<and>
     carries example_byte 4294967290 5 (tx_sentList b' ! 0)"
proof -
  obtain i where i: "tx_sentList (example_sent 5) = [i]"
    using example_sent_items(1) by auto
  have "map it_sacked (tx_sentList (example_sent 5)) = [False]" "tx_firstByteSeq (example_sent 5) = 0xFFFFFFFA"
    by code_simp+
  then show ?thesis
    using tx_head_again [OF example_send_run i, of 5 7] by (simp add: i)
qed

end
