(* ===== verification/Tcp_Stream.thy ===== *)
theory Tcp_Stream
  imports Tcp_Tx_Stream
begin

text \<open>
  A transmit buffer and a receive buffer at the two ends of one direction of a TCP connection, with a
  network between them that loses, repeats and reorders segments and acknowledgements.  Which
  operation comes when is left open: whatever the congestion control and the timers of the socket
  decide is one of the runs.  What the socket does between the network and the buffers is in the
  guards: segments outside the receive window are dropped (\<^verbatim>\<open>TcpSocketBase::OutOfRange\<close>) and so
  are acknowledgements of what is known to be received (\<^verbatim>\<open>ProcessEstablished\<close>).
\<close>

section \<open>State and steps\<close>

text \<open>
  \<open>c_una\<close> is what the sender knows to be received, \<open>c_end\<close> what was written.  Segments in the
  network have their position in the stream; the number they carry is \<open>seq_of\<close> of it.
\<close>

record connection =
  c_una :: nat
  c_end :: nat
  c_out :: "u8 list"
  c_tx :: TxBuffer
  c_rx :: TcpRxBuffer
  c_net :: "(nat \<times> tagged) set"
  c_acks :: "nat set"

text \<open>The position up to which the application has read.\<close>

abbreviation c_read :: "nat \<Rightarrow> connection \<Rightarrow> nat" where
  "c_read start c \<equiv> start + length (c_out c)"

text \<open>
  A segment stays in the network: it may be delivered often, late or never.  One that is older than
  a window, or that does not fit into the receive window, is not given to the buffer.
\<close>

inductive conn_step :: "(nat \<Rightarrow> u8) \<Rightarrow> nat \<Rightarrow> connection \<Rightarrow> connection \<Rightarrow> bool" for S start where
  Write: "pk_bytes (fst p) = slice S (c_end c) (c_end c + GetSize (fst p)) \<Longrightarrow> GetSize (fst p) < 2 ^ 32 \<Longrightarrow>
    TxBuffer_Add p (c_tx c) = (True, b) \<Longrightarrow>
    conn_step S start c (c\<lparr>c_tx := b, c_end := c_end c + GetSize (fst p)\<rparr>)"
| Send: "c_una c \<le> q \<Longrightarrow> q \<le> c_end c \<Longrightarrow> CopyFromSequence now num (seq_of q) (c_tx c) = Inr (Some k, b) \<Longrightarrow>
    conn_step S start c (c\<lparr>c_tx := b, c_net := insert (q, it_packet (tx_sentList b ! k)) (c_net c)\<rparr>)"
| Deliver: "(a, p) \<in> c_net c \<Longrightarrow> c_read start c \<le> a + window \<Longrightarrow> a + GetSize (fst p) \<le> c_read start c + window \<Longrightarrow>
    TcpRxBuffer_Add p (seq_of a) (c_rx c) = Inr (r, b) \<Longrightarrow> conn_step S start c (c\<lparr>c_rx := b\<rparr>)"
| Read: "Extract m (c_rx c) = Inr (r, b) \<Longrightarrow> conn_step S start c (c\<lparr>c_rx := b, c_out := c_out c @ read_bytes r\<rparr>)"
| Acknowledge: "rx_nextRxSeq (c_rx c) = seq_of n \<Longrightarrow> c_read start c \<le> n \<Longrightarrow> n \<le> c_read start c + window \<Longrightarrow>
    conn_step S start c (c\<lparr>c_acks := insert n (c_acks c)\<rparr>)"
| Acked: "z \<in> c_acks c \<Longrightarrow> c_una c \<le> z \<Longrightarrow> DiscardUpTo now (seq_of z) (c_tx c) = Inr b \<Longrightarrow>
    conn_step S start c (c\<lparr>c_tx := b, c_una := z\<rparr>)"
| Scoreboard: "scoreboard_op (c_tx c) b \<Longrightarrow> conn_step S start c (c\<lparr>c_tx := b\<rparr>)"
| Again: "conn_step S start c (c\<lparr>c_tx := ResetSentList (c_tx c)\<rparr>)"
| Probe: "(tx_sentList (c_tx c) \<noteq> [] \<longrightarrow> clean (last (tx_sentList (c_tx c)))) \<Longrightarrow>
    conn_step S start c (c\<lparr>c_tx := ResetLastSegmentSent (c_tx c)\<rparr>)"

definition conn_opened :: "nat \<Rightarrow> connection \<Rightarrow> bool" where
  "conn_opened start c \<longleftrightarrow> c_una c = start \<and> c_end c = start \<and> c_out c = [] \<and> c_net c = {} \<and> c_acks c = {} \<and>
     (\<exists>n maxb dups segment sack. unat maxb \<le> window \<and>
        SetHeadSequence (seq_of start) ((TxBuffer_new n)\<lparr>tx_maxBuffer := maxb, tx_dupAckThresh := dups,
          tx_segmentSize := segment, tx_sackEnabled := sack\<rparr>) = Inr (c_tx c)) \<and>
     (\<exists>maxb. unat maxb \<le> window \<and> c_rx c = (TcpRxBuffer_new (seq_of start))\<lparr>rx_maxBuffer := maxb\<rparr>)"

inductive conn_reached :: "(nat \<Rightarrow> u8) \<Rightarrow> nat \<Rightarrow> connection \<Rightarrow> bool" for S start where
  Opened: "conn_opened start c \<Longrightarrow> conn_reached S start c"
| Step: "conn_reached S start c \<Longrightarrow> conn_step S start c c' \<Longrightarrow> conn_reached S start c'"

section \<open>The invariant\<close>

lemma rx_ok_longer:
  assumes "rx_ok S L lo n bs b" and "\<not> rx_gotFin b" and "L \<le> L'"
  shows "rx_ok S L' lo n bs b"
  using assms unfolding rx_ok_def next_position_def by auto

definition connected :: "(nat \<Rightarrow> u8) \<Rightarrow> nat \<Rightarrow> connection \<Rightarrow> nat \<Rightarrow> block list \<Rightarrow> bool" where
  "connected S start c n bs \<longleftrightarrow> tx_run S start (c_una c) (c_end c) (c_tx c) \<and>
     rx_ok S (c_end c) (c_read start c) n bs (c_rx c) \<and> \<not> rx_gotFin (c_rx c) \<and>
     c_out c = slice S start (c_read start c) \<and> c_una c \<le> n \<and> (\<forall>z \<in> c_acks c. z \<le> n) \<and>
     (\<forall>(a, p) \<in> c_net c. pk_bytes (fst p) = slice S a (a + GetSize (fst p)) \<and> a + GetSize (fst p) \<le> c_end c)"

lemma connected_opened:
  assumes "conn_opened start c"
  shows "\<exists>n bs. connected S start c n bs"
proof -
  obtain maxb where rx: "unat maxb \<le> window" "c_rx c = (TcpRxBuffer_new (seq_of start))\<lparr>rx_maxBuffer := maxb\<rparr>"
    using assms by (auto simp: conn_opened_def)
  from assms have "tx_run S start start start (c_tx c)"
    by (auto simp: conn_opened_def intro: Tx_open)
  moreover obtain bs where "rx_ok S start start start bs (c_rx c)"
    using rx_ok_new [of start start maxb S] rx by auto
  moreover have "\<not> rx_gotFin (c_rx c)"
    by (simp add: rx(2) TcpRxBuffer_new_def)
  ultimately show ?thesis
    using assms by (intro exI [of _ start] exI [of _ bs]) (simp add: conn_opened_def connected_def slice_def)
qed

lemma connected_tx:
  assumes "connected S start c n bs" and "tx_run S start (c_una c) (c_end c) b"
  shows "connected S start (c\<lparr>c_tx := b\<rparr>) n bs"
  using assms by (simp add: connected_def)

lemma connected_step:
  assumes "connected S start c n bs" and "conn_step S start c c'"
  shows "\<exists>n' bs'. connected S start c' n' bs'"
  using assms(2)
proof cases
  case (Write p b)
  have "tx_run S start (c_una c) (c_end c + GetSize (fst p)) b"
    using assms(1) Write(2-4) by (auto simp: connected_def intro: Tx_write)
  moreover have "rx_ok S (c_end c + GetSize (fst p)) (c_read start c) n bs (c_rx c)"
    using assms(1) by (auto simp: connected_def intro: rx_ok_longer)
  ultimately have "connected S start c' n bs"
    using assms(1) unfolding connected_def Write(1) by (auto intro: trans_le_add1)
  then show ?thesis
    by blast
next
  case (Send q now num k b)
  have run: "tx_run S start (c_una c) (c_end c) (c_tx c)"
    using assms(1) by (simp add: connected_def)
  then obtain m where "tx_data S (c_una c) m (c_end c) (c_tx c)" "tx_counts (c_tx c)"
    using tx_run_ok by blast
  from copy_from_ok [OF Send(4) [unfolded CopyFromSequence_def] this Send(2,3)] obtain m' where
    m': "tx_data S (c_una c) m' (c_end c) b" "carries S q (unat num) (tx_sentList b ! k)" "q + isz (tx_sentList b ! k) \<le> m'"
    by auto
  moreover have "tx_run S start (c_una c) (c_end c) b"
    using Tx_send [OF run Send(2-4)] .
  ultimately have "connected S start c' n bs"
    using assms(1) tx_data_bounds(2) [OF m'(1)] unfolding connected_def Send(1) by (auto simp: carries_def)
  then show ?thesis
    by blast
next
  case (Deliver a p r b)
  have "pk_bytes (fst p) = slice S a (a + GetSize (fst p))" "a + GetSize (fst p) \<le> c_end c"
    and ok: "rx_ok S (c_end c) (c_read start c) n bs (c_rx c)"
    using assms(1) Deliver(2) by (auto simp: connected_def)
  from TcpRxBuffer_Add_ok [OF ok this(1) Deliver(3,4) le_add1 this(2)] Deliver(5) obtain bs' n' where
    "rx_ok S (c_end c) (c_read start c) n' bs' b" "n \<le> n'" "rx_gotFin b = rx_gotFin (c_rx c)"
    by auto
  then have "connected S start c' n' bs'"
    using assms(1) unfolding connected_def Deliver(1) by (auto intro: order_trans)
  then show ?thesis
    by blast
next
  case (Read m r b)
  have ok: "rx_ok S (c_end c) (c_read start c) n bs (c_rx c)" "c_out c = slice S start (c_read start c)"
    using assms(1) by (auto simp: connected_def)
  define k where "k = min (unat m) (n - c_read start c)"
  from Extract_ok [OF ok(1) k_def] Read(2) obtain bs' where
    r: "read_bytes r = slice S (c_read start c) (c_read start c + k)" "rx_ok S (c_end c) (c_read start c + k) n bs' b"
      "rx_gotFin b = rx_gotFin (c_rx c)"
    by (auto simp: read_bytes_def)
  then have len: "start + length (c_out c @ read_bytes r) = c_read start c + k"
    by simp
  moreover have "c_out c @ read_bytes r = slice S start (c_read start c + k)"
    unfolding r(1) by (subst ok(2)) (simp add: slice_append)
  ultimately have "connected S start c' n bs'"
    using assms(1) r(2,3) unfolding connected_def Read(1) by (simp add: add.assoc)
  then show ?thesis
    by blast
next
  case (Acknowledge z)
  have ok: "rx_ok S (c_end c) (c_read start c) n bs (c_rx c)" "\<not> rx_gotFin (c_rx c)"
    using assms(1) by (auto simp: connected_def)
  have "rx_nextRxSeq (c_rx c) = seq_of n"
    using rx_okD(9) [OF ok(1)] ok(2) by (simp add: next_position_def)
  moreover have "near (c_read start c) z" "near (c_read start c) n"
    using Acknowledge(3,4) rx_okD(5) [OF ok(1)] rx_n_bound [OF ok(1)] by (auto simp: near_def)
  ultimately have "z = n"
    using Acknowledge(2) seq_compare(5) by metis
  then have "connected S start c' n bs"
    using assms(1) unfolding connected_def Acknowledge(1) by auto
  then show ?thesis
    by blast
next
  case (Acked z now b)
  have z: "z \<le> n" "n \<le> c_end c" "tx_run S start (c_una c) (c_end c) (c_tx c)"
    using assms(1) Acked(2) rx_okD(6) by (auto simp: connected_def)
  then have "tx_run S start z (c_end c) b"
    using Acked(3,4) by (intro Tx_ack [OF z(3)]) auto
  then have "connected S start c' n bs"
    using assms(1) z(1) unfolding connected_def Acked(1) by auto
  then show ?thesis
    by blast
next
  case (Scoreboard b)
  then show ?thesis
    using assms(1) connected_tx Tx_scoreboard unfolding connected_def by blast
next
  case Again
  then show ?thesis
    using assms(1) connected_tx Tx_again unfolding connected_def by blast
next
  case Probe
  then show ?thesis
    using assms(1) connected_tx Tx_probe unfolding connected_def by blast
qed

lemma conn_reached_connected: "conn_reached S start c \<Longrightarrow> \<exists>n bs. connected S start c n bs"
  by (induction rule: conn_reached.induct) (blast intro: connected_opened connected_step)+

section \<open>Progress\<close>

text \<open>No selective acknowledgement is in use, and the receive buffer has room for something.\<close>

definition plain :: "connection \<Rightarrow> bool" where
  "plain c \<longleftrightarrow> unsacked (c_tx c) \<and> 0 < unat (rx_maxBuffer (c_rx c))"

abbreviation conn_steps :: "(nat \<Rightarrow> u8) \<Rightarrow> nat \<Rightarrow> connection \<Rightarrow> connection \<Rightarrow> bool" where
  "conn_steps S start \<equiv> (conn_step S start)\<^sup>*\<^sup>*"

lemma connected_steps:
  "conn_steps S start c c' \<Longrightarrow> connected S start c n bs \<Longrightarrow> \<exists>n' bs'. connected S start c' n' bs'"
  by (induction arbitrary: n bs rule: rtranclp_induct) (blast dest: connected_step)+

lemma connected_next: "connected S start c n bs \<Longrightarrow> rx_nextRxSeq (c_rx c) = seq_of n"
  using rx_okD(9) by (fastforce simp: connected_def next_position_def)

lemma connected_read:
  assumes "connected S start c n bs"
  shows "c_read start c \<le> n" and "n \<le> c_end c" and "n \<le> c_read start c + window" and "c_una c \<le> n"
  using assms rx_okD(5,6) rx_n_bound by (auto simp: connected_def)

lemma read_all:
  assumes "connected S start c n bs"
  shows "\<exists>c' bs'. conn_step S start c c' \<and> connected S start c' n bs' \<and> c_read start c' = n \<and> c_tx c' = c_tx c \<and>
    c_una c' = c_una c \<and> c_end c' = c_end c \<and> c_out c' = slice S start n \<and>
    (\<exists>r b. Extract (rx_availBytes (c_rx c)) (c_rx c) = Inr (r, b) \<and> c' = c\<lparr>c_rx := b, c_out := c_out c @ read_bytes r\<rparr>) \<and>
    rx_maxBuffer (c_rx c') = rx_maxBuffer (c_rx c)"
proof -
  let ?m = "rx_availBytes (c_rx c)"
  have ok: "rx_ok S (c_end c) (c_read start c) n bs (c_rx c)" "c_out c = slice S start (c_read start c)"
    using assms by (auto simp: connected_def)
  note le = connected_read [OF assms]
  have "n - c_read start c < 2 ^ 32"
    using le(3) by (simp add: window_def)
  then have avail: "unat ?m = n - c_read start c"
    by (simp add: rx_okD(11) [OF ok(1)] unat_of_nat del: of_nat_diff)
  from Extract_ok [OF ok(1), of "n - c_read start c" ?m] obtain r b bs' where
    r: "Extract ?m (c_rx c) = Inr (r, b)" "read_bytes r = slice S (c_read start c) n" "rx_ok S (c_end c) n n bs' b"
      "rx_gotFin b = rx_gotFin (c_rx c)" "rx_maxBuffer b = rx_maxBuffer (c_rx c)"
    using le(1) by (auto simp: avail read_bytes_def)
  let ?c = "c\<lparr>c_rx := b, c_out := c_out c @ read_bytes r\<rparr>"
  have out: "c_out c @ read_bytes r = slice S start n"
    unfolding r(2) by (subst ok(2)) (use le(1) in \<open>simp add: slice_append\<close>)
  moreover have "c_read start ?c = n"
    using le(1) by (simp add: r(2))
  ultimately have "connected S start ?c n bs'"
    using assms r(3,4) unfolding connected_def by auto
  with \<open>c_read start ?c = n\<close> out r(1,5) Read [OF r(1), of S start] show ?thesis
    by (intro exI [of _ ?c] exI [of _ bs']) auto
qed

text \<open>What has arrived is acknowledged, and the acknowledgement arrives.\<close>

lemma acknowledge_all:
  assumes "connected S start c n bs" and "plain c"
  shows "\<exists>c'. conn_steps S start c c' \<and> connected S start c' n bs \<and> plain c' \<and> c_una c' = n \<and> c_end c' = c_end c"
proof -
  let ?a = "c\<lparr>c_acks := insert n (c_acks c)\<rparr>"
  note le = connected_read [OF assms(1)]
  have step1: "conn_step S start c ?a"
    using le(1,3) connected_next [OF assms(1)] by (intro Acknowledge) auto
  have conn1: "connected S start ?a n bs"
    using assms(1) by (auto simp: connected_def)
  have "tx_run S start (c_una c) (c_end c) (c_tx c)"
    using assms(1) by (simp add: connected_def)
  then obtain m where m: "tx_data S (c_una c) m (c_end c) (c_tx c)" "tx_counts (c_tx c)"
    using tx_run_ok by blast
  obtain b where b: "DiscardUpTo 0 (seq_of n) (c_tx c) = Inr b" "unsacked b"
    using DiscardUpTo_returns [OF m _ le(4,2), of 0] assms(2) by (auto simp: plain_def)
  let ?b = "?a\<lparr>c_tx := b, c_una := n\<rparr>"
  have step2: "conn_step S start ?a ?b"
    using le(4) b(1) by (intro Acked) auto
  have "tx_run S start n (c_end c) b"
    using conn1 le(2,4) b(1) by (auto simp: connected_def intro: Tx_ack)
  then have "connected S start ?b n bs"
    using conn1 by (auto simp: connected_def)
  moreover have "conn_steps S start c ?b"
    using step1 step2 by (meson rtranclp.intros)
  ultimately show ?thesis
    using assms(2) b(2) by (intro exI [of _ ?b]) (simp add: plain_def)
qed

text \<open>When everything that arrived was read and acknowledged, one more byte gets through.\<close>

lemma send_one:
  assumes "connected S start c n bs" and "plain c" and "c_read start c = n" and "c_una c = n" and "n < c_end c"
  shows "\<exists>c' n' bs'. conn_steps S start c c' \<and> connected S start c' n' bs' \<and> plain c' \<and> n < n' \<and> c_end c' = c_end c"
proof -
  have run: "tx_run S start n (c_end c) (c_tx c)" and ok: "rx_ok S (c_end c) n n bs (c_rx c)"
    using assms by (auto simp: connected_def)
  obtain m where m: "tx_data S n m (c_end c) (c_tx c)" "tx_counts (c_tx c)"
    using tx_run_ok [OF run] by blast
  have "unsacked (c_tx c)"
    using assms(2) by (simp add: plain_def)
  from copy_one [OF m this assms(5), of 0] obtain k b where
    k: "CopyFromSequence 0 1 (seq_of n) (c_tx c) = Inr (Some k, b)"
    by blast
  have tx: "tx_run S start n (c_end c) b"
    using Tx_send [OF run order.refl _ k] assms(5) by simp
  have unsacked: "unsacked b"
    using copy_from_unsacked [OF k [unfolded CopyFromSequence_def] m order.refl _ \<open>unsacked (c_tx c)\<close>] assms(5) by simp
  from copy_from_ok [OF k [unfolded CopyFromSequence_def] m order.refl] assms(5) obtain i where
    i: "i = tx_sentList b ! k" "carries S n 1 i"
    by auto
  let ?p = "it_packet i"
  have p: "pk_bytes (fst ?p) = slice S n (n + 1)" "GetSize (fst ?p) = 1"
  proof -
    have "isz i = 1"
      using i(2) by (simp add: carries_def)
    with i(2) show "pk_bytes (fst ?p) = slice S n (n + 1)" "GetSize (fst ?p) = 1"
      by (simp_all add: carries_def)
  qed
  let ?a = "c\<lparr>c_tx := b, c_net := insert (n, ?p) (c_net c)\<rparr>"
  have step1: "conn_step S start c ?a"
    using Send [of c n 0 1 k b S start] k assms(4,5) by (simp add: i(1))
  from TcpRxBuffer_Add_ok [OF ok p(1)] assms(5) obtain r rb bs' n' where
    rx: "TcpRxBuffer_Add ?p (seq_of n) (c_rx c) = Inr (r, rb)" "rx_ok S (c_end c) n n' bs' rb" "n \<le> n'"
      "held bs' = held bs \<union> {n..<min (n + 1) (limit bs (c_rx c) (n + 1))}" "rx_gotFin rb = rx_gotFin (c_rx c)"
      "rx_maxBuffer rb = rx_maxBuffer (c_rx c)"
    by (auto simp: window_def)
  let ?b = "?a\<lparr>c_rx := rb\<rparr>"
  have step2: "conn_step S start ?a ?b"
    by (rule Deliver [where a = n and p = ?p]) (use rx(1) p(2) assms(3) in \<open>simp_all add: window_def\<close>)
  have "n < limit bs (c_rx c) (n + 1)"
  proof (cases bs)
    case (Cons x xs)
    then have "fst x \<in> held bs"
      using rx_okD(2) [OF ok] by (simp add: held_def blocks_ok_def)
    from rx_okD(4) [OF ok this] show ?thesis
      using assms(2) by (simp add: limit_def Cons plain_def)
  qed (simp add: limit_def)
  then have "n \<in> held bs'"
    unfolding rx(4) by simp
  then have "n < n'"
    using rx_okD(8) [OF rx(2)] rx(3) by (metis order_le_less)
  moreover have "connected S start ?b n' bs'"
    using assms(1,3,4) tx rx(2,3,5) p assms(5) unfolding connected_def by (auto intro: order_trans)
  moreover have "conn_steps S start c ?b"
    using step1 step2 by (meson rtranclp.intros)
  ultimately show ?thesis
    using assms(2) unsacked rx(6) by (intro exI [of _ ?b] exI [of _ n'] exI [of _ bs']) (simp add: plain_def)
qed

text \<open>Reading, acknowledging and sending in turn brings everything over.\<close>

lemma plain_read: "plain c \<Longrightarrow> c_tx c' = c_tx c \<Longrightarrow> rx_maxBuffer (c_rx c') = rx_maxBuffer (c_rx c) \<Longrightarrow> plain c'"
  by (simp add: plain_def)

lemma conn_completes:
  assumes "connected S start c n bs" and "plain c"
  shows "\<exists>c'. conn_steps S start c c' \<and> c_out c' = slice S start (c_end c) \<and> c_una c' = c_end c \<and> c_end c' = c_end c"
  using assms
proof (induction "c_end c - n" arbitrary: c n bs rule: less_induct)
  case less
  from read_all [OF less.prems(1)] obtain c1 bs1 where c1: "conn_step S start c c1" "connected S start c1 n bs1"
    "c_read start c1 = n" "plain c1" "c_end c1 = c_end c" "c_out c1 = slice S start n"
    using plain_read less.prems(2) by blast
  from acknowledge_all [OF c1(2,4)] obtain c2 where c2: "conn_steps S start c1 c2" "connected S start c2 n bs1" "plain c2"
    "c_una c2 = n" "c_end c2 = c_end c"
    using c1(5) by auto
  from read_all [OF c2(2)] obtain c3 bs3 where c3: "conn_step S start c2 c3" "connected S start c3 n bs3"
    "c_read start c3 = n" "plain c3" "c_una c3 = n" "c_end c3 = c_end c" "c_out c3 = slice S start n"
    using plain_read c2(3-5) by metis
  have steps: "conn_steps S start c c3"
    using c1(1) c2(1) c3(1) by (meson converse_rtranclp_into_rtranclp rtranclp.rtrancl_into_rtrancl)
  show ?case
  proof (cases "n < c_end c")
    case False
    then have "n = c_end c"
      using connected_read(2) [OF less.prems(1)] by simp
    with steps c3(5-7) show ?thesis
      by (intro exI [of _ c3]) simp
  next
    case True
    with send_one [OF c3(2,4,3,5)] c3(6) obtain c4 n' bs' where
      c4: "conn_steps S start c3 c4" "connected S start c4 n' bs'" "plain c4" "n < n'" "c_end c4 = c_end c"
      by auto
    have "c_end c4 - n' < c_end c - n"
      using c4(4,5) True by simp
    from less.hyps [OF this c4(2,3)] c4(5) obtain c' where
      "conn_steps S start c4 c'" "c_out c' = slice S start (c_end c)" "c_una c' = c_end c" "c_end c' = c_end c"
      by auto
    with steps c4(1) show ?thesis
      by (meson rtranclp_trans)
  qed
qed

section \<open>Properties\<close>

text \<open>
  C26: Whatever is lost, repeated, reordered, cut anew and sent again between a sender and a receiver,
  the receiving application reads a prefix of what the sending application wrote, and the sender
  has forgotten only bytes that the receiver has.
\<close>

theorem tcp_delivers_prefix:
  assumes "conn_reached S start c"
  shows "c_out c = slice S start (c_read start c) \<and> c_read start c \<le> c_end c \<and>
    (\<exists>n. rx_nextRxSeq (c_rx c) = seq_of n \<and> tx_firstByteSeq (c_tx c) = seq_of (c_una c) \<and> c_una c \<le> n \<and> n \<le> c_end c \<and>
       unat (rx_availBytes (c_rx c)) = n - c_read start c)"
proof -
  obtain n bs where conn: "connected S start c n bs"
    using conn_reached_connected [OF assms] by blast
  note le = connected_read [OF conn]
  have ok: "rx_ok S (c_end c) (c_read start c) n bs (c_rx c)"
    using conn by (simp add: connected_def)
  have "tx_firstByteSeq (c_tx c) = seq_of (c_una c)"
    using conn tx_run_ok by (fastforce simp: connected_def tx_data_def)
  moreover have "n - c_read start c < 2 ^ 32"
    using le(3) by (simp add: window_def)
  then have "unat (rx_availBytes (c_rx c)) = n - c_read start c"
    by (simp add: rx_okD(11) [OF ok] unat_of_nat del: of_nat_diff)
  ultimately show ?thesis
    using conn le connected_next [OF conn] by (intro conjI exI [of _ n]) (auto simp: connected_def)
qed


text \<open>The first five of eight bytes are sent; they arrive and are read, or they are lost.\<close>

definition example_conn :: "nat \<Rightarrow> TxBuffer \<Rightarrow> connection" where
  "example_conn e b = \<lparr>c_una = 4294967290, c_end = e, c_out = [], c_tx = b, c_rx = example_rx, c_net = {}, c_acks = {}\<rparr>"

definition example_segment :: tagged where
  "example_segment = it_packet (tx_sentList (example_sent 5) ! 0)"

definition example_in_flight :: connection where
  "example_in_flight = (example_conn 4294967298 (example_sent 5))\<lparr>c_net := {(4294967290, example_segment)}\<rparr>"

definition example_received :: "(packet option \<times> TcpRxBuffer) outcome" where
  "example_received = then_do (TcpRxBuffer_Add example_segment 0xFFFFFFFA example_rx) (\<lambda>(_, b). Extract 100 b)"

lemma example_received_result: "map_sum id (\<lambda>(r, b). read_bytes r) example_received = Inr [1, 2, 3, 4, 5]"
  by code_simp

lemma example_in_flight_reached: "conn_reached example_byte 4294967290 example_in_flight"
proof -
  have "conn_opened 4294967290 (example_conn 4294967290 example_tx)"
    unfolding conn_opened_def example_conn_def
    by (intro conjI exI [of _ 0] exI [of _ 100] exI [of _ 3] exI [of _ 5] exI [of _ True])
      (simp_all add: SetHeadSequence_def TxBuffer_new_def example_tx_def require_def window_def)
  then have "conn_reached example_byte 4294967290 (example_conn 4294967290 example_tx)"
    by (rule Opened)
  then have "conn_reached example_byte 4294967290 (example_conn 4294967298 example_written)"
    by (rule Step) (use Write [of "example_data [1, 2, 3, 4, 5, 6, 7, 8]" example_byte "example_conn 4294967290 example_tx"
          example_written 4294967290] example_copy(2) in
        \<open>simp add: example_conn_def example_data_def slice_def example_byte_def\<close>)
  then show ?thesis
    by (rule Step) (use Send [of "example_conn 4294967298 example_written" 4294967290 0 5 0 "example_sent 5" example_byte
          4294967290] example_send in \<open>simp add: example_conn_def example_in_flight_def example_segment_def\<close>)
qed

lemma tcp_delivers_prefix_witness:
  "\<exists>c. conn_reached example_byte 4294967290 c \<and> c_out c = [1, 2, 3, 4, 5] \<and> slice example_byte 4294967290 4294967295 = c_out c"
proof -
  from example_received_result obtain r0 b0 r b where
    b: "TcpRxBuffer_Add example_segment 0xFFFFFFFA example_rx = Inr (r0, b0)" "Extract 100 b0 = Inr (r, b)"
      "read_bytes r = [1, 2, 3, 4, 5]"
    by (auto simp: example_received_def map_sum_def then_do_def split: sum.splits)
  have "isz (tx_sentList (example_sent 5) ! 0) = 5"
    by code_simp
  then have size: "GetSize (fst example_segment) = 5"
    by (simp add: example_segment_def)
  let ?c = "example_in_flight\<lparr>c_rx := b0\<rparr>"
  have "conn_step example_byte 4294967290 example_in_flight ?c"
    by (rule Deliver [where a = 4294967290 and p = example_segment])
      (use b(1) size in \<open>simp_all add: example_in_flight_def example_conn_def window_def\<close>)
  with example_in_flight_reached have "conn_reached example_byte 4294967290 ?c"
    by (rule Step)
  then have run: "conn_reached example_byte 4294967290 (?c\<lparr>c_rx := b, c_out := c_out ?c @ read_bytes r\<rparr>)"
    by (rule Step) (rule Read, use b(2) in simp)
  have "c_out (?c\<lparr>c_rx := b, c_out := c_out ?c @ read_bytes r\<rparr>) = [1, 2, 3, 4, 5]"
    by (simp add: b(3) example_in_flight_def example_conn_def)
  moreover have "c_out example_in_flight = []"
    by (simp add: example_in_flight_def example_conn_def)
  ultimately show ?thesis
    using run tcp_delivers_prefix [OF run] by (intro exI [of _ "?c\<lparr>c_rx := b, c_out := c_out ?c @ read_bytes r\<rparr>"])
      (simp add: b(3))
qed


end
