(* ===== verification/Spec2Isabelle.thy ===== *)
theory Spec2Isabelle
  imports Tags CCN CNRS Manager Multipath_Props Cybertwin_App Duplex_Stream Topology Simulator
    Client_Connection Calendar Tcp_Stream
begin

text \<open>
  \<^bold>\<open>FISim: a verification development.\<close>

  FISim extends the ns-3 simulator with two network architectures.  In the cybertwin
  architecture an end host does not talk to its peers itself: a daemon registers the host at
  the manager of an edge server, the manager creates a cybertwin, a process that represents
  the host in the network, and cybertwins find each other's interfaces through a hierarchical
  name resolution service and exchange data over multipath connections.  In the
  content-centric architecture a node asks for a name and gets the content from whichever node
  holds it.  Paths below are relative to the repository, in which the modules are under
  \<^verbatim>\<open>src/\<close>.

  \<^bold>\<open>Theories.\<close>

  \<^item> \<open>FISim_Prelude\<close>: integer widths, faults, sequencing of handlers over
    \<open>fault + state \<times> actions\<close>, \<^verbatim>\<open>Ipv4Address\<close> with its initialised flag, and the
    locale \<open>name_store\<close>, the contract of a table of names that is filled by inserts.
  \<^item> \<open>Wire\<close>: the byte layer of \<^verbatim>\<open>network/model\<close> (\<^verbatim>\<open>buffer\<close>,
    \<^verbatim>\<open>tag-buffer\<close>, the header operations of \<^verbatim>\<open>packet\<close>), with the locales
    \<open>field_codec\<close> (what a written field promises to its reader; seven interpretations) and
    \<open>header_codec\<close> (what a header promises to a packet).
  \<^item> \<open>Headers\<close>: the headers of \<^verbatim>\<open>cybertwin/model/cybertwin-header.cc\<close> and
    \<^verbatim>\<open>internet/model/ccn-header.cc\<close>, each an interpretation of \<open>header_codec\<close>.
    The lemmas show round trips, exact sizes and when adding a header fails.
  \<^item> \<open>Tags\<close>: the tags of \<^verbatim>\<open>cybertwin-tag.cc\<close> and
    \<^verbatim>\<open>cybertwin-packet-tags.cc\<close> over \<open>tag_codec\<close>; two tag classes announce
    less than they write and are shown never to be addable.
  \<^item> \<open>CCN\<close>: \<^verbatim>\<open>ccn-l4-protocol.cc\<close>, \<^verbatim>\<open>ccn-content-consumer.cc\<close>,
    \<^verbatim>\<open>ccn-content-producer.cc\<close> and the two applications.  The lookup is a longest
    prefix match, and a fetch transfers the file exactly.
  \<^item> \<open>CNRS\<close>: \<^verbatim>\<open>networks/cybertwin-name-resolution-service.cc\<close>.  A node's
    service is a record; its behaviour over time is the step relation \<open>nrs_step\<close>, with an
    invariant over the reachable states.  Resolution is shown across three levels.
  \<^item> \<open>Manager\<close>: \<^verbatim>\<open>cybertwin-manager.cc\<close> and
    \<^verbatim>\<open>cybertwin-endhost-daemon.cc\<close>.  The handlers refine an abstract registry of
    identifiers and keep the ports of different cybertwins apart.
  \<^item> \<open>Multipath\<close> and \<open>Multipath_Props\<close>:
    \<^verbatim>\<open>networks/multipath-data-transfer-protocol.cc\<close>.  Paths and connections point at
    each other, so a host is a heap of both; the properties cover connection set-up, joining of
    paths, path choice, delivery and closing.
  \<^item> \<open>Cybertwin_App\<close>: the class \<^verbatim>\<open>Cybertwin\<close> of
    \<^verbatim>\<open>cybertwin.cc\<close>, with its download relay, its streams to other cybertwins, its
    traffic shaper and its policer.  The shaper is shown to be a token bucket and the policer to
    keep its limit over every sequence of events; the stream tables have an invariant over the
    reachable states of \<open>ct_step\<close>.
  \<^item> \<open>Duplex_Stream\<close>: the class \<^verbatim>\<open>CybertwinFullDuplexStream\<close> of the same file, with
    order and rate of the cloud-to-end direction and the defects of the other direction.
  \<^item> \<open>Addresses\<close>: the text form of addresses (\<^verbatim>\<open>network/utils/ipv4-address.cc\<close>), the
    simulator-wide address generator (\<^verbatim>\<open>internet/model/ipv4-address-generator.cc\<close>), the
    address helper (\<^verbatim>\<open>internet/helper/ipv4-address-helper.cc\<close>) and the numbering of a
    network as the topology file writes it.  The generator's block list refines a set of
    addresses and is an interpretation of the locale \<open>unique_allocator\<close>; numbering yields
    host addresses of the network, each handed out once.
  \<^item> \<open>Applications\<close>: the download servers, the download clients and the bulk sender
    (\<^verbatim>\<open>cybertwin-app-download-server.cc\<close>, \<^verbatim>\<open>cybertwin-app-download-client.cc\<close> and
    \<^verbatim>\<open>apps/\<close>).  The three senders are interpretations of the locale \<open>paced_sender\<close>,
    in which it is proved once that a sender reaches its limit and stops.
  \<^item> \<open>Nodes\<close>: \<^verbatim>\<open>cybertwin-node.cc\<close>, with what each class of node starts when it
    is powered on, and the installation of applications by \<^verbatim>\<open>cybertwin-app-helper.cc\<close>.
  \<^item> \<open>Topology\<close>: \<^verbatim>\<open>topology-read/model/cybertwin-topology-reader.cc\<close>.  The reader's
    state holds the nodes, the names and the address generator; every parsing step keeps it well
    formed, addresses are unique over the whole topology, and the core servers form a star of
    name resolution services.
  \<^item> \<open>Schedulers\<close>: the event schedulers of \<^verbatim>\<open>core/model\<close> on lists, maps, heaps and
    priority queues.  The locales \<open>event_queue\<close> and \<open>event_scheduler\<close> state what the
    simulator relies on; every scheduler is an interpretation, the heap of the first only, since
    its \<^verbatim>\<open>Remove\<close> can lose the order.  \<open>queue_pair\<close> shows that two
    schedulers cannot be told apart.
  \<^item> \<open>Calendar\<close>: \<^verbatim>\<open>core/model/calendar-scheduler.cc\<close>, an array of buckets that
    is resized as events come and go.  The search for the next event is shown to find the earliest
    one although its 64-bit bounds wrap; the locales \<open>timed_queue\<close> and \<open>timed_pair\<close>
    state what a queue promises to a user who never inserts into the past.
  \<^item> \<open>Simulator\<close>: \<^verbatim>\<open>core/model/default-simulator-impl.cc\<close>, the event loop under
    everything else.  Its invariant relates the pending events to the identifiers that were issued;
    from it follow the order of execution, the exactness of \<^verbatim>\<open>IsExpired\<close> and the end of
    a run.
  \<^item> \<open>Stream_Socket\<close>: fragments of packets, the transmit buffer of a TCP socket
    (\<^verbatim>\<open>internet/model/tcp-tx-buffer.cc\<close>) and \<^verbatim>\<open>TcpSocketBase::Send\<close>.  The
    locale \<open>stream_socket\<close> is what a sender may rely on, \<open>buffered_socket\<close> adds
    what room in a buffer means; the TCP socket is an interpretation of both.
  \<^item> \<open>Sequence_Number\<close> and \<open>Tcp_Rx_Buffer\<close>: TCP sequence numbers
    (\<^verbatim>\<open>network/utils/sequence-number.h\<close>), whose order wraps, and the receive buffer
    (\<^verbatim>\<open>internet/model/tcp-rx-buffer.cc\<close>) with its selective acknowledgements.  The
    reference is the stream of bytes itself: the invariant \<open>rx_ok\<close> relates the buffer to
    positions in it, what the application reads is a prefix of it, and what is reported as held is
    held.
  \<^item> \<open>Tcp_Tx_Buffer\<close> and \<open>Tcp_Tx_Stream\<close>: the transmit buffer in full
    (\<^verbatim>\<open>internet/model/tcp-tx-buffer.cc\<close>), with its scoreboard.  The invariant
    \<open>tx_data\<close> relates its two lists to positions in the stream, \<open>tx_counts\<close> its counters to
    the flags; every operation of a run (\<open>tx_run\<close>) keeps both.  The search for a segment runs
    on fuel, the number of items and two, a request for a segment on two rounds, an
    acknowledgement on one more round than bytes; each is shown to be enough.
  \<^item> \<open>Tcp_Stream\<close>: the two buffers at the ends of a connection over a network that
    loses, repeats and reorders (\<open>conn_step\<close>): what is read is a prefix of what is written, and
    without selective acknowledgements delivery can always be completed.
  \<^item> \<open>Client\<close> and \<open>Client_Connection\<close>: the clients of the earlier design
    (\<^verbatim>\<open>cybertwin-client.cc\<close>) and their helper (\<^verbatim>\<open>helper/cybertwin-helper.cc\<close>).
    The bytes a bulk client has to send are the reference \<open>bulk_stream\<close>; the invariant
    \<open>bulk_inv\<close> says that what was taken and what is cached are whole packets of it.  The
    connection client's handlers are followed from the first connection to the moment the
    other clients of the node start to send.
  \<^item> This theory: downloads, in which cybertwins and the name resolution service work together.

  \<^bold>\<open>How the code is represented.\<close>  A class is a record with the source's members, a method
  is a function from the state to a fault or the new state and a list of actions.  An action is
  what leaves the component: a packet given to a socket, a callback, an event given to the
  scheduler.  Faults are the ways the program stops: a failed assertion, a fatal error, an
  exception of the standard library, a null or dangling pointer.  Integers have the width they
  have in the source, so that counters wrap.  Packets are byte lists; logging and tracing are
  left out.

  \<^bold>\<open>Parameters.\<close>  What the component cannot see is an argument: the contents of allocated
  but unwritten memory (\<open>fill\<close>, \<open>raw\<close>, \<open>garbage\<close>), the files a producer
  reads, \<^verbatim>\<open>std::hash\<close>, random draws (a list, whose end is the value \<open>None\<close> or
  \<open>Unfinished\<close>), and what the sockets answer.  Hypotheses on them are stated in the
  theorems, with a witness that meets them.

  \<^bold>\<open>Loops.\<close>  The loops over socket buffers, transmit and
  receive queues and lists recurse on them.  Four loops may not end in the source: the round
  robin search, a partial function whose undefined value becomes
  \<open>Unfinished\<close> (shown to return within one round when some path is connected),
  the drawing of random identifiers, which consumes the given draws, the sending loop of the bulk
  client, a partial function that has no value on a socket that takes everything (shown to return
  when there is a limit or the socket's buffer is bounded), and the event loop, a partial
  function with the value \<open>None\<close> for a simulation that runs for ever (shown to return when the
  program draws its event identifiers from a finite supply).

  \<^bold>\<open>Time and rates.\<close>  Simulation time is an integer number of nanoseconds.  Throughputs,
  which the code computes in floating point, are compared as exact quotients, with the result of
  the comparison on infinities and not-a-number written out.

  \<^bold>\<open>Not modelled.\<close>  The YAML parser (the configuration is given as records), positions and
  channel models, and the addresses that the LTE core takes for itself (a parameter).
  \<^verbatim>\<open>cybertwin-edge.cc\<close> is not compiled.  Of the ns-3 platform the byte layer, the
  addresses, the schedulers, the event loop, the buffers of a TCP socket and the call that puts data
  into it are modelled; the rest of TCP (connection set-up, congestion control, timers), IPv4 forwarding and devices appear through actions and parameters
  only.
\<close>

section \<open>Downloads through cybertwins and the name resolution service\<close>

definition download_request :: "CYBERTWINID_t \<Rightarrow> packet \<Rightarrow> packet option" where
  "download_request targetID p =
     (let h = EndHostHeader_new\<lparr>eh_command := DOWNLOAD_REQUEST, eh_targetID := targetID\<rparr>
      in AddHeader (replicate (EndHostHeader_GetSerializedSize h) 0) (EndHostHeader_Serialize h) p)"

lemma download_request_received:
  "\<exists>request. download_request targetID p = Some request \<and>
     LocalRecvCallback sock [request] ct =
       Inr (ct, [CT_Schedule 0 (EvStartCybertwinDownload sock targetID)])"
proof -
  let ?h = "EndHostHeader_new\<lparr>eh_command := DOWNLOAD_REQUEST, eh_targetID := targetID\<rparr>"
  obtain q where "AddHeader (replicate (EndHostHeader_GetSerializedSize ?h) 0)
      (EndHostHeader_Serialize ?h) p = Some q"
    and "RemoveHeader (EndHostHeader_Deserialize EndHostHeader_new) q = Some (?h, p)"
    by (rule endh.header_round_trip [where h = ?h and p = p and
          fill = "replicate (EndHostHeader_GetSerializedSize ?h) 0"]) simp_all
  then show ?thesis
    by (simp add: download_request_def)
qed

lemma relay_all:
  "ct_cloud2endSockMap ct sock = Some endSock \<Longrightarrow>
     DownloadSocketRecvCallback sock packets ct = Inr (ct, map (CT_Send endSock) packets)"
  by (induction packets) simp_all

text \<open>
  C19: A download between two cybertwins of an edge server, end to end.  When the target
  cybertwin starts, it asks for its interfaces to be registered; once the name resolution
  service has registered them, a download request that an end host sends to its own cybertwin
  is resolved at once to equal interfaces, the cybertwin connects to the first of them, and
  every packet that then arrives on this connection is passed on, in order, to the end host that
  asked.
\<close>

theorem download_reaches_target:
  assumes "ct_cnrs ct" and "ct_globalInterfaces target \<noteq> []"
    and "InsertCybertwinInterfaceName (ct_cybertwinId target) (ct_globalInterfaces target) nrs =
      (ret, nrs', nrsActs)"
  shows "\<exists>target' start request got ct1.
    Cybertwin_StartApplication True target = Inr (target', start) \<and>
    CT_Insert (ct_cybertwinId target) (ct_globalInterfaces target) \<in> set start \<and>
    download_request (ct_cybertwinId target) p = Some request \<and>
    LocalRecvCallback sock [request] ct =
      Inr (ct, [CT_Schedule 0 (EvStartCybertwinDownload sock (ct_cybertwinId target))]) \<and>
    StartCybertwinDownloadProcess sock (ct_cybertwinId target) ct =
      Inr (ct, [CT_Resolve (ct_cybertwinId target) (OnStartDownloadProcess sock)]) \<and>
    GetCybertwinInterfaceByName env draws (ct_cybertwinId target) cb nrs' =
      Inr (nrs', [NRS_Callback cb (ct_cybertwinId target) got]) \<and>
    interfaces_eq got (ct_globalInterfaces target) \<and>
    StartDownloadProcess fresh sock (ct_cybertwinId target) got ct =
      Inr (ct1, [CT_Connect fresh (hd got), CT_SetRecvCallback fresh RecvDownload]) \<and>
    DownloadSocketRecvCallback fresh packets ct1 = Inr (ct1, map (CT_Send sock) packets)"
proof -
  have nrs': "nrs' = nrs_insert (ct_cybertwinId target) (ct_globalInterfaces target) nrs"
    using assms(3) by simp
  obtain got where got: "nrs_itemCache nrs' (ct_cybertwinId target) = Some got"
    "interfaces_eq got (ct_globalInterfaces target)"
    using names.lookup_insert nrs' by blast
  then have "got \<noteq> []"
    using assms(2) interfaces_eq_length by fastforce
  then obtain i rest where i: "got = i # rest"
    by (cases got) auto
  obtain ct1 where "StartDownloadProcess fresh sock (ct_cybertwinId target) got ct =
      Inr (ct1, [CT_Connect fresh (hd got), CT_SetRecvCallback fresh RecvDownload])"
    "ct_cloud2endSockMap ct1 fresh = Some sock"
    by (auto simp: StartDownloadProcess_def i)
  moreover obtain request where "download_request (ct_cybertwinId target) p = Some request"
    "LocalRecvCallback sock [request] ct =
       Inr (ct, [CT_Schedule 0 (EvStartCybertwinDownload sock (ct_cybertwinId target))])"
    using download_request_received by blast
  ultimately show ?thesis
    using assms(1) got relay_all
    by (simp add: Cybertwin_StartApplication_def StartCybertwinDownloadProcess_def
        GetCybertwinInterfaceByName_def del: LocalRecvCallback.simps)
qed

theorem download_reaches_target_witness:
  "\<exists>request ct1. download_request 1 (Create_Packet 0) = Some request \<and>
     StartDownloadProcess 9 4 1 [(Ipv4Address_of 2, 50000)] example_cybertwin =
       Inr (ct1, [CT_Connect 9 (Ipv4Address_of 2, 50000), CT_SetRecvCallback 9 RecvDownload]) \<and>
     DownloadSocketRecvCallback 9 [Create_Packet 3] ct1 = Inr (ct1, [CT_Send 4 (Create_Packet 3)])"
  using download_reaches_target [of example_cybertwin example_cybertwin
      "NameResolutionService_new False" 0
      "(NameResolutionService_new False)\<lparr>nrs_itemCache := [1 \<mapsto> [(Ipv4Address_of 2, 50000)]]\<rparr>"
      "[NRS_ScheduleReport 1 [(Ipv4Address_of 2, 50000)]]" "Create_Packet 0" 4 example_env "[]"
      "AppCallback 0" 9 "[Create_Packet 3]"]
  by (auto simp: example_cybertwin_def Insert_cases NameResolutionService_new_def
      GetCybertwinInterfaceByName_def)

text \<open>
  A download of a name that cannot be resolved stops the program.  At a node without a
  superior the name resolution service answers an unknown name with an empty list, and the
  cybertwin reads the first element of that list without testing it.
\<close>

theorem unresolved_download_stops:
  assumes "nrs_itemCache nrs targetID = None" and "\<not> m_initialized (nrs_superior nrs)"
    and "GetQueryID draws nrs = Some qId"
  shows "\<exists>nrs'. GetCybertwinInterfaceByName env draws targetID cb nrs =
      Inr (nrs', [NRS_Callback cb targetID []]) \<and>
    StartDownloadProcess fresh sock targetID [] ct = Inl OutOfRange"
  using assms by (simp add: GetCybertwinInterfaceByName_def QuerySuperior_def QuerySuperiorFail_def
      StartDownloadProcess_def)

theorem unresolved_download_stops_witness:
  "\<exists>nrs'. GetCybertwinInterfaceByName example_env [5] 1
       (AppCallback 0) (NameResolutionService_new False) =
      Inr (nrs', [NRS_Callback (AppCallback 0) 1 []]) \<and>
    StartDownloadProcess 9 4 1 [] example_cybertwin = Inl OutOfRange"
  using unresolved_download_stops [of "NameResolutionService_new False" 1 "[5]" 5
      example_env "AppCallback 0" 9 4 example_cybertwin]
  by (simp add: NameResolutionService_new_def Ipv4Address_default_def)

end
